(* ===== verification/Prelude.thy ===== *)
theory Prelude
  imports Complex_Main "HOL-Library.Multiset" "HOL-Library.Sublist"
begin

text \<open>
  Shared vocabulary of the development: the exceptions the services raise, Python's
  \<open>datetime\<close> with its naive/aware distinction and its range check, decimal formatting as
  the f-strings use it, and the generic list and option lemmas the component theories share.

  \<^item> A Python \<open>float\<close> is a \<open>real\<close> (rounding is not modelled); the boundary that tests for
    NaN and infinities (ingestion's validation) has its own type of floats in its theory.
  \<^item> A Python \<open>str\<close> is a \<open>string\<close>.
  \<^item> A call that may raise returns \<open>exn + 'a\<close>, with \<open>Inl\<close> the exception.
\<close>

section \<open>Collections of simplification rules\<close>

named_theorems py_simps \<open>unfoldings of the Python primitives\<close>
named_theorems op_defs \<open>definitions of the services' operations\<close>
named_theorems frame \<open>fields an operation leaves unchanged\<close>

section \<open>Exceptions\<close>

text \<open>
  One constructor per exception class that a modelled function raises or lets through; the
  argument is the message where the code builds one.
\<close>

datatype exn =
    ErrPermanent string
  | AssertionError
  | KafkaPublishError string
  | KafkaException string
  | RuntimeError string
  | ValueError string
  | TypeError
  | OverflowError
  | KeyError string
  | IndexError
  | ZeroDivisionError
  | DataError
  | UniqueViolation string
  | ForeignKeyViolation string
  | OperationalError string
  | RedisError string
  | InfluxError string
  | MarshalError string
  | ValidationError string
  | CrossTenantError string
  | InvalidCredentialsError string
  | UserInactiveError string
  | TokenRevokedError string
  | PyJWTError string
  | APIError int string string "(string \<times> string) list"

definition is_permanent :: "exn \<Rightarrow> bool" where
  "is_permanent e = (case e of ErrPermanent _ \<Rightarrow> True | _ \<Rightarrow> False)"

lemma is_permanent_simps [simp]:
  "is_permanent (ErrPermanent m)"
  "\<not> is_permanent (KafkaPublishError m)"
  "\<not> is_permanent (RuntimeError m)"
  "\<not> is_permanent (InfluxError m)"
  by (simp_all add: is_permanent_def)

text \<open>\<open>str(exc)\<close>: the message where the exception was built with one.\<close>

fun str_exn :: "exn \<Rightarrow> string" where
  "str_exn (ErrPermanent m) = m" | "str_exn (KafkaPublishError m) = m" | "str_exn (KafkaException m) = m"
| "str_exn (RuntimeError m) = m" | "str_exn (ValueError m) = m" | "str_exn (OperationalError m) = m"
| "str_exn (RedisError m) = m" | "str_exn (InfluxError m) = m" | "str_exn (MarshalError m) = m"
| "str_exn (ValidationError m) = m" | "str_exn (CrossTenantError m) = m" | "str_exn (InvalidCredentialsError m) = m"
| "str_exn (UserInactiveError m) = m" | "str_exn (TokenRevokedError m) = m" | "str_exn (PyJWTError m) = m"
| "str_exn (KeyError m) = m" | "str_exn (UniqueViolation m) = m" | "str_exn (ForeignKeyViolation m) = m"
| "str_exn _ = []"

section \<open>Results\<close>

abbreviation ok :: "exn + unit" where
  "ok \<equiv> Inr ()"

definition raised :: "exn + 'a \<Rightarrow> bool" where
  "raised r = (case r of Inl _ \<Rightarrow> True | Inr _ \<Rightarrow> False)"

lemma raised_simps [simp]: "raised (Inl e)" "\<not> raised (Inr v)"
  by (simp_all add: raised_def)

lemma raised_iff: "raised r \<longleftrightarrow> (\<exists>e. r = Inl e)"
  by (cases r) auto

lemma ok_iff: "r = ok \<longleftrightarrow> \<not> raised r"
  by (cases r) auto

section \<open>Datetimes\<close>

text \<open>
  A \<open>datetime\<close> is a number of microseconds since \<open>datetime.min\<close>, naive or timezone-aware
  (aware values are read in UTC). Comparing or subtracting a naive and an aware value raises
  \<open>TypeError\<close>; arithmetic that leaves the years 1 to 9999 raises \<open>OverflowError\<close>. \<open>NoTime\<close> is the
  value \<open>None\<close> where the code expects a datetime: comparing it or calculating with it raises
  \<open>TypeError\<close> as well.
\<close>

datatype datetime = Naive (micros: int) | Aware (micros: int) | NoTime

definition time_of :: "datetime option \<Rightarrow> datetime" where
  "time_of t = (case t of None \<Rightarrow> NoTime | Some d \<Rightarrow> d)"

definition is_aware :: "datetime \<Rightarrow> bool" where
  "is_aware d = (case d of Aware _ \<Rightarrow> True | _ \<Rightarrow> False)"

lemma is_aware_simps [simp]: "is_aware (Aware m)" "\<not> is_aware (Naive m)" "\<not> is_aware NoTime"
  by (simp_all add: is_aware_def)

lemma is_awareE [elim]:
  assumes "is_aware d"
  obtains m where "d = Aware m"
  using assms by (cases d) auto

definition dt_max :: int where
  "dt_max = 315537897599999999"

definition in_range :: "int \<Rightarrow> bool" where
  "in_range m = (0 \<le> m \<and> m \<le> dt_max)"

fun dt_less :: "datetime \<Rightarrow> datetime \<Rightarrow> exn + bool" where
  "dt_less (Aware a) (Aware b) = Inr (a < b)"
| "dt_less (Naive a) (Naive b) = Inr (a < b)"
| "dt_less _ _ = Inl TypeError"

fun dt_sub :: "datetime \<Rightarrow> int \<Rightarrow> exn + datetime" where
  "dt_sub (Aware a) d = (if in_range (a - d) then Inr (Aware (a - d)) else Inl OverflowError)"
| "dt_sub (Naive a) d = (if in_range (a - d) then Inr (Naive (a - d)) else Inl OverflowError)"
| "dt_sub NoTime d = Inl TypeError"

fun dt_diff :: "datetime \<Rightarrow> datetime \<Rightarrow> exn + int" where
  "dt_diff (Aware a) (Aware b) = Inr (a - b)"
| "dt_diff (Naive a) (Naive b) = Inr (a - b)"
| "dt_diff _ _ = Inl TypeError"

text \<open>\<open>timedelta(seconds=n)\<close> in microseconds, for a whole number of seconds.\<close>

definition seconds :: "int \<Rightarrow> int" where
  "seconds n = n * 1000000"

lemma seconds_mono [simp]: "seconds a \<le> seconds b \<longleftrightarrow> a \<le> b"
  by (simp add: seconds_def)

lemma seconds_nonneg [simp]: "0 \<le> seconds n \<longleftrightarrow> 0 \<le> n"
  by (simp add: seconds_def)

text \<open>\<open>utc_now()\<close> at a clock reading given in seconds.\<close>

definition utc_at :: "real \<Rightarrow> datetime" where
  "utc_at t = Aware \<lfloor>t * 1000000\<rfloor>"

lemma is_aware_utc_at [simp]: "is_aware (utc_at t)"
  by (simp add: utc_at_def)

section \<open>Decimal text\<close>

definition digit_char :: "nat \<Rightarrow> char" where
  "digit_char n = char_of (48 + n)"

fun str_nat :: "nat \<Rightarrow> string" where
  "str_nat n = (if n < 10 then [digit_char n] else str_nat (n div 10) @ [digit_char (n mod 10)])"

declare str_nat.simps [simp del]

definition str_int :: "int \<Rightarrow> string" where
  "str_int i = (if i < 0 then ''-'' @ str_nat (nat (- i)) else str_nat (nat i))"

text \<open>Rounding to the nearest integer, ties to the even one, as Python's formatting does.\<close>

definition round_half_even :: "real \<Rightarrow> int" where
  "round_half_even x =
     (let f = \<lfloor>x\<rfloor>; r = x - of_int f
      in if r < 1 / 2 then f else if r > 1 / 2 then f + 1 else if even f then f else f + 1)"

text \<open>\<open>timedelta(seconds=x)\<close> for a float, in microseconds.\<close>

definition timedelta :: "real \<Rightarrow> int" where
  "timedelta x = round_half_even (x * 1000000)"

lemma round_half_even_of_int [simp]: "round_half_even (of_int i) = i"
  by (simp add: round_half_even_def)

lemma timedelta_of_int [simp]: "timedelta (of_int i) = seconds i"
proof -
  have "(of_int i * 1000000 :: real) = of_int (i * 1000000)"
    by simp
  then show ?thesis
    unfolding timedelta_def seconds_def by (metis round_half_even_of_int)
qed

text \<open>\<open>int(x)\<close> for a float.\<close>

definition py_trunc :: "real \<Rightarrow> int" where
  "py_trunc x = (if x < 0 then \<lceil>x\<rceil> else \<lfloor>x\<rfloor>)"

definition pad_zeros :: "nat \<Rightarrow> string \<Rightarrow> string" where
  "pad_zeros k s = replicate (k - length s) (CHR ''0'') @ s"

text \<open>The format specification \<open>.df\<close>.\<close>

definition format_fixed :: "nat \<Rightarrow> real \<Rightarrow> string" where
  "format_fixed d v =
     (let n = nat (round_half_even (\<bar>v\<bar> * 10 ^ d))
      in (if v < 0 then ''-'' else []) @ str_nat (n div 10 ^ d) @ ''.'' @ pad_zeros d (str_nat (n mod 10 ^ d)))"

section \<open>Composite keys\<close>

text \<open>Several services key a dictionary by two identifiers joined with a vertical bar.\<close>

definition bar_key :: "string \<Rightarrow> string \<Rightarrow> string" where
  "bar_key a b = a @ ''|'' @ b"

lemma append_sep_inj:
  assumes "c \<notin> set a" and "c \<notin> set a'" and "a @ c # b = a' @ c # b'"
  shows "a = a' \<and> b = b'"
  using assms
proof (induction a arbitrary: a')
  case Nil
  then show ?case by (cases a') auto
next
  case (Cons x a)
  then show ?case by (cases a') auto
qed

lemma bar_key_inj:
  assumes "CHR ''|'' \<notin> set a" and "CHR ''|'' \<notin> set a'" and "bar_key a b = bar_key a' b'"
  shows "a = a'" and "b = b'"
  using append_sep_inj [of "CHR ''|''" a a' b b'] assms by (auto simp: bar_key_def)

section \<open>Lists\<close>

lemma dropWhile_eq_filter_sorted:
  fixes f :: "'a \<Rightarrow> 'b::linorder"
  assumes "sorted (map f xs)"
  shows "dropWhile (\<lambda>x. f x < c) xs = filter (\<lambda>x. c \<le> f x) xs"
  using assms
proof (induction xs)
  case (Cons x xs)
  show ?case
  proof (cases "f x < c")
    case True
    with Cons show ?thesis by simp
  next
    case False
    with Cons.prems have "\<forall>y\<in>set (x # xs). c \<le> f y"
      by (auto intro: order_trans)
    then have "filter (\<lambda>x. c \<le> f x) (x # xs) = x # xs"
      by (simp add: filter_id_conv)
    with False show ?thesis by simp
  qed
qed simp

lemma sorted_map_filter [intro]: "sorted (map f xs) \<Longrightarrow> sorted (map f (filter P xs))"
  by (rule sorted_filter)

lemma filter_mset_filter_mset:
  "filter_mset P (filter_mset Q M) = filter_mset (\<lambda>x. P x \<and> Q x) M"
  by (induction M) auto

lemma find_SomeD: "find P xs = Some x \<Longrightarrow> x \<in> set xs \<and> P x"
  by (induction xs) (auto split: if_splits)

end
