(* ===== verification/Sim_Sensors.thy ===== *)
theory Sim_Sensors
  imports Config
begin

text \<open>
  The random parts of the simulator: \<open>sensorgen.py\<close>, \<open>faults.py\<close> and \<open>machine.py\<close>. A \<open>random.Random\<close> is two
  sequences, of its uniform and of its Gaussian draws, with how many of each were taken; uniform draws lie in
  [0, 1), which is all that is assumed of them.
\<close>

section \<open>Random numbers\<close>

record dice =
  dc_uniform :: "nat \<Rightarrow> real"
  dc_gauss :: "nat \<Rightarrow> real"
  dc_pos :: nat
  dc_gauss_pos :: nat

definition rng_random :: "dice \<Rightarrow> real \<times> dice" where
  "rng_random r = (dc_uniform r (dc_pos r), r\<lparr>dc_pos := Suc (dc_pos r)\<rparr>)"

definition rng_gauss :: "dice \<Rightarrow> real \<times> dice" where
  "rng_gauss r = (dc_gauss r (dc_gauss_pos r), r\<lparr>dc_gauss_pos := Suc (dc_gauss_pos r)\<rparr>)"

definition fair :: "dice \<Rightarrow> bool" where
  "fair r \<longleftrightarrow> (\<forall>n. 0 \<le> dc_uniform r n \<and> dc_uniform r n < 1)"

lemma fair_random: "fair r \<Longrightarrow> rng_random r = (x, r') \<Longrightarrow> 0 \<le> x \<and> x < 1 \<and> fair r'"
  by (auto simp: fair_def rng_random_def)

lemma fair_gauss: "fair r \<Longrightarrow> rng_gauss r = (x, r') \<Longrightarrow> fair r'"
  by (auto simp: fair_def rng_gauss_def)

section \<open>Readings\<close>

definition DRIFT_MAX_STEP :: real where "DRIFT_MAX_STEP = 1 / 100"
definition REVERSION_PULL :: real where "REVERSION_PULL = 1 / 20"
definition NOISE_FRACTION :: real where "NOISE_FRACTION = 1 / 100"
definition SPIKE_MIN_FRAC :: real where "SPIKE_MIN_FRAC = 3 / 10"
definition SPIKE_MAX_FRAC :: real where "SPIKE_MAX_FRAC = 9 / 10"

lemmas generator_constants = DRIFT_MAX_STEP_def REVERSION_PULL_def NOISE_FRACTION_def SPIKE_MIN_FRAC_def SPIKE_MAX_FRAC_def

definition py_clamp :: "real \<Rightarrow> real \<Rightarrow> real \<Rightarrow> real" where
  "py_clamp v lo hi = (if v < lo then lo else if v > hi then hi else v)"

record sensor_generator =
  sg_min :: real
  sg_max :: real
  sg_mid :: real
  sg_baseline :: real
  sg_drift_step :: real
  sg_anomaly_rate :: real

definition new_generator :: "real \<Rightarrow> real \<Rightarrow> real \<Rightarrow> sensor_generator" where
  "new_generator lo hi anomaly_rate =
     \<lparr>sg_min = lo, sg_max = hi, sg_mid = (lo + hi) / 2, sg_baseline = (lo + hi) / 2, sg_drift_step = 0,
      sg_anomaly_rate = anomaly_rate\<rparr>"

text \<open>The first half of \<open>next\<close>: the baseline moves, driven by one uniform draw.\<close>

definition drift :: "real \<Rightarrow> sensor_generator \<Rightarrow> sensor_generator" where
  "drift u g =
     (let range_span = sg_max g - sg_min g;
          drift_step = sg_drift_step g + (u * 2 - 1) * DRIFT_MAX_STEP * range_span;
          pull = (sg_mid g - sg_baseline g) * REVERSION_PULL;
          baseline = sg_baseline g + (drift_step * (1 / 10) + pull)
      in g\<lparr>sg_drift_step := drift_step, sg_baseline := py_clamp baseline (sg_min g) (sg_max g)\<rparr>)"

definition next_reading :: "sensor_generator \<Rightarrow> dice \<Rightarrow> (real \<times> bool) \<times> sensor_generator \<times> dice" where
  "next_reading g r =
     (let range_span = sg_max g - sg_min g;
          (u, r) = rng_random r;
          g = drift u g;
          (z, r) = rng_gauss r;
          noise = z * NOISE_FRACTION * range_span;
          v = sg_baseline g + noise;
          (a, r) = rng_random r
      in if a < sg_anomaly_rate g
         then let (m, r) = rng_random r;
                  magnitude = (SPIKE_MIN_FRAC + m * (SPIKE_MAX_FRAC - SPIKE_MIN_FRAC)) * range_span;
                  (s, r) = rng_random r;
                  sign = (if s \<ge> 1 / 2 then 1 else - 1);
                  v = v + sign * magnitude
              in ((of_int (round_half_even (v * 100)) / 100, True), g, r)
         else ((of_int (round_half_even (v * 100)) / 100, False), g, r))"

section \<open>Faults\<close>

record fault_decision =
  fd_duplicate :: bool
  fd_out_of_order :: bool
  fd_delayed :: bool
  fd_delay_for :: real

definition decide_faults :: "dice \<Rightarrow> simulator_config \<Rightarrow> fault_decision \<times> dice" where
  "decide_faults r cfg =
     (let d = \<lparr>fd_duplicate = False, fd_out_of_order = False, fd_delayed = False, fd_delay_for = 0\<rparr>;
          (u, r) = rng_random r;
          d = (if u < sm_duplicate_rate cfg then d\<lparr>fd_duplicate := True\<rparr> else d);
          (u, r) = rng_random r;
          (d, r) = (if u < sm_network_delay_rate cfg
                    then let (j, r) = rng_random r in (d\<lparr>fd_delayed := True, fd_delay_for := 1 / 10 + j * (49 / 10)\<rparr>, r)
                    else (d, r));
          (u, r) = rng_random r;
          d = (if u < sm_out_of_order_rate cfg
               then let d = d\<lparr>fd_out_of_order := True\<rparr>
                    in if \<not> fd_delayed d then d\<lparr>fd_delayed := True, fd_delay_for := 1 / 2\<rparr> else d
               else d)
      in (d, r))"

definition sensor_should_fail :: "dice \<Rightarrow> bool \<Rightarrow> real \<Rightarrow> bool \<times> dice" where
  "sensor_should_fail r currently_failed failure_rate =
     (let (u, r) = rng_random r in (if currently_failed then u \<ge> 1 / 10 else u < failure_rate, r))"

section \<open>Machines\<close>

definition should_toggle :: "dice \<Rightarrow> bool \<Rightarrow> bool \<times> dice" where
  "should_toggle r running = (let (u, r) = rng_random r in (if running then u < 5 / 10000 else u < 5 / 100, r))"

section \<open>Waiting\<close>

text \<open>The seconds between two readings of a sensor: \<open>len(catalog) / max(messages_per_sec, 1)\<close>, and the wait drawn for one.\<close>

definition sensor_interval :: "simulator_config \<Rightarrow> nat \<Rightarrow> real" where
  "sensor_interval cfg n =
     (let interval = real n / real_of_int (max (sm_messages_per_sec cfg) 1) in if interval \<le> 0 then 1 / 100 else interval)"

definition jitter :: "real \<Rightarrow> dice \<Rightarrow> real \<times> dice" where
  "jitter base_interval r = (let (u, r) = rng_random r; frac = 8 / 10 + u * (4 / 10) in (base_interval * frac, r))"

section \<open>How far readings can lie\<close>

definition generator_ok :: "sensor_generator \<Rightarrow> bool" where
  "generator_ok g \<longleftrightarrow> sg_min g \<le> sg_baseline g \<and> sg_baseline g \<le> sg_max g"

lemma new_generator_ok: "lo \<le> hi \<Longrightarrow> generator_ok (new_generator lo hi a)"
  by (simp add: generator_ok_def new_generator_def)

lemma new_generator_range [simp]: "sg_min (new_generator lo hi a) = lo" "sg_max (new_generator lo hi a) = hi"
  by (simp_all add: new_generator_def)

lemma drift_frame [simp]: "sg_min (drift u g) = sg_min g" "sg_max (drift u g) = sg_max g" "sg_anomaly_rate (drift u g) = sg_anomaly_rate g"
  by (simp_all add: drift_def Let_def)

lemma drift_ok: "generator_ok g \<Longrightarrow> generator_ok (drift u g)"
  by (auto simp: generator_ok_def drift_def py_clamp_def Let_def)

lemma round_half_even_near: "\<bar>of_int (round_half_even x) - x\<bar> \<le> 1 / 2"
proof -
  have "of_int \<lfloor>x\<rfloor> \<le> x" "x < of_int \<lfloor>x\<rfloor> + 1"
    by linarith+
  then show ?thesis
    by (auto simp: round_half_even_def Let_def abs_le_iff)
qed

text \<open>Rounding to two decimals moves a number by at most half a hundredth.\<close>

lemma rounded_near: "\<bar>of_int (round_half_even (v * 100)) / 100 - v\<bar> \<le> 1 / 200"
  using round_half_even_near [of "v * 100"] by (simp add: abs_le_iff field_simps)

text \<open>A reading in terms of its draws.\<close>

lemma next_reading_draws:
  fixes g :: sensor_generator and r :: dice
  defines "p \<equiv> dc_pos r" and "width \<equiv> sg_max g - sg_min g" and "g1 \<equiv> drift (dc_uniform r (dc_pos r)) g"
  defines "calm \<equiv> sg_baseline g1 + dc_gauss r (dc_gauss_pos r) * NOISE_FRACTION * width"
    and "jump \<equiv> (if dc_uniform r (Suc (Suc (Suc p))) \<ge> 1 / 2 then 1 else - 1) *
      ((SPIKE_MIN_FRAC + dc_uniform r (Suc (Suc p)) * (SPIKE_MAX_FRAC - SPIKE_MIN_FRAC)) * width)"
  shows "fst (next_reading g r) =
      (if dc_uniform r (Suc p) < sg_anomaly_rate g then (of_int (round_half_even ((calm + jump) * 100)) / 100, True)
       else (of_int (round_half_even (calm * 100)) / 100, False))"
    and "fst (snd (next_reading g r)) = g1"
    and "dc_uniform (snd (snd (next_reading g r))) = dc_uniform r" and "dc_gauss (snd (snd (next_reading g r))) = dc_gauss r"
  by (simp_all add: next_reading_def rng_random_def rng_gauss_def Let_def assms)

text \<open>
  One reading: without a spike it is the baseline up to noise and rounding; a spike moves it by between three
  and nine tenths of the range, to either side.
\<close>

lemma jump_size:
  fixes m w :: real
  assumes "0 \<le> m" "m < 1" "0 \<le> w"
  shows "3 / 10 * w \<le> \<bar>(if b then 1 else - 1) * ((SPIKE_MIN_FRAC + m * (SPIKE_MAX_FRAC - SPIKE_MIN_FRAC)) * w)\<bar> \<and>
    \<bar>(if b then 1 else - 1) * ((SPIKE_MIN_FRAC + m * (SPIKE_MAX_FRAC - SPIKE_MIN_FRAC)) * w)\<bar> \<le> 9 / 10 * w"
proof -
  let ?f = "SPIKE_MIN_FRAC + m * (SPIKE_MAX_FRAC - SPIKE_MIN_FRAC)"
  have f: "3 / 10 \<le> ?f" "?f \<le> 9 / 10"
    using assms(1,2) by (simp_all add: generator_constants)
  then have "3 / 10 * w \<le> ?f * w" "?f * w \<le> 9 / 10 * w"
    using assms(3) by (intro mult_right_mono; simp)+
  moreover have "\<bar>(if b then 1 else - 1) * (?f * w)\<bar> = ?f * w"
    using f(1) assms(3) by (simp add: abs_mult)
  ultimately show ?thesis
    by simp
qed

lemma next_reading_bounds:
  assumes "fair r" and "generator_ok g" and "\<And>n. \<bar>dc_gauss r n\<bar> \<le> z" and "next_reading g r = ((v, spike), g', r')"
  defines "width \<equiv> sg_max g - sg_min g"
  shows "generator_ok g'" and "sg_min g' = sg_min g" "sg_max g' = sg_max g" "sg_anomaly_rate g' = sg_anomaly_rate g"
    and "fair r'" and "dc_gauss r' = dc_gauss r"
    and "\<not> spike \<Longrightarrow> \<bar>v - sg_baseline g'\<bar> \<le> z * width / 100 + 1 / 200"
    and "spike \<Longrightarrow> 3 / 10 * width - (z * width / 100 + 1 / 200) \<le> \<bar>v - sg_baseline g'\<bar>"
    and "spike \<Longrightarrow> \<bar>v - sg_baseline g'\<bar> \<le> 9 / 10 * width + (z * width / 100 + 1 / 200)"
proof -
  note draws = next_reading_draws [of g r, unfolded assms(4) fst_conv snd_conv]
  show "generator_ok g'" "sg_min g' = sg_min g" "sg_max g' = sg_max g" "sg_anomaly_rate g' = sg_anomaly_rate g"
    using draws(2) drift_ok [OF assms(2)] by simp_all
  show "fair r'" "dc_gauss r' = dc_gauss r"
    using draws(3,4) assms(1) by (simp_all add: fair_def)
  have width: "0 \<le> width"
    using assms(2) by (simp add: generator_ok_def width_def)
  let ?noise = "dc_gauss r (dc_gauss_pos r) * NOISE_FRACTION * width"
  have "\<bar>?noise\<bar> = \<bar>dc_gauss r (dc_gauss_pos r)\<bar> * width / 100"
    using width by (simp add: abs_mult NOISE_FRACTION_def)
  also have "\<dots> \<le> z * width / 100"
    using assms(3) width by (simp add: mult_right_mono)
  finally have noise: "\<bar>?noise\<bar> \<le> z * width / 100" .
  let ?p = "dc_pos r"
  let ?jump = "(if dc_uniform r (Suc (Suc (Suc ?p))) \<ge> 1 / 2 then 1 else - 1) *
      ((SPIKE_MIN_FRAC + dc_uniform r (Suc (Suc ?p)) * (SPIKE_MAX_FRAC - SPIKE_MIN_FRAC)) * width)"
  have jump: "3 / 10 * width \<le> \<bar>?jump\<bar>" "\<bar>?jump\<bar> \<le> 9 / 10 * width"
    using jump_size [of "dc_uniform r (Suc (Suc ?p))" width] assms(1) width by (simp_all add: fair_def)
  {
    assume "\<not> spike"
    then have "v = of_int (round_half_even ((sg_baseline g' + ?noise) * 100)) / 100"
      using draws(1,2) unfolding width_def by (auto split: if_splits)
    then have "\<bar>v - (sg_baseline g' + ?noise)\<bar> \<le> 1 / 200"
      by (simp only: rounded_near)
    then show "\<bar>v - sg_baseline g'\<bar> \<le> z * width / 100 + 1 / 200"
      using noise by linarith
  }
  assume spike
  then have "v = of_int (round_half_even ((sg_baseline g' + ?noise + ?jump) * 100)) / 100"
    using draws(1,2) unfolding width_def by (auto split: if_splits)
  then have "\<bar>v - (sg_baseline g' + ?noise + ?jump)\<bar> \<le> 1 / 200"
    by (simp only: rounded_near)
  then show "3 / 10 * width - (z * width / 100 + 1 / 200) \<le> \<bar>v - sg_baseline g'\<bar>"
    and "\<bar>v - sg_baseline g'\<bar> \<le> 9 / 10 * width + (z * width / 100 + 1 / 200)"
    using noise jump by linarith+
qed

text \<open>Readings one after the other.\<close>

fun readings :: "nat \<Rightarrow> sensor_generator \<Rightarrow> dice \<Rightarrow> (real \<times> bool) list" where
  "readings 0 g r = []"
| "readings (Suc n) g r = (case next_reading g r of (x, g', r') \<Rightarrow> x # readings n g' r')"

text \<open>
  Within the range, up to a slack of a hundredth of its width per unit of the largest Gaussian draw \<open>z\<close> and half a
  hundredth for rounding; with a spike, nine tenths of the width further out.
\<close>

definition near_range :: "real \<Rightarrow> real \<Rightarrow> real \<Rightarrow> real \<times> bool \<Rightarrow> bool" where
  "near_range z lo hi = (\<lambda>(v, spike).
     let width = hi - lo; slack = z * width / 100 + 1 / 200; reach = (if spike then 9 / 10 * width + slack else slack)
     in lo - reach \<le> v \<and> v \<le> hi + reach)"

lemma readings_bounds:
  assumes "fair r" and "generator_ok g" and "\<And>n. \<bar>dc_gauss r n\<bar> \<le> z"
  shows "list_all (near_range z (sg_min g) (sg_max g)) (readings n g r)"
  using assms
proof (induction n arbitrary: g r)
  case (Suc n)
  obtain v spike g' r' where step: "next_reading g r = ((v, spike), g', r')"
    by (cases "next_reading g r") auto
  note b = next_reading_bounds [OF Suc.prems step]
  have "list_all (near_range z (sg_min g) (sg_max g)) (readings n g' r')"
    using Suc.IH [of r' g'] Suc.prems(3) b(1-6) by simp
  moreover have "sg_min g \<le> sg_baseline g'" "sg_baseline g' \<le> sg_max g"
    using b(1-3) by (simp_all add: generator_ok_def)
  then have "near_range z (sg_min g) (sg_max g) (v, spike)"
    using b(7,9) unfolding near_range_def Let_def by (cases spike) (auto simp: abs_le_iff)
  ultimately show ?case
    by (simp add: step)
qed simp

text \<open>
  Readings stay near the operating range: over any number of readings, with any draws, one without a spike leaves it by
  at most a hundredth of its width per unit of the largest Gaussian draw, plus half a hundredth for rounding; a
  spike adds at most nine tenths of the width.
\<close>
theorem readings_stay_near_range:
  assumes "fair r" and "lo \<le> hi" and "\<And>n. \<bar>dc_gauss r n\<bar> \<le> z"
  shows "list_all (near_range z lo hi) (readings n (new_generator lo hi a) r)"
  using readings_bounds [OF assms(1) new_generator_ok [OF assms(2), of a] assms(3), where n = n] by simp

theorem readings_stay_near_range_witness:
  "list_all (near_range 1 0 100)
     (readings 5 (new_generator 0 100 (1 / 50)) \<lparr>dc_uniform = (\<lambda>n. 0), dc_gauss = (\<lambda>n. 1), dc_pos = 0, dc_gauss_pos = 0\<rparr>)"
  by (rule readings_stay_near_range) (simp_all add: fair_def)

section \<open>What the constants promise\<close>

text \<open>
  The comment on \<open>DRIFT_MAX_STEP\<close> calls it the fraction of the range the baseline may move in one tick. It bounds a change
  of the step instead, and nothing bounds the step itself: with draws near one it grows with every tick.
\<close>

definition drifts :: "nat \<Rightarrow> real \<Rightarrow> sensor_generator \<Rightarrow> sensor_generator" where
  "drifts n u g = (drift u ^^ n) g"

lemma drift_step_grows: "sg_drift_step (drifts n u g) = sg_drift_step g + n * ((u * 2 - 1) * DRIFT_MAX_STEP * (sg_max g - sg_min g))"
proof -
  have "sg_drift_step ((drift u ^^ n) g) = sg_drift_step g + n * ((u * 2 - 1) * DRIFT_MAX_STEP * (sg_max g - sg_min g)) \<and>
      sg_max ((drift u ^^ n) g) = sg_max g \<and> sg_min ((drift u ^^ n) g) = sg_min g"
    by (induction n) (auto simp: drift_def Let_def algebra_simps)
  then show ?thesis
    by (simp add: drifts_def)
qed

lemma drift_outruns_max_step:
  "sg_baseline (drifts 20 (19 / 20) (new_generator 0 100 a)) - sg_baseline (drifts 19 (19 / 20) (new_generator 0 100 a)) >
     DRIFT_MAX_STEP * 100"
  by (simp add: drifts_def new_generator_def drift_def py_clamp_def generator_constants numeral_eq_Suc)

text \<open>
  A reading sent out of order on purpose is delayed by half a second, so that the next reading of its sensor may pass
  it; but the sensor waits at least eight tenths of its interval, so with an interval above 0.625 seconds, such as the one
  second of the default configuration, the delayed reading is always sent first and nothing is out of order.
\<close>
theorem forced_delay_keeps_order:
  assumes "fair r" and "decide_faults r cfg = (d, r')" and "fd_delay_for d = 1 / 2" and "5 / 8 < sensor_interval cfg n"
  shows "fd_delay_for d < fst (jitter (sensor_interval cfg n) r')"
proof -
  have "fair r'"
    using assms(1,2) by (auto simp: decide_faults_def rng_random_def fair_def Let_def split: if_splits)
  then have "0 \<le> dc_uniform r' (dc_pos r')"
    by (simp add: fair_def)
  then have "8 / 10 \<le> 8 / 10 + dc_uniform r' (dc_pos r') * (4 / 10)"
    by simp
  then have "sensor_interval cfg n * (8 / 10) \<le> fst (jitter (sensor_interval cfg n) r')"
    using assms(4) by (simp add: jitter_def rng_random_def Let_def)
  then show ?thesis
    using assms(3,4) by simp
qed

theorem forced_delay_keeps_order_witness:
  "let cfg = load_simulator_config (\<lambda>_. None);
       r = \<lparr>dc_uniform = (\<lambda>n. if n = 2 then 0 else 1 / 2), dc_gauss = (\<lambda>n. 0), dc_pos = 0, dc_gauss_pos = 0\<rparr>
   in fd_out_of_order (fst (decide_faults r cfg)) \<and>
      fd_delay_for (fst (decide_faults r cfg)) < fst (jitter (sensor_interval cfg 1000) (snd (decide_faults r cfg)))"
proof -
  let ?cfg = "load_simulator_config (\<lambda>_. None)"
  let ?r = "\<lparr>dc_uniform = (\<lambda>n. if n = 2 then 0 else 1 / 2), dc_gauss = (\<lambda>n. 0), dc_pos = 0, dc_gauss_pos = 0\<rparr>"
  obtain d r' where d: "decide_faults ?r ?cfg = (d, r')"
    by fastforce
  have cfg: "sm_messages_per_sec ?cfg = 1000" "sm_duplicate_rate ?cfg = 1 / 100" "sm_network_delay_rate ?cfg = 3 / 100"
    "sm_out_of_order_rate ?cfg = 1 / 50"
    by (simp_all add: load_simulator_config_def env_int_def env_float_def)
  have "fd_delay_for d = 1 / 2" "fd_out_of_order d"
    using d cfg by (auto simp: decide_faults_def rng_random_def Let_def numeral_2_eq_2)
  moreover have "5 / 8 < sensor_interval ?cfg 1000"
    using cfg by (simp add: sensor_interval_def)
  ultimately show ?thesis
    using forced_delay_keeps_order [OF _ d, of 1000] d by (simp add: fair_def Let_def)
qed

end
