(* ===== verification/Interfaces.thy ===== *)
theory Interfaces
  imports Prelude
begin

text \<open>
  The contracts the components promise one another, as locales. Each is interpreted on the
  model's own definitions in the theory of the component that provides it.

  \<^item> \<open>keyed_store\<close>: a dictionary of per-key states in which an update of one key runs that
    key's step function and leaves every other key alone (EWMA trackers, anomaly counters,
    the series registry).
  \<^item> \<open>claim_ledger\<close> and its extension \<open>durable_ledger\<close>: at-most-once claims of an event
    identifier (the Redis deduplicator, the \<open>idempotency_keys\<close> table).
  \<^item> \<open>commit_discipline\<close>: a message handler whose answer decides whether the offset is
    committed, and what a commit then guarantees about the message.
  \<^item> \<open>claiming_consumer\<close>: a handler that claims a message's identifier before it processes it.
\<close>

section \<open>Stores of independent per-key states\<close>

text \<open>A run of update requests, in order, and the requests of a run that concern one key.\<close>

definition run_updates :: "('q \<Rightarrow> 'st \<Rightarrow> 'r \<times> 'st) \<Rightarrow> 'q list \<Rightarrow> 'st \<Rightarrow> 'st" where
  "run_updates upd qs s = fold (\<lambda>q s. snd (upd q s)) qs s"

lemma run_updates_simps [simp]:
  "run_updates upd [] s = s"
  "run_updates upd (q # qs) s = run_updates upd qs (snd (upd q s))"
  by (simp_all add: run_updates_def)

definition updates_for :: "('q \<Rightarrow> 'k) \<Rightarrow> 'k \<Rightarrow> 'q list \<Rightarrow> 'q list" where
  "updates_for key k qs = filter (\<lambda>q. key q = k) qs"

lemma updates_for_simps [simp]:
  "updates_for key k [] = []"
  "updates_for key k (q # qs) = (if key q = k then q # updates_for key k qs else updates_for key k qs)"
  by (simp_all add: updates_for_def)

locale keyed_store =
  fixes lookup :: "'st \<Rightarrow> 'k \<Rightarrow> 'v"
    and upd :: "'q \<Rightarrow> 'st \<Rightarrow> 'r \<times> 'st"
    and key :: "'q \<Rightarrow> 'k"
    and step :: "'q \<Rightarrow> 'v \<Rightarrow> 'r \<times> 'v"
  assumes upd_result: "fst (upd q s) = fst (step q (lookup s (key q)))"
    and upd_same: "lookup (snd (upd q s)) (key q) = snd (step q (lookup s (key q)))"
    and upd_other: "k \<noteq> key q \<Longrightarrow> lookup (snd (upd q s)) k = lookup s k"
begin

text \<open>After any interleaving, a key's state is what its own updates made of it.\<close>

lemma run_lookup:
  "lookup (run_updates upd qs s) k = fold (\<lambda>q v. snd (step q v)) (updates_for key k qs) (lookup s k)"
proof (induction qs arbitrary: s)
  case (Cons q qs)
  then show ?case
    by (cases "key q = k") (auto simp: upd_same upd_other)
qed simp

text \<open>What an update answers depends on the history of its own key only.\<close>

lemma result_own_history:
  "fst (upd q (run_updates upd qs s)) =
   fst (step q (fold (\<lambda>q v. snd (step q v)) (updates_for key (key q) qs) (lookup s (key q))))"
  by (simp add: upd_result run_lookup)

end

section \<open>At-most-once claims\<close>

text \<open>
  A run of claims \<open>(time, key)\<close>: the keys whose claim was granted, in order, and the ledger
  afterwards.
\<close>

fun run_claims :: "(real \<Rightarrow> 'k \<Rightarrow> 's \<Rightarrow> bool \<times> 's) \<Rightarrow> (real \<times> 'k) list \<Rightarrow> 's \<Rightarrow> 'k list \<times> 's" where
  "run_claims claim [] s = ([], s)"
| "run_claims claim ((t, k) # xs) s =
     (let (granted, s') = claim t k s; (ks, s'') = run_claims claim xs s'
      in (if granted then k # ks else ks, s''))"

lemma granted_subset: "set (fst (run_claims claim xs s)) \<subseteq> snd ` set xs"
proof (induction xs arbitrary: s)
  case (Cons x xs)
  obtain t k where x: "x = (t, k)" by (cases x)
  obtain g s' where c: "claim t k s = (g, s')" by fastforce
  have "set (fst (run_claims claim xs s')) \<subseteq> snd ` set xs"
    by (rule Cons.IH)
  then show ?case
    by (auto simp: x c split: prod.splits if_splits)
qed simp

locale claim_ledger =
  fixes claim :: "real \<Rightarrow> 'k \<Rightarrow> 's \<Rightarrow> bool \<times> 's"
    and live :: "real \<Rightarrow> 's \<Rightarrow> 'k \<Rightarrow> bool"
  assumes claim_granted: "fst (claim t k s) \<longleftrightarrow> \<not> live t s k"
    and claim_live: "live t (snd (claim t k s)) k' \<longleftrightarrow> k' = k \<or> live t s k'"
begin

lemma second_claim_refused: "\<not> fst (claim t k (snd (claim t k s)))"
  by (simp add: claim_granted claim_live)

end

locale durable_ledger = claim_ledger +
  assumes live_forever: "t \<le> t' \<Longrightarrow> live t s k \<Longrightarrow> live t' s k"
    and live_claimed: "live t' (snd (claim t k s)) k' \<Longrightarrow> k' = k \<or> live t' s k'"
    and live_kept: "live t' s k' \<Longrightarrow> live t' (snd (claim t k s)) k'"
begin

lemma run_claims_live:
  "(\<And>x. x \<in> set xs \<Longrightarrow> fst x \<le> t') \<Longrightarrow>
   live t' (snd (run_claims claim xs s)) k \<longleftrightarrow> k \<in> snd ` set xs \<or> live t' s k"
proof (induction xs arbitrary: s)
  case (Cons x xs)
  obtain t i where x: "x = (t, i)" by (cases x)
  have "t \<le> t'"
    using Cons.prems [of x] x by simp
  then have "live t' (snd (claim t i s)) i"
    using claim_live live_forever by blast
  then have "live t' (snd (claim t i s)) k \<longleftrightarrow> k = i \<or> live t' s k"
    using live_claimed live_kept by blast
  moreover have "live t' (snd (run_claims claim xs (snd (claim t i s)))) k \<longleftrightarrow>
      k \<in> snd ` set xs \<or> live t' (snd (claim t i s)) k"
    using Cons.prems by (intro Cons.IH) simp
  ultimately show ?case
    by (auto simp: x split: prod.split)
qed simp

text \<open>Claims made at non-decreasing times grant every key at most once.\<close>

lemma granted_once:
  "sorted (map fst xs) \<Longrightarrow>
   distinct (fst (run_claims claim xs s)) \<and>
   (\<forall>k\<in>set (fst (run_claims claim xs s)). \<forall>t. (\<forall>x\<in>set xs. t \<le> fst x) \<longrightarrow> \<not> live t s k)"
proof (induction xs arbitrary: s)
  case (Cons x xs)
  obtain t i where x: "x = (t, i)" by (cases x)
  let ?s = "snd (claim t i s)"
  have IH: "distinct (fst (run_claims claim xs ?s))"
    and old: "\<And>k t'. k \<in> set (fst (run_claims claim xs ?s)) \<Longrightarrow> (\<forall>x\<in>set xs. t' \<le> fst x) \<Longrightarrow>
      \<not> live t' ?s k"
    using Cons by auto
  have le: "\<forall>y\<in>set xs. t \<le> fst y"
    using Cons.prems x by auto
  have "i \<notin> set (fst (run_claims claim xs ?s))"
    using old [OF _ le] claim_live by blast
  moreover have "\<not> live t' s k"
    if "k \<in> set (fst (run_claims claim xs ?s))" and "\<forall>y\<in>set xs. t' \<le> fst y" for k t'
    using old [OF that] live_kept by blast
  moreover have "\<not> live t' s i" if "fst (claim t i s)" and "t' \<le> t" for t'
    using that claim_granted live_forever by blast
  ultimately show ?case
    using IH by (auto simp: x split: prod.split)
qed simp

text \<open>And every key of the run that was not live before is granted.\<close>

lemma granted_complete:
  "(t, k) \<in> set xs \<Longrightarrow> (\<And>x. x \<in> set xs \<Longrightarrow> fst x \<le> t') \<Longrightarrow> \<not> live t' s k \<Longrightarrow>
   k \<in> set (fst (run_claims claim xs s))"
proof (induction xs arbitrary: s)
  case (Cons x xs)
  obtain u i where x: "x = (u, i)" by (cases x)
  show ?case
  proof (cases "i = k")
    case True
    have "u \<le> t'"
      using Cons.prems(2) [of x] x by simp
    with Cons.prems(3) have "\<not> live u s k"
      using live_forever by blast
    then have "fst (claim u k s)"
      by (simp add: claim_granted)
    with True show ?thesis
      by (auto simp: x split: prod.split)
  next
    case False
    have "\<not> live t' (snd (claim u i s)) k"
      using Cons.prems False live_claimed by blast
    then have "k \<in> set (fst (run_claims claim xs (snd (claim u i s))))"
      using Cons.prems False x by (intro Cons.IH) auto
    then show ?thesis
      by (auto simp: x split: prod.split)
  qed
qed simp

end

section \<open>Committing offsets\<close>

text \<open>
  The consumer loops poll, process, and commit when the handler says so. A poll brings an error,
  nothing, or a message; an exception that escapes the handler ends the loop. The result lists the
  messages whose offset the loop committed, in order, and those it left uncommitted.
\<close>

datatype 'm poll = Poll_error | Poll_none | Poll_msg 'm

record 'm loop_result =
  lr_committed :: "'m list"
  lr_held :: "'m list"
  lr_crashed :: "'m option"

fun consume_loop ::
  "('m \<Rightarrow> 'w \<Rightarrow> (exn + bool) \<times> 'w) \<Rightarrow> 'm poll list \<Rightarrow> 'w \<Rightarrow> 'm loop_result \<times> 'w" where
  "consume_loop process [] w = (\<lparr>lr_committed = [], lr_held = [], lr_crashed = None\<rparr>, w)"
| "consume_loop process (Poll_error # ps) w = consume_loop process ps w"
| "consume_loop process (Poll_none # ps) w = consume_loop process ps w"
| "consume_loop process (Poll_msg m # ps) w =
     (case process m w of
        (Inl e, w') \<Rightarrow> (\<lparr>lr_committed = [], lr_held = [], lr_crashed = Some m\<rparr>, w')
      | (Inr True, w') \<Rightarrow>
          (let (r, w'') = consume_loop process ps w' in (r\<lparr>lr_committed := m # lr_committed r\<rparr>, w''))
      | (Inr False, w') \<Rightarrow>
          (let (r, w'') = consume_loop process ps w' in (r\<lparr>lr_held := m # lr_held r\<rparr>, w'')))"

locale commit_discipline =
  fixes process :: "'m \<Rightarrow> 'w \<Rightarrow> (exn + bool) \<times> 'w"
    and handled :: "'m \<Rightarrow> 'w \<Rightarrow> bool"
    and invar :: "'w \<Rightarrow> bool"
  assumes commit_handled: "invar w \<Longrightarrow> process m w = (Inr True, w') \<Longrightarrow> handled m w'"
    and handled_stable: "invar w \<Longrightarrow> handled m w \<Longrightarrow> process m' w = (r, w') \<Longrightarrow> handled m w'"
    and process_invar: "invar w \<Longrightarrow> process m w = (r, w') \<Longrightarrow> invar w'"
begin

lemma loop_stable:
  "invar w \<Longrightarrow> handled m w \<Longrightarrow> handled m (snd (consume_loop process ps w))"
proof (induction ps arbitrary: w)
  case (Cons p ps)
  show ?case
  proof (cases p)
    case (Poll_msg m')
    obtain res w1 where p: "process m' w = (res, w1)" by fastforce
    have "invar w1" and "handled m w1"
      using Cons.prems p by (blast intro: process_invar handled_stable)+
    then show ?thesis
      using Cons.IH [of w1] p Poll_msg by (auto split: sum.split bool.split prod.split)
  qed (use Cons in simp_all)
qed simp

text \<open>Whatever the polls bring, every committed message is handled when the loop returns.\<close>

lemma loop_commits_handled:
  "invar w \<Longrightarrow> consume_loop process ps w = (r, w') \<Longrightarrow> m \<in> set (lr_committed r) \<Longrightarrow> handled m w'"
proof (induction ps arbitrary: w r w')
  case (Cons p ps)
  show ?case
  proof (cases p)
    case (Poll_msg m')
    obtain res w1 where p: "process m' w = (res, w1)" by fastforce
    have inv: "invar w1" using Cons.prems(1) p by (rule process_invar)
    obtain r' w2 where l: "consume_loop process ps w1 = (r', w2)" by fastforce
    show ?thesis
    proof (cases "res = Inr True \<and> m = m'")
      case True
      then have "handled m w1" using Cons.prems(1) p by (auto intro: commit_handled)
      then have "handled m w2" using loop_stable [OF inv, of m ps] l by simp
      with True Cons.prems p l Poll_msg show ?thesis by (auto split: if_splits bool.splits)
    next
      case False
      then have "handled m w2 \<and> w' = w2"
        using Cons.prems p l Poll_msg Cons.IH [OF inv l]
        by (auto split: sum.splits bool.splits)
      then show ?thesis by simp
    qed
  qed (use Cons in auto)
qed auto

end

section \<open>Claiming before processing\<close>

text \<open>
  A consumer whose handler first claims the identifier of a message and then settles it (stores,
  forwards or dead-letters it), and which commits a message with a claimed identifier unprocessed.
  \<open>ident\<close> is \<open>None\<close> on a message without an identifier.
\<close>

text \<open>The messages a run did not commit.\<close>

definition uncommitted :: "'m loop_result \<Rightarrow> 'm set" where
  "uncommitted r = set (lr_held r) \<union> set_option (lr_crashed r)"

locale claiming_consumer =
  fixes process :: "'m \<Rightarrow> 'w \<Rightarrow> (exn + bool) \<times> 'w"
    and ident :: "'m \<Rightarrow> 'k option"
    and claimed :: "'w \<Rightarrow> 'k \<Rightarrow> bool"
    and settled :: "'w \<Rightarrow> 'k \<Rightarrow> bool"
    and invar :: "'w \<Rightarrow> bool"
  assumes commit_claims: "invar w \<Longrightarrow> process m w = (Inr True, w') \<Longrightarrow> ident m = Some k \<Longrightarrow> claimed w' k"
    and commit_settles:
      "invar w \<Longrightarrow> process m w = (Inr True, w') \<Longrightarrow> ident m = Some k \<Longrightarrow> \<not> claimed w k \<Longrightarrow> settled w' k"
    and claims_own: "invar w \<Longrightarrow> process m w = (r, w') \<Longrightarrow> claimed w' k \<Longrightarrow> claimed w k \<or> ident m = Some k"
    and claims_kept: "invar w \<Longrightarrow> process m w = (r, w') \<Longrightarrow> claimed w k \<Longrightarrow> claimed w' k"
    and settled_kept: "invar w \<Longrightarrow> process m w = (r, w') \<Longrightarrow> settled w k \<Longrightarrow> settled w' k"
    and process_keeps: "invar w \<Longrightarrow> process m w = (r, w') \<Longrightarrow> invar w'"
begin

lemma loop_settled_kept:
  "invar w \<Longrightarrow> settled w k \<Longrightarrow> settled (snd (consume_loop process ps w)) k"
proof (induction ps arbitrary: w)
  case (Cons p ps)
  show ?case
  proof (cases p)
    case (Poll_msg m)
    obtain res w1 where p: "process m w = (res, w1)" by fastforce
    have "invar w1" and "settled w1 k"
      using Cons.prems p by (blast intro: process_keeps settled_kept)+
    then show ?thesis
      using Cons.IH [of w1] p Poll_msg by (auto split: sum.split bool.split prod.split)
  qed (use Cons in simp_all)
qed simp

text \<open>
  When the loop returns, every committed identifier is settled, unless it was claimed before the
  loop started or some message with this identifier was left uncommitted.
\<close>

lemma loop_settles:
  "invar w \<Longrightarrow> consume_loop process ps w = (r, w') \<Longrightarrow> m \<in> set (lr_committed r) \<Longrightarrow> ident m = Some k \<Longrightarrow>
   claimed w k \<or> settled w' k \<or> (\<exists>m'\<in>uncommitted r. ident m' = Some k)"
proof (induction ps arbitrary: w r w')
  case (Cons p ps)
  show ?case
  proof (cases p)
    case (Poll_msg m')
    obtain res w1 where p: "process m' w = (res, w1)" by fastforce
    obtain r1 w2 where l: "consume_loop process ps w1 = (r1, w2)" by fastforce
    have inv: "invar w1"
      using Cons.prems(1) p by (rule process_keeps)
    show ?thesis
    proof (cases res)
      case (Inl e)
      then show ?thesis
        using Cons.prems p Poll_msg by auto
    next
      case (Inr b)
      have w': "w' = w2"
        and unc: "uncommitted r = uncommitted r1 \<union> (if b then {} else {m'})"
        and com: "set (lr_committed r) = set (lr_committed r1) \<union> (if b then {m'} else {})"
        using Cons.prems(2) p l Poll_msg Inr by (auto simp: uncommitted_def split: bool.splits)
      have IH: "claimed w1 k \<or> settled w2 k \<or> (\<exists>m'\<in>uncommitted r1. ident m' = Some k)"
        if "m \<in> set (lr_committed r1)"
        using Cons.IH [OF inv l that Cons.prems(4)] .
      have own: "claimed w k \<or> ident m' = Some k" if "claimed w1 k"
        using claims_own [OF Cons.prems(1) p that] .
      have "settled w2 k" if "b" and "ident m' = Some k" and "\<not> claimed w k"
      proof -
        have "settled w1 k"
          using commit_settles Cons.prems(1) p Inr that by simp
        then show ?thesis
          using loop_settled_kept [OF inv, of k ps] l by simp
      qed
      then show ?thesis
        using IH own com unc w' Cons.prems(3,4) by (auto split: if_splits)
    qed
  qed (use Cons in auto)
qed auto

text \<open>A message whose identifier is claimed and whose handler commits it adds nothing: the claim stays.\<close>

lemma loop_claims_kept: "invar w \<Longrightarrow> claimed w k \<Longrightarrow> claimed (snd (consume_loop process ps w)) k"
proof (induction ps arbitrary: w)
  case (Cons p ps)
  show ?case
  proof (cases p)
    case (Poll_msg m)
    obtain res w1 where p: "process m w = (res, w1)" by fastforce
    have "invar w1" and "claimed w1 k"
      using Cons.prems p by (blast intro: process_keeps claims_kept)+
    then show ?thesis
      using Cons.IH [of w1] p Poll_msg by (auto split: sum.split bool.split prod.split)
  qed (use Cons in simp_all)
qed simp

end

end
