(* ===== verification/Reliability.thy ===== *)
theory Reliability
  imports Interfaces
begin

text \<open>
  \<open>shared/reliability.py\<close>: retry with exponential backoff and the circuit breaker, and the wiring
  of the two that the services repeat (\<open>protected_write\<close>, \<open>_write_with_protection\<close>,
  \<open>WebhookProvider.send\<close>).

  The callable handed to the retry loop is a function on a world \<open>'w\<close> that returns normally or
  raises and hands back the changed world; \<open>sleep\<close> is such a function too, so that the time a
  retry spends waiting is visible to the breaker's clock. The lock of the breaker makes each of
  its operations one atomic step: an interleaving of threads is a sequence of those steps.
\<close>

section \<open>Retry with backoff\<close>

text \<open>The loop over the remaining attempt numbers; \<open>last_error\<close> is the last exception caught.\<close>

fun retry_loop ::
  "int \<Rightarrow> ('w \<Rightarrow> (exn + unit) \<times> 'w) \<Rightarrow> (real \<Rightarrow> 'w \<Rightarrow> 'w) \<Rightarrow> real \<Rightarrow> exn option \<Rightarrow> int list \<Rightarrow>
   'w \<Rightarrow> (exn + unit) \<times> 'w" where
  "retry_loop max_attempts fn sleep delay last_error [] w =
     (case last_error of None \<Rightarrow> (Inl AssertionError, w) | Some e \<Rightarrow> (Inl e, w))"
| "retry_loop max_attempts fn sleep delay last_error (attempt # rest) w =
     (case fn w of
        (Inr _, w') \<Rightarrow> (ok, w')
      | (Inl e, w') \<Rightarrow>
          if is_permanent e then (Inl e, w')
          else if attempt = max_attempts then retry_loop max_attempts fn sleep delay (Some e) [] w'
          else retry_loop max_attempts fn sleep (delay * 2) (Some e) rest (sleep delay w'))"

definition retry_with_backoff ::
  "int \<Rightarrow> real \<Rightarrow> ('w \<Rightarrow> (exn + unit) \<times> 'w) \<Rightarrow> (real \<Rightarrow> 'w \<Rightarrow> 'w) \<Rightarrow> 'w \<Rightarrow> (exn + unit) \<times> 'w" where
  "retry_with_backoff max_attempts base_delay_seconds fn sleep w =
     retry_loop max_attempts fn sleep base_delay_seconds None [1..max_attempts] w"

section \<open>Circuit breaker\<close>

datatype breaker_state = CLOSED | OPEN | HALF_OPEN

record circuit_breaker =
  cb_state :: breaker_state
  cb_fails :: int
  cb_threshold :: int
  cb_cooldown :: real
  cb_opened_at :: real

definition new_breaker :: "int \<Rightarrow> real \<Rightarrow> circuit_breaker" where
  "new_breaker threshold cooldown_seconds =
     \<lparr>cb_state = CLOSED, cb_fails = 0, cb_threshold = threshold, cb_cooldown = cooldown_seconds,
      cb_opened_at = 0\<rparr>"

definition allow :: "real \<Rightarrow> circuit_breaker \<Rightarrow> bool \<times> circuit_breaker" where
  "allow now cb =
     (case cb_state cb of
        CLOSED \<Rightarrow> (True, cb)
      | HALF_OPEN \<Rightarrow> (False, cb)
      | OPEN \<Rightarrow>
          if now - cb_opened_at cb \<ge> cb_cooldown cb then (True, cb\<lparr>cb_state := HALF_OPEN\<rparr>)
          else (False, cb))"

definition record_success :: "circuit_breaker \<Rightarrow> circuit_breaker" where
  "record_success cb = cb\<lparr>cb_fails := 0, cb_state := CLOSED\<rparr>"

definition record_failure :: "real \<Rightarrow> circuit_breaker \<Rightarrow> circuit_breaker" where
  "record_failure now cb =
     (if cb_state cb = HALF_OPEN then cb\<lparr>cb_state := OPEN, cb_opened_at := now\<rparr>
      else
        let cb' = cb\<lparr>cb_fails := cb_fails cb + 1\<rparr>
        in if cb_fails cb' \<ge> cb_threshold cb' then cb'\<lparr>cb_state := OPEN, cb_opened_at := now\<rparr> else cb')"

definition breaker_state_value :: "circuit_breaker \<Rightarrow> string" where
  "breaker_state_value cb =
     (case cb_state cb of CLOSED \<Rightarrow> ''CLOSED'' | OPEN \<Rightarrow> ''OPEN'' | HALF_OPEN \<Rightarrow> ''HALF_OPEN'')"

section \<open>A call behind a breaker\<close>

text \<open>
  The body shared by \<open>protected_write\<close> and its copies: refuse with \<open>open_error\<close> when the
  breaker does not allow the call, otherwise retry and record the outcome. \<open>clock\<close> reads the
  breaker's clock from the world.
\<close>

definition guarded_call ::
  "exn \<Rightarrow> int \<Rightarrow> real \<Rightarrow> ('w \<Rightarrow> (exn + unit) \<times> 'w) \<Rightarrow> (real \<Rightarrow> 'w \<Rightarrow> 'w) \<Rightarrow> ('w \<Rightarrow> real) \<Rightarrow>
   circuit_breaker \<Rightarrow> 'w \<Rightarrow> (exn + unit) \<times> circuit_breaker \<times> 'w" where
  "guarded_call open_error max_retries retry_delay write_fn sleep clock cb w =
     (case allow (clock w) cb of
        (False, cb') \<Rightarrow> (Inl open_error, cb', w)
      | (True, cb') \<Rightarrow>
          (case retry_with_backoff max_retries retry_delay write_fn sleep w of
             (Inl e, w') \<Rightarrow> (Inl e, record_failure (clock w') cb', w')
           | (Inr _, w') \<Rightarrow> (ok, record_success cb', w')))"

section \<open>The retry loop against its specification\<close>

text \<open>
  The world before attempt \<open>k\<close> (counted from 0) when every earlier attempt failed: each failure
  is followed by a wait twice as long as the one before.
\<close>

primrec attempt_world ::
  "('w \<Rightarrow> (exn + unit) \<times> 'w) \<Rightarrow> (real \<Rightarrow> 'w \<Rightarrow> 'w) \<Rightarrow> real \<Rightarrow> nat \<Rightarrow> 'w \<Rightarrow> 'w" where
  "attempt_world fn sleep base 0 w = w"
| "attempt_world fn sleep base (Suc k) w =
     sleep (base * 2 ^ k) (snd (fn (attempt_world fn sleep base k w)))"

definition transient :: "exn + unit \<Rightarrow> bool" where
  "transient r = (case r of Inl e \<Rightarrow> \<not> is_permanent e | Inr _ \<Rightarrow> False)"

text \<open>The attempt whose outcome counts: the first that does not fail transiently, or the last.\<close>

definition deciding_attempt ::
  "('w \<Rightarrow> (exn + unit) \<times> 'w) \<Rightarrow> (real \<Rightarrow> 'w \<Rightarrow> 'w) \<Rightarrow> real \<Rightarrow> nat \<Rightarrow> 'w \<Rightarrow> nat" where
  "deciding_attempt fn sleep base n w =
     (case find (\<lambda>k. \<not> transient (fst (fn (attempt_world fn sleep base k w)))) [0..<n] of
        Some k \<Rightarrow> k | None \<Rightarrow> n - 1)"

lemma attempt_world_shift:
  "attempt_world fn sleep (base * 2) k (sleep base (snd (fn w))) = attempt_world fn sleep base (Suc k) w"
  by (induction k) (simp_all add: mult.assoc)

lemma find_map: "find P (map f xs) = map_option f (find (\<lambda>x. P (f x)) xs)"
  by (induction xs) auto

lemma find_upt_Suc:
  "find P [0..<Suc n] = (if P 0 then Some 0 else map_option Suc (find (\<lambda>k. P (Suc k)) [0..<n]))"
proof -
  have "[0..<Suc n] = 0 # map Suc [0..<n]"
    by (simp add: upt_conv_Cons map_Suc_upt)
  then show ?thesis by (simp only: find.simps find_map)
qed

lemma deciding_attempt_Suc:
  assumes "0 < n"
  shows "deciding_attempt fn sleep base (Suc n) w =
    (if transient (fst (fn w)) then Suc (deciding_attempt fn sleep (base * 2) n (sleep base (snd (fn w)))) else 0)"
  using assms unfolding deciding_attempt_def find_upt_Suc attempt_world_shift
  by (auto split: option.split)

lemma deciding_attempt_le: "0 < n \<Longrightarrow> deciding_attempt fn sleep base n w < n"
  by (auto simp: deciding_attempt_def find_Some_iff split: option.split)

lemma retry_loop_spec:
  "0 < n \<Longrightarrow>
   retry_loop m fn sleep base le [m - int n + 1..m] w =
   fn (attempt_world fn sleep base (deciding_attempt fn sleep base n w) w)"
proof (induction n arbitrary: base le w)
  case (Suc n)
  obtain r w' where fn: "fn w = (r, w')" by fastforce
  have upto: "[m - int (Suc n) + 1..m] = (m - int n) # [m - int n + 1..m]"
    by (simp add: upto_rec1)
  show ?case
  proof (cases "transient r \<and> 0 < n")
    case True
    then obtain e where e: "r = Inl e" "\<not> is_permanent e"
      by (auto simp: transient_def split: sum.splits)
    have "retry_loop m fn sleep base le [m - int (Suc n) + 1..m] w =
        retry_loop m fn sleep (base * 2) (Some e) [m - int n + 1..m] (sleep base w')"
      using True e unfolding upto by (simp add: fn)
    also have "\<dots> = fn (attempt_world fn sleep (base * 2)
        (deciding_attempt fn sleep (base * 2) n (sleep base w')) (sleep base w'))"
      using True by (intro Suc.IH) simp
    also have "\<dots> = fn (attempt_world fn sleep base (deciding_attempt fn sleep base (Suc n) w) w)"
      using True attempt_world_shift [of fn sleep base _ w] by (simp add: deciding_attempt_Suc fn)
    finally show ?thesis .
  next
    case False
    have "deciding_attempt fn sleep base (Suc n) w = 0"
    proof (cases "0 < n")
      case True
      with False show ?thesis by (simp add: deciding_attempt_Suc fn)
    next
      case False
      then show ?thesis using deciding_attempt_le [of "Suc n"] by simp
    qed
    moreover have "retry_loop m fn sleep base le [m - int (Suc n) + 1..m] w = (r, w')"
      using False unfolding upto
      by (auto simp: fn transient_def split: sum.split)
    ultimately show ?thesis by (simp add: fn)
  qed
qed simp

lemma retry_with_backoff_eq:
  assumes "1 \<le> max_attempts"
  shows "retry_with_backoff max_attempts base fn sleep w =
    fn (attempt_world fn sleep base (deciding_attempt fn sleep base (nat max_attempts) w) w)"
  using retry_loop_spec [of "nat max_attempts" max_attempts fn sleep base None w] assms
  by (simp add: retry_with_backoff_def)

lemma retry_no_attempts: "max_attempts < 1 \<Longrightarrow> retry_with_backoff max_attempts base fn sleep w = (Inl AssertionError, w)"
  by (simp add: retry_with_backoff_def)

text \<open>What every attempt and every wait keeps, the retry loop keeps.\<close>

lemma retry_loop_invariant:
  assumes "\<And>w. P w \<Longrightarrow> P (snd (fn w))" and "\<And>d w. P w \<Longrightarrow> P (sleep d w)"
  shows "P w \<Longrightarrow> P (snd (retry_loop m fn sleep d le as w))"
proof (induction as arbitrary: d le w)
  case (Cons a as)
  show ?case
    using assms(1) [OF Cons.prems] assms(2) Cons.IH
    by (cases "fn w") (auto split: sum.split)
qed (auto split: option.split)

lemma retry_invariant:
  assumes "\<And>w. P w \<Longrightarrow> P (snd (fn w))" and "\<And>d w. P w \<Longrightarrow> P (sleep d w)" and "P w"
  shows "P (snd (retry_with_backoff m b fn sleep w))"
  unfolding retry_with_backoff_def by (rule retry_loop_invariant [of P]) (use assms in auto)

text \<open>If every success of the callable establishes \<open>Q\<close>, so does a success of the retry loop.\<close>

lemma retry_loop_success:
  assumes "\<And>w w'. fn w = (ok, w') \<Longrightarrow> Q w'"
  shows "retry_loop m fn sleep d le as w = (ok, w') \<Longrightarrow> Q w'"
proof (induction as arbitrary: d le w)
  case (Cons a as)
  then show ?case
    using assms by (cases "fn w") (auto split: sum.splits if_splits)
qed (auto split: option.splits)

lemma retry_success:
  assumes "\<And>w w'. fn w = (ok, w') \<Longrightarrow> Q w'" and "retry_with_backoff m b fn sleep w = (ok, w')"
  shows "Q w'"
  using assms unfolding retry_with_backoff_def by (rule retry_loop_success)

text \<open>The same two facts for a call behind a breaker.\<close>

lemma guarded_invariant:
  assumes "\<And>w. P w \<Longrightarrow> P (snd (fn w))" and "\<And>d w. P w \<Longrightarrow> P (sleep d w)" and "P w"
  shows "P (snd (snd (guarded_call oe m b fn sleep clk cb w)))"
  using retry_invariant [of P fn sleep w m b] assms
  by (auto simp: guarded_call_def split: prod.split sum.split bool.split)

lemma guarded_success:
  assumes "\<And>w w'. fn w = (ok, w') \<Longrightarrow> Q w'" and "guarded_call oe m b fn sleep clk cb w = (ok, cb', w')"
  shows "Q w'"
  using assms retry_success [of fn Q m b sleep w w']
  by (auto simp: guarded_call_def split: prod.splits sum.splits bool.splits)

lemma guarded_refused:
  assumes "\<not> fst (allow (clk w) cb)"
  shows "guarded_call oe m b fn sleep clk cb w = (Inl oe, cb, w)"
  using assms by (auto simp: guarded_call_def allow_def split: breaker_state.splits if_splits)

section \<open>The breaker's state machine\<close>

datatype breaker_event = Ask real | Succeeded | Failed real

inductive breaker_step :: "circuit_breaker \<Rightarrow> breaker_event \<Rightarrow> circuit_breaker \<Rightarrow> bool" where
  ask: "breaker_step cb (Ask t) (snd (allow t cb))"
| succeeded: "breaker_step cb Succeeded (record_success cb)"
| failed: "breaker_step cb (Failed t) (record_failure t cb)"

inductive_cases breaker_stepE: "breaker_step cb e cb'"

inductive breaker_reach :: "int \<Rightarrow> real \<Rightarrow> circuit_breaker \<Rightarrow> bool" for thr cd where
  start: "breaker_reach thr cd (new_breaker thr cd)"
| step: "breaker_reach thr cd cb \<Longrightarrow> breaker_step cb e cb' \<Longrightarrow> breaker_reach thr cd cb'"

lemmas breaker_defs = new_breaker_def allow_def record_success_def record_failure_def Let_def

definition breaker_inv :: "int \<Rightarrow> real \<Rightarrow> circuit_breaker \<Rightarrow> bool" where
  "breaker_inv thr cd cb \<longleftrightarrow>
     cb_threshold cb = thr \<and> cb_cooldown cb = cd \<and> 0 \<le> cb_fails cb \<and>
     (cb_state cb = CLOSED \<longleftrightarrow> cb_fails cb < thr)"

lemma breaker_step_inv:
  assumes "breaker_step cb e cb'" and "breaker_inv thr cd cb" and "1 \<le> thr"
  shows "breaker_inv thr cd cb'"
  using assms by cases (auto simp: breaker_inv_def breaker_defs split: breaker_state.splits if_splits)

lemma breaker_reach_inv: "breaker_reach thr cd cb \<Longrightarrow> 1 \<le> thr \<Longrightarrow> breaker_inv thr cd cb"
proof (induction rule: breaker_reach.induct)
  case start
  then show ?case by (simp add: breaker_inv_def breaker_defs)
qed (blast intro: breaker_step_inv)

text \<open>The answers a sequence of askers gets, one after the other.\<close>

fun ask_all :: "real list \<Rightarrow> circuit_breaker \<Rightarrow> bool list \<times> circuit_breaker" where
  "ask_all [] cb = ([], cb)"
| "ask_all (t # ts) cb =
     (let (a, cb') = allow t cb; (as, cb'') = ask_all ts cb' in (a # as, cb''))"

lemma ask_all_half_open:
  "cb_state cb = HALF_OPEN \<Longrightarrow> ask_all ts cb = (replicate (length ts) False, cb)"
  by (induction ts) (auto simp: allow_def)

lemma count_list_replicate: "count_list (replicate n a) b = (if a = b then n else 0)"
  by (induction n) auto

lemma ask_all_open:
  "cb_state cb = OPEN \<Longrightarrow>
   count_list (fst (ask_all ts cb)) True =
     (if \<exists>t\<in>set ts. t - cb_opened_at cb \<ge> cb_cooldown cb then 1 else 0)"
proof (induction ts)
  case (Cons t ts)
  then show ?case
    by (cases "t - cb_opened_at cb \<ge> cb_cooldown cb")
       (auto simp: allow_def ask_all_half_open count_list_replicate split: prod.split)
qed simp

lemma fold_failures:
  assumes "0 < thr"
  shows "\<lbrakk>0 \<le> cb_fails cb; cb_fails cb < thr; cb_threshold cb = thr; cb_state cb = CLOSED\<rbrakk> \<Longrightarrow>
   (let cb' = fold record_failure ts cb
    in cb_fails cb' = cb_fails cb + int (length ts) \<and> cb_threshold cb' = thr \<and>
       cb_cooldown cb' = cb_cooldown cb \<and>
       cb_state cb' = (if thr \<le> cb_fails cb + int (length ts) then OPEN else CLOSED) \<and>
       (thr \<le> cb_fails cb + int (length ts) \<longrightarrow> cb_opened_at cb' = last ts))"
proof (induction ts rule: rev_induct)
  case (snoc t ts)
  then show ?case
    by (auto simp: Let_def record_failure_def split: if_splits)
qed (use assms in simp)

section \<open>Properties\<close>

text \<open>
  C12. With at least one attempt allowed, \<open>retry_with_backoff\<close> behaves like one particular attempt,
  the first that does not fail with a retryable error or else the last one allowed: every earlier
  attempt failed with a retryable error, between attempts it waits \<open>base\<close>, \<open>2 * base\<close>,
  \<open>4 * base\<close>, and so on, and it makes no further call after the deciding one.
\<close>

theorem retry_returns_deciding_attempt:
  assumes "1 \<le> max_attempts"
  shows "\<exists>k < nat max_attempts.
    retry_with_backoff max_attempts base fn sleep w = fn (attempt_world fn sleep base k w) \<and>
    (\<forall>j<k. transient (fst (fn (attempt_world fn sleep base j w)))) \<and>
    (transient (fst (fn (attempt_world fn sleep base k w))) \<longrightarrow> k = nat max_attempts - 1)"
proof -
  let ?k = "deciding_attempt fn sleep base (nat max_attempts) w"
  have "?k < nat max_attempts"
    using assms by (intro deciding_attempt_le) simp
  moreover have "\<forall>j < ?k. transient (fst (fn (attempt_world fn sleep base j w)))"
    by (auto simp: deciding_attempt_def find_Some_iff find_None_iff split: option.split)
  moreover have "transient (fst (fn (attempt_world fn sleep base ?k w))) \<longrightarrow> ?k = nat max_attempts - 1"
    by (auto simp: deciding_attempt_def find_Some_iff split: option.split)
  ultimately show ?thesis
    using retry_with_backoff_eq [OF assms, of base fn sleep w] by blast
qed

text \<open>A callable that fails twice, in a world that counts calls and logs the waits.\<close>

definition flaky :: "nat \<times> real list \<Rightarrow> (exn + unit) \<times> nat \<times> real list" where
  "flaky w = (if fst w < 2 then Inl (RuntimeError ''down'') else ok, Suc (fst w), snd w)"

definition log_sleep :: "real \<Rightarrow> nat \<times> real list \<Rightarrow> nat \<times> real list" where
  "log_sleep d w = (fst w, snd w @ [d])"

lemma retry_flaky: "retry_with_backoff 5 1 flaky log_sleep (0, []) = (ok, (3, [1, 2]))"
  by (simp add: retry_with_backoff_def flaky_def log_sleep_def is_permanent_def upto.simps)

theorem retry_returns_deciding_attempt_witness:
  "retry_with_backoff 5 1 flaky log_sleep (0, []) = (ok, (3, [1, 2])) \<and>
   (\<exists>k < nat 5.
     retry_with_backoff 5 1 flaky log_sleep (0, []) = flaky (attempt_world flaky log_sleep 1 k (0, [])) \<and>
     (\<forall>j<k. transient (fst (flaky (attempt_world flaky log_sleep 1 j (0, []))))) \<and>
     (transient (fst (flaky (attempt_world flaky log_sleep 1 k (0, [])))) \<longrightarrow> k = nat 5 - 1))"
  using retry_returns_deciding_attempt [of 5 1 flaky log_sleep "(0, [])"] retry_flaky by simp


lemma breaker_reach_one_failure: "breaker_reach 1 5 (record_failure 7 (new_breaker 1 5))"
  by (rule breaker_reach.step [OF breaker_reach.start breaker_step.failed])


text \<open>
  However many callers ask an open breaker before an outcome is recorded, at most one trial
  call is let through; one is let through as soon as some caller asks after the cooldown, and none
  while a trial is already in flight.
\<close>

theorem half_open_single_trial:
  assumes "cb_state cb \<noteq> CLOSED"
  shows "count_list (fst (ask_all ts cb)) True =
    (if cb_state cb = OPEN \<and> (\<exists>t\<in>set ts. t - cb_opened_at cb \<ge> cb_cooldown cb) then 1 else 0)"
proof (cases "cb_state cb")
  case OPEN
  then show ?thesis by (simp add: ask_all_open)
next
  case HALF_OPEN
  then show ?thesis by (simp add: ask_all_half_open count_list_replicate)
qed (use assms in simp)

theorem half_open_single_trial_witness:
  "cb_state (record_failure 7 (new_breaker 1 5)) \<noteq> CLOSED \<and>
   count_list (fst (ask_all [8, 13, 14, 99] (record_failure 7 (new_breaker 1 5)))) True = 1"
  using half_open_single_trial [of "record_failure 7 (new_breaker 1 5)" "[8, 13, 14, 99]"]
  by (simp add: breaker_defs)

text \<open>
  After a run of failures with no success in between, a fresh breaker lets a call through
  exactly when the run is shorter than the threshold or the cooldown has passed since the last
  failure.
\<close>

theorem breaker_trips_after_threshold:
  assumes "1 \<le> thr"
  shows "fst (allow t (fold record_failure ts (new_breaker thr cd))) \<longleftrightarrow>
    int (length ts) < thr \<or> cd \<le> t - last ts"
  using fold_failures [of thr "new_breaker thr cd" ts] assms
  by (auto simp: Let_def new_breaker_def allow_def split: breaker_state.split if_splits)

theorem breaker_trips_after_threshold_witness:
  "\<not> fst (allow 16 (fold record_failure [1, 2, 3, 4, 5] (new_breaker 5 15))) \<and>
   fst (allow 20 (fold record_failure [1, 2, 3, 4, 5] (new_breaker 5 15)))"
  using breaker_trips_after_threshold [of 5 16 "[1, 2, 3, 4, 5]" 15]
    breaker_trips_after_threshold [of 5 20 "[1, 2, 3, 4, 5]" 15]
  by simp

end
