(* ===== verification/Events.thy ===== *)
theory Events
  imports Prelude
begin

text \<open>
  \<open>shared/events.py\<close>: the wire formats. A pydantic model is a record with the source's fields and
  defaults; the type parameter \<open>'v\<close> is the type of a reading, which ingestion takes as an
  unchecked Python float and every later service as a finite number. Serialised JSON is kept as
  the association list of fields that \<open>model_dump\<close> produces.
\<close>

section \<open>Constants\<close>

definition VALID_METRICS :: "string list" where
  "VALID_METRICS =
     [''temperature'', ''vibration'', ''pressure'', ''rpm'', ''current'', ''voltage'', ''power'',
      ''humidity'', ''acoustic_level'']"

definition SCHEMA_VERSION :: int where
  "SCHEMA_VERSION = 1"

datatype error_type = VALIDATION_ERROR | TRANSIENT_ERROR

datatype severity = INFO | WARNING | HIGH | CRITICAL

text \<open>Severities are ordered by the rank the detector gives them.\<close>

fun severity_rank :: "severity \<Rightarrow> nat" where
  "severity_rank INFO = 0"
| "severity_rank WARNING = 1"
| "severity_rank HIGH = 2"
| "severity_rank CRITICAL = 3"

fun severity_name :: "severity \<Rightarrow> string" where
  "severity_name INFO = ''INFO''"
| "severity_name WARNING = ''WARNING''"
| "severity_name HIGH = ''HIGH''"
| "severity_name CRITICAL = ''CRITICAL''"

lemma severity_rank_inject [simp]: "severity_rank a = severity_rank b \<longleftrightarrow> a = b"
  by (cases a; cases b) auto

instantiation severity :: linorder
begin

definition less_eq_severity :: "severity \<Rightarrow> severity \<Rightarrow> bool" where
  "less_eq_severity a b \<longleftrightarrow> severity_rank a \<le> severity_rank b"

definition less_severity :: "severity \<Rightarrow> severity \<Rightarrow> bool" where
  "less_severity a b \<longleftrightarrow> severity_rank a < severity_rank b"

instance
  by standard (auto simp: less_eq_severity_def less_severity_def)

end

lemma severity_le_CRITICAL [simp]: "(s::severity) \<le> CRITICAL"
  by (cases s) (simp_all add: less_eq_severity_def)

lemma INFO_le_severity [simp]: "INFO \<le> (s::severity)"
  by (cases s) (simp_all add: less_eq_severity_def)

datatype alert_event_type = CREATED_EVENT | ESCALATED_EVENT | RESOLVED_EVENT

section \<open>Events\<close>

record 'v telemetry_event =
  te_event_id :: string
  te_organization_id :: string
  te_factory_id :: string
  te_production_line_id :: string
  te_machine_id :: string
  te_device_id :: string
  te_sensor_id :: string
  te_timestamp :: "datetime option"
  te_sequence_number :: int
  te_metric :: string
  te_reading :: 'v
  te_unit :: string

record 'v normalized_telemetry = "'v telemetry_event" +
  nt_correlation_id :: string
  nt_ingested_at :: datetime
  nt_schema_version :: int

record machine_event =
  me_organization_id :: string
  me_factory_id :: string
  me_machine_id :: string
  me_device_id :: string
  me_sensor_id :: string
  me_status :: string
  me_event_type :: string
  me_timestamp :: "datetime option"

record normalized_machine_event = machine_event +
  nm_correlation_id :: string
  nm_ingested_at :: datetime
  nm_schema_version :: int

record 'p dead_letter_record =
  dl_original_payload :: 'p
  dl_error :: exn
  dl_error_type :: error_type
  dl_service :: string
  dl_processing_stage :: string
  dl_retry_count :: int
  dl_timestamp :: datetime
  dl_correlation_id :: string
  dl_source_topic :: string

record anomaly_detected =
  ad_anomaly_id :: string
  ad_event_id :: string
  ad_organization_id :: string
  ad_factory_id :: string
  ad_production_line_id :: string
  ad_machine_id :: string
  ad_device_id :: string
  ad_sensor_id :: string
  ad_metric :: string
  ad_reading :: real
  ad_severity :: severity
  ad_score :: real
  ad_methods :: "string list"
  ad_reason :: string
  ad_detected_at :: datetime

record alert_event =
  ae_alert_id :: string
  ae_event_type :: alert_event_type
  ae_organization_id :: string
  ae_alert_rule_id :: string
  ae_factory_id :: string
  ae_machine_id :: string
  ae_device_id :: string
  ae_sensor_id :: string
  ae_severity :: severity
  ae_status :: string
  ae_title :: string
  ae_description :: string
  ae_escalation_level :: int
  ae_triggered_at :: datetime
  ae_timestamp :: datetime

section \<open>The JSON of a machine event\<close>

datatype json_field = JStr string | JTime "datetime option" | JInt int

text \<open>\<open>model_dump(mode="json")\<close>: every field, in declaration order.\<close>

definition machine_event_dump :: "machine_event \<Rightarrow> (string \<times> json_field) list" where
  "machine_event_dump e =
     [(''organization_id'', JStr (me_organization_id e)), (''factory_id'', JStr (me_factory_id e)),
      (''machine_id'', JStr (me_machine_id e)), (''device_id'', JStr (me_device_id e)),
      (''sensor_id'', JStr (me_sensor_id e)), (''status'', JStr (me_status e)),
      (''event_type'', JStr (me_event_type e)), (''timestamp'', JTime (me_timestamp e))]"

text \<open>The overridden \<open>model_dump_json\<close>: the optional fields are left out when empty.\<close>

fun falsy :: "json_field \<Rightarrow> bool" where
  "falsy (JStr s) = (s = [])"
| "falsy (JTime t) = (t = None)"
| "falsy (JInt i) = (i = 0)"

definition machine_event_json :: "machine_event \<Rightarrow> (string \<times> json_field) list" where
  "machine_event_json e =
     filter (\<lambda>(f, v). \<not> (f \<in> set [''device_id'', ''sensor_id'', ''status'', ''event_type''] \<and> falsy v))
       (machine_event_dump e)"

text \<open>Validation of such an object back into the model: an absent field takes its default.\<close>

definition str_field :: "(string \<times> json_field) list \<Rightarrow> string \<Rightarrow> string option" where
  "str_field js f = (case map_of js f of None \<Rightarrow> Some [] | Some (JStr s) \<Rightarrow> Some s | Some _ \<Rightarrow> None)"

definition time_field :: "(string \<times> json_field) list \<Rightarrow> string \<Rightarrow> datetime option option" where
  "time_field js f = (case map_of js f of None \<Rightarrow> Some None | Some (JTime t) \<Rightarrow> Some t | Some _ \<Rightarrow> None)"

definition machine_event_of_json :: "(string \<times> json_field) list \<Rightarrow> machine_event option" where
  "machine_event_of_json js =
     (case (str_field js ''organization_id'', str_field js ''factory_id'', str_field js ''machine_id'',
            str_field js ''device_id'', str_field js ''sensor_id'', str_field js ''status'',
            str_field js ''event_type'', time_field js ''timestamp'') of
        (Some a, Some b, Some c, Some d, Some e, Some f, Some g, Some t) \<Rightarrow>
          Some \<lparr>me_organization_id = a, me_factory_id = b, me_machine_id = c, me_device_id = d,
                me_sensor_id = e, me_status = f, me_event_type = g, me_timestamp = t\<rparr>
      | _ \<Rightarrow> None)"

section \<open>Properties\<close>

lemma kept_fields:
  assumes "distinct (map fst dict)"
  shows "map_of (filter keep dict) name = Option.bind (map_of dict name) (\<lambda>v. if keep (name, v) then Some v else None)"
  using assms
proof (induction dict)
  case (Cons x xs)
  then have "map_of xs (fst x) = None"
    by (auto simp: map_of_eq_None_iff)
  with Cons show ?case
    by (cases x) (auto split: bind_splits)
qed simp

text \<open>The fields of the emitted object: a required one always, an optional one if not empty.\<close>

definition optional_fields :: "string list" where
  "optional_fields = [''device_id'', ''sensor_id'', ''status'', ''event_type'']"

lemma dump_keys: "map fst (machine_event_dump e) =
  [''organization_id'', ''factory_id'', ''machine_id'', ''device_id'', ''sensor_id'', ''status'', ''event_type'', ''timestamp'']"
  by (simp add: machine_event_dump_def)

lemma distinct_dump: "distinct (map fst (machine_event_dump e))"
  unfolding dump_keys by simp

lemma json_lookup:
  "map_of (machine_event_json e) f =
   (case map_of (machine_event_dump e) f of
      None \<Rightarrow> None | Some v \<Rightarrow> if f \<in> set optional_fields \<and> falsy v then None else Some v)"
  unfolding machine_event_json_def kept_fields [OF distinct_dump]
  by (simp add: optional_fields_def bind_eq_Some_conv split: option.split)

lemma dump_lookup [simp]:
  "map_of (machine_event_dump e) ''organization_id'' = Some (JStr (me_organization_id e))"
  "map_of (machine_event_dump e) ''factory_id'' = Some (JStr (me_factory_id e))"
  "map_of (machine_event_dump e) ''machine_id'' = Some (JStr (me_machine_id e))"
  "map_of (machine_event_dump e) ''device_id'' = Some (JStr (me_device_id e))"
  "map_of (machine_event_dump e) ''sensor_id'' = Some (JStr (me_sensor_id e))"
  "map_of (machine_event_dump e) ''status'' = Some (JStr (me_status e))"
  "map_of (machine_event_dump e) ''event_type'' = Some (JStr (me_event_type e))"
  "map_of (machine_event_dump e) ''timestamp'' = Some (JTime (me_timestamp e))"
  by (simp_all add: machine_event_dump_def)

lemma str_field_json:
  "map_of (machine_event_dump e) f = Some (JStr s) \<Longrightarrow> str_field (machine_event_json e) f = Some s"
  by (simp add: str_field_def json_lookup)

lemma time_field_json:
  "map_of (machine_event_dump e) f = Some (JTime t) \<Longrightarrow> f \<notin> set optional_fields \<Longrightarrow>
   time_field (machine_event_json e) f = Some t"
  by (simp add: time_field_def json_lookup)

lemma optional_on_wire:
  assumes "map_of (machine_event_dump e) f = Some (JStr s)" and "f \<in> set optional_fields"
  shows "f \<in> fst ` set (machine_event_json e) \<longleftrightarrow> s \<noteq> []"
proof -
  have "f \<in> fst ` set (machine_event_json e) \<longleftrightarrow> map_of (machine_event_json e) f \<noteq> None"
    by (auto simp: map_of_eq_None_iff)
  then show ?thesis
    using assms by (simp add: json_lookup)
qed

lemma timestamp_required: "''timestamp'' \<notin> set optional_fields"
  by (simp add: optional_fields_def)


end
