(* ===== verification/Broker.thy ===== *)
theory Broker
  imports Reliability Events
begin

text \<open>
  What the services share around Kafka. The broker is outside the repository: its answer to each
  produce is an input of the model, read from a sequence \<open>net\<close> of deliveries of which every
  attempt takes the next. What the code relies on is in the deliveries themselves: with
  \<open>acks=all\<close>, a delivery report without an error means the record is in the topic, while after a
  timeout or an error report it may or may not be.

  A service's world extends the record \<open>kworld\<close> here with its own stores, so the operations below
  work on every service's world. The clock only moves when the code sleeps; between two messages
  the environment may set it. Prometheus counters are part of the world; log lines are not.
\<close>

section \<open>The world around a producer\<close>

text \<open>
  \<open>Produce_raises\<close>: \<open>producer.produce\<close> raised. \<open>Flush_pending n b\<close>: \<open>flush\<close> gave up with \<open>n\<close>
  messages outstanding, the record having reached the topic if \<open>b\<close>. \<open>Report_error m b\<close>: the
  delivery report carries an error, likewise.
\<close>

datatype delivery =
    Delivered
  | Produce_raises exn
  | Flush_pending nat bool
  | Report_error string bool

text \<open>
  The answer of another dependency (Redis, InfluxDB, Postgres) to one call: it succeeds, or it
  raises, having taken effect or not.
\<close>

datatype reply = Reply_ok | Reply_raises exn bool

text \<open>The call took effect.\<close>

fun applied :: "reply \<Rightarrow> bool" where
  "applied Reply_ok = True"
| "applied (Reply_raises e b) = b"

record 'p kworld =
  topics :: "string \<Rightarrow> (string \<times> 'p) list"
  net :: "nat \<Rightarrow> delivery"
  tick :: nat
  clock :: real
  counters :: "string \<Rightarrow> nat"

definition inc :: "string \<Rightarrow> ('p, 'z) kworld_scheme \<Rightarrow> ('p, 'z) kworld_scheme" where
  "inc name w = w\<lparr>counters := (counters w)(name := Suc (counters w name))\<rparr>"

definition inc_by :: "nat \<Rightarrow> string \<Rightarrow> ('p, 'z) kworld_scheme \<Rightarrow> ('p, 'z) kworld_scheme" where
  "inc_by n name w = w\<lparr>counters := (counters w)(name := counters w name + n)\<rparr>"

definition sleep :: "real \<Rightarrow> ('p, 'z) kworld_scheme \<Rightarrow> ('p, 'z) kworld_scheme" where
  "sleep d w = w\<lparr>clock := clock w + d\<rparr>"

definition append_to :: "string \<Rightarrow> string \<Rightarrow> 'p \<Rightarrow> ('p, 'z) kworld_scheme \<Rightarrow> ('p, 'z) kworld_scheme" where
  "append_to topic key payload w = w\<lparr>topics := (topics w)(topic := topics w topic @ [(key, payload)])\<rparr>"

text \<open>The delivery reaches the topic.\<close>

fun lands :: "delivery \<Rightarrow> bool" where
  "lands Delivered = True"
| "lands (Produce_raises e) = False"
| "lands (Flush_pending n b) = b"
| "lands (Report_error m b) = b"

definition produce_and_wait ::
  "string \<Rightarrow> string \<Rightarrow> 'p \<Rightarrow> ('p, 'z) kworld_scheme \<Rightarrow> (exn + unit) \<times> ('p, 'z) kworld_scheme" where
  "produce_and_wait topic key payload w =
     (let d = net w (tick w);
          w' = w\<lparr>tick := Suc (tick w)\<rparr>;
          w'' = (if lands d then append_to topic key payload w' else w')
      in case d of
           Produce_raises e \<Rightarrow> (Inl e, w'')
         | Flush_pending n _ \<Rightarrow>
             if 0 < n then (Inl (KafkaPublishError (''kafka produce to '' @ topic @ '' timed out'')), w'')
             else (ok, w'')
         | Report_error m _ \<Rightarrow> (Inl (KafkaPublishError (''kafka produce to '' @ topic @ '' failed: '' @ m)), w'')
         | Delivered \<Rightarrow> (ok, w''))"

text \<open>
  The documented behaviour of the client library the code relies on: \<open>flush\<close> returning 0 means
  every delivery report has been served, so no delivery is pending with a count of 0.
\<close>

definition net_ok :: "('p, 'z) kworld_scheme \<Rightarrow> bool" where
  "net_ok w \<longleftrightarrow> (\<forall>i b. net w i \<noteq> Flush_pending 0 b)"

section \<open>Frame lemmas\<close>

lemma inc_frame [simp, frame]:
  "topics (inc n w) = topics w" "net (inc n w) = net w" "tick (inc n w) = tick w"
  "clock (inc n w) = clock w" "kworld.more (inc n w) = kworld.more w"
  by (simp_all add: inc_def)

lemma inc_by_frame [simp, frame]:
  "topics (inc_by k n w) = topics w" "net (inc_by k n w) = net w" "tick (inc_by k n w) = tick w"
  "clock (inc_by k n w) = clock w" "kworld.more (inc_by k n w) = kworld.more w"
  by (simp_all add: inc_by_def)

lemma sleep_frame [simp, frame]:
  "topics (sleep d w) = topics w" "net (sleep d w) = net w" "tick (sleep d w) = tick w"
  "counters (sleep d w) = counters w" "kworld.more (sleep d w) = kworld.more w"
  by (simp_all add: sleep_def)

lemma append_to_frame [simp, frame]:
  "net (append_to t k p w) = net w" "tick (append_to t k p w) = tick w"
  "clock (append_to t k p w) = clock w" "counters (append_to t k p w) = counters w"
  "kworld.more (append_to t k p w) = kworld.more w"
  by (simp_all add: append_to_def)

lemma topics_append_to [simp]:
  "topics (append_to t k p w) t' = (if t' = t then topics w t @ [(k, p)] else topics w t')"
  by (simp add: append_to_def)

lemma produce_frame [simp, frame]:
  "net (snd (produce_and_wait t k p w)) = net w"
  "clock (snd (produce_and_wait t k p w)) = clock w"
  "counters (snd (produce_and_wait t k p w)) = counters w"
  "kworld.more (snd (produce_and_wait t k p w)) = kworld.more w"
  "tick (snd (produce_and_wait t k p w)) = Suc (tick w)"
  by (auto simp: produce_and_wait_def Let_def split: delivery.split)

text \<open>Topics only grow.\<close>

definition topics_grow :: "('p, 'z) kworld_scheme \<Rightarrow> ('p, 'z) kworld_scheme \<Rightarrow> bool" where
  "topics_grow w w' \<longleftrightarrow> (\<forall>t. set (topics w t) \<subseteq> set (topics w' t))"

lemma topics_grow_refl [simp, intro]: "topics_grow w w"
  by (simp add: topics_grow_def)

lemma topics_grow_trans [trans]: "topics_grow a b \<Longrightarrow> topics_grow b c \<Longrightarrow> topics_grow a c"
  by (meson subset_trans topics_grow_def)

lemma topics_growD: "topics_grow w w' \<Longrightarrow> x \<in> set (topics w t) \<Longrightarrow> x \<in> set (topics w' t)"
  by (auto simp: topics_grow_def)

lemma topics_grow_eq: "topics w' = topics w \<Longrightarrow> topics_grow w w'"
  by (simp add: topics_grow_def)

lemma produce_topics:
  "topics (snd (produce_and_wait t k p w)) =
   (if lands (net w (tick w)) then (topics w)(t := topics w t @ [(k, p)]) else topics w)"
  by (auto simp: produce_and_wait_def Let_def append_to_def split: delivery.split)

lemma produce_topics_grow [simp, intro]: "topics_grow w (snd (produce_and_wait t k p w))"
  by (auto simp: topics_grow_def produce_topics)

lemma net_ok_cong: "net w' = net w \<Longrightarrow> net_ok w' = net_ok w"
  by (simp add: net_ok_def)

lemma produce_ok:
  assumes "fst (produce_and_wait t k p w) = ok" and "net_ok w"
  shows "(k, p) \<in> set (topics (snd (produce_and_wait t k p w)) t)"
  using assms
  by (auto simp: produce_and_wait_def Let_def net_ok_def split: delivery.splits if_splits)

lemma produce_ok':
  assumes "produce_and_wait t k p w = (ok, w')" and "net_ok w"
  shows "(k, p) \<in> set (topics w' t)"
  using produce_ok [of t k p w] assms by simp

lemma produced_in_topic:
  assumes "produce_and_wait t k p w = (ok, w')"
  shows "net_ok w' \<longrightarrow> (k, p) \<in> set (topics w' t)"
proof -
  have "net w' = net w"
    using produce_frame(1) [of t k p w] assms by simp
  then show ?thesis
    using produce_ok' [OF assms] net_ok_cong by blast
qed

end
