(* ===== verification/Uuid_Text.thy ===== *)
theory Uuid_Text
  imports Config
begin

text \<open>
  \<open>uuid.UUID(text)\<close> of Python's standard library, which ingestion and the telemetry routes use as the test of an
  identifier: it removes \<open>urn:\<close> and \<open>uuid:\<close>, the braces at the ends and every hyphen, and reads the 32 characters
  left with \<open>int(_, 16)\<close>, which allows white space at the ends, a sign, a prefix \<open>0x\<close> and single underscores. The
  lemmas say that every UUID in the usual form is accepted, and which characters an accepted text can have at all.
\<close>

section \<open>Text\<close>

text \<open>\<open>s.replace(pat, '')\<close> for a pattern that is not empty.\<close>

function remove_all :: "string \<Rightarrow> string \<Rightarrow> string" where
  "remove_all pat [] = []"
| "remove_all pat (c # cs) =
     (if pat \<noteq> [] \<and> take (length pat) (c # cs) = pat then remove_all pat (drop (length pat - 1) cs) else c # remove_all pat cs)"
  by pat_completeness auto
termination
  by (relation "measure (\<lambda>(pat, s). length s)") auto

text \<open>\<open>s.strip(chars)\<close>\<close>

definition strip_chars :: "string \<Rightarrow> string \<Rightarrow> string" where
  "strip_chars cs s = rev (dropWhile (\<lambda>c. c \<in> set cs) (rev (dropWhile (\<lambda>c. c \<in> set cs) s)))"

section \<open>Hexadecimal integers\<close>

definition is_hex :: "char \<Rightarrow> bool" where
  "is_hex c \<longleftrightarrow> (let n = of_char c :: nat in 48 \<le> n \<and> n \<le> 57 \<or> 65 \<le> n \<and> n \<le> 70 \<or> 97 \<le> n \<and> n \<le> 102)"

definition hex_val :: "char \<Rightarrow> nat" where
  "hex_val c = (let n = of_char c :: nat in if n \<le> 57 then n - 48 else if n \<le> 70 then n - 55 else n - 87)"

fun read_hex :: "nat \<Rightarrow> string \<Rightarrow> nat option" where
  "read_hex acc [] = Some acc"
| "read_hex acc (c # cs) =
     (if is_hex c then read_hex (16 * acc + hex_val c) cs
      else if c = CHR ''_'' then
        (case cs of
           d # ds \<Rightarrow> if is_hex d then read_hex (16 * acc + hex_val d) ds else None
         | [] \<Rightarrow> None)
      else None)"

text \<open>What follows the sign: a prefix, with an underscore if any, then digits.\<close>

definition skip_prefix :: "string \<Rightarrow> string" where
  "skip_prefix s =
     (case s of
        a # b # cs \<Rightarrow>
          if a = CHR ''0'' \<and> (b = CHR ''x'' \<or> b = CHR ''X'')
          then (case cs of c # ds \<Rightarrow> if c = CHR ''_'' then ds else cs | [] \<Rightarrow> cs)
          else s
      | _ \<Rightarrow> s)"

definition read_hex_nat :: "string \<Rightarrow> nat option" where
  "read_hex_nat s =
     (case skip_prefix s of c # cs \<Rightarrow> if is_hex c then read_hex (hex_val c) cs else None | [] \<Rightarrow> None)"

definition py_int16 :: "string \<Rightarrow> int option" where
  "py_int16 s =
     (case num_strip s of
        [] \<Rightarrow> None
      | c # cs \<Rightarrow>
          if c = CHR ''-'' then map_option (\<lambda>n. - int n) (read_hex_nat cs)
          else if c = CHR ''+'' then map_option int (read_hex_nat cs)
          else map_option int (read_hex_nat (c # cs)))"

section \<open>\<open>uuid.UUID\<close>\<close>

definition uuid_digits :: "string \<Rightarrow> string" where
  "uuid_digits s = filter (\<lambda>c. c \<noteq> CHR ''-'') (strip_chars ''{}'' (remove_all ''uuid:'' (remove_all ''urn:'' s)))"

definition uuid_UUID :: "string \<Rightarrow> exn + int" where
  "uuid_UUID s =
     (let hex = uuid_digits s
      in if length hex \<noteq> 32 then Inl (ValueError ''badly formed hexadecimal UUID string'')
         else case py_int16 hex of
                None \<Rightarrow> Inl (ValueError ''invalid literal for int() with base 16'')
              | Some n \<Rightarrow>
                  if 0 \<le> n \<and> n < 2 ^ 128 then Inr n else Inl (ValueError ''int is out of range (need a 128-bit value)''))"

definition is_uuid :: "string \<Rightarrow> bool" where
  "is_uuid s \<longleftrightarrow> \<not> raised (uuid_UUID s)"

section \<open>The usual form is accepted\<close>

lemma remove_all_id: "c \<in> set pat \<Longrightarrow> c \<notin> set s \<Longrightarrow> remove_all pat s = s"
proof (induction pat s rule: remove_all.induct)
  case (2 pat d cs)
  have "take (length pat) (d # cs) \<noteq> pat"
    using 2(3,4) by (metis in_set_takeD)
  then show ?case
    using 2 by auto
qed simp

lemma strip_chars_id: "(\<And>c. c \<in> set cs \<Longrightarrow> c \<notin> set s) \<Longrightarrow> strip_chars cs s = s"
proof -
  assume none: "\<And>c. c \<in> set cs \<Longrightarrow> c \<notin> set s"
  have "dropWhile (\<lambda>c. c \<in> set cs) t = t" if "set t \<subseteq> set s" for t
    using that none by (cases t) auto
  then show ?thesis
    by (simp add: strip_chars_def)
qed

lemma hex_not_space: "is_hex c \<Longrightarrow> \<not> is_space c"
  by (auto simp: is_hex_def is_space_def Let_def)

lemma read_hex_some: "list_all is_hex s \<Longrightarrow> \<exists>n. read_hex acc s = Some n \<and> n < (acc + 1) * 16 ^ length s"
proof (induction s arbitrary: acc)
  case (Cons c s)
  have v: "hex_val c < 16"
    using Cons.prems by (auto simp: is_hex_def hex_val_def Let_def)
  obtain n where n: "read_hex (16 * acc + hex_val c) s = Some n" "n < (16 * acc + hex_val c + 1) * 16 ^ length s"
    using Cons by auto
  have "(16 * acc + hex_val c + 1) * 16 ^ length s \<le> (16 * acc + 16) * 16 ^ length s"
    using v by (intro mult_right_mono) simp_all
  also have "\<dots> = (acc + 1) * 16 ^ length (c # s)"
    by (simp add: algebra_simps)
  finally have "n < (acc + 1) * 16 ^ length (c # s)"
    using n(2) by linarith
  then show ?case
    using n(1) Cons.prems by auto
qed simp

lemma hex32_reads:
  assumes "list_all is_hex h" and "length h = 32"
  shows "\<exists>n. py_int16 h = Some (int n) \<and> int n < 2 ^ 128"
proof -
  obtain x y xs where h: "h = x # y # xs"
    using assms(2) by (cases h rule: remdups_adj.cases) auto
  have hx: "is_hex x" "is_hex y" "list_all is_hex (y # xs)"
    using assms(1) h by simp_all
  have "last h \<in> set h"
    using h by simp
  then have "num_strip h = h"
    using assms(1) hex_not_space h by (intro num_strip_id) (auto simp: list_all_iff)
  moreover have "skip_prefix h = h" and "x \<noteq> CHR ''-''" "x \<noteq> CHR ''+''"
    using hx(1,2) by (auto simp: h skip_prefix_def is_hex_def)
  moreover obtain n where n: "read_hex (hex_val x) (y # xs) = Some n" "n < (hex_val x + 1) * 16 ^ length (y # xs)"
    using read_hex_some [OF hx(3)] by blast
  moreover have "hex_val x < 16" "length (y # xs) = 31"
    using hx(1) assms(2) h by (auto simp: is_hex_def hex_val_def Let_def)
  then have "(hex_val x + 1) * 16 ^ length (y # xs) \<le> 16 * 16 ^ 31"
    by (simp del: power_Suc)
  then have "int n < 2 ^ 128"
    using n(2) by simp
  ultimately show ?thesis
    using hx(1) by (intro exI [of _ n]) (simp add: py_int16_def read_hex_nat_def h)
qed

definition usual_uuid :: "string \<Rightarrow> bool" where
  "usual_uuid s \<longleftrightarrow>
     (\<exists>a b c d e. s = a @ ''-'' @ b @ ''-'' @ c @ ''-'' @ d @ ''-'' @ e \<and> list_all is_hex (a @ b @ c @ d @ e) \<and>
        length a = 8 \<and> length b = 4 \<and> length c = 4 \<and> length d = 4 \<and> length e = 12)"

lemma usual_uuid_accepted:
  assumes "usual_uuid s"
  shows "is_uuid s"
proof -
  obtain a b c d e where s: "s = a @ ''-'' @ b @ ''-'' @ c @ ''-'' @ d @ ''-'' @ e" and hex: "list_all is_hex (a @ b @ c @ d @ e)"
    and len: "length (a @ b @ c @ d @ e) = 32"
    using assms by (auto simp: usual_uuid_def)
  let ?h = "a @ b @ c @ d @ e"
  have no: "x \<notin> set s" if "\<not> is_hex x" "x \<noteq> CHR ''-''" for x
    using that hex by (auto simp: s list_all_iff)
  have "remove_all ''urn:'' s = s" "remove_all ''uuid:'' s = s"
    by (rule remove_all_id [of "CHR '':''"]; simp add: no is_hex_def)+
  moreover have "CHR ''{'' \<notin> set s" "CHR ''}'' \<notin> set s"
    by (rule no; simp add: is_hex_def)+
  then have "strip_chars ''{}'' s = s"
    by (intro strip_chars_id) auto
  moreover have "filter (\<lambda>c. c \<noteq> CHR ''-'') s = ?h"
  proof -
    have "filter (\<lambda>c. c \<noteq> CHR ''-'') t = t" if "list_all is_hex t" for t
      using that by (auto simp: filter_id_conv is_hex_def list_all_iff)
    then show ?thesis
      using hex by (simp add: s)
  qed
  ultimately have digits: "uuid_digits s = ?h"
    by (simp add: uuid_digits_def)
  obtain n where "py_int16 ?h = Some (int n)" "int n < 2 ^ 128"
    using hex32_reads [OF hex len] by blast
  then show ?thesis
    using len by (simp add: is_uuid_def uuid_UUID_def digits)
qed

section \<open>Nothing strange is accepted\<close>

text \<open>The characters of an accepted text.\<close>

definition uuid_char :: "char \<Rightarrow> bool" where
  "uuid_char c \<longleftrightarrow> is_hex c \<or> is_space c \<or> c \<in> set ''{}-+_xXurnid:''"

lemma kept_by_remove: "c \<in> set s \<Longrightarrow> c \<notin> set pat \<Longrightarrow> c \<in> set (remove_all pat s)"
proof (induction pat s rule: remove_all.induct)
  case (2 pat d cs)
  show ?case
  proof (cases "pat \<noteq> [] \<and> take (length pat) (d # cs) = pat")
    case True
    then have split: "d # cs = pat @ drop (length pat - 1) cs"
      by (metis append_take_drop_id drop_Cons' length_0_conv)
    then have "c \<in> set (drop (length pat - 1) cs)"
      using 2(3,4) by (metis Un_iff set_append)
    then show ?thesis
      using True 2 by simp
  qed (use 2 in auto)
qed simp

lemma kept_by_strip: "c \<in> set s \<Longrightarrow> \<not> P c \<Longrightarrow> c \<in> set (rev (dropWhile P (rev (dropWhile P s))))"
proof -
  have kept: "c \<in> set (dropWhile P t)" if "c \<in> set t" "\<not> P c" for t
    using that by (induction t) auto
  then show "c \<in> set s \<Longrightarrow> \<not> P c \<Longrightarrow> c \<in> set (rev (dropWhile P (rev (dropWhile P s))))"
    by simp
qed

lemma read_hex_chars: "read_hex acc s = Some n \<Longrightarrow> c \<in> set s \<Longrightarrow> is_hex c \<or> c = CHR ''_''"
  by (induction acc s rule: read_hex.induct) (auto split: if_splits list.splits)

lemma skip_prefix_chars: "c \<in> set s \<Longrightarrow> c \<in> set (skip_prefix s) \<or> c \<in> set ''0xX_''"
  by (auto simp: skip_prefix_def split: list.split)

lemma read_hex_nat_chars: "read_hex_nat s = Some n \<Longrightarrow> c \<in> set s \<Longrightarrow> is_hex c \<or> c \<in> set ''_xX''"
  using skip_prefix_chars [of c s]
  by (auto simp: read_hex_nat_def is_hex_def split: list.splits if_splits dest: read_hex_chars)

lemma accepted_chars:
  assumes "is_uuid s" and "c \<in> set s"
  shows "uuid_char c"
proof (rule ccontr)
  assume odd: "\<not> uuid_char c"
  then have "c \<in> set (uuid_digits s)"
    unfolding uuid_digits_def strip_chars_def using assms(2)
    by (auto simp: uuid_char_def is_hex_def intro!: kept_by_strip [unfolded set_rev] kept_by_remove)
  then have "c \<in> set (num_strip (uuid_digits s))"
    using odd unfolding num_strip_def by (intro kept_by_strip) (auto simp: uuid_char_def dest: num_space)
  moreover obtain n where "py_int16 (uuid_digits s) = Some n"
    using assms(1) by (auto simp: is_uuid_def uuid_UUID_def Let_def split: option.splits if_splits)
  ultimately show False
    using odd by (auto simp: py_int16_def uuid_char_def split: list.splits if_splits dest: read_hex_nat_chars)
qed

end
