(* ===== verification/Ingestion.thy ===== *)
theory Ingestion
  imports Broker Config Uuid_Text
begin

text \<open>
  \<open>services/ingestion\<close>: \<open>validate.py\<close>, \<open>kafka_producer.py\<close> and the handling of one message in \<open>main.py\<close>. A message
  is an MQTT message with an identifier of its own; acknowledging it adds the identifier to a list. Readings are
  floats that may be NaN or infinite. Pydantic, which parses payloads and prints records, is a record of functions;
  \<open>uuid.uuid4\<close> is the next of a sequence. An \<open>Inl\<close> answer of a handler is an exception that ends its thread. Error
  messages leave out the quoted value; spans, log lines and the latency histogram are left out.
\<close>

section \<open>Validation\<close>

datatype py_number = Finite real | Infinity | Minus_infinity | Not_a_number

fun math_isnan :: "py_number \<Rightarrow> bool" where
  "math_isnan Not_a_number = True"
| "math_isnan _ = False"

fun math_isinf :: "py_number \<Rightarrow> bool" where
  "math_isinf Infinity = True"
| "math_isinf Minus_infinity = True"
| "math_isinf _ = False"

definition require_uuid :: "string \<Rightarrow> string \<Rightarrow> exn + unit" where
  "require_uuid field s =
     (if s = [] then Inl (ValueError (field @ '' must not be empty''))
      else case uuid_UUID s of Inl _ \<Rightarrow> Inl (ValueError (field @ '' is not a valid UUID'')) | Inr _ \<Rightarrow> ok)"

text \<open>Checks one after the other: the first that raises decides.\<close>

fun in_order :: "(exn + unit) list \<Rightarrow> exn + unit" where
  "in_order [] = ok"
| "in_order (r # rs) = (case r of Inl e \<Rightarrow> Inl e | Inr _ \<Rightarrow> in_order rs)"

definition require :: "bool \<Rightarrow> string \<Rightarrow> exn + unit" where
  "require b message = (if b then ok else Inl (ValueError message))"

definition validate_telemetry :: "py_number telemetry_event \<Rightarrow> exn + unit" where
  "validate_telemetry evt = in_order
     [require_uuid ''event_id'' (te_event_id evt),
      require_uuid ''organization_id'' (te_organization_id evt),
      require_uuid ''factory_id'' (te_factory_id evt),
      require_uuid ''production_line_id'' (te_production_line_id evt),
      require_uuid ''machine_id'' (te_machine_id evt),
      require_uuid ''device_id'' (te_device_id evt),
      require_uuid ''sensor_id'' (te_sensor_id evt),
      require (te_timestamp evt \<noteq> None) ''timestamp must not be empty'',
      require (te_sequence_number evt \<noteq> 0) ''sequence_number must be present and greater than zero'',
      require (te_metric evt \<in> set VALID_METRICS) ''metric is not a recognized sensor metric'',
      require (\<not> (math_isnan (te_reading evt) \<or> math_isinf (te_reading evt))) ''value must be a finite number'',
      require (te_unit evt \<noteq> []) ''unit must not be empty'']"

definition validate_machine_event :: "machine_event \<Rightarrow> exn + unit" where
  "validate_machine_event evt = in_order
     [require_uuid ''organization_id'' (me_organization_id evt),
      require_uuid ''factory_id'' (me_factory_id evt),
      require_uuid ''machine_id'' (me_machine_id evt),
      require (me_timestamp evt \<noteq> None) ''timestamp must not be empty'',
      require (\<not> (me_status evt = [] \<and> me_event_type evt = [])) ''machine event must set either status or event_type'']"

section \<open>Messages and the world\<close>

record inbound =
  im_topic :: string
  im_payload :: string
  im_id :: nat

record ingest_codec =
  ic_telemetry :: "string \<Rightarrow> exn + py_number telemetry_event"
  ic_machine :: "string \<Rightarrow> exn + machine_event"
  ic_dump_telemetry :: "py_number normalized_telemetry \<Rightarrow> exn + string"
  ic_dump_machine :: "normalized_machine_event \<Rightarrow> exn + string"
  ic_dead :: "string dead_letter_record \<Rightarrow> string"
  ic_decode :: "string \<Rightarrow> string"

record ingest_world = "string kworld" +
  iw_breaker :: circuit_breaker
  iw_uuids :: "nat \<Rightarrow> string"
  iw_uuid_tick :: nat
  iw_acks :: "nat list"

definition draw_uuid4 :: "ingest_world \<Rightarrow> string \<times> ingest_world" where
  "draw_uuid4 w = (iw_uuids w (iw_uuid_tick w), w\<lparr>iw_uuid_tick := Suc (iw_uuid_tick w)\<rparr>)"

definition ack :: "inbound \<Rightarrow> ingest_world \<Rightarrow> ingest_world" where
  "ack job w = w\<lparr>iw_acks := iw_acks w @ [im_id job]\<rparr>"

section \<open>The Kafka sink\<close>

definition in_dead_letter ::
  "ingestion_config \<Rightarrow> ingest_codec \<Rightarrow> string \<Rightarrow> exn \<Rightarrow> error_type \<Rightarrow> string \<Rightarrow> string \<Rightarrow> string \<Rightarrow> ingest_world \<Rightarrow>
   (exn + unit) \<times> ingest_world" where
  "in_dead_letter cfg cd raw_payload cause error_type stage correlation_id source_topic w =
     (let rec = \<lparr>dl_original_payload = ic_decode cd raw_payload, dl_error = cause, dl_error_type = error_type,
                 dl_service = ''ingestion'', dl_processing_stage = stage, dl_retry_count = ig_kafka_max_retries cfg,
                 dl_timestamp = utc_at (clock w), dl_correlation_id = correlation_id, dl_source_topic = source_topic\<rparr>
      in case produce_and_wait (ig_topic_dead_letter cfg) correlation_id (ic_dead cd rec) w of
           (Inl e, w') \<Rightarrow> (Inl (KafkaPublishError (''dead-letter write also failed: '' @ str_exn e)), inc ''messages_failed_total:kafka_unreachable'' w')
         | (Inr _, w') \<Rightarrow> (ok, inc ''messages_processed_total:dead_letter'' (inc ''dlq_messages_total'' w')))"

definition dead_letter_validation_failure ::
  "ingestion_config \<Rightarrow> ingest_codec \<Rightarrow> string \<Rightarrow> exn \<Rightarrow> string \<Rightarrow> string \<Rightarrow> ingest_world \<Rightarrow> (exn + unit) \<times> ingest_world" where
  "dead_letter_validation_failure cfg cd raw_payload validation_err correlation_id source_topic w =
     in_dead_letter cfg cd raw_payload validation_err VALIDATION_ERROR ''validation'' correlation_id source_topic w"

definition in_write_with_protection ::
  "ingestion_config \<Rightarrow> string \<Rightarrow> string \<Rightarrow> string \<Rightarrow> ingest_world \<Rightarrow> (exn + unit) \<times> ingest_world" where
  "in_write_with_protection cfg topic key payload w =
     (let (r, cb, w') = guarded_call (KafkaPublishError (''circuit breaker open for kafka topic '' @ topic))
            (ig_kafka_max_retries cfg) (ig_kafka_retry_base_delay_seconds cfg)
            (produce_and_wait topic key payload) sleep clock (iw_breaker w) w
      in (r, w'\<lparr>iw_breaker := cb\<rparr>))"

definition publish_telemetry ::
  "ingestion_config \<Rightarrow> ingest_codec \<Rightarrow> string \<Rightarrow> py_number normalized_telemetry \<Rightarrow> string \<Rightarrow> string \<Rightarrow> ingest_world \<Rightarrow>
   (exn + unit) \<times> ingest_world" where
  "publish_telemetry cfg cd key evt raw_payload source_topic w =
     (case ic_dump_telemetry cd evt of
        Inl e \<Rightarrow> (Inl (ErrPermanent (''marshal normalized telemetry: '' @ str_exn e)), w)
      | Inr payload \<Rightarrow>
          (case in_write_with_protection cfg (ig_topic_telemetry_raw cfg) key payload w of
             (Inr _, w') \<Rightarrow> (ok, inc ''messages_processed_total:success'' w')
           | (Inl e, w') \<Rightarrow>
               in_dead_letter cfg cd raw_payload e TRANSIENT_ERROR ''kafka_publish'' (nt_correlation_id evt) source_topic w'))"

definition publish_machine_event ::
  "ingestion_config \<Rightarrow> ingest_codec \<Rightarrow> string \<Rightarrow> normalized_machine_event \<Rightarrow> string \<Rightarrow> string \<Rightarrow> ingest_world \<Rightarrow>
   (exn + unit) \<times> ingest_world" where
  "publish_machine_event cfg cd key evt raw_payload source_topic w =
     (case ic_dump_machine cd evt of
        Inl e \<Rightarrow> (Inl (ErrPermanent (''marshal normalized machine event: '' @ str_exn e)), w)
      | Inr payload \<Rightarrow>
          (case in_write_with_protection cfg (ig_topic_device_events cfg) key payload w of
             (Inr _, w') \<Rightarrow> (ok, inc ''messages_processed_total:success'' w')
           | (Inl e, w') \<Rightarrow>
               in_dead_letter cfg cd raw_payload e TRANSIENT_ERROR ''kafka_publish'' (nm_correlation_id evt) source_topic w'))"

section \<open>Handling a message\<close>

definition normalize_telemetry :: "py_number telemetry_event \<Rightarrow> datetime \<Rightarrow> py_number normalized_telemetry" where
  "normalize_telemetry raw t =
     telemetry_event.extend raw (normalized_telemetry.fields (te_event_id raw) t SCHEMA_VERSION)"

definition normalize_machine_event :: "machine_event \<Rightarrow> string \<Rightarrow> datetime \<Rightarrow> normalized_machine_event" where
  "normalize_machine_event raw correlation_id t =
     machine_event.extend raw (normalized_machine_event.fields correlation_id t SCHEMA_VERSION)"

text \<open>A payload that does not parse or validate: dead-lettered and acknowledged, or left for redelivery.\<close>

definition reject ::
  "ingestion_config \<Rightarrow> ingest_codec \<Rightarrow> inbound \<Rightarrow> exn \<Rightarrow> string \<Rightarrow> ingest_world \<Rightarrow> (exn + unit) \<times> ingest_world" where
  "reject cfg cd job cause correlation_id w =
     (case dead_letter_validation_failure cfg cd (im_payload job) cause correlation_id (im_topic job)
             (inc ''messages_failed_total:validation'' w) of
        (Inl _, w') \<Rightarrow> (ok, w')
      | (Inr _, w') \<Rightarrow> (ok, ack job w'))"

text \<open>After publishing: a \<open>KafkaPublishError\<close> leaves the message, any other exception escapes.\<close>

definition ack_published :: "inbound \<Rightarrow> (exn + unit) \<times> ingest_world \<Rightarrow> (exn + unit) \<times> ingest_world" where
  "ack_published job p =
     (case p of
        (Inl (KafkaPublishError _), w') \<Rightarrow> (ok, w')
      | (Inl e, w') \<Rightarrow> (Inl e, w')
      | (Inr _, w') \<Rightarrow> (ok, ack job w'))"

definition handle_telemetry ::
  "ingestion_config \<Rightarrow> ingest_codec \<Rightarrow> inbound \<Rightarrow> ingest_world \<Rightarrow> (exn + unit) \<times> ingest_world" where
  "handle_telemetry cfg cd job w =
     (case ic_telemetry cd (im_payload job) of
        Inl e \<Rightarrow> (let (correlation_id, w1) = draw_uuid4 w in reject cfg cd job e correlation_id w1)
      | Inr raw \<Rightarrow>
          (case validate_telemetry raw of
             Inl e \<Rightarrow> reject cfg cd job e (te_event_id raw) w
           | Inr _ \<Rightarrow>
               ack_published job (publish_telemetry cfg cd (te_device_id raw) (normalize_telemetry raw (utc_at (clock w)))
                 (im_payload job) (im_topic job) w)))"

definition handle_machine_event ::
  "ingestion_config \<Rightarrow> ingest_codec \<Rightarrow> inbound \<Rightarrow> ingest_world \<Rightarrow> (exn + unit) \<times> ingest_world" where
  "handle_machine_event cfg cd job w =
     (let (correlation_id, w1) = draw_uuid4 w
      in case ic_machine cd (im_payload job) of
           Inl e \<Rightarrow> reject cfg cd job e correlation_id w1
         | Inr raw \<Rightarrow>
             (case validate_machine_event raw of
                Inl e \<Rightarrow> reject cfg cd job e correlation_id w1
              | Inr _ \<Rightarrow>
                  ack_published job (publish_machine_event cfg cd (me_device_id raw)
                    (normalize_machine_event raw correlation_id (utc_at (clock w1))) (im_payload job) (im_topic job) w1)))"

definition ends_with :: "string \<Rightarrow> string \<Rightarrow> bool" where
  "ends_with s suf \<longleftrightarrow> suffix suf s"

definition in_process_message ::
  "ingestion_config \<Rightarrow> ingest_codec \<Rightarrow> inbound \<Rightarrow> ingest_world \<Rightarrow> (exn + unit) \<times> ingest_world" where
  "in_process_message cfg cd job w =
     (if ends_with (im_topic job) ''/telemetry''
      then handle_telemetry cfg cd job (inc ''messages_received_total:telemetry'' w)
      else if ends_with (im_topic job) ''/status''
      then handle_machine_event cfg cd job (inc ''messages_received_total:status'' w)
      else if ends_with (im_topic job) ''/events''
      then handle_machine_event cfg cd job (inc ''messages_received_total:events'' w)
      else (ok, ack job w))"

section \<open>What validation accepts\<close>

lemma in_order_ok: "in_order rs = ok \<longleftrightarrow> (\<forall>r\<in>set rs. r = ok)"
  by (induction rs) (auto split: sum.split)

lemma require_ok [simp]: "require b m = ok \<longleftrightarrow> b"
  by (simp add: require_def)

lemma is_uuid_not_Nil: "is_uuid s \<Longrightarrow> s \<noteq> []"
  by (auto simp: is_uuid_def uuid_UUID_def uuid_digits_def strip_chars_def)

lemma require_uuid_ok [simp]: "require_uuid f s = ok \<longleftrightarrow> is_uuid s"
  using is_uuid_not_Nil [of s] by (auto simp: require_uuid_def is_uuid_def split: sum.split)

definition telemetry_ids :: "py_number telemetry_event \<Rightarrow> string list" where
  "telemetry_ids evt =
     [te_event_id evt, te_organization_id evt, te_factory_id evt, te_production_line_id evt, te_machine_id evt, te_device_id evt,
      te_sensor_id evt]"

lemma validate_telemetry_ok:
  "validate_telemetry evt = ok \<longleftrightarrow>
     list_all is_uuid (telemetry_ids evt) \<and> te_timestamp evt \<noteq> None \<and> te_sequence_number evt \<noteq> 0 \<and>
     te_metric evt \<in> set VALID_METRICS \<and> (\<exists>x. te_reading evt = Finite x) \<and> te_unit evt \<noteq> []"
  unfolding validate_telemetry_def in_order_ok by (cases "te_reading evt") (auto simp: telemetry_ids_def)

section \<open>What a message leaves behind\<close>

text \<open>The message is in the dead-letter topic, or, as a valid event, in the topic of its kind.\<close>

definition in_dlq :: "ingestion_config \<Rightarrow> ingest_codec \<Rightarrow> inbound \<Rightarrow> ingest_world \<Rightarrow> bool" where
  "in_dlq cfg cd job w \<longleftrightarrow>
     (\<exists>k rec. (k, ic_dead cd rec) \<in> set (topics w (ig_topic_dead_letter cfg)) \<and>
        dl_original_payload rec = ic_decode cd (im_payload job) \<and> dl_source_topic rec = im_topic job)"

definition telemetry_record :: "ingest_codec \<Rightarrow> inbound \<Rightarrow> string \<times> string \<Rightarrow> bool" where
  "telemetry_record cd job r \<longleftrightarrow>
     (\<exists>raw t. ic_telemetry cd (im_payload job) = Inr raw \<and> validate_telemetry raw = ok \<and> fst r = te_device_id raw \<and>
        ic_dump_telemetry cd (normalize_telemetry raw t) = Inr (snd r))"

definition machine_record :: "ingest_codec \<Rightarrow> inbound \<Rightarrow> string \<times> string \<Rightarrow> bool" where
  "machine_record cd job r \<longleftrightarrow>
     (\<exists>raw c t. ic_machine cd (im_payload job) = Inr raw \<and> validate_machine_event raw = ok \<and> fst r = me_device_id raw \<and>
        ic_dump_machine cd (normalize_machine_event raw c t) = Inr (snd r))"

definition recorded :: "ingestion_config \<Rightarrow> ingest_codec \<Rightarrow> inbound \<Rightarrow> ingest_world \<Rightarrow> bool" where
  "recorded cfg cd job w \<longleftrightarrow>
     (if ends_with (im_topic job) ''/telemetry''
      then in_dlq cfg cd job w \<or> (\<exists>r\<in>set (topics w (ig_topic_telemetry_raw cfg)). telemetry_record cd job r)
      else if ends_with (im_topic job) ''/status'' \<or> ends_with (im_topic job) ''/events''
      then in_dlq cfg cd job w \<or> (\<exists>r\<in>set (topics w (ig_topic_device_events cfg)). machine_record cd job r)
      else True)"

lemma in_dlq_grow: "in_dlq cfg cd job w \<Longrightarrow> topics_grow w w' \<Longrightarrow> in_dlq cfg cd job w'"
  unfolding in_dlq_def by (blast dest: topics_growD)

lemma recorded_grow: "recorded cfg cd job w \<Longrightarrow> topics_grow w w' \<Longrightarrow> recorded cfg cd job w'"
  unfolding recorded_def using in_dlq_grow [of cfg cd job w w'] by (auto split: if_splits dest: topics_growD)

text \<open>The operations on the sink only add to the topics.\<close>

definition in_extends :: "ingest_world \<Rightarrow> ingest_world \<Rightarrow> bool" where
  "in_extends w w' \<longleftrightarrow> topics_grow w w' \<and> net w' = net w \<and> iw_acks w' = iw_acks w"

lemma in_extends_refl [simp, intro]: "in_extends w w"
  by (simp add: in_extends_def)

lemma in_extends_trans [trans]: "in_extends a b \<Longrightarrow> in_extends b c \<Longrightarrow> in_extends a c"
  unfolding in_extends_def by (auto intro: topics_grow_trans)

lemma in_extends_upd [simp]:
  "in_extends w (w'\<lparr>iw_breaker := cb\<rparr>) = in_extends w w'"
  "in_extends w (w'\<lparr>iw_uuid_tick := k\<rparr>) = in_extends w w'"
  "in_extends w (inc n w') = in_extends w w'"
  "in_extends w (sleep d w') = in_extends w w'"
  by (simp_all add: in_extends_def topics_grow_def inc_def sleep_def)

lemma in_extends_produce: "in_extends w (snd (produce_and_wait t k p w))"
  by (auto simp: in_extends_def topics_grow_def produce_and_wait_def append_to_def Let_def split: delivery.split)

lemma in_extends_protected: "in_extends w (snd (in_write_with_protection cfg topic key payload w))"
proof -
  let ?g = "guarded_call (KafkaPublishError (''circuit breaker open for kafka topic '' @ topic)) (ig_kafka_max_retries cfg)
      (ig_kafka_retry_base_delay_seconds cfg) (produce_and_wait topic key payload) sleep clock (iw_breaker w) w"
  have "in_extends w (snd (snd ?g))"
    by (rule guarded_invariant) (auto intro: in_extends_trans [OF _ in_extends_produce])
  then show ?thesis
    by (simp add: in_write_with_protection_def case_prod_beta)
qed

lemma in_extends_dead_letter: "in_extends w (snd (in_dead_letter cfg cd raw e et st c src w))"
  using in_extends_produce [of w "ig_topic_dead_letter cfg"]
  by (auto simp: in_dead_letter_def Let_def split: prod.split sum.split) (metis snd_conv)+

lemma net_ok_extends: "in_extends w w' \<Longrightarrow> net_ok w' = net_ok w"
  by (simp add: in_extends_def net_ok_def)

lemma written_in_topic:
  assumes "in_write_with_protection cfg topic key payload w = (ok, w')" and "net_ok w"
  shows "(key, payload) \<in> set (topics w' topic)"
proof -
  define Q where "Q = (\<lambda>v::ingest_world. net_ok v \<longrightarrow> (key, payload) \<in> set (topics v topic))"
  have Q: "Q v'" if "produce_and_wait topic key payload v = (ok, v')" for v v' :: ingest_world
    using produced_in_topic [OF that] by (simp add: Q_def)
  obtain cb w1 where g: "guarded_call (KafkaPublishError (''circuit breaker open for kafka topic '' @ topic)) (ig_kafka_max_retries cfg)
      (ig_kafka_retry_base_delay_seconds cfg) (produce_and_wait topic key payload) sleep clock (iw_breaker w) w = (ok, cb, w1)"
    and w': "w' = w1\<lparr>iw_breaker := cb\<rparr>"
    using assms(1) by (auto simp: in_write_with_protection_def split: prod.splits)
  have "net_ok w'"
    using net_ok_extends [OF in_extends_protected [of w cfg topic key payload]] assms by simp
  then show ?thesis
    using guarded_success [of "produce_and_wait topic key payload" Q, OF Q g] w' by (simp add: Q_def net_ok_def)
qed

lemma dead_lettered:
  assumes "in_dead_letter cfg cd (im_payload job) e et st c (im_topic job) w = (ok, w')" and "net_ok w"
  shows "in_dlq cfg cd job w'"
proof -
  obtain rec w1 where "produce_and_wait (ig_topic_dead_letter cfg) c (ic_dead cd rec) w = (ok, w1)" "topics w' = topics w1"
    and rec: "dl_original_payload rec = ic_decode cd (im_payload job)" "dl_source_topic rec = im_topic job"
    using assms(1) by (auto simp: in_dead_letter_def Let_def split: prod.splits sum.splits)
  from produce_ok' [OF this(1) assms(2)] this(2) have "(c, ic_dead cd rec) \<in> set (topics w' (ig_topic_dead_letter cfg))"
    by simp
  then show ?thesis
    unfolding in_dlq_def using rec by blast
qed

text \<open>The outcome of a handler: the message is left, or it is acknowledged and recorded.\<close>

definition settles_if_acked :: "ingestion_config \<Rightarrow> ingest_codec \<Rightarrow> inbound \<Rightarrow> ingest_world \<Rightarrow> (exn + unit) \<times> ingest_world \<Rightarrow> bool" where
  "settles_if_acked cfg cd job w p \<longleftrightarrow>
     (in_extends w (snd p) \<or>
      (\<exists>w1. in_extends w w1 \<and> snd p = ack job w1 \<and> fst p = ok \<and> (net_ok w \<longrightarrow> recorded cfg cd job w1)))"

lemma settles_later: "in_extends w w1 \<Longrightarrow> settles_if_acked cfg cd job w1 p \<Longrightarrow> settles_if_acked cfg cd job w p"
proof -
  assume e: "in_extends w w1" and "settles_if_acked cfg cd job w1 p"
  then consider "in_extends w1 (snd p)"
    | w2 where "in_extends w1 w2" "snd p = ack job w2" "fst p = ok" "net_ok w1 \<longrightarrow> recorded cfg cd job w2"
    unfolding settles_if_acked_def by blast
  then show "settles_if_acked cfg cd job w p"
  proof cases
    case 1
    then show ?thesis
      using in_extends_trans [OF e] by (simp add: settles_if_acked_def)
  next
    case (2 w2)
    then show ?thesis
      using in_extends_trans [OF e] net_ok_extends [OF e] by (auto simp: settles_if_acked_def)
  qed
qed

lemma settles_reject:
  assumes "ends_with (im_topic job) ''/telemetry'' \<or> ends_with (im_topic job) ''/status'' \<or> ends_with (im_topic job) ''/events''"
  shows "settles_if_acked cfg cd job w (reject cfg cd job e c w)"
proof -
  let ?w = "inc ''messages_failed_total:validation'' w"
  obtain r w' where d: "dead_letter_validation_failure cfg cd (im_payload job) e c (im_topic job) ?w = (r, w')" by fastforce
  have ext: "in_extends w w'"
    using in_extends_dead_letter [of ?w cfg cd "im_payload job" e VALIDATION_ERROR "''validation''" c "im_topic job"] d
      in_extends_trans [of w ?w w'] by (simp add: dead_letter_validation_failure_def)
  show ?thesis
  proof (cases r)
    case (Inl x)
    then show ?thesis
      using d ext by (simp add: reject_def settles_if_acked_def)
  next
    case (Inr x)
    then have "net_ok w \<longrightarrow> in_dlq cfg cd job w'"
      using dead_lettered d by (auto simp: dead_letter_validation_failure_def net_ok_def)
    then show ?thesis
      using d ext Inr assms by (auto simp: reject_def settles_if_acked_def recorded_def)
  qed
qed

lemma settles_published:
  assumes "in_extends w (snd p)" and "fst p = ok \<Longrightarrow> net_ok w \<Longrightarrow> recorded cfg cd job (snd p)"
  shows "settles_if_acked cfg cd job w (ack_published job p)"
  using assms by (cases p) (auto simp: ack_published_def settles_if_acked_def split: sum.split exn.split)

text \<open>A protected write whose failure goes to the dead-letter topic.\<close>

definition write_or_dead_letter ::
  "ingestion_config \<Rightarrow> ingest_codec \<Rightarrow> string \<Rightarrow> string \<Rightarrow> string \<Rightarrow> string \<Rightarrow> inbound \<Rightarrow> ingest_world \<Rightarrow> (exn + unit) \<times> ingest_world" where
  "write_or_dead_letter cfg cd topic key payload c job w =
     (case in_write_with_protection cfg topic key payload w of
        (Inr _, w') \<Rightarrow> (ok, inc ''messages_processed_total:success'' w')
      | (Inl e, w') \<Rightarrow> in_dead_letter cfg cd (im_payload job) e TRANSIENT_ERROR ''kafka_publish'' c (im_topic job) w')"

lemma publish_simps:
  "publish_telemetry cfg cd key evt (im_payload job) (im_topic job) w =
     (case ic_dump_telemetry cd evt of
        Inl e \<Rightarrow> (Inl (ErrPermanent (''marshal normalized telemetry: '' @ str_exn e)), w)
      | Inr payload \<Rightarrow> write_or_dead_letter cfg cd (ig_topic_telemetry_raw cfg) key payload (nt_correlation_id evt) job w)"
  "publish_machine_event cfg cd key mevt (im_payload job) (im_topic job) w =
     (case ic_dump_machine cd mevt of
        Inl e \<Rightarrow> (Inl (ErrPermanent (''marshal normalized machine event: '' @ str_exn e)), w)
      | Inr payload \<Rightarrow> write_or_dead_letter cfg cd (ig_topic_device_events cfg) key payload (nm_correlation_id mevt) job w)"
  by (auto simp: publish_telemetry_def publish_machine_event_def write_or_dead_letter_def split: sum.split)

lemma written_or_dead:
  assumes "write_or_dead_letter cfg cd topic key payload c job w = (r, w')"
  shows "in_extends w w'"
    and "r = ok \<Longrightarrow> net_ok w \<Longrightarrow> in_dlq cfg cd job w' \<or> (key, payload) \<in> set (topics w' topic)"
proof -
  obtain q w1 where q: "in_write_with_protection cfg topic key payload w = (q, w1)" by fastforce
  then have w1: "in_extends w w1"
    using in_extends_protected [of w cfg topic key payload] by simp
  show "in_extends w w'"
  proof (cases q)
    case (Inl e)
    then have "w' = snd (in_dead_letter cfg cd (im_payload job) e TRANSIENT_ERROR ''kafka_publish'' c (im_topic job) w1)"
      using assms q by (simp add: write_or_dead_letter_def)
    then show ?thesis
      by (simp add: in_extends_trans [OF w1 in_extends_dead_letter])
  next
    case (Inr u)
    then show ?thesis
      using assms q w1 by (auto simp: write_or_dead_letter_def)
  qed
  assume r: "r = ok" and net: "net_ok w"
  show "in_dlq cfg cd job w' \<or> (key, payload) \<in> set (topics w' topic)"
  proof (cases q)
    case (Inl e)
    then have "in_dead_letter cfg cd (im_payload job) e TRANSIENT_ERROR ''kafka_publish'' c (im_topic job) w1 = (ok, w')"
      using assms q r by (simp add: write_or_dead_letter_def)
    then show ?thesis
      using dead_lettered net net_ok_extends [OF w1] by blast
  next
    case (Inr u)
    then have "(key, payload) \<in> set (topics w1 topic)" and "topics w' = topics w1"
      using assms q written_in_topic net by (auto simp: write_or_dead_letter_def)
    then show ?thesis by simp
  qed
qed

lemma settles_telemetry:
  assumes "ends_with (im_topic job) ''/telemetry''"
  shows "settles_if_acked cfg cd job w (handle_telemetry cfg cd job w)"
proof (cases "ic_telemetry cd (im_payload job)")
  case (Inl e)
  have "in_extends w (snd (draw_uuid4 w))"
    by (simp add: draw_uuid4_def)
  then show ?thesis
    using settles_later settles_reject assms Inl by (simp add: handle_telemetry_def case_prod_beta)
next
  case (Inr raw)
  show ?thesis
  proof (cases "validate_telemetry raw")
    case (Inl e)
    then show ?thesis
      using Inr settles_reject assms by (simp add: handle_telemetry_def)
  next
    case v: (Inr u)
    let ?evt = "normalize_telemetry raw (utc_at (clock w))"
    obtain r w' where p: "publish_telemetry cfg cd (te_device_id raw) ?evt (im_payload job) (im_topic job) w = (r, w')" by fastforce
    have "in_extends w w' \<and> (r = ok \<longrightarrow> net_ok w \<longrightarrow> recorded cfg cd job w')"
    proof (cases "ic_dump_telemetry cd ?evt")
      case (Inl e)
      then show ?thesis
        using p by (auto simp: publish_simps)
    next
      case d: (Inr payload)
      then have "write_or_dead_letter cfg cd (ig_topic_telemetry_raw cfg) (te_device_id raw) payload (nt_correlation_id ?evt) job w = (r, w')"
        using p by (simp add: publish_simps)
      from written_or_dead [OF this] show ?thesis
        using assms Inr v d by (auto simp: recorded_def telemetry_record_def intro!: bexI [of _ "(te_device_id raw, payload)"] exI)
    qed
    then have "settles_if_acked cfg cd job w (ack_published job (r, w'))"
      by (intro settles_published) auto
    then show ?thesis
      using Inr v p by (simp add: handle_telemetry_def)
  qed
qed

lemma settles_machine:
  assumes "ends_with (im_topic job) ''/status'' \<or> ends_with (im_topic job) ''/events''" and "\<not> ends_with (im_topic job) ''/telemetry''"
  shows "settles_if_acked cfg cd job w (handle_machine_event cfg cd job w)"
proof -
  obtain c w1 where uuid: "draw_uuid4 w = (c, w1)" by fastforce
  then have w1: "in_extends w w1"
    by (auto simp: draw_uuid4_def)
  have "settles_if_acked cfg cd job w1 (handle_machine_event cfg cd job w)"
  proof (cases "ic_machine cd (im_payload job)")
    case (Inl e)
    then show ?thesis
      using settles_reject assms(1) uuid by (auto simp: handle_machine_event_def)
  next
    case (Inr raw)
    show ?thesis
    proof (cases "validate_machine_event raw")
      case (Inl e)
      then show ?thesis
        using Inr settles_reject assms(1) uuid by (auto simp: handle_machine_event_def)
    next
      case v: (Inr u)
      let ?evt = "normalize_machine_event raw c (utc_at (clock w1))"
      obtain r w' where p: "publish_machine_event cfg cd (me_device_id raw) ?evt (im_payload job) (im_topic job) w1 = (r, w')" by fastforce
      have "in_extends w1 w' \<and> (r = ok \<longrightarrow> net_ok w1 \<longrightarrow> recorded cfg cd job w')"
      proof (cases "ic_dump_machine cd ?evt")
        case (Inl e)
        then show ?thesis
          using p by (auto simp: publish_simps)
      next
        case d: (Inr payload)
        then have "write_or_dead_letter cfg cd (ig_topic_device_events cfg) (me_device_id raw) payload (nm_correlation_id ?evt) job w1 = (r, w')"
          using p by (simp add: publish_simps)
        from written_or_dead [OF this] show ?thesis
          using assms Inr v d by (auto simp: recorded_def machine_record_def intro!: bexI [of _ "(me_device_id raw, payload)"] exI)
      qed
      then have "settles_if_acked cfg cd job w1 (ack_published job (r, w'))"
        by (intro settles_published) auto
      then show ?thesis
        using Inr v p uuid by (simp add: handle_machine_event_def)
    qed
  qed
  then show ?thesis
    by (rule settles_later [OF w1])
qed

lemma settles_message: "settles_if_acked cfg cd job w (in_process_message cfg cd job w)"
proof -
  have telemetry: "settles_if_acked cfg cd job w (handle_telemetry cfg cd job (inc s w))" if "ends_with (im_topic job) ''/telemetry''" for s
    using settles_telemetry [OF that] by (intro settles_later [of w "inc s w"]) simp_all
  have machine: "settles_if_acked cfg cd job w (handle_machine_event cfg cd job (inc s w))"
    if "ends_with (im_topic job) ''/status'' \<or> ends_with (im_topic job) ''/events''" "\<not> ends_with (im_topic job) ''/telemetry''" for s
    using settles_machine [OF that] by (intro settles_later [of w "inc s w"]) simp_all
  show ?thesis
    using telemetry machine by (auto simp: in_process_message_def settles_if_acked_def recorded_def)
qed

section \<open>Only valid telemetry is forwarded\<close>

definition valid_record :: "ingest_codec \<Rightarrow> string \<times> string \<Rightarrow> bool" where
  "valid_record cd r \<longleftrightarrow>
     (\<exists>raw t. validate_telemetry raw = ok \<and> fst r = te_device_id raw \<and> ic_dump_telemetry cd (normalize_telemetry raw t) = Inr (snd r))"

definition raw_valid :: "ingestion_config \<Rightarrow> ingest_codec \<Rightarrow> ingest_world \<Rightarrow> bool" where
  "raw_valid cfg cd w \<longleftrightarrow> (\<forall>r\<in>set (topics w (ig_topic_telemetry_raw cfg)). valid_record cd r)"

definition topics_differ :: "ingestion_config \<Rightarrow> bool" where
  "topics_differ cfg \<longleftrightarrow>
     ig_topic_telemetry_raw cfg \<noteq> ig_topic_dead_letter cfg \<and> ig_topic_telemetry_raw cfg \<noteq> ig_topic_device_events cfg"

lemma raw_valid_upd [simp]:
  "raw_valid cfg cd (w\<lparr>iw_breaker := cb\<rparr>) = raw_valid cfg cd w" "raw_valid cfg cd (w\<lparr>iw_uuid_tick := k\<rparr>) = raw_valid cfg cd w"
  "raw_valid cfg cd (inc n w) = raw_valid cfg cd w" "raw_valid cfg cd (sleep d w) = raw_valid cfg cd w"
  "raw_valid cfg cd (ack job w) = raw_valid cfg cd w"
  by (simp_all add: raw_valid_def ack_def)

lemma raw_valid_produce:
  assumes "raw_valid cfg cd w" and "t = ig_topic_telemetry_raw cfg \<Longrightarrow> valid_record cd (k, p)"
  shows "raw_valid cfg cd (snd (produce_and_wait t k p w))"
  using assms by (auto simp: raw_valid_def produce_topics)

lemma raw_valid_dead_letter:
  assumes "raw_valid cfg cd w" and "topics_differ cfg"
  shows "raw_valid cfg cd (snd (in_dead_letter cfg cd raw e et st c src w))"
  using raw_valid_produce [OF assms(1), of "ig_topic_dead_letter cfg"] assms(2)
  by (auto simp: in_dead_letter_def topics_differ_def Let_def split: prod.split sum.split) (metis snd_conv)+

lemma raw_valid_write_or_dead:
  assumes "raw_valid cfg cd w" and "topics_differ cfg" and "topic = ig_topic_telemetry_raw cfg \<Longrightarrow> valid_record cd (key, payload)"
  shows "raw_valid cfg cd (snd (write_or_dead_letter cfg cd topic key payload c job w))"
proof -
  let ?g = "guarded_call (KafkaPublishError (''circuit breaker open for kafka topic '' @ topic)) (ig_kafka_max_retries cfg)
      (ig_kafka_retry_base_delay_seconds cfg) (produce_and_wait topic key payload) sleep clock (iw_breaker w) w"
  have "raw_valid cfg cd (snd (snd ?g))"
    by (rule guarded_invariant) (auto intro: raw_valid_produce assms)
  then have "raw_valid cfg cd (snd (in_write_with_protection cfg topic key payload w))"
    by (simp add: in_write_with_protection_def case_prod_beta)
  then show ?thesis
    using raw_valid_dead_letter [OF _ assms(2)] by (auto simp: write_or_dead_letter_def split: prod.split sum.split)
qed

lemma raw_valid_reject:
  "raw_valid cfg cd w \<Longrightarrow> topics_differ cfg \<Longrightarrow> raw_valid cfg cd (snd (reject cfg cd job e c w))"
  using raw_valid_dead_letter [of cfg cd "inc ''messages_failed_total:validation'' w" "im_payload job" e VALIDATION_ERROR "''validation''" c "im_topic job"]
  by (auto simp: reject_def dead_letter_validation_failure_def split: prod.split sum.split)

lemma raw_valid_ack_published: "raw_valid cfg cd (snd p) \<Longrightarrow> raw_valid cfg cd (snd (ack_published job p))"
  by (cases p) (auto simp: ack_published_def split: sum.split exn.split)

lemma raw_valid_telemetry:
  assumes "raw_valid cfg cd w" and "topics_differ cfg"
  shows "raw_valid cfg cd (snd (handle_telemetry cfg cd job w))"
proof -
  have "raw_valid cfg cd (snd (publish_telemetry cfg cd (te_device_id raw) (normalize_telemetry raw t) (im_payload job) (im_topic job) w))"
    if "validate_telemetry raw = ok" for raw t
  proof (cases "ic_dump_telemetry cd (normalize_telemetry raw t)")
    case (Inr p)
    then have "valid_record cd (te_device_id raw, p)"
      using that by (auto simp: valid_record_def)
    then show ?thesis
      using Inr assms by (simp add: publish_simps raw_valid_write_or_dead)
  qed (use assms in \<open>simp add: publish_simps\<close>)
  then show ?thesis
    using assms by (auto simp: handle_telemetry_def draw_uuid4_def intro!: raw_valid_reject raw_valid_ack_published split: sum.split)
qed

lemma raw_valid_machine:
  assumes "raw_valid cfg cd w" and "topics_differ cfg"
  shows "raw_valid cfg cd (snd (handle_machine_event cfg cd job w))"
proof -
  have "raw_valid cfg cd (snd (publish_machine_event cfg cd k evt (im_payload job) (im_topic job) v))"
    if "raw_valid cfg cd v" for k evt v
    using that assms(2) by (auto simp: publish_simps topics_differ_def intro!: raw_valid_write_or_dead split: sum.split)
  then show ?thesis
    using assms by (auto simp: handle_machine_event_def draw_uuid4_def Let_def intro!: raw_valid_reject raw_valid_ack_published split: sum.split)
qed

lemma raw_valid_message:
  "raw_valid cfg cd w \<Longrightarrow> topics_differ cfg \<Longrightarrow> raw_valid cfg cd (snd (in_process_message cfg cd job w))"
  by (simp add: in_process_message_def raw_valid_telemetry raw_valid_machine)

section \<open>With a working broker\<close>

lemma acks_inc [simp]: "iw_acks (inc n w) = iw_acks w" "iw_uuids (inc n w) = iw_uuids w" "iw_uuid_tick (inc n w) = iw_uuid_tick w"
  by (simp_all add: inc_def)

definition kafka_up :: "ingestion_config \<Rightarrow> ingest_world \<Rightarrow> bool" where
  "kafka_up cfg w \<longleftrightarrow> (\<forall>i. net w i = Delivered) \<and> cb_state (iw_breaker w) = CLOSED \<and> 1 \<le> ig_kafka_max_retries cfg"

text \<open>Where a message goes, with what key and payload, for the next random identifier and the current time.\<close>

definition dead_record :: "ingestion_config \<Rightarrow> ingest_codec \<Rightarrow> inbound \<Rightarrow> exn \<Rightarrow> string \<Rightarrow> datetime \<Rightarrow> string" where
  "dead_record cfg cd job e c t = ic_dead cd
     \<lparr>dl_original_payload = ic_decode cd (im_payload job), dl_error = e, dl_error_type = VALIDATION_ERROR, dl_service = ''ingestion'',
      dl_processing_stage = ''validation'', dl_retry_count = ig_kafka_max_retries cfg, dl_timestamp = t, dl_correlation_id = c,
      dl_source_topic = im_topic job\<rparr>"

definition destination :: "ingestion_config \<Rightarrow> ingest_codec \<Rightarrow> inbound \<Rightarrow> string \<Rightarrow> datetime \<Rightarrow> exn + (string \<times> string \<times> string) option" where
  "destination cfg cd job u t =
     (let dead = \<lambda>e c. Inr (Some (ig_topic_dead_letter cfg, c, dead_record cfg cd job e c t))
      in if ends_with (im_topic job) ''/telemetry'' then
           (case ic_telemetry cd (im_payload job) of
              Inl e \<Rightarrow> dead e u
            | Inr raw \<Rightarrow>
                case validate_telemetry raw of
                  Inl e \<Rightarrow> dead e (te_event_id raw)
                | Inr _ \<Rightarrow> map_sum id (\<lambda>p. Some (ig_topic_telemetry_raw cfg, te_device_id raw, p)) (ic_dump_telemetry cd (normalize_telemetry raw t)))
         else if ends_with (im_topic job) ''/status'' \<or> ends_with (im_topic job) ''/events'' then
           (case ic_machine cd (im_payload job) of
              Inl e \<Rightarrow> dead e u
            | Inr raw \<Rightarrow>
                case validate_machine_event raw of
                  Inl e \<Rightarrow> dead e u
                | Inr _ \<Rightarrow> map_sum id (\<lambda>p. Some (ig_topic_device_events cfg, me_device_id raw, p)) (ic_dump_machine cd (normalize_machine_event raw u t)))
         else Inr None)"

definition delivered :: "(string \<times> string \<times> string) option \<Rightarrow> ingest_world \<Rightarrow> ingest_world \<Rightarrow> bool" where
  "delivered d w w' \<longleftrightarrow>
     topics w' = (case d of None \<Rightarrow> topics w | Some (t, k, p) \<Rightarrow> (topics w)(t := topics w t @ [(k, p)]))"

lemma produce_up: "net w (tick w) = Delivered \<Longrightarrow> produce_and_wait t k p w = (ok, append_to t k p (w\<lparr>tick := Suc (tick w)\<rparr>))"
  by (simp add: produce_and_wait_def Let_def)

lemma retry_first: "fn w = (ok, w') \<Longrightarrow> 1 \<le> m \<Longrightarrow> retry_with_backoff m b fn slp w = (ok, w')"
  by (simp add: retry_with_backoff_def upto.simps)

definition routed :: "ingestion_config \<Rightarrow> (string \<times> string \<times> string) option \<Rightarrow> inbound \<Rightarrow> ingest_world \<Rightarrow> ingest_world \<Rightarrow> bool" where
  "routed cfg d job w w' \<longleftrightarrow>
     iw_acks w' = iw_acks w @ [im_id job] \<and> delivered d w w' \<and> kafka_up cfg w' \<and> clock w' = clock w"

lemma write_up:
  assumes "kafka_up cfg w"
  shows "\<exists>w'. write_or_dead_letter cfg cd topic key payload c job w = (ok, w') \<and> iw_acks w' = iw_acks w \<and>
    delivered (Some (topic, key, payload)) w w' \<and> kafka_up cfg w' \<and> clock w' = clock w"
proof -
  have p: "produce_and_wait topic key payload w = (ok, append_to topic key payload (w\<lparr>tick := Suc (tick w)\<rparr>))"
    using assms by (intro produce_up) (simp add: kafka_up_def)
  show ?thesis
    using assms retry_first [of "produce_and_wait topic key payload", OF p]
    by (simp add: write_or_dead_letter_def in_write_with_protection_def guarded_call_def allow_def kafka_up_def delivered_def append_to_def record_success_def inc_def)
qed

lemma reject_up:
  assumes "kafka_up cfg w"
  shows "\<exists>w'. reject cfg cd job e c w = (ok, w') \<and>
    routed cfg (Some (ig_topic_dead_letter cfg, c, dead_record cfg cd job e c (utc_at (clock w)))) job w w'"
proof -
  let ?w = "inc ''messages_failed_total:validation'' w"
  have up: "net ?w (tick ?w) = Delivered"
    using assms by (simp add: kafka_up_def)
  show ?thesis
    by (simp add: reject_def dead_letter_validation_failure_def in_dead_letter_def produce_up [OF up] Let_def)
       (use assms in \<open>simp add: ack_def append_to_def delivered_def dead_record_def inc_def routed_def kafka_up_def\<close>)
qed

lemma published_up:
  assumes "kafka_up cfg w"
  shows "\<exists>w'. ack_published job (write_or_dead_letter cfg cd topic key payload c job w) = (ok, w') \<and>
    routed cfg (Some (topic, key, payload)) job w w'"
  using write_up [OF assms, of cd topic key payload c job] by (auto simp: ack_published_def ack_def delivered_def routed_def kafka_up_def)

lemma kafka_up_upd [simp]:
  "kafka_up cfg (inc n w) = kafka_up cfg w" "kafka_up cfg (w\<lparr>iw_uuid_tick := k\<rparr>) = kafka_up cfg w"
  by (simp_all add: kafka_up_def inc_def)

lemma delivered_upd [simp]:
  "delivered d (inc n w) w' = delivered d w w'" "delivered d (w\<lparr>iw_uuid_tick := k\<rparr>) w' = delivered d w w'"
  by (simp_all add: delivered_def split: option.split)

lemma routed_upd [simp]:
  "routed cfg d job (inc n w) w' = routed cfg d job w w'" "routed cfg d job (w\<lparr>iw_uuid_tick := k\<rparr>) w' = routed cfg d job w w'"
  by (simp_all add: routed_def)

lemma telemetry_up:
  assumes "kafka_up cfg w" and "ends_with (im_topic job) ''/telemetry''"
    and "destination cfg cd job (iw_uuids w (iw_uuid_tick w)) (utc_at (clock w)) = Inr d"
  shows "\<exists>w'. handle_telemetry cfg cd job w = (ok, w') \<and> routed cfg d job w w'"
proof (cases "ic_telemetry cd (im_payload job)")
  case (Inl e)
  then show ?thesis
    using assms reject_up [of cfg "w\<lparr>iw_uuid_tick := Suc (iw_uuid_tick w)\<rparr>" cd job e "iw_uuids w (iw_uuid_tick w)"]
    by (auto simp: handle_telemetry_def draw_uuid4_def destination_def)
next
  case (Inr raw)
  show ?thesis
  proof (cases "validate_telemetry raw")
    case (Inl e)
    then show ?thesis
      using assms Inr reject_up [of cfg w cd job e "te_event_id raw"] by (auto simp: handle_telemetry_def destination_def)
  next
    case v: (Inr u)
    then show ?thesis
      using assms Inr published_up [OF assms(1)]
      by (cases "ic_dump_telemetry cd (normalize_telemetry raw (utc_at (clock w)))")
         (auto simp: handle_telemetry_def destination_def publish_simps)
  qed
qed

lemma machine_up:
  assumes "kafka_up cfg w" and "\<not> ends_with (im_topic job) ''/telemetry''"
    and "ends_with (im_topic job) ''/status'' \<or> ends_with (im_topic job) ''/events''"
    and "destination cfg cd job (iw_uuids w (iw_uuid_tick w)) (utc_at (clock w)) = Inr d"
  shows "\<exists>w'. handle_machine_event cfg cd job w = (ok, w') \<and> routed cfg d job w w'"
proof -
  define w1 where "w1 = w\<lparr>iw_uuid_tick := Suc (iw_uuid_tick w)\<rparr>"
  have w1: "kafka_up cfg w1" "clock w1 = clock w" "\<And>d x. routed cfg d job w1 x = routed cfg d job w x"
    using assms(1) by (simp_all add: w1_def)
  have u: "draw_uuid4 w = (iw_uuids w (iw_uuid_tick w), w1)"
    by (simp add: draw_uuid4_def w1_def)
  show ?thesis
  proof (cases "ic_machine cd (im_payload job)")
    case (Inl e)
    then show ?thesis
      using assms w1 u reject_up [OF w1(1), of cd job e "iw_uuids w (iw_uuid_tick w)"]
      by (auto simp: handle_machine_event_def destination_def)
  next
    case (Inr raw)
    show ?thesis
    proof (cases "validate_machine_event raw")
      case (Inl e)
      then show ?thesis
        using assms w1 u Inr reject_up [OF w1(1), of cd job e "iw_uuids w (iw_uuid_tick w)"]
        by (auto simp: handle_machine_event_def destination_def)
    next
      case v: (Inr x)
      let ?evt = "normalize_machine_event raw (iw_uuids w (iw_uuid_tick w)) (utc_at (clock w))"
      obtain p where p: "ic_dump_machine cd ?evt = Inr p" "d = Some (ig_topic_device_events cfg, me_device_id raw, p)"
        using assms Inr v by (cases "ic_dump_machine cd ?evt") (auto simp: destination_def)
      have "handle_machine_event cfg cd job w =
          ack_published job (write_or_dead_letter cfg cd (ig_topic_device_events cfg) (me_device_id raw) p (nm_correlation_id ?evt) job w1)"
        using u Inr v p(1) w1(2) by (simp add: handle_machine_event_def publish_simps)
      then show ?thesis
        using published_up [OF w1(1), of job cd "ig_topic_device_events cfg" "me_device_id raw" p "nm_correlation_id ?evt"] w1(3) p(2)
        by simp
    qed
  qed
qed

lemma message_routed:
  assumes "kafka_up cfg w" and "destination cfg cd job (iw_uuids w (iw_uuid_tick w)) (utc_at (clock w)) = Inr d"
  shows "\<exists>w'. in_process_message cfg cd job w = (ok, w') \<and> routed cfg d job w w'"
proof -
  have "\<exists>w'. handle_telemetry cfg cd job (inc s w) = (ok, w') \<and> routed cfg d job w w'"
    if "ends_with (im_topic job) ''/telemetry''" for s
    using telemetry_up [of cfg "inc s w", OF _ that] assms by simp
  moreover have "\<exists>w'. handle_machine_event cfg cd job (inc s w) = (ok, w') \<and> routed cfg d job w w'"
    if "\<not> ends_with (im_topic job) ''/telemetry''" "ends_with (im_topic job) ''/status'' \<or> ends_with (im_topic job) ''/events''" for s
    using machine_up [of cfg "inc s w", OF _ that] assms by simp
  moreover have "routed cfg None job w (ack job w)"
    using assms(1) by (simp add: routed_def delivered_def ack_def kafka_up_def)
  ultimately show ?thesis
    using assms(2) by (auto simp: in_process_message_def destination_def)
qed

text \<open>
  C33. While Kafka takes every record and the breaker is closed, a message is acknowledged after exactly one record has been
  appended to exactly one topic: a valid reading or event to the topic of its kind, under its device identifier; a payload
  that does not parse or validate to the dead-letter topic; only a message on an unknown topic is acknowledged with no
  record. The one exception is an event that cannot be printed.
\<close>
theorem message_is_routed:
  assumes "kafka_up cfg w" and "destination cfg cd job (iw_uuids w (iw_uuid_tick w)) (utc_at (clock w)) = Inr d"
  shows "\<exists>w'. in_process_message cfg cd job w = (ok, w') \<and> iw_acks w' = iw_acks w @ [im_id job] \<and> delivered d w w'"
  using message_routed [OF assms] by (auto simp: routed_def)

section \<open>A concrete message\<close>

definition demo_uuid :: string where
  "demo_uuid = ''0189e6a2-7c3b-4f00-8000-00000000abcd''"

lemma demo_uuid_ok: "is_uuid demo_uuid"
proof (rule usual_uuid_accepted)
  have "demo_uuid = ''0189e6a2'' @ ''-'' @ ''7c3b'' @ ''-'' @ ''4f00'' @ ''-'' @ ''8000'' @ ''-'' @ ''00000000abcd''"
    by (simp add: demo_uuid_def)
  moreover have "list_all is_hex (''0189e6a2'' @ ''7c3b'' @ ''4f00'' @ ''8000'' @ ''00000000abcd'')"
    by (simp add: is_hex_def)
  ultimately show "usual_uuid demo_uuid"
    unfolding usual_uuid_def by (intro exI conjI) (assumption | simp)+
qed

definition demo_reading :: "int \<Rightarrow> py_number telemetry_event" where
  "demo_reading n =
     \<lparr>te_event_id = demo_uuid, te_organization_id = demo_uuid, te_factory_id = demo_uuid, te_production_line_id = demo_uuid,
      te_machine_id = demo_uuid, te_device_id = demo_uuid, te_sensor_id = demo_uuid, te_timestamp = Some (Aware 0),
      te_sequence_number = n, te_metric = ''temperature'', te_reading = Finite 21, te_unit = ''C''\<rparr>"

definition demo_ingest_codec :: ingest_codec where
  "demo_ingest_codec =
     \<lparr>ic_telemetry = (\<lambda>p. if p = [] then Inl (ValueError ''json'') else Inr (demo_reading (int (length p)))),
      ic_machine = (\<lambda>p. Inl (ValueError ''json'')), ic_dump_telemetry = (\<lambda>e. Inr (str_int (te_sequence_number e))),
      ic_dump_machine = (\<lambda>e. Inr []), ic_dead = (\<lambda>r. ''dead''), ic_decode = (\<lambda>p. p)\<rparr>"

definition demo_ingest_world :: ingest_world where
  "demo_ingest_world =
     \<lparr>topics = (\<lambda>_. []), net = (\<lambda>_. Delivered), tick = 0, clock = 0, counters = (\<lambda>_. 0), iw_breaker = new_breaker 5 15,
      iw_uuids = (\<lambda>n. demo_uuid), iw_uuid_tick = 0, iw_acks = []\<rparr>"

definition demo_ingest_config :: ingestion_config where
  "demo_ingest_config = load_ingestion_config (\<lambda>_. None)"

definition demo_message :: "nat \<Rightarrow> inbound" where
  "demo_message n = \<lparr>im_topic = ''factory/f/machine/m/sensor/s/telemetry'', im_payload = replicate n CHR ''x'', im_id = n\<rparr>"

text \<open>A negative sequence number passes; the check is for zero only.\<close>

lemma negative_sequence_is_valid: "validate_telemetry (demo_reading (-1)) = ok"
  by (simp add: validate_telemetry_ok telemetry_ids_def demo_reading_def demo_uuid_ok VALID_METRICS_def)

lemma demo_destination:
  "0 < n \<Longrightarrow> destination demo_ingest_config demo_ingest_codec (demo_message n) u t = Inr (Some (''telemetry.raw'', demo_uuid, str_nat n))"
proof -
  assume n: "0 < n"
  then have "validate_telemetry (demo_reading (int n)) = ok"
    by (simp add: validate_telemetry_ok telemetry_ids_def demo_reading_def demo_uuid_ok VALID_METRICS_def)
  moreover have "ends_with (im_topic (demo_message n)) ''/telemetry''"
    by (simp add: ends_with_def demo_message_def suffix_def exI [of _ "''factory/f/machine/m/sensor/s''"])
  ultimately show ?thesis
    using n by (simp add: destination_def demo_message_def demo_ingest_codec_def demo_ingest_config_def load_ingestion_config_def
        env_str_def demo_reading_def normalize_telemetry_def telemetry_event.defs str_int_def)
qed

lemma demo_config: "1 \<le> ig_kafka_max_retries demo_ingest_config" "2 \<le> ig_worker_pool_size demo_ingest_config"
  "2 \<le> ig_queue_capacity demo_ingest_config" "topics_differ demo_ingest_config" "ig_topic_telemetry_raw demo_ingest_config = ''telemetry.raw''"
  by (simp_all add: demo_ingest_config_def load_ingestion_config_def env_int_def env_str_def topics_differ_def)

lemma demo_kafka_up: "kafka_up demo_ingest_config demo_ingest_world"
  using demo_config(1) by (simp add: kafka_up_def demo_ingest_world_def new_breaker_def)

theorem message_is_routed_witness:
  "\<exists>w'. in_process_message demo_ingest_config demo_ingest_codec (demo_message 3) demo_ingest_world = (ok, w') \<and> iw_acks w' = [3] \<and>
    topics w' ''telemetry.raw'' = [(demo_uuid, ''3'')]"
proof -
  have "str_nat 3 = ''3''" by code_simp
  then show ?thesis
    using message_is_routed [OF demo_kafka_up demo_destination, of 3] by (auto simp: delivered_def demo_ingest_world_def demo_message_def)
qed

end
