(* ===== verification/Simulator.thy ===== *)
theory Simulator
  imports Sim_Sensors Ingestion
begin

text \<open>
  \<open>simulator/main.py\<close>: the sensor and machine tasks of its event loop, the delayed sends, the bounded queue and the
  publisher threads. What a task does between two awaits is one step; a task first wakes, which is when it looks at the
  shutdown flag, and then does its work. A message is kept as the event it prints. What the broker answers to a publish is
  a choice of the step, and so is every interleaving. Two fields only record: all messages handed to the queue, and all
  readings generated.
\<close>

section \<open>State\<close>

record catalog_entry =
  sc_organization_id :: string
  sc_factory_id :: string
  sc_production_line_id :: string
  sc_machine_id :: string
  sc_device_id :: string
  sc_sensor_id :: string
  sc_metric :: string
  sc_unit :: string
  sc_min_value :: real
  sc_max_value :: real

record machine_status_event =
  ms_organization_id :: string
  ms_factory_id :: string
  ms_machine_id :: string
  ms_status :: string
  ms_timestamp :: "datetime option"

type_synonym reading = "py_number telemetry_event"

datatype sim_payload = Reading reading | Event machine_event | Status machine_status_event

record publish_job =
  pj_topic :: string
  pj_payload :: sim_payload

record sim_stats =
  st_published :: nat
  st_duplicates :: nat
  st_delayed :: nat
  st_out_of_order :: nat
  st_anomalies :: nat
  st_dropped :: nat
  st_sensor_failed :: nat
  st_publish_errs :: nat

record sensor_task =
  sk_awake :: bool
  sk_dice :: dice
  sk_gen :: sensor_generator
  sk_seq :: nat
  sk_failed :: bool

record delayed_send =
  ds_topic :: string
  ds_event :: reading
  ds_duplicate :: bool

record simulation =
  si_clock :: real
  si_uuids :: "nat \<Rightarrow> string"
  si_uuid_tick :: nat
  si_sensors :: "nat \<Rightarrow> sensor_task"
  si_controller_awake :: "nat \<Rightarrow> bool"
  si_controller_dice :: "nat \<Rightarrow> dice"
  si_running :: "string \<Rightarrow> bool"
  si_timers :: "delayed_send list"
  si_queue :: "publish_job list"
  si_hands :: "publish_job list"
  si_workers :: nat
  si_stats :: sim_stats
  si_shutdown :: bool
  si_loop_over :: bool
  si_offered :: "publish_job list"
  si_made :: "reading list"

section \<open>Sending\<close>

definition sim_queue_full :: "simulator_config \<Rightarrow> publish_job list \<Rightarrow> bool" where
  "sim_queue_full cfg q \<longleftrightarrow> 0 < sm_queue_capacity cfg \<and> sm_queue_capacity cfg \<le> int (length q)"

definition enqueue :: "simulator_config \<Rightarrow> string \<Rightarrow> sim_payload \<Rightarrow> simulation \<Rightarrow> simulation" where
  "enqueue cfg topic payload s =
     (let job = \<lparr>pj_topic = topic, pj_payload = payload\<rparr>; s = s\<lparr>si_offered := si_offered s @ [job]\<rparr>
      in if sim_queue_full cfg (si_queue s) then s\<lparr>si_stats := (si_stats s)\<lparr>st_dropped := Suc (st_dropped (si_stats s))\<rparr>\<rparr>
         else s\<lparr>si_queue := si_queue s @ [job]\<rparr>)"

definition send_event :: "simulator_config \<Rightarrow> string \<Rightarrow> reading \<Rightarrow> bool \<Rightarrow> simulation \<Rightarrow> simulation" where
  "send_event cfg topic evt duplicate s =
     (let s = enqueue cfg topic (Reading evt) s
      in if duplicate
         then enqueue cfg topic (Reading evt) (s\<lparr>si_stats := (si_stats s)\<lparr>st_duplicates := Suc (st_duplicates (si_stats s))\<rparr>\<rparr>)
         else s)"

definition publish_event :: "simulator_config \<Rightarrow> reading \<Rightarrow> string \<Rightarrow> fault_decision \<Rightarrow> simulation \<Rightarrow> simulation" where
  "publish_event cfg evt topic fd s =
     (if fd_delayed fd
      then let s = s\<lparr>si_stats := (si_stats s)\<lparr>st_delayed := Suc (st_delayed (si_stats s))\<rparr>\<rparr>;
               s = (if fd_out_of_order fd
                    then s\<lparr>si_stats := (si_stats s)\<lparr>st_out_of_order := Suc (st_out_of_order (si_stats s))\<rparr>\<rparr> else s)
           in s\<lparr>si_timers := si_timers s @ [\<lparr>ds_topic = topic, ds_event = evt, ds_duplicate = fd_duplicate fd\<rparr>]\<rparr>
      else send_event cfg topic evt (fd_duplicate fd) s)"

definition delayed_send_fires :: "simulator_config \<Rightarrow> delayed_send \<Rightarrow> simulation \<Rightarrow> simulation" where
  "delayed_send_fires cfg d s =
     send_event cfg (ds_topic d) (ds_event d) (ds_duplicate d) (s\<lparr>si_timers := remove1 d (si_timers s)\<rparr>)"

section \<open>Sensors\<close>

definition telemetry_topic :: "catalog_entry \<Rightarrow> string" where
  "telemetry_topic e =
     ''factory/'' @ sc_factory_id e @ ''/machine/'' @ sc_machine_id e @ ''/sensor/'' @ sc_sensor_id e @ ''/telemetry''"

definition events_topic :: "catalog_entry \<Rightarrow> string" where
  "events_topic e = ''factory/'' @ sc_factory_id e @ ''/machine/'' @ sc_machine_id e @ ''/events''"

definition status_topic :: "catalog_entry \<Rightarrow> string" where
  "status_topic e = ''factory/'' @ sc_factory_id e @ ''/machine/'' @ sc_machine_id e @ ''/status''"

definition sensor_event :: "catalog_entry \<Rightarrow> string \<Rightarrow> datetime \<Rightarrow> machine_event" where
  "sensor_event e event_type now =
     \<lparr>me_organization_id = sc_organization_id e, me_factory_id = sc_factory_id e, me_machine_id = sc_machine_id e,
      me_device_id = sc_device_id e, me_sensor_id = sc_sensor_id e, me_status = [], me_event_type = event_type,
      me_timestamp = Some now\<rparr>"

definition reading_of :: "catalog_entry \<Rightarrow> string \<Rightarrow> datetime \<Rightarrow> nat \<Rightarrow> real \<Rightarrow> reading" where
  "reading_of e event_id now seq v =
     \<lparr>te_event_id = event_id, te_organization_id = sc_organization_id e, te_factory_id = sc_factory_id e,
      te_production_line_id = sc_production_line_id e, te_machine_id = sc_machine_id e, te_device_id = sc_device_id e,
      te_sensor_id = sc_sensor_id e, te_timestamp = Some now, te_sequence_number = int seq, te_metric = sc_metric e,
      te_reading = Finite v, te_unit = sc_unit e\<rparr>"

text \<open>The body of the loop for one sensor, which starts when the wait is over and ends with the next one.\<close>

definition report_failure :: "simulator_config \<Rightarrow> catalog_entry \<Rightarrow> bool \<Rightarrow> bool \<Rightarrow> simulation \<Rightarrow> simulation" where
  "report_failure cfg e was_failed failed s =
     (if failed = was_failed then s
      else if failed
      then enqueue cfg (events_topic e) (Event (sensor_event e ''SENSOR_FAILURE'' (utc_at (si_clock s))))
             (s\<lparr>si_stats := (si_stats s)\<lparr>st_sensor_failed := Suc (st_sensor_failed (si_stats s))\<rparr>\<rparr>)
      else enqueue cfg (events_topic e) (Event (sensor_event e ''SENSOR_RECOVERED'' (utc_at (si_clock s)))) s)"

definition take_reading :: "simulator_config \<Rightarrow> catalog_entry \<Rightarrow> nat \<Rightarrow> sensor_task \<Rightarrow> simulation \<Rightarrow> simulation" where
  "take_reading cfg e i t s =
     (let seq = Suc (sk_seq t);
          ((v, is_anomaly), gen, r) = next_reading (sk_gen t) (sk_dice t);
          s = (if is_anomaly then s\<lparr>si_stats := (si_stats s)\<lparr>st_anomalies := Suc (st_anomalies (si_stats s))\<rparr>\<rparr> else s);
          evt = reading_of e (si_uuids s (si_uuid_tick s)) (utc_at (si_clock s)) seq v;
          (fd, r) = decide_faults r cfg;
          s = s\<lparr>si_uuid_tick := Suc (si_uuid_tick s), si_made := si_made s @ [evt],
                si_sensors := (si_sensors s)(i := t\<lparr>sk_gen := gen, sk_dice := r, sk_seq := seq\<rparr>)\<rparr>
      in publish_event cfg evt (telemetry_topic e) fd s)"

definition sensor_tick :: "simulator_config \<Rightarrow> catalog_entry \<Rightarrow> nat \<Rightarrow> simulation \<Rightarrow> simulation" where
  "sensor_tick cfg e i s =
     (let t = (si_sensors s i)\<lparr>sk_awake := False\<rparr>
      in if \<not> si_running s (sc_device_id e) then s\<lparr>si_sensors := (si_sensors s)(i := t)\<rparr>
         else let (failed, r) = sensor_should_fail (sk_dice t) (sk_failed t) (sm_sensor_failure_rate cfg);
                  s = report_failure cfg e (sk_failed t) failed s;
                  t = t\<lparr>sk_dice := r, sk_failed := failed\<rparr>
              in if failed then s\<lparr>si_sensors := (si_sensors s)(i := t)\<rparr> else take_reading cfg e i t s)"

text \<open>The wait ends with the shutdown flag clear.\<close>

definition sensor_wakes :: "real \<Rightarrow> nat \<Rightarrow> simulation \<Rightarrow> simulation" where
  "sensor_wakes interval i s =
     (let t = si_sensors s i in s\<lparr>si_sensors := (si_sensors s)(i := t\<lparr>sk_awake := True, sk_dice := snd (jitter interval (sk_dice t))\<rparr>)\<rparr>)"

section \<open>Machine controllers\<close>

text \<open>One controller for every device, with the first catalog entry of the device.\<close>

definition controllers :: "catalog_entry list \<Rightarrow> catalog_entry list" where
  "controllers catalog = fold (\<lambda>e cs. if sc_device_id e \<in> sc_device_id ` set cs then cs else cs @ [e]) catalog []"

definition status_event :: "catalog_entry \<Rightarrow> string \<Rightarrow> datetime \<Rightarrow> machine_status_event" where
  "status_event e new_status now =
     \<lparr>ms_organization_id = sc_organization_id e, ms_factory_id = sc_factory_id e, ms_machine_id = sc_machine_id e,
      ms_status = new_status, ms_timestamp = Some now\<rparr>"

definition machine_changed :: "catalog_entry \<Rightarrow> string \<Rightarrow> datetime \<Rightarrow> machine_event" where
  "machine_changed e new_status now = (sensor_event e (''MACHINE_'' @ new_status) now)\<lparr>me_sensor_id := []\<rparr>"

definition controller_tick :: "simulator_config \<Rightarrow> catalog_entry \<Rightarrow> nat \<Rightarrow> simulation \<Rightarrow> simulation" where
  "controller_tick cfg e j s =
     (let running = si_running s (sc_device_id e); (toggle, r) = should_toggle (si_controller_dice s j) running;
          s = s\<lparr>si_controller_awake := (si_controller_awake s)(j := False), si_controller_dice := (si_controller_dice s)(j := r)\<rparr>
      in if \<not> toggle then s
         else let s = s\<lparr>si_running := (si_running s)(sc_device_id e := \<not> running)\<rparr>;
                  new_status = (if running then ''STOPPED'' else ''RUNNING'');
                  s = enqueue cfg (status_topic e) (Status (status_event e new_status (utc_at (si_clock s)))) s
              in enqueue cfg (events_topic e) (Event (machine_changed e new_status (utc_at (si_clock s)))) s)"

section \<open>Publisher threads and the end\<close>

definition worker_publishes :: "bool \<Rightarrow> publish_job \<Rightarrow> simulation \<Rightarrow> simulation" where
  "worker_publishes confirmed job s =
     s\<lparr>si_hands := remove1 job (si_hands s),
       si_stats := (if confirmed then (si_stats s)\<lparr>st_published := Suc (st_published (si_stats s))\<rparr>
                    else (si_stats s)\<lparr>st_publish_errs := Suc (st_publish_errs (si_stats s))\<rparr>)\<rparr>"

text \<open>\<open>asyncio.run\<close> ends when every sensor and controller has seen the flag; it cancels the delayed sends still waiting.\<close>

definition loop_ends :: "simulation \<Rightarrow> simulation" where
  "loop_ends s = s\<lparr>si_loop_over := True, si_timers := []\<rparr>"

inductive sim_step :: "simulator_config \<Rightarrow> catalog_entry list \<Rightarrow> simulation \<Rightarrow> simulation \<Rightarrow> bool" for cfg catalog where
  sensor_wakes: "i < length catalog \<Longrightarrow> \<not> si_loop_over s \<Longrightarrow> \<not> si_shutdown s \<Longrightarrow> \<not> sk_awake (si_sensors s i) \<Longrightarrow>
    sim_step cfg catalog s (sensor_wakes (sensor_interval cfg (length catalog)) i s)"
| sensor_ticks: "i < length catalog \<Longrightarrow> \<not> si_loop_over s \<Longrightarrow> sk_awake (si_sensors s i) \<Longrightarrow>
    sim_step cfg catalog s (sensor_tick cfg (catalog ! i) i s)"
| controller_wakes: "j < length (controllers catalog) \<Longrightarrow> \<not> si_loop_over s \<Longrightarrow> \<not> si_shutdown s \<Longrightarrow>
    sim_step cfg catalog s (s\<lparr>si_controller_awake := (si_controller_awake s)(j := True)\<rparr>)"
| controller_ticks: "j < length (controllers catalog) \<Longrightarrow> \<not> si_loop_over s \<Longrightarrow> si_controller_awake s j \<Longrightarrow>
    sim_step cfg catalog s (controller_tick cfg (controllers catalog ! j) j s)"
| timer_fires: "d \<in> set (si_timers s) \<Longrightarrow> sim_step cfg catalog s (delayed_send_fires cfg d s)"
| worker_takes: "length (si_hands s) < si_workers s \<Longrightarrow> si_queue s = job # q \<Longrightarrow>
    sim_step cfg catalog s (s\<lparr>si_queue := q, si_hands := si_hands s @ [job]\<rparr>)"
| worker_publishes: "job \<in> set (si_hands s) \<Longrightarrow> sim_step cfg catalog s (worker_publishes confirmed job s)"
| worker_exits: "length (si_hands s) < si_workers s \<Longrightarrow> si_shutdown s \<Longrightarrow> si_queue s = [] \<Longrightarrow>
    sim_step cfg catalog s (s\<lparr>si_workers := si_workers s - 1\<rparr>)"
| signal: "sim_step cfg catalog s (s\<lparr>si_shutdown := True\<rparr>)"
| loop_ends: "si_shutdown s \<Longrightarrow> (\<And>i. i < length catalog \<Longrightarrow> \<not> sk_awake (si_sensors s i)) \<Longrightarrow>
    (\<And>j. j < length (controllers catalog) \<Longrightarrow> \<not> si_controller_awake s j) \<Longrightarrow> sim_step cfg catalog s (loop_ends s)"
| time_passes: "0 \<le> d \<Longrightarrow> sim_step cfg catalog s (s\<lparr>si_clock := si_clock s + d\<rparr>)"

definition new_stats :: sim_stats where
  "new_stats =
     \<lparr>st_published = 0, st_duplicates = 0, st_delayed = 0, st_out_of_order = 0, st_anomalies = 0, st_dropped = 0,
      st_sensor_failed = 0, st_publish_errs = 0\<rparr>"

definition new_simulation ::
  "simulator_config \<Rightarrow> catalog_entry list \<Rightarrow> (nat \<Rightarrow> dice) \<Rightarrow> (nat \<Rightarrow> dice) \<Rightarrow> (nat \<Rightarrow> string) \<Rightarrow> real \<Rightarrow> simulation" where
  "new_simulation cfg catalog sensor_dice controller_dice uuids now =
     \<lparr>si_clock = now, si_uuids = uuids, si_uuid_tick = 0,
      si_sensors = (\<lambda>i. \<lparr>sk_awake = False, sk_dice = sensor_dice i,
        sk_gen = new_generator (sc_min_value (catalog ! i)) (sc_max_value (catalog ! i)) (sm_anomaly_rate cfg),
        sk_seq = 0, sk_failed = False\<rparr>),
      si_controller_awake = (\<lambda>_. False), si_controller_dice = controller_dice, si_running = (\<lambda>_. True),
      si_timers = [], si_queue = [], si_hands = [], si_workers = nat (sm_publisher_workers cfg), si_stats = new_stats,
      si_shutdown = False, si_loop_over = False, si_offered = [], si_made = []\<rparr>"

section \<open>What the operations leave alone\<close>

lemma enqueue_frame [simp]:
  "si_offered (enqueue cfg topic p s) = si_offered s @ [\<lparr>pj_topic = topic, pj_payload = p\<rparr>]"
  "si_timers (enqueue cfg topic p s) = si_timers s" "si_made (enqueue cfg topic p s) = si_made s"
  "si_sensors (enqueue cfg topic p s) = si_sensors s" "si_uuids (enqueue cfg topic p s) = si_uuids s"
  "si_uuid_tick (enqueue cfg topic p s) = si_uuid_tick s" "si_loop_over (enqueue cfg topic p s) = si_loop_over s"
  "si_clock (enqueue cfg topic p s) = si_clock s"
  by (simp_all add: enqueue_def Let_def)

text \<open>Where the messages handed to the queue are: counted as sent, failed or dropped, in the queue or in a worker's hands.\<close>

definition account :: "simulation \<Rightarrow> nat" where
  "account s = st_published (si_stats s) + st_publish_errs (si_stats s) + st_dropped (si_stats s) + length (si_queue s) + length (si_hands s)"

lemma account_enqueue [simp]: "account (enqueue cfg topic p s) = Suc (account s)"
  by (simp add: account_def enqueue_def Let_def)

lemma account_frame [simp]:
  "account (s\<lparr>si_stats := (si_stats s)\<lparr>st_duplicates := n\<rparr>\<rparr>) = account s" "account (s\<lparr>si_stats := (si_stats s)\<lparr>st_delayed := n\<rparr>\<rparr>) = account s"
  "account (s\<lparr>si_stats := (si_stats s)\<lparr>st_out_of_order := n\<rparr>\<rparr>) = account s" "account (s\<lparr>si_stats := (si_stats s)\<lparr>st_anomalies := n\<rparr>\<rparr>) = account s"
  "account (s\<lparr>si_stats := (si_stats s)\<lparr>st_sensor_failed := n\<rparr>\<rparr>) = account s" "account (s\<lparr>si_timers := ds\<rparr>) = account s"
  "account (s\<lparr>si_sensors := ts\<rparr>) = account s" "account (s\<lparr>si_running := rs\<rparr>) = account s"
  "account (s\<lparr>si_controller_awake := ws\<rparr>) = account s" "account (s\<lparr>si_controller_dice := cs\<rparr>) = account s"
  "account (s\<lparr>si_made := ms\<rparr>) = account s" "account (s\<lparr>si_uuid_tick := k\<rparr>) = account s" "account (s\<lparr>si_clock := c\<rparr>) = account s"
  "account (s\<lparr>si_shutdown := b\<rparr>) = account s" "account (s\<lparr>si_loop_over := b\<rparr>) = account s" "account (s\<lparr>si_workers := n\<rparr>) = account s"
  by (simp_all add: account_def)

text \<open>
  An operation adds messages and delayed sends: what is offered grows at its end, the balance of the account is
  kept, and the readings made are offered or delayed. These are the jobs and delays an operation may add.
\<close>

definition job_of :: "delayed_send \<Rightarrow> publish_job" where
  "job_of d = \<lparr>pj_topic = ds_topic d, pj_payload = Reading (ds_event d)\<rparr>"

definition adds :: "publish_job list \<Rightarrow> delayed_send list \<Rightarrow> simulation \<Rightarrow> simulation \<Rightarrow> bool" where
  "adds jobs ds s s' \<longleftrightarrow>
     si_offered s' = si_offered s @ jobs \<and> si_timers s' = si_timers s @ ds \<and> account s' = account s + length jobs \<and>
     si_loop_over s' = si_loop_over s \<and> si_uuids s' = si_uuids s"

lemma adds_enqueue: "adds [\<lparr>pj_topic = topic, pj_payload = p\<rparr>] [] s (enqueue cfg topic p s)"
  by (simp add: adds_def)

lemma adds_trans: "adds js ds s s' \<Longrightarrow> adds js' ds' s' s'' \<Longrightarrow> adds (js @ js') (ds @ ds') s s''"
  by (simp add: adds_def)

lemma send_event_adds:
  "adds (replicate (if dup then 2 else 1) \<lparr>pj_topic = topic, pj_payload = Reading evt\<rparr>) [] s (send_event cfg topic evt dup s)"
  by (simp add: adds_def send_event_def numeral_2_eq_2 Let_def)

lemma send_event_frame [simp]:
  "si_made (send_event cfg topic evt dup s) = si_made s" "si_sensors (send_event cfg topic evt dup s) = si_sensors s"
  "si_uuid_tick (send_event cfg topic evt dup s) = si_uuid_tick s"
  by (simp_all add: send_event_def Let_def)

lemma publish_event_frame [simp]:
  "si_made (publish_event cfg evt topic fd s) = si_made s" "si_sensors (publish_event cfg evt topic fd s) = si_sensors s"
  "si_uuid_tick (publish_event cfg evt topic fd s) = si_uuid_tick s"
  by (simp_all add: publish_event_def Let_def)

text \<open>A reading is sent, once or twice, or put off.\<close>

lemma publish_event_adds:
  "\<exists>jobs ds. adds jobs ds s (publish_event cfg evt topic fd s) \<and> job_of ` set ds \<union> set jobs = {\<lparr>pj_topic = topic, pj_payload = Reading evt\<rparr>}"
proof (cases "fd_delayed fd")
  case True
  then have "adds [] [\<lparr>ds_topic = topic, ds_event = evt, ds_duplicate = fd_duplicate fd\<rparr>] s (publish_event cfg evt topic fd s)"
    by (simp add: publish_event_def adds_def account_def Let_def)
  then show ?thesis
    by (intro exI conjI) (assumption, simp add: job_of_def)
next
  case False
  then have "adds (replicate (if fd_duplicate fd then 2 else 1) \<lparr>pj_topic = topic, pj_payload = Reading evt\<rparr>) [] s (publish_event cfg evt topic fd s)"
    using send_event_adds [of "fd_duplicate fd" topic evt s cfg] by (simp add: publish_event_def)
  then show ?thesis
    by (intro exI conjI) (assumption, simp)
qed

definition delays :: "simulation \<Rightarrow> publish_job set" where
  "delays s = job_of ` set (si_timers s)"

lemma adds_delays: "adds jobs ds s s' \<Longrightarrow> delays s' = delays s \<union> job_of ` set ds"
  by (auto simp: adds_def delays_def)

definition reading_job :: "catalog_entry \<Rightarrow> reading \<Rightarrow> publish_job" where
  "reading_job e evt = \<lparr>pj_topic = telemetry_topic e, pj_payload = Reading evt\<rparr>"

definition failure_job :: "catalog_entry \<Rightarrow> publish_job \<Rightarrow> bool" where
  "failure_job e j \<longleftrightarrow> (\<exists>kind now. kind \<noteq> [] \<and> j = \<lparr>pj_topic = events_topic e, pj_payload = Event (sensor_event e kind now)\<rparr>)"

lemma report_failure_frame [simp]:
  "si_made (report_failure cfg e was failed s) = si_made s" "si_sensors (report_failure cfg e was failed s) = si_sensors s"
  "si_uuid_tick (report_failure cfg e was failed s) = si_uuid_tick s" "si_clock (report_failure cfg e was failed s) = si_clock s"
  "si_uuids (report_failure cfg e was failed s) = si_uuids s"
  by (simp_all add: report_failure_def)

lemma report_failure_adds: "\<exists>jobs. adds jobs [] s (report_failure cfg e was failed s) \<and> (\<forall>j\<in>set jobs. failure_job e j)"
proof (cases "failed = was")
  case True
  then have "adds [] [] s (report_failure cfg e was failed s)"
    by (simp add: report_failure_def adds_def)
  then show ?thesis
    by force
next
  case False
  have "adds [\<lparr>pj_topic = events_topic e, pj_payload = Event (sensor_event e (if failed then ''SENSOR_FAILURE'' else ''SENSOR_RECOVERED'') (utc_at (si_clock s)))\<rparr>] []
      s (report_failure cfg e was failed s)" (is "adds [?j] _ _ _")
    using False by (auto simp: report_failure_def adds_def)
  moreover have "failure_job e ?j"
    unfolding failure_job_def by (intro exI conjI) (simp_all split: if_split)
  ultimately show ?thesis
    by (intro exI [of _ "[?j]"]) simp
qed

text \<open>A reading taken: it is new, the next of its sensor, and offered or put off.\<close>

definition took :: "catalog_entry \<Rightarrow> nat \<Rightarrow> nat \<Rightarrow> reading \<Rightarrow> simulation \<Rightarrow> simulation \<Rightarrow> bool" where
  "took e i seq evt s s' \<longleftrightarrow>
     (\<exists>now v. evt = reading_of e (si_uuids s (si_uuid_tick s)) now seq v) \<and>
     si_made s' = si_made s @ [evt] \<and> si_uuid_tick s' = Suc (si_uuid_tick s) \<and>
     (\<forall>k. sk_seq (si_sensors s' k) = (if k = i then seq else sk_seq (si_sensors s k))) \<and>
     (\<exists>jobs ds. adds jobs ds s s' \<and> job_of ` set ds \<union> set jobs = {reading_job e evt})"

lemma take_reading_took: "\<exists>evt. took e i (Suc (sk_seq t)) evt s (take_reading cfg e i t s)"
proof -
  obtain v spike gen r where draw: "next_reading (sk_gen t) (sk_dice t) = ((v, spike), gen, r)"
    by (cases "next_reading (sk_gen t) (sk_dice t)") auto
  obtain fd r' where fd: "decide_faults r cfg = (fd, r')"
    by fastforce
  define s1 where "s1 = (if spike then s\<lparr>si_stats := (si_stats s)\<lparr>st_anomalies := Suc (st_anomalies (si_stats s))\<rparr>\<rparr> else s)"
  define evt where "evt = reading_of e (si_uuids s (si_uuid_tick s)) (utc_at (si_clock s)) (Suc (sk_seq t)) v"
  define s2 where "s2 = s1\<lparr>si_uuid_tick := Suc (si_uuid_tick s), si_made := si_made s @ [evt],
                si_sensors := (si_sensors s)(i := t\<lparr>sk_gen := gen, sk_dice := r', sk_seq := Suc (sk_seq t)\<rparr>)\<rparr>"
  have eq: "take_reading cfg e i t s = publish_event cfg evt (telemetry_topic e) fd s2"
    by (simp add: take_reading_def draw fd s1_def evt_def s2_def Let_def)
  obtain jobs ds where p: "adds jobs ds s2 (publish_event cfg evt (telemetry_topic e) fd s2)"
    and js: "job_of ` set ds \<union> set jobs = {reading_job e evt}"
    using publish_event_adds unfolding reading_job_def by blast
  have "adds [] [] s s2"
    by (simp add: s2_def s1_def adds_def)
  then have "adds jobs ds s (take_reading cfg e i t s)"
    using adds_trans p unfolding eq by fastforce
  moreover have "si_made s2 = si_made s @ [evt]" "si_uuid_tick s2 = Suc (si_uuid_tick s)"
    "\<And>k. sk_seq (si_sensors s2 k) = (if k = i then Suc (sk_seq t) else sk_seq (si_sensors s k))"
    by (simp_all add: s2_def)
  ultimately have "took e i (Suc (sk_seq t)) evt s (take_reading cfg e i t s)"
    using js unfolding took_def eq evt_def by (intro conjI exI) (assumption | simp add: evt_def)+
  then show ?thesis
    by blast
qed

section \<open>The kinds of steps\<close>

definition machine_job :: "catalog_entry \<Rightarrow> publish_job \<Rightarrow> bool" where
  "machine_job e j \<longleftrightarrow> (\<exists>new_status now. new_status \<noteq> [] \<and>
     (j = \<lparr>pj_topic = status_topic e, pj_payload = Status (status_event e new_status now)\<rparr> \<or>
      j = \<lparr>pj_topic = events_topic e, pj_payload = Event (machine_changed e new_status now)\<rparr>))"

definition event_job :: "catalog_entry list \<Rightarrow> publish_job \<Rightarrow> bool" where
  "event_job catalog j \<longleftrightarrow> (\<exists>e\<in>set catalog. failure_job e j \<or> machine_job e j)"

definition same_readings :: "simulation \<Rightarrow> simulation \<Rightarrow> bool" where
  "same_readings s s' \<longleftrightarrow>
     si_made s' = si_made s \<and> si_uuid_tick s' = si_uuid_tick s \<and> (\<forall>k. sk_seq (si_sensors s' k) = sk_seq (si_sensors s k))"

text \<open>Sensor \<open>i\<close> makes its next reading, \<open>evt\<close>, which is offered or put off; before it, events may be offered.\<close>

definition makes :: "catalog_entry list \<Rightarrow> nat \<Rightarrow> reading \<Rightarrow> simulation \<Rightarrow> simulation \<Rightarrow> bool" where
  "makes catalog i evt s s' \<longleftrightarrow>
     i < length catalog \<and>
     (\<exists>now v. evt = reading_of (catalog ! i) (si_uuids s (si_uuid_tick s)) now (Suc (sk_seq (si_sensors s i))) v) \<and>
     si_made s' = si_made s @ [evt] \<and> si_uuid_tick s' = Suc (si_uuid_tick s) \<and>
     (\<forall>k. sk_seq (si_sensors s' k) = (if k = i then Suc (sk_seq (si_sensors s i)) else sk_seq (si_sensors s k))) \<and>
     (\<exists>events jobs ds. adds (events @ jobs) ds s s' \<and> list_all (event_job catalog) events \<and>
        job_of ` set ds \<union> set jobs = {reading_job (catalog ! i) evt})"

lemma controllers_subset: "set (controllers catalog) \<subseteq> set catalog"
proof -
  have "set (fold (\<lambda>e cs. if sc_device_id e \<in> sc_device_id ` set cs then cs else cs @ [e]) es cs) \<subseteq> set es \<union> set cs" for es cs
    by (induction es arbitrary: cs) (force split: if_splits)+
  then show ?thesis
    by (force simp: controllers_def)
qed

lemma sensor_tick_kind:
  assumes "i < length catalog"
  shows "(\<exists>jobs. adds jobs [] s (sensor_tick cfg (catalog ! i) i s) \<and> list_all (event_job catalog) jobs \<and>
      same_readings s (sensor_tick cfg (catalog ! i) i s)) \<or> (\<exists>evt. makes catalog i evt s (sensor_tick cfg (catalog ! i) i s))"
proof (cases "si_running s (sc_device_id (catalog ! i))")
  case False
  then have "adds [] [] s (sensor_tick cfg (catalog ! i) i s)" "same_readings s (sensor_tick cfg (catalog ! i) i s)"
    by (simp_all add: sensor_tick_def adds_def same_readings_def Let_def)
  then show ?thesis
    by force
next
  case True
  let ?e = "catalog ! i" and ?t = "(si_sensors s i)\<lparr>sk_awake := False\<rparr>"
  obtain failed r where f: "sensor_should_fail (sk_dice ?t) (sk_failed ?t) (sm_sensor_failure_rate cfg) = (failed, r)"
    by fastforce
  let ?s = "report_failure cfg ?e (sk_failed ?t) failed s" and ?u = "?t\<lparr>sk_dice := r, sk_failed := failed\<rparr>"
  obtain events where ev: "adds events [] s ?s" "\<forall>j\<in>set events. failure_job ?e j"
    using report_failure_adds by blast
  have evs: "list_all (event_job catalog) events"
    using ev(2) assms by (auto simp: list_all_iff event_job_def)
  have eq: "sensor_tick cfg ?e i s = (if failed then ?s\<lparr>si_sensors := (si_sensors ?s)(i := ?u)\<rparr> else take_reading cfg ?e i ?u ?s)"
    using True f by (simp add: sensor_tick_def Let_def)
  show ?thesis
  proof (cases failed)
    case True
    then have "adds events [] s (sensor_tick cfg ?e i s)" "same_readings s (sensor_tick cfg ?e i s)"
      using ev(1) unfolding eq by (simp_all add: adds_def same_readings_def)
    then show ?thesis
      using evs by blast
  next
    case False
    have run: "sensor_tick cfg ?e i s = take_reading cfg ?e i ?u ?s"
      using False eq by simp
    obtain evt where t: "took ?e i (Suc (sk_seq ?u)) evt ?s (sensor_tick cfg ?e i s)"
      using take_reading_took unfolding run by blast
    then obtain jobs ds where js: "adds jobs ds ?s (sensor_tick cfg ?e i s)" "job_of ` set ds \<union> set jobs = {reading_job ?e evt}"
      unfolding took_def by blast
    have "adds (events @ jobs) ds s (sensor_tick cfg ?e i s)"
      using adds_trans [OF ev(1) js(1)] by simp
    then have "\<exists>events jobs ds. adds (events @ jobs) ds s (sensor_tick cfg ?e i s) \<and> list_all (event_job catalog) events \<and>
        job_of ` set ds \<union> set jobs = {reading_job ?e evt}"
      using evs js(2) by blast
    then have "makes catalog i evt s (sensor_tick cfg ?e i s)"
      using t assms unfolding makes_def took_def by simp
    then show ?thesis
      by blast
  qed
qed

lemma controller_tick_kind:
  assumes "j < length (controllers catalog)"
  shows "\<exists>jobs. adds jobs [] s (controller_tick cfg (controllers catalog ! j) j s) \<and> list_all (event_job catalog) jobs \<and>
      same_readings s (controller_tick cfg (controllers catalog ! j) j s)"
proof -
  let ?e = "controllers catalog ! j" and ?running = "si_running s (sc_device_id (controllers catalog ! j))"
  have e: "?e \<in> set catalog"
    using controllers_subset nth_mem [OF assms] by blast
  obtain toggle r where t: "should_toggle (si_controller_dice s j) ?running = (toggle, r)"
    by fastforce
  let ?new = "if ?running then ''STOPPED'' else ''RUNNING''" and ?now = "utc_at (si_clock s)"
  let ?jobs = "[\<lparr>pj_topic = status_topic ?e, pj_payload = Status (status_event ?e ?new ?now)\<rparr>,
      \<lparr>pj_topic = events_topic ?e, pj_payload = Event (machine_changed ?e ?new ?now)\<rparr>]"
  have "adds (if toggle then ?jobs else []) [] s (controller_tick cfg ?e j s)" "same_readings s (controller_tick cfg ?e j s)"
    using t by (simp_all add: controller_tick_def adds_def same_readings_def Let_def)
  moreover have "list_all (event_job catalog) ?jobs"
    using e by (auto simp: event_job_def machine_job_def intro!: bexI [of _ ?e])
  ultimately show ?thesis
    by (intro exI [of _ "if toggle then ?jobs else []"]) simp
qed

lemma sim_step_kind:
  assumes "sim_step cfg catalog s s'"
  obtains (emits) jobs where "adds jobs [] s s'" "list_all (event_job catalog) jobs" "same_readings s s'"
  | (reads) i evt where "makes catalog i evt s s'"
  | (fires) d n where "d \<in> set (si_timers s)" "0 < n" "adds (replicate n (job_of d)) [] (s\<lparr>si_timers := remove1 d (si_timers s)\<rparr>) s'"
      "same_readings s s'"
  | (ends) "s' = loop_ends s"
proof -
  note quiet = emits [of "[]"]
  show thesis
    using assms
  proof cases
    case (sensor_ticks i)
    then show thesis
      using sensor_tick_kind [of i catalog s cfg] emits reads by blast
  next
    case (controller_ticks j)
    then show thesis
      using controller_tick_kind [of j catalog s cfg] emits by blast
  next
    case (timer_fires d)
    show thesis
      using fires [of d "if ds_duplicate d then 2 else 1"] timer_fires
        send_event_adds [of "ds_duplicate d" "ds_topic d" "ds_event d" "s\<lparr>si_timers := remove1 d (si_timers s)\<rparr>" cfg]
      by (simp add: delayed_send_fires_def job_of_def same_readings_def)
  next
    case (worker_publishes job c)
    then have "Suc (length (remove1 job (si_hands s))) = length (si_hands s)"
      using length_pos_if_in_set [of job "si_hands s"] by (simp add: length_remove1)
    then show thesis
      using worker_publishes by (intro quiet) (simp_all add: adds_def same_readings_def worker_publishes_def account_def)
  qed (use quiet ends in \<open>auto simp: adds_def same_readings_def sensor_wakes_def account_def Let_def\<close>)
qed

section \<open>Every message is accounted for\<close>

definition sim_reaches :: "simulator_config \<Rightarrow> catalog_entry list \<Rightarrow> simulation \<Rightarrow> simulation \<Rightarrow> bool" where
  "sim_reaches cfg catalog = (sim_step cfg catalog)\<^sup>*\<^sup>*"

lemma sim_invariant:
  assumes "sim_reaches cfg catalog s s'" and "P s" and "\<And>s1 s2. sim_step cfg catalog s1 s2 \<Longrightarrow> P s1 \<Longrightarrow> P s2"
  shows "P s'"
  using assms(1) unfolding sim_reaches_def by (induction rule: rtranclp_induct) (use assms(2,3) in auto)

text \<open>All messages are on the account; while the loop runs, every reading made was offered or waits for its delay.\<close>

definition is_offered :: "reading \<Rightarrow> simulation \<Rightarrow> bool" where
  "is_offered evt s \<longleftrightarrow> (\<exists>j\<in>set (si_offered s). pj_payload j = Reading evt)"

definition is_waiting :: "reading \<Rightarrow> simulation \<Rightarrow> bool" where
  "is_waiting evt s \<longleftrightarrow> (\<exists>d\<in>set (si_timers s). ds_event d = evt)"

definition accounted :: "simulation \<Rightarrow> bool" where
  "accounted s \<longleftrightarrow>
     account s = length (si_offered s) \<and>
     (\<not> si_loop_over s \<longrightarrow> (\<forall>evt\<in>set (si_made s). is_offered evt s \<or> is_waiting evt s))"

lemma adds_keeps_offered: "adds jobs ds s s' \<Longrightarrow> is_offered evt s \<Longrightarrow> is_offered evt s'"
  by (auto simp: adds_def is_offered_def)

lemma adds_keeps_waiting: "adds jobs ds s s' \<Longrightarrow> is_waiting evt s \<Longrightarrow> is_waiting evt s'"
  by (auto simp: adds_def is_waiting_def)

lemma adds_accounted:
  assumes "adds jobs ds s s'" and "account s = length (si_offered s)"
  shows "account s' = length (si_offered s')"
  using assms by (simp add: adds_def)

lemma made_is_there:
  assumes "adds (events @ jobs) ds s s'" and "job_of ` set ds \<union> set jobs = {reading_job e evt}"
  shows "is_offered evt s' \<or> is_waiting evt s'"
proof (cases "set jobs = {}")
  case False
  then obtain j where "j \<in> set jobs"
    by (meson equals0I)
  then have "reading_job e evt \<in> set jobs"
    using assms(2) by (metis Un_iff singletonD)
  then have "reading_job e evt \<in> set (si_offered s')" "pj_payload (reading_job e evt) = Reading evt"
    using assms(1) by (simp_all add: adds_def reading_job_def)
  then show ?thesis
    unfolding is_offered_def by blast
next
  case True
  then have "reading_job e evt \<in> job_of ` set ds"
    using assms(2) by simp
  then obtain d where "d \<in> set ds" "job_of d = reading_job e evt"
    by force
  then show ?thesis
    using assms(1) by (auto simp: adds_def is_waiting_def job_of_def reading_job_def)
qed

lemma fired_is_offered:
  assumes "d \<in> set (si_timers s)" and "0 < n" and "adds (replicate n (job_of d)) [] (s\<lparr>si_timers := remove1 d (si_timers s)\<rparr>) s'"
    and "is_offered evt s \<or> is_waiting evt s"
  shows "is_offered evt s' \<or> is_waiting evt s'"
proof (cases "ds_event d = evt")
  case True
  then show ?thesis
    using assms(2,3) by (auto simp: adds_def is_offered_def job_of_def)
next
  case False
  then have "is_offered evt (s\<lparr>si_timers := remove1 d (si_timers s)\<rparr>) \<or> is_waiting evt (s\<lparr>si_timers := remove1 d (si_timers s)\<rparr>)"
    using assms(4) by (auto simp: is_offered_def is_waiting_def intro: in_set_remove1 [THEN iffD2])
  then show ?thesis
    using adds_keeps_offered [OF assms(3)] adds_keeps_waiting [OF assms(3)] by blast
qed

lemma accounted_step:
  assumes "sim_step cfg catalog s s'" and "accounted s"
  shows "accounted s'"
proof -
  have bal: "account s = length (si_offered s)" and there: "\<not> si_loop_over s \<Longrightarrow> evt \<in> set (si_made s) \<Longrightarrow> is_offered evt s \<or> is_waiting evt s" for evt
    using assms(2) by (auto simp: accounted_def)
  show ?thesis
    using assms(1)
  proof (cases rule: sim_step_kind)
    case (emits jobs)
    have "is_offered x s' \<or> is_waiting x s'" if "\<not> si_loop_over s'" "x \<in> set (si_made s')" for x
    proof -
      have "is_offered x s \<or> is_waiting x s"
        using that emits(1,3) by (intro there) (simp_all add: adds_def same_readings_def)
      then show ?thesis
        using adds_keeps_offered [OF emits(1)] adds_keeps_waiting [OF emits(1)] by blast
    qed
    then show ?thesis
      unfolding accounted_def using adds_accounted [OF emits(1) bal] by blast
  next
    case (reads i evt)
    then obtain events jobs ds where a: "adds (events @ jobs) ds s s'" "job_of ` set ds \<union> set jobs = {reading_job (catalog ! i) evt}"
      and m: "si_made s' = si_made s @ [evt]"
      unfolding makes_def by blast
    have "is_offered x s' \<or> is_waiting x s'" if "\<not> si_loop_over s'" "x \<in> set (si_made s')" for x
      using that there [of x] made_is_there [OF a] adds_keeps_offered [OF a(1)] adds_keeps_waiting [OF a(1)] a(1)
      unfolding m by (auto simp: adds_def)
    then show ?thesis
      unfolding accounted_def using adds_accounted [OF a(1) bal] by blast
  next
    case (fires d n)
    have "is_offered x s' \<or> is_waiting x s'" if "\<not> si_loop_over s'" "x \<in> set (si_made s')" for x
    proof (rule fired_is_offered [OF fires(1-3)])
      show "is_offered x s \<or> is_waiting x s"
        using that fires(3,4) by (intro there) (simp_all add: adds_def same_readings_def)
    qed
    moreover have "account s' = length (si_offered s')"
      using adds_accounted [OF fires(3)] bal by simp
    ultimately show ?thesis
      unfolding accounted_def by blast
  next
    case ends
    then show ?thesis
      using bal by (simp add: accounted_def loop_ends_def)
  qed
qed

text \<open>
  C38. The simulator's statistics account for every message: in every reachable state, whatever the workers, the broker and
  the delays do, the messages handed to the queue are exactly those counted as published, failed or dropped
  together with those in the queue and in the workers' hands; and until the event loop ends every reading made has been
  handed to the queue or is waiting for its delay.
\<close>
theorem statistics_account_for_messages:
  assumes "sim_reaches cfg catalog (new_simulation cfg catalog sd cd uuids now) s"
  shows "st_published (si_stats s) + st_publish_errs (si_stats s) + st_dropped (si_stats s) + length (si_queue s) + length (si_hands s) =
      length (si_offered s) \<and>
    (si_loop_over s \<or> list_all (\<lambda>evt. is_offered evt s \<or> is_waiting evt s) (si_made s))"
proof -
  have "accounted (new_simulation cfg catalog sd cd uuids now)"
    by (simp add: accounted_def account_def new_simulation_def new_stats_def)
  then have "accounted s"
    using sim_invariant [OF assms] accounted_step by blast
  then show ?thesis
    by (auto simp: accounted_def account_def list_all_iff)
qed

section \<open>What ingestion accepts\<close>

text \<open>A status message read as a machine event: the fields it does not have take their defaults.\<close>

definition status_as_event :: "machine_status_event \<Rightarrow> machine_event" where
  "status_as_event m =
     \<lparr>me_organization_id = ms_organization_id m, me_factory_id = ms_factory_id m, me_machine_id = ms_machine_id m,
      me_device_id = [], me_sensor_id = [], me_status = ms_status m, me_event_type = [], me_timestamp = ms_timestamp m\<rparr>"

definition accepted_job :: "publish_job \<Rightarrow> bool" where
  "accepted_job j =
     (case pj_payload j of
        Reading evt \<Rightarrow> ends_with (pj_topic j) ''/telemetry'' \<and> validate_telemetry evt = ok
      | Event evt \<Rightarrow> ends_with (pj_topic j) ''/events'' \<and> validate_machine_event evt = ok
      | Status m \<Rightarrow> ends_with (pj_topic j) ''/status'' \<and> validate_machine_event (status_as_event m) = ok)"

definition entry_ok :: "catalog_entry \<Rightarrow> bool" where
  "entry_ok e \<longleftrightarrow>
     list_all is_uuid [sc_organization_id e, sc_factory_id e, sc_production_line_id e, sc_machine_id e, sc_device_id e, sc_sensor_id e] \<and>
     sc_metric e \<in> set VALID_METRICS \<and> sc_unit e \<noteq> []"

lemma topics_end [simp]:
  "ends_with (telemetry_topic e) ''/telemetry''" "ends_with (events_topic e) ''/events''" "ends_with (status_topic e) ''/status''"
  unfolding ends_with_def telemetry_topic_def events_topic_def status_topic_def append_assoc [symmetric]
  by (simp_all only: suffixI)

lemma machine_event_valid:
  "validate_machine_event evt = ok \<longleftrightarrow>
     is_uuid (me_organization_id evt) \<and> is_uuid (me_factory_id evt) \<and> is_uuid (me_machine_id evt) \<and> me_timestamp evt \<noteq> None \<and>
     (me_status evt \<noteq> [] \<or> me_event_type evt \<noteq> [])"
  unfolding validate_machine_event_def in_order_ok by auto

lemma event_job_accepted: "event_job catalog j \<Longrightarrow> list_all entry_ok catalog \<Longrightarrow> accepted_job j"
  by (auto simp: event_job_def failure_job_def machine_job_def accepted_job_def machine_event_valid sensor_event_def
      machine_changed_def status_event_def status_as_event_def entry_ok_def list_all_iff)

lemma reading_job_accepted:
  "entry_ok e \<Longrightarrow> is_uuid u \<Longrightarrow> 0 < n \<Longrightarrow> accepted_job (reading_job e (reading_of e u now n v))"
  by (simp add: accepted_job_def reading_job_def reading_of_def validate_telemetry_ok telemetry_ids_def entry_ok_def)

definition all_accepted :: "(nat \<Rightarrow> string) \<Rightarrow> simulation \<Rightarrow> bool" where
  "all_accepted uuids s \<longleftrightarrow> si_uuids s = uuids \<and> (\<forall>j\<in>set (si_offered s) \<union> delays s. accepted_job j)"

lemma adds_accepted:
  assumes "adds jobs ds s s'" and "\<And>j. j \<in> set jobs \<union> job_of ` set ds \<Longrightarrow> accepted_job j" and "all_accepted uuids s"
  shows "all_accepted uuids s'"
  using assms adds_delays [OF assms(1)] by (auto simp: all_accepted_def adds_def)

lemma accepted_step:
  assumes "sim_step cfg catalog s s'" and "all_accepted uuids s" and ok: "list_all entry_ok catalog" "\<And>n. is_uuid (uuids n)"
  shows "all_accepted uuids s'"
  using assms(1)
proof (cases rule: sim_step_kind)
  case (emits jobs)
  then show ?thesis
    using adds_accepted [OF emits(1) _ assms(2)] event_job_accepted [OF _ ok(1)] by (auto simp: list_all_iff)
next
  case (reads i evt)
  then obtain events jobs ds where a: "adds (events @ jobs) ds s s'" "list_all (event_job catalog) events"
      "job_of ` set ds \<union> set jobs = {reading_job (catalog ! i) evt}"
    and evt: "i < length catalog" "\<exists>now v. evt = reading_of (catalog ! i) (si_uuids s (si_uuid_tick s)) now (Suc (sk_seq (si_sensors s i))) v"
    unfolding makes_def by blast
  have "entry_ok (catalog ! i)" "is_uuid (si_uuids s (si_uuid_tick s))"
    using evt(1) ok assms(2) by (simp_all add: list_all_length all_accepted_def)
  then have "accepted_job (reading_job (catalog ! i) evt)"
    using evt(2) reading_job_accepted by blast
  moreover have "j \<in> set events \<or> j = reading_job (catalog ! i) evt" if "j \<in> set (events @ jobs) \<union> job_of ` set ds" for j
    using that a(3) by (metis Un_iff set_append singletonD)
  ultimately show ?thesis
    using adds_accepted [OF a(1) _ assms(2)] a(2) event_job_accepted [OF _ ok(1)] by (metis list_all_iff)
next
  case (fires d n)
  have "delays (s\<lparr>si_timers := remove1 d (si_timers s)\<rparr>) \<subseteq> delays s"
    using set_remove1_subset [of d "si_timers s"] by (auto simp: delays_def)
  then have "all_accepted uuids (s\<lparr>si_timers := remove1 d (si_timers s)\<rparr>)"
    using assms(2) by (auto simp: all_accepted_def)
  then show ?thesis
    using adds_accepted [OF fires(3)] fires(1) assms(2) by (auto simp: all_accepted_def delays_def)
next
  case ends
  then show ?thesis
    using assms(2) by (simp add: all_accepted_def loop_ends_def delays_def)
qed

lemma reachable_accepted:
  assumes "sim_reaches cfg catalog (new_simulation cfg catalog sd cd uuids now) s"
    and "list_all entry_ok catalog" and "\<And>n. is_uuid (uuids n)"
  shows "list_all accepted_job (si_offered s)"
proof -
  have "all_accepted uuids (new_simulation cfg catalog sd cd uuids now)"
    by (simp add: all_accepted_def new_simulation_def delays_def)
  then have "all_accepted uuids s"
    by (rule sim_invariant [OF assms(1)]) (erule (1) accepted_step [OF _ _ assms(2,3)])
  then show ?thesis
    by (simp add: all_accepted_def list_all_iff)
qed

text \<open>
  What the simulator sends is what ingestion takes: with a catalogue of UUIDs, known metrics and units, every message
  handed to the queue in any reachable state passes ingestion's validation, and its topic ends as the handler for its kind
  asks for: readings as telemetry, events as events, status changes as status.
\<close>
theorem simulated_messages_are_accepted:
  assumes "sim_reaches cfg catalog (new_simulation cfg catalog sd cd uuids now) s"
    and "list_all entry_ok catalog" and "\<And>n. is_uuid (uuids n)"
  shows "list_all accepted_job (si_offered s)"
  by (rule reachable_accepted [OF assms])

section \<open>Sequence numbers\<close>

definition numbered :: "catalog_entry list \<Rightarrow> (nat \<Rightarrow> string) \<Rightarrow> simulation \<Rightarrow> bool" where
  "numbered catalog uuids s \<longleftrightarrow>
     si_uuids s = uuids \<and> map te_event_id (si_made s) = map uuids [0..<si_uuid_tick s] \<and>
     (\<forall>i<length catalog. map te_sequence_number (filter (\<lambda>evt. te_sensor_id evt = sc_sensor_id (catalog ! i)) (si_made s)) =
        map int [1..<Suc (sk_seq (si_sensors s i))])"

lemma numbered_step:
  assumes "sim_step cfg catalog s s'" and "numbered catalog uuids s" and "distinct (map sc_sensor_id catalog)"
  shows "numbered catalog uuids s'"
  using assms(1)
proof (cases rule: sim_step_kind)
  case (reads i evt)
  then have i: "i < length catalog" and made: "si_made s' = si_made s @ [evt]" "si_uuid_tick s' = Suc (si_uuid_tick s)"
    and seqs: "\<And>k. sk_seq (si_sensors s' k) = (if k = i then Suc (sk_seq (si_sensors s i)) else sk_seq (si_sensors s k))"
    and uuids: "si_uuids s' = si_uuids s"
    unfolding makes_def adds_def by blast+
  obtain now v where "evt = reading_of (catalog ! i) (si_uuids s (si_uuid_tick s)) now (Suc (sk_seq (si_sensors s i))) v"
    using reads unfolding makes_def by blast
  then have evt: "te_event_id evt = uuids (si_uuid_tick s)" "te_sensor_id evt = sc_sensor_id (catalog ! i)"
    "te_sequence_number evt = int (Suc (sk_seq (si_sensors s i)))"
    using assms(2) by (simp_all add: reading_of_def numbered_def)
  have other: "sc_sensor_id (catalog ! i) = sc_sensor_id (catalog ! k) \<longleftrightarrow> k = i" if "k < length catalog" for k
    using nth_eq_iff_index_eq [OF assms(3), of i k] i that by auto
  show ?thesis
    using assms(2) unfolding numbered_def made uuids seqs by (auto simp: evt other)
qed (use assms(2) in \<open>auto simp: numbered_def adds_def same_readings_def loop_ends_def\<close>)

text \<open>
  Readings are numbered and told apart: in every reachable state the readings a sensor has made carry the sequence
  numbers one, two, three and so on without a gap, in this order, and no two readings of any sensors share an event identifier.
\<close>
theorem readings_are_numbered:
  assumes "sim_reaches cfg catalog (new_simulation cfg catalog sd cd uuids now) s"
    and "distinct (map sc_sensor_id catalog)" and "inj uuids" and "i < length catalog"
  shows "distinct (map te_event_id (si_made s)) \<and>
    (\<exists>n. map te_sequence_number (filter (\<lambda>evt. te_sensor_id evt = sc_sensor_id (catalog ! i)) (si_made s)) = map int [1..<Suc n])"
proof -
  have "numbered catalog uuids (new_simulation cfg catalog sd cd uuids now)"
    by (simp add: numbered_def new_simulation_def)
  then have "numbered catalog uuids s"
    by (rule sim_invariant [OF assms(1)]) (erule (1) numbered_step [OF _ _ assms(2)])
  then show ?thesis
    using assms(3,4) by (auto simp: numbered_def distinct_map inj_on_def dest: injD)
qed

section \<open>Silence\<close>

text \<open>
  A stopped device is silent: while its machine is stopped none of its sensors makes a reading, and a sensor that has
  failed makes none in the tick in which it fails or stays failed.
\<close>
lemma stopped_device_is_silent:
  "\<not> si_running s (sc_device_id e) \<Longrightarrow> si_made (sensor_tick cfg e i s) = si_made s \<and> si_offered (sensor_tick cfg e i s) = si_offered s"
  by (simp add: sensor_tick_def Let_def)

section \<open>A concrete run\<close>

definition demo_entry :: catalog_entry where
  "demo_entry =
     \<lparr>sc_organization_id = demo_uuid, sc_factory_id = demo_uuid, sc_production_line_id = demo_uuid, sc_machine_id = demo_uuid,
      sc_device_id = demo_uuid, sc_sensor_id = demo_uuid, sc_metric = ''rpm'', sc_unit = ''1/min'', sc_min_value = 0, sc_max_value = 100\<rparr>"

definition demo_dice :: dice where
  "demo_dice = \<lparr>dc_uniform = (\<lambda>n. 1 / 2), dc_gauss = (\<lambda>n. 0), dc_pos = 0, dc_gauss_pos = 0\<rparr>"

definition demo_simulation :: simulation where
  "demo_simulation = new_simulation (load_simulator_config (\<lambda>_. None)) [demo_entry] (\<lambda>_. demo_dice) (\<lambda>_. demo_dice) (\<lambda>_. demo_uuid) 1000000"

lemma demo_simulator_config:
  "sm_messages_per_sec (load_simulator_config (\<lambda>_. None)) = 1000" "sm_duplicate_rate (load_simulator_config (\<lambda>_. None)) = 1 / 100"
  "sm_network_delay_rate (load_simulator_config (\<lambda>_. None)) = 3 / 100" "sm_out_of_order_rate (load_simulator_config (\<lambda>_. None)) = 1 / 50"
  "sm_sensor_failure_rate (load_simulator_config (\<lambda>_. None)) = 1 / 200" "sm_anomaly_rate (load_simulator_config (\<lambda>_. None)) = 1 / 50"
  "sm_queue_capacity (load_simulator_config (\<lambda>_. None)) = 20000" "sm_publisher_workers (load_simulator_config (\<lambda>_. None)) = 32"
  by (simp_all add: load_simulator_config_def env_int_def env_float_def)

text \<open>One sensor wakes and makes a reading, which is put into the queue.\<close>

lemma demo_first_reading:
  "\<exists>s. sim_reaches (load_simulator_config (\<lambda>_. None)) [demo_entry] demo_simulation s \<and>
     si_made s = [reading_of demo_entry demo_uuid (utc_at 1000000) 1 50] \<and> si_queue s = [reading_job demo_entry (reading_of demo_entry demo_uuid (utc_at 1000000) 1 50)] \<and>
     si_offered s = si_queue s"
proof -
  let ?cfg = "load_simulator_config (\<lambda>_. None)"
  let ?s1 = "sensor_wakes (sensor_interval ?cfg (length [demo_entry])) 0 demo_simulation"
  let ?s2 = "sensor_tick ?cfg ([demo_entry] ! 0) 0 ?s1"
  have "sim_step ?cfg [demo_entry] demo_simulation ?s1"
    by (rule sim_step.sensor_wakes) (simp_all add: demo_simulation_def new_simulation_def)
  moreover have "sim_step ?cfg [demo_entry] ?s1 ?s2"
    by (rule sim_step.sensor_ticks) (simp_all add: demo_simulation_def new_simulation_def sensor_wakes_def Let_def)
  ultimately have "sim_reaches ?cfg [demo_entry] demo_simulation ?s2"
    unfolding sim_reaches_def by (meson rtranclp.rtrancl_into_rtrancl rtranclp.rtrancl_refl)
  moreover have "si_made ?s2 = [reading_of demo_entry demo_uuid (utc_at 1000000) 1 50]"
    "si_queue ?s2 = [reading_job demo_entry (reading_of demo_entry demo_uuid (utc_at 1000000) 1 50)]" "si_offered ?s2 = si_queue ?s2"
    by (simp_all add: demo_simulation_def new_simulation_def sensor_wakes_def sensor_tick_def take_reading_def report_failure_def
        sensor_should_fail_def rng_random_def rng_gauss_def jitter_def next_reading_def drift_def new_generator_def py_clamp_def
        decide_faults_def publish_event_def send_event_def enqueue_def sim_queue_full_def reading_job_def demo_dice_def
        demo_simulator_config generator_constants demo_entry_def reading_of_def round_half_even_def Let_def)
  ultimately show ?thesis
    by blast
qed

theorem statistics_account_for_messages_witness:
  "\<exists>s. sim_reaches (load_simulator_config (\<lambda>_. None)) [demo_entry] demo_simulation s \<and> length (si_queue s) = 1 \<and> st_published (si_stats s) + st_publish_errs (si_stats s) + st_dropped (si_stats s) + length (si_hands s) = 0"
proof -
  obtain s where s: "sim_reaches (load_simulator_config (\<lambda>_. None)) [demo_entry] demo_simulation s"
    "si_queue s = [reading_job demo_entry (reading_of demo_entry demo_uuid (utc_at 1000000) 1 50)]" "si_offered s = si_queue s"
    using demo_first_reading by blast
  have "st_published (si_stats s) + st_publish_errs (si_stats s) + st_dropped (si_stats s) + length (si_queue s) + length (si_hands s) =
      length (si_offered s)"
    using statistics_account_for_messages s(1) unfolding demo_simulation_def by blast
  then show ?thesis
    using s by (intro exI [of _ s]) simp
qed

theorem simulated_messages_are_accepted_witness:
  "accepted_job (reading_job demo_entry (reading_of demo_entry demo_uuid (utc_at 1000000) 1 50))"
proof -
  obtain s where s: "sim_reaches (load_simulator_config (\<lambda>_. None)) [demo_entry] demo_simulation s"
    "si_offered s = [reading_job demo_entry (reading_of demo_entry demo_uuid (utc_at 1000000) 1 50)]"
    using demo_first_reading by metis
  have "list_all accepted_job (si_offered s)"
    by (rule simulated_messages_are_accepted [OF s(1) [unfolded demo_simulation_def]])
      (simp_all add: entry_ok_def demo_entry_def demo_uuid_ok VALID_METRICS_def)
  then show ?thesis
    using s(2) by simp
qed

text \<open>Identifiers that are all different: as many letters as the number says.\<close>

definition demo_numbered_simulation :: simulation where
  "demo_numbered_simulation =
     new_simulation (load_simulator_config (\<lambda>_. None)) [demo_entry] (\<lambda>_. demo_dice) (\<lambda>_. demo_dice) (\<lambda>n. replicate n CHR ''a'') 0"

theorem readings_are_numbered_witness:
  "distinct (map te_event_id (si_made demo_numbered_simulation)) \<and>
   (\<exists>n. map te_sequence_number (filter (\<lambda>evt. te_sensor_id evt = demo_uuid) (si_made demo_numbered_simulation)) = map int [1..<Suc n])"
proof -
  have "inj (\<lambda>n. replicate n CHR ''a'')"
    by (auto simp: inj_def dest: arg_cong [where f = length])
  then show ?thesis
    using readings_are_numbered [of "load_simulator_config (\<lambda>_. None)" "[demo_entry]" "\<lambda>_. demo_dice" "\<lambda>_. demo_dice" "\<lambda>n. replicate n CHR ''a''" 0
        demo_numbered_simulation 0]
    by (simp add: demo_numbered_simulation_def sim_reaches_def demo_entry_def)
qed

section \<open>What the shutdown loses\<close>

text \<open>
  A reading that the network delay holds back when the signal comes is cancelled with the event loop: it was made and counted
  as delayed, but is never handed to the queue and counted nowhere else.
\<close>

lemma shutdown_loses_delayed_reading:
  "\<exists>cfg s. sim_reaches cfg [demo_entry] (new_simulation cfg [demo_entry] (\<lambda>_. demo_dice) (\<lambda>_. demo_dice) (\<lambda>_. demo_uuid) 0) s \<and>
     si_loop_over s \<and> length (si_made s) = 1 \<and> st_delayed (si_stats s) = 1 \<and> si_offered s = [] \<and> si_timers s = [] \<and> account s = 0"
proof -
  let ?cfg = "(load_simulator_config (\<lambda>_. None))\<lparr>sm_network_delay_rate := 1\<rparr>"
  let ?s0 = "new_simulation ?cfg [demo_entry] (\<lambda>_. demo_dice) (\<lambda>_. demo_dice) (\<lambda>_. demo_uuid) 0"
  let ?s1 = "sensor_wakes (sensor_interval ?cfg (length [demo_entry])) 0 ?s0"
  let ?s2 = "sensor_tick ?cfg ([demo_entry] ! 0) 0 ?s1"
  let ?s3 = "?s2\<lparr>si_shutdown := True\<rparr>"
  note unfold = new_simulation_def sensor_wakes_def sensor_tick_def take_reading_def report_failure_def sensor_should_fail_def
    rng_random_def rng_gauss_def jitter_def next_reading_def drift_def new_generator_def decide_faults_def publish_event_def
    demo_dice_def demo_simulator_config new_stats_def account_def loop_ends_def Let_def
  have "sim_step ?cfg [demo_entry] ?s0 ?s1"
    by (rule sim_step.sensor_wakes) (simp_all add: new_simulation_def)
  moreover have "sim_step ?cfg [demo_entry] ?s1 ?s2"
    by (rule sim_step.sensor_ticks) (simp_all add: new_simulation_def sensor_wakes_def Let_def)
  moreover have "sim_step ?cfg [demo_entry] ?s2 ?s3"
    by (rule sim_step.signal)
  moreover have "sim_step ?cfg [demo_entry] ?s3 (loop_ends ?s3)"
    by (rule sim_step.loop_ends) (simp_all add: unfold)
  ultimately have "sim_reaches ?cfg [demo_entry] ?s0 (loop_ends ?s3)"
    unfolding sim_reaches_def by (meson rtranclp.rtrancl_into_rtrancl rtranclp.rtrancl_refl)
  moreover have "length (si_made (loop_ends ?s3)) = 1" "st_delayed (si_stats (loop_ends ?s3)) = 1" "si_offered (loop_ends ?s3) = []"
    "si_timers (loop_ends ?s3) = []" "account (loop_ends ?s3) = 0" "si_loop_over (loop_ends ?s3)"
    by (simp_all add: unfold)
  ultimately show ?thesis
    by blast
qed

end
