(* ===== verification/Window.thy ===== *)
theory Window
  imports Interfaces
begin

text \<open>
  \<open>services/stream-processor/window.py\<close> and \<open>registry.py\<close>: the per-series buffer of recent
  samples, ordered by event time and trimmed to the longest window, its statistics, and the
  registry of one buffer per (device, metric).

  Every comparison of two datetimes may raise (see \<^const>\<open>dt_less\<close>), so the loops are written
  with that branch. The configured windows are whole seconds; a window is given in microseconds.
\<close>

section \<open>Samples and statistics\<close>

record sample =
  smp_at :: datetime
  smp_reading :: real

record window_stats =
  ws_count :: int
  ws_moving_avg :: real
  ws_moving_stddev :: real
  ws_min :: real
  ws_max :: real
  ws_rate_of_change :: real

definition no_stats :: window_stats where
  "no_stats = \<lparr>ws_count = 0, ws_moving_avg = 0, ws_moving_stddev = 0, ws_min = 0, ws_max = 0,
               ws_rate_of_change = 0\<rparr>"

text \<open>Python's \<open>min\<close>, \<open>max\<close> and \<open>sum\<close> of a non-empty list, left to right.\<close>

definition py_min :: "real list \<Rightarrow> real" where
  "py_min vs = fold (\<lambda>v m. if v < m then v else m) (tl vs) (hd vs)"

definition py_max :: "real list \<Rightarrow> real" where
  "py_max vs = fold (\<lambda>v m. if v > m then v else m) (tl vs) (hd vs)"

definition compute_stats :: "sample list \<Rightarrow> exn + window_stats" where
  "compute_stats samples =
     (let n = length samples; vals = map smp_reading samples; total = sum_list vals
      in if n = 0 then Inl (ValueError ''min() arg is an empty sequence'')
         else
           let lo = py_min vals; hi = py_max vals; avg = total / of_nat n;
               variance = sum_list (map (\<lambda>v. (v - avg)\<^sup>2) vals) / of_nat n;
               stddev = sqrt variance;
               stats = (\<lambda>rate. \<lparr>ws_count = int n, ws_moving_avg = avg, ws_moving_stddev = stddev,
                               ws_min = lo, ws_max = hi, ws_rate_of_change = rate\<rparr>)
           in if 1 < n then
                (case dt_diff (smp_at (last samples)) (smp_at (hd samples)) of
                   Inl e \<Rightarrow> Inl e
                 | Inr us \<Rightarrow>
                     let elapsed = of_int us / 1000000
                     in if 0 < elapsed
                        then Inr (stats ((smp_reading (last samples) - smp_reading (hd samples)) / elapsed))
                        else Inr (stats 0))
              else Inr (stats 0))"

section \<open>The buffer of one series\<close>

record series_buffer =
  sb_samples :: "sample list"
  sb_max_window :: int

definition new_buffer :: "int \<Rightarrow> series_buffer" where
  "new_buffer max_window = \<lparr>sb_samples = [], sb_max_window = max_window\<rparr>"

text \<open>\<open>while i > 0 and samples[i - 1].at > at: i -= 1\<close>\<close>

fun insert_pos :: "sample list \<Rightarrow> datetime \<Rightarrow> nat \<Rightarrow> exn + nat" where
  "insert_pos samples t 0 = Inr 0"
| "insert_pos samples t (Suc i) =
     (case dt_less t (smp_at (samples ! i)) of
        Inl e \<Rightarrow> Inl e
      | Inr later \<Rightarrow> if later then insert_pos samples t i else Inr (Suc i))"

text \<open>\<open>while j < len(samples) and samples[j].at < cutoff: j += 1\<close>\<close>

fun trim_pos :: "sample list \<Rightarrow> datetime \<Rightarrow> exn + nat" where
  "trim_pos [] cutoff = Inr 0"
| "trim_pos (s # samples) cutoff =
     (case dt_less (smp_at s) cutoff of
        Inl e \<Rightarrow> Inl e
      | Inr older \<Rightarrow>
          if older then (case trim_pos samples cutoff of Inl e \<Rightarrow> Inl e | Inr j \<Rightarrow> Inr (Suc j))
          else Inr 0)"

definition add :: "datetime \<Rightarrow> real \<Rightarrow> series_buffer \<Rightarrow> (exn + unit) \<times> series_buffer" where
  "add t v buf =
     (case insert_pos (sb_samples buf) t (length (sb_samples buf)) of
        Inl e \<Rightarrow> (Inl e, buf)
      | Inr i \<Rightarrow>
          let samples = take i (sb_samples buf) @ \<lparr>smp_at = t, smp_reading = v\<rparr> # drop i (sb_samples buf);
              buf' = buf\<lparr>sb_samples := samples\<rparr>
          in (case dt_sub (smp_at (last samples)) (sb_max_window buf) of
                Inl e \<Rightarrow> (Inl e, buf')
              | Inr cutoff \<Rightarrow>
                  (case trim_pos samples cutoff of
                     Inl e \<Rightarrow> (Inl e, buf')
                   | Inr j \<Rightarrow> (ok, if 0 < j then buf'\<lparr>sb_samples := drop j samples\<rparr> else buf'))))"

text \<open>\<open>[s for s in samples if s.at >= cutoff]\<close>\<close>

fun samples_since :: "sample list \<Rightarrow> datetime \<Rightarrow> exn + sample list" where
  "samples_since [] cutoff = Inr []"
| "samples_since (s # samples) cutoff =
     (case dt_less (smp_at s) cutoff of
        Inl e \<Rightarrow> Inl e
      | Inr older \<Rightarrow>
          (case samples_since samples cutoff of
             Inl e \<Rightarrow> Inl e
           | Inr rest \<Rightarrow> Inr (if older then rest else s # rest)))"

definition stats_for :: "datetime \<Rightarrow> int \<Rightarrow> series_buffer \<Rightarrow> exn + window_stats \<times> bool" where
  "stats_for now window buf =
     (case dt_sub now window of
        Inl e \<Rightarrow> Inl e
      | Inr cutoff \<Rightarrow>
          (case samples_since (sb_samples buf) cutoff of
             Inl e \<Rightarrow> Inl e
           | Inr in_window \<Rightarrow>
               if in_window = [] then Inr (no_stats, False)
               else (case compute_stats in_window of Inl e \<Rightarrow> Inl e | Inr s \<Rightarrow> Inr (s, True))))"

section \<open>The registry\<close>

record series_key =
  sk_factory_id :: string
  sk_production_line_id :: string
  sk_machine_id :: string
  sk_device_id :: string
  sk_sensor_id :: string
  sk_metric :: string

definition series_id :: "series_key \<Rightarrow> string" where
  "series_id key = bar_key (sk_device_id key) (sk_metric key)"

text \<open>
  The two dictionaries of the registry always get a key together; one association list in
  insertion order holds both values.
\<close>

record series_registry =
  sr_series :: "(string \<times> series_key \<times> series_buffer) list"
  sr_max_window :: int

definition new_registry :: "int \<Rightarrow> series_registry" where
  "new_registry max_window = \<lparr>sr_series = [], sr_max_window = max_window\<rparr>"

definition registry_buffer :: "series_registry \<Rightarrow> string \<Rightarrow> series_buffer" where
  "registry_buffer reg sid =
     (case map_of (sr_series reg) sid of None \<Rightarrow> new_buffer (sr_max_window reg) | Some (k, b) \<Rightarrow> b)"

fun put_buffer ::
  "string \<Rightarrow> series_key \<Rightarrow> series_buffer \<Rightarrow> (string \<times> series_key \<times> series_buffer) list \<Rightarrow>
   (string \<times> series_key \<times> series_buffer) list" where
  "put_buffer sid key b [] = [(sid, key, b)]"
| "put_buffer sid key b ((sid', key', b') # xs) =
     (if sid' = sid then (sid', key', b) # xs else (sid', key', b') # put_buffer sid key b xs)"

definition registry_record ::
  "series_key \<Rightarrow> datetime \<Rightarrow> real \<Rightarrow> series_registry \<Rightarrow> (exn + unit) \<times> series_registry" where
  "registry_record key t v reg =
     (let (r, b) = add t v (registry_buffer reg (series_id key))
      in (r, reg\<lparr>sr_series := put_buffer (series_id key) key b (sr_series reg)\<rparr>))"

definition snapshot :: "series_registry \<Rightarrow> (series_key \<times> series_buffer) list" where
  "snapshot reg = map snd (sr_series reg)"

section \<open>Aware samples\<close>

text \<open>On aware datetimes the loops compute the obvious functions of the instants.\<close>

abbreviation at_us :: "sample \<Rightarrow> int" where
  "at_us s \<equiv> micros (smp_at s)"

definition all_aware :: "sample list \<Rightarrow> bool" where
  "all_aware ss \<longleftrightarrow> (\<forall>s\<in>set ss. is_aware (smp_at s))"

lemma all_aware_simps [simp]:
  "all_aware []"
  "all_aware (s # ss) \<longleftrightarrow> is_aware (smp_at s) \<and> all_aware ss"
  "all_aware (xs @ ys) \<longleftrightarrow> all_aware xs \<and> all_aware ys"
  by (auto simp: all_aware_def)

lemma dt_less_aware: "is_aware a \<Longrightarrow> is_aware b \<Longrightarrow> dt_less a b = Inr (micros a < micros b)"
  by (auto elim!: is_awareE)

lemma dt_sub_aware: "is_aware a \<Longrightarrow> in_range (micros a - d) \<Longrightarrow> dt_sub a d = Inr (Aware (micros a - d))"
  by (auto elim!: is_awareE)

lemma dt_diff_aware: "is_aware a \<Longrightarrow> is_aware b \<Longrightarrow> dt_diff a b = Inr (micros a - micros b)"
  by (auto elim!: is_awareE)

lemma trim_pos_aware:
  "all_aware ss \<Longrightarrow> trim_pos ss (Aware c) = Inr (length (takeWhile (\<lambda>s. at_us s < c) ss))"
  by (induction ss) (auto simp: dt_less_aware)

lemma samples_since_aware:
  "all_aware ss \<Longrightarrow> samples_since ss (Aware c) = Inr (filter (\<lambda>s. c \<le> at_us s) ss)"
  by (induction ss) (auto simp: dt_less_aware)

lemma insert_pos_aware:
  assumes "all_aware ss" and "sorted (map at_us ss)" and "is_aware a"
  shows "n \<le> length ss \<Longrightarrow>
    insert_pos ss a n = Inr (length (filter (\<lambda>s. at_us s \<le> micros a) (take n ss)))"
proof (induction n)
  case (Suc n)
  have s: "is_aware (smp_at (ss ! n))"
    using assms(1) Suc.prems by (auto simp: all_aware_def)
  show ?case
  proof (cases "micros a < at_us (ss ! n)")
    case True
    with Suc s assms(3) show ?thesis
      by (simp add: dt_less_aware take_Suc_conv_app_nth)
  next
    case False
    have "at_us (ss ! i) \<le> at_us (ss ! n)" if "i \<le> n" for i
      using assms(2) Suc.prems that by (auto simp: sorted_iff_nth_mono)
    moreover have "\<exists>i\<le>n. s = ss ! i" if "s \<in> set (take (Suc n) ss)" for s
      using that by (auto simp: in_set_conv_nth less_Suc_eq_le)
    ultimately have "\<forall>s\<in>set (take (Suc n) ss). at_us s \<le> micros a"
      using False by fastforce
    then have "filter (\<lambda>s. at_us s \<le> micros a) (take (Suc n) ss) = take (Suc n) ss"
      by (simp add: filter_id_conv)
    with False s assms(3) Suc.prems show ?thesis
      by (simp add: dt_less_aware)
  qed
qed simp

lemma take_filter_sorted:
  fixes f :: "'a \<Rightarrow> 'b::linorder"
  assumes "sorted (map f xs)"
  shows "take (length (filter (\<lambda>x. f x \<le> c) xs)) xs = filter (\<lambda>x. f x \<le> c) xs"
    and "drop (length (filter (\<lambda>x. f x \<le> c) xs)) xs = filter (\<lambda>x. \<not> f x \<le> c) xs"
  using assms
proof (induction xs)
  case (Cons x xs)
  { case 1
    then show ?case
    proof (cases "f x \<le> c")
      case False
      then have "filter (\<lambda>x. f x \<le> c) (x # xs) = []"
        using 1 by (auto simp: filter_empty_conv)
      then show ?thesis by simp
    qed (use Cons in simp)
  next
    case 2
    then show ?case
    proof (cases "f x \<le> c")
      case False
      then have "filter (\<lambda>x. f x \<le> c) (x # xs) = []" and "filter (\<lambda>x. \<not> f x \<le> c) (x # xs) = x # xs"
        using 2 by (auto simp: filter_empty_conv filter_id_conv)
      then show ?thesis by simp
    qed (use Cons in simp)
  }
qed simp_all

text \<open>The buffer after the insertion, before the trim.\<close>

definition inserted :: "sample \<Rightarrow> sample list \<Rightarrow> sample list" where
  "inserted s ss = filter (\<lambda>x. at_us x \<le> at_us s) ss @ s # filter (\<lambda>x. \<not> at_us x \<le> at_us s) ss"

lemma mset_inserted [simp]: "mset (inserted s ss) = add_mset s (mset ss)"
  by (simp add: inserted_def)

lemma set_inserted [simp]: "set (inserted s ss) = insert s (set ss)"
  by (metis mset_inserted set_mset_add_mset_insert set_mset_mset)

lemma inserted_not_Nil [simp]: "inserted s ss \<noteq> []"
  by (simp add: inserted_def)

lemma sorted_inserted: "sorted (map at_us ss) \<Longrightarrow> sorted (map at_us (inserted s ss))"
  by (auto simp: inserted_def sorted_append intro: sorted_map_filter)

lemma all_aware_set: "all_aware xs \<Longrightarrow> set ys \<subseteq> set xs \<Longrightarrow> all_aware ys"
  by (auto simp: all_aware_def)

lemma last_sorted_Max:
  fixes f :: "'a \<Rightarrow> 'b::linorder"
  assumes "sorted (map f xs)" and "xs \<noteq> []"
  shows "f (last xs) = Max (f ` set xs)"
proof (rule Max_eqI [symmetric])
  fix y
  assume "y \<in> f ` set xs"
  then obtain i where "i < length xs" and "y = f (xs ! i)"
    by (auto simp: in_set_conv_nth)
  then show "y \<le> f (last xs)"
    using assms by (auto simp: last_conv_nth sorted_iff_nth_mono)
qed (use assms in auto)

lemma add_aware:
  assumes "all_aware (sb_samples buf)" and "sorted (map at_us (sb_samples buf))"
    and "is_aware (smp_at s)"
    and "in_range (at_us (last (inserted s (sb_samples buf))) - sb_max_window buf)"
  shows "add (smp_at s) (smp_reading s) buf =
    (ok, buf\<lparr>sb_samples :=
       filter (\<lambda>x. at_us (last (inserted s (sb_samples buf))) - sb_max_window buf \<le> at_us x)
         (inserted s (sb_samples buf))\<rparr>)"
proof -
  let ?ss = "sb_samples buf" and ?ins = "inserted s (sb_samples buf)"
  let ?c = "at_us (last ?ins) - sb_max_window buf"
  have pos: "insert_pos ?ss (smp_at s) (length ?ss) = Inr (length (filter (\<lambda>x. at_us x \<le> at_us s) ?ss))"
    using insert_pos_aware [OF assms(1,2,3), of "length ?ss"] by simp
  have ins: "take (length (filter (\<lambda>x. at_us x \<le> at_us s) ?ss)) ?ss @ s #
      drop (length (filter (\<lambda>x. at_us x \<le> at_us s) ?ss)) ?ss = ?ins"
    using take_filter_sorted [OF assms(2), of "at_us s"] by (simp add: inserted_def)
  have aware: "all_aware ?ins"
    using assms(1,3) by (auto simp: all_aware_def)
  then have "is_aware (smp_at (last ?ins))"
    using last_in_set [OF inserted_not_Nil] by (auto simp: all_aware_def simp del: set_inserted)
  then have cut: "dt_sub (smp_at (last ?ins)) (sb_max_window buf) = Inr (Aware ?c)"
    using assms(4) by (rule dt_sub_aware)
  have trim: "drop (length (takeWhile (\<lambda>x. at_us x < ?c) ?ins)) ?ins = filter (\<lambda>x. ?c \<le> at_us x) ?ins"
    using dropWhile_eq_filter_sorted [OF sorted_inserted [OF assms(2)], of ?c s]
    by (simp add: dropWhile_eq_drop)
  have eta: "\<lparr>smp_at = smp_at s, smp_reading = smp_reading s\<rparr> = s"
    by simp
  show ?thesis
    unfolding add_def Let_def pos sum.case eta ins cut trim_pos_aware [OF aware] trim
    using trim by (cases "length (takeWhile (\<lambda>x. at_us x < ?c) ?ins)") (simp_all only: if_False if_True; simp)+
qed

lemma add_max_window [simp, frame]: "sb_max_window (snd (add t v buf)) = sb_max_window buf"
  by (auto simp: add_def Let_def split: sum.split)

text \<open>Adding a whole arrival sequence.\<close>

definition add_all :: "sample list \<Rightarrow> series_buffer \<Rightarrow> series_buffer" where
  "add_all xs buf = fold (\<lambda>s b. snd (add (smp_at s) (smp_reading s) b)) xs buf"

definition newest :: "sample list \<Rightarrow> int" where
  "newest xs = Max (at_us ` set xs)"

lemma newest_snoc: "xs \<noteq> [] \<Longrightarrow> newest (xs @ [s]) = max (at_us s) (newest xs)"
  by (simp add: newest_def)

lemma newest_in: "xs \<noteq> [] \<Longrightarrow> \<exists>s\<in>set xs. newest xs = at_us s"
  unfolding newest_def using Max_in [of "at_us ` set xs"] by (simp add: image_iff)

text \<open>
  The state after an arrival sequence \<open>xs\<close>: aware, ordered by event time, holding exactly the
  samples within the window of the newest one.
\<close>

definition holds_window :: "int \<Rightarrow> sample list \<Rightarrow> series_buffer \<Rightarrow> bool" where
  "holds_window W xs buf \<longleftrightarrow>
     all_aware (sb_samples buf) \<and> sorted (map at_us (sb_samples buf)) \<and> sb_max_window buf = W \<and>
     mset (sb_samples buf) = filter_mset (\<lambda>s. newest xs - W \<le> at_us s) (mset xs)"

lemma holds_window_set:
  "holds_window W xs buf \<Longrightarrow> set (sb_samples buf) = {s \<in> set xs. newest xs - W \<le> at_us s}"
  unfolding holds_window_def by (metis set_mset_filter set_mset_mset)

lemma newest_of_window:
  assumes "holds_window W xs buf" and "xs \<noteq> []" and "0 \<le> W"
  shows "Max (insert (at_us s) (at_us ` set (sb_samples buf))) = newest (xs @ [s])"
proof -
  have set: "set (sb_samples buf) = {s \<in> set xs. newest xs - W \<le> at_us s}"
    using assms(1) by (rule holds_window_set)
  obtain m where m: "m \<in> set xs" "newest xs = at_us m"
    using newest_in [OF assms(2)] by blast
  then have "m \<in> set (sb_samples buf)"
    using set assms(3) by simp
  moreover have "\<forall>x\<in>set (sb_samples buf). at_us x \<le> at_us m"
    using set m(2) [symmetric] by (simp add: newest_def)
  ultimately have "Max (at_us ` set (sb_samples buf)) = newest xs"
    using m(2) by (intro Max_eqI) auto
  with \<open>m \<in> set (sb_samples buf)\<close> show ?thesis
    by (subst Max_insert) (auto simp: newest_snoc [OF assms(2)])
qed

lemma filter_window_snoc:
  assumes "xs \<noteq> []"
  shows "filter_mset (\<lambda>x. newest (xs @ [s]) - W \<le> at_us x)
      (add_mset s (filter_mset (\<lambda>x. newest xs - W \<le> at_us x) (mset xs))) =
    filter_mset (\<lambda>x. newest (xs @ [s]) - W \<le> at_us x) (mset (xs @ [s]))"
proof -
  have "newest xs \<le> newest (xs @ [s])"
    by (simp add: newest_snoc [OF assms])
  then show ?thesis
    by (auto simp: filter_mset_filter_mset intro!: filter_mset_cong)
qed

lemma add_step:
  assumes "xs = [] \<and> buf = new_buffer W \<or> xs \<noteq> [] \<and> holds_window W xs buf"
    and "0 \<le> W" and "is_aware (smp_at s)" and "in_range (newest (xs @ [s]) - W)"
  shows "fst (add (smp_at s) (smp_reading s) buf) = ok \<and>
    holds_window W (xs @ [s]) (snd (add (smp_at s) (smp_reading s) buf))"
proof -
  have wf: "all_aware (sb_samples buf)" "sorted (map at_us (sb_samples buf))" "sb_max_window buf = W"
    using assms(1) by (auto simp: new_buffer_def holds_window_def)
  have "at_us (last (inserted s (sb_samples buf))) = Max (insert (at_us s) (at_us ` set (sb_samples buf)))"
    using last_sorted_Max [OF sorted_inserted [OF wf(2), of s]] by simp
  also have "\<dots> = newest (xs @ [s])"
    using assms(1,2) newest_of_window [of W xs buf s] by (auto simp: new_buffer_def newest_def)
  finally have last: "at_us (last (inserted s (sb_samples buf))) = newest (xs @ [s])" .
  have eq: "add (smp_at s) (smp_reading s) buf =
      (ok, buf\<lparr>sb_samples := filter (\<lambda>x. newest (xs @ [s]) - W \<le> at_us x) (inserted s (sb_samples buf))\<rparr>)"
    using add_aware [OF wf(1,2) assms(3)] assms(4) by (simp add: last wf(3))
  have "filter_mset (\<lambda>x. newest (xs @ [s]) - W \<le> at_us x) (add_mset s (mset (sb_samples buf))) =
      filter_mset (\<lambda>x. newest (xs @ [s]) - W \<le> at_us x) (mset (xs @ [s]))"
    using assms(1)
  proof
    assume "xs \<noteq> [] \<and> holds_window W xs buf"
    then show ?thesis
      using filter_window_snoc [of xs s W] by (simp only: holds_window_def) simp
  qed (simp add: new_buffer_def)
  then show ?thesis
    using wf assms(3) sorted_inserted [OF wf(2), of s]
    by (auto simp: eq holds_window_def all_aware_def intro: sorted_map_filter)
qed

lemma add_all_holds_window:
  assumes "0 \<le> W"
  shows "xs \<noteq> [] \<Longrightarrow> all_aware xs \<Longrightarrow> (\<forall>s\<in>set xs. in_range (at_us s - W)) \<Longrightarrow>
    holds_window W xs (add_all xs (new_buffer W))"
proof (induction xs rule: rev_induct)
  case (snoc s xs)
  have "in_range (newest (xs @ [s]) - W)"
    using newest_in [of "xs @ [s]"] snoc.prems(3) by force
  then have "holds_window W (xs @ [s]) (snd (add (smp_at s) (smp_reading s) (add_all xs (new_buffer W))))"
    using snoc assms add_step [of xs "add_all xs (new_buffer W)" W s]
    by (cases "xs = []") (auto simp: add_all_def)
  then show ?case by (simp add: add_all_def)
qed simp

section \<open>Statistics\<close>

lemma fold_min:
  "fold (\<lambda>v m. if v < m then v else m) vs (m::real) \<in> insert m (set vs) \<and>
   (\<forall>v\<in>insert m (set vs). fold (\<lambda>v m. if v < m then v else m) vs m \<le> v)"
proof (induction vs arbitrary: m)
  case (Cons v vs)
  show ?case
    using Cons [of v] Cons [of m] by (cases "v < m") (auto intro: order_trans)
qed simp

lemma fold_max:
  "fold (\<lambda>v m. if v > m then v else m) vs (m::real) \<in> insert m (set vs) \<and>
   (\<forall>v\<in>insert m (set vs). v \<le> fold (\<lambda>v m. if v > m then v else m) vs m)"
proof (induction vs arbitrary: m)
  case (Cons v vs)
  show ?case
    using Cons [of v] Cons [of m] by (cases "v > m") (auto intro: order_trans)
qed simp

lemma py_min: "vs \<noteq> [] \<Longrightarrow> py_min vs \<in> set vs" "v \<in> set vs \<Longrightarrow> py_min vs \<le> v"
  using fold_min [of "tl vs" "hd vs"] by (cases vs; auto simp: py_min_def)+

lemma py_max: "vs \<noteq> [] \<Longrightarrow> py_max vs \<in> set vs" "v \<in> set vs \<Longrightarrow> v \<le> py_max vs"
  using fold_max [of "tl vs" "hd vs"] by (cases vs; auto simp: py_max_def)+

lemma sum_list_bounds:
  fixes f :: "'a \<Rightarrow> real"
  assumes "\<And>x. x \<in> set xs \<Longrightarrow> lo \<le> f x \<and> f x \<le> hi"
  shows "of_nat (length xs) * lo \<le> sum_list (map f xs) \<and> sum_list (map f xs) \<le> of_nat (length xs) * hi"
  using assms
proof (induction xs)
  case (Cons x xs)
  have "lo \<le> f x \<and> f x \<le> hi"
    using Cons.prems by simp
  moreover have "of_nat (length xs) * lo \<le> sum_list (map f xs) \<and> sum_list (map f xs) \<le> of_nat (length xs) * hi"
    using Cons by simp
  ultimately show ?case
    by (simp add: algebra_simps)
qed simp

lemma mean_bounds:
  fixes f :: "'a \<Rightarrow> real"
  assumes "xs \<noteq> []" and "\<And>x. x \<in> set xs \<Longrightarrow> lo \<le> f x \<and> f x \<le> hi"
  shows "lo \<le> sum_list (map f xs) / of_nat (length xs)"
    and "sum_list (map f xs) / of_nat (length xs) \<le> hi"
proof -
  have "0 < real (length xs)"
    using assms(1) by simp
  then show "lo \<le> sum_list (map f xs) / of_nat (length xs)"
    and "sum_list (map f xs) / of_nat (length xs) \<le> hi"
    using sum_list_bounds [of xs lo f hi] assms(2)
    by (auto simp: pos_le_divide_eq pos_divide_le_eq mult.commute)
qed

text \<open>The mean of a list of readings and their deviation, as the code computes them.\<close>

lemma stddev_bound:
  fixes vs :: "real list"
  assumes "vs \<noteq> []"
  defines "avg \<equiv> sum_list vs / of_nat (length vs)"
  defines "var \<equiv> sum_list (map (\<lambda>v. (v - avg)\<^sup>2) vs) / of_nat (length vs)"
  shows "py_min vs \<le> avg" and "avg \<le> py_max vs" and "0 \<le> sqrt var" and "sqrt var \<le> py_max vs - py_min vs"
proof -
  let ?r = "py_max vs - py_min vs"
  show b: "py_min vs \<le> avg" "avg \<le> py_max vs"
    using mean_bounds [OF assms(1), of "py_min vs" "\<lambda>v. v" "py_max vs"] py_min(2) [of _ vs] py_max(2) [of _ vs]
    by (simp_all add: avg_def)
  have "0 \<le> (v - avg)\<^sup>2 \<and> (v - avg)\<^sup>2 \<le> ?r\<^sup>2" if "v \<in> set vs" for v
  proof -
    have "\<bar>v - avg\<bar> \<le> ?r"
      using b py_min(2) [OF that] py_max(2) [OF that] by (simp add: abs_le_iff)
    then show ?thesis
      by (metis abs_ge_zero power2_abs power_mono zero_le_power2)
  qed
  then have "0 \<le> var" and "var \<le> ?r\<^sup>2"
    using mean_bounds [OF assms(1), of 0 "\<lambda>v. (v - avg)\<^sup>2" "?r\<^sup>2"] by (simp_all add: var_def)
  moreover have "0 \<le> ?r"
    using b by simp
  ultimately show "0 \<le> sqrt var" and "sqrt var \<le> ?r"
    by (simp_all add: real_le_lsqrt)
qed

lemma compute_stats_aware:
  assumes "ss \<noteq> []" and "all_aware ss"
  shows "\<exists>st. compute_stats ss = Inr st"
proof -
  have "is_aware (smp_at (last ss))" and "is_aware (smp_at (hd ss))"
    using assms by (auto simp: all_aware_def)
  then show ?thesis
    using assms(1) by (simp add: compute_stats_def Let_def dt_diff_aware)
qed

lemma compute_stats_fields:
  assumes "compute_stats ss = Inr st"
  shows "ss \<noteq> []" and "ws_count st = int (length ss)"
    and "ws_moving_avg st = sum_list (map smp_reading ss) / of_nat (length ss)"
    and "ws_min st = py_min (map smp_reading ss)" and "ws_max st = py_max (map smp_reading ss)"
    and "ws_moving_stddev st =
      sqrt (sum_list (map (\<lambda>v. (v - ws_moving_avg st)\<^sup>2) (map smp_reading ss)) / of_nat (length ss))"
  using assms by (auto simp: compute_stats_def Let_def split: if_splits sum.splits)

text \<open>
  Whatever samples a window holds, if its statistics are computed then the reported minimum
  and maximum are readings of the window that bound every reading, the average lies between them,
  and the standard deviation is between 0 and their difference.
\<close>

theorem window_stats_bounds:
  assumes "compute_stats ss = Inr st"
  shows "ws_count st = int (length ss) \<and> ws_min st \<in> smp_reading ` set ss \<and> ws_max st \<in> smp_reading ` set ss \<and>
    (\<forall>s\<in>set ss. ws_min st \<le> smp_reading s \<and> smp_reading s \<le> ws_max st) \<and>
    ws_min st \<le> ws_moving_avg st \<and> ws_moving_avg st \<le> ws_max st \<and>
    0 \<le> ws_moving_stddev st \<and> ws_moving_stddev st \<le> ws_max st - ws_min st"
proof -
  note f = compute_stats_fields [OF assms]
  let ?vs = "map smp_reading ss"
  have ne: "?vs \<noteq> []"
    using f(1) by simp
  have "ws_min st \<in> smp_reading ` set ss" and "ws_max st \<in> smp_reading ` set ss"
    using py_min(1) [OF ne] py_max(1) [OF ne] f(4,5) by auto
  moreover have "\<forall>s\<in>set ss. ws_min st \<le> smp_reading s \<and> smp_reading s \<le> ws_max st"
    using py_min(2) [of _ ?vs] py_max(2) [of _ ?vs] f(4,5) by auto
  ultimately show ?thesis
    using stddev_bound [OF ne] f(2-5) f(6) [unfolded f(3)] by simp
qed

theorem window_stats_bounds_witness:
  "ws_max (projr (compute_stats [\<lparr>smp_at = Aware 0, smp_reading = 2\<rparr>, \<lparr>smp_at = Aware 1000000, smp_reading = 6\<rparr>])) = 6 \<and>
   ws_moving_avg (projr (compute_stats [\<lparr>smp_at = Aware 0, smp_reading = 2\<rparr>, \<lparr>smp_at = Aware 1000000, smp_reading = 6\<rparr>])) \<le> 6"
  using window_stats_bounds
    [of "[\<lparr>smp_at = Aware 0, smp_reading = 2\<rparr>, \<lparr>smp_at = Aware 1000000, smp_reading = 6\<rparr>]"]
  by (simp add: compute_stats_def py_min_def py_max_def)

section \<open>The window after any arrivals\<close>

text \<open>
  C5. Telemetry may arrive in any order. After any arrivals with aware timestamps, none of which
  raises, the buffer is ordered by event time and holds exactly the samples, with their
  multiplicities, that are not older than the longest window before the newest one.
\<close>

theorem buffer_holds_window:
  assumes "0 \<le> W" and "all_aware xs" and "\<forall>s\<in>set xs. in_range (at_us s - W)" and "xs \<noteq> []"
  shows "sorted (map at_us (sb_samples (add_all xs (new_buffer W)))) \<and>
    mset (sb_samples (add_all xs (new_buffer W))) =
      filter_mset (\<lambda>s. Max (at_us ` set xs) - W \<le> at_us s) (mset xs) \<and>
    (\<forall>i<length xs. fst (add (smp_at (xs ! i)) (smp_reading (xs ! i)) (add_all (take i xs) (new_buffer W))) = ok)"
proof -
  have "fst (add (smp_at (xs ! i)) (smp_reading (xs ! i)) (add_all (take i xs) (new_buffer W))) = ok"
    if i: "i < length xs" for i
  proof -
    have sub: "set (take i xs @ [xs ! i]) \<subseteq> set xs"
      using i set_take_subset [of i xs] by auto
    have inr: "in_range (newest (take i xs @ [xs ! i]) - W)"
      using newest_in [of "take i xs @ [xs ! i]"] sub assms(3) by fastforce
    have "take i xs = [] \<and> add_all (take i xs) (new_buffer W) = new_buffer W \<or>
        take i xs \<noteq> [] \<and> holds_window W (take i xs) (add_all (take i xs) (new_buffer W))"
      using add_all_holds_window [OF assms(1), of "take i xs"] sub assms(2,3)
      by (cases "take i xs = []") (auto simp: all_aware_def add_all_def)
    then show ?thesis
      using add_step [of "take i xs" "add_all (take i xs) (new_buffer W)" W "xs ! i"] assms(1,2) inr i
      by (simp add: all_aware_def)
  qed
  then show ?thesis
    using add_all_holds_window [OF assms(1,4,2,3)] by (simp add: holds_window_def newest_def)
qed

theorem buffer_holds_window_witness:
  "sb_samples (add_all [\<lparr>smp_at = Aware 9000000, smp_reading = 1\<rparr>, \<lparr>smp_at = Aware 8000000, smp_reading = 2\<rparr>]
     (new_buffer 3000000)) =
     [\<lparr>smp_at = Aware 8000000, smp_reading = 2\<rparr>, \<lparr>smp_at = Aware 9000000, smp_reading = 1\<rparr>] \<and>
   sorted (map at_us (sb_samples (add_all [\<lparr>smp_at = Aware 9000000, smp_reading = 1\<rparr>,
     \<lparr>smp_at = Aware 8000000, smp_reading = 2\<rparr>] (new_buffer 3000000))))"
  using buffer_holds_window [of 3000000
      "[\<lparr>smp_at = Aware 9000000, smp_reading = 1\<rparr>, \<lparr>smp_at = Aware 8000000, smp_reading = 2\<rparr>]"]
  by (simp add: in_range_def dt_max_def add_all_def add_def new_buffer_def)

text \<open>
  C17. The statistics of a window no longer than the longest one do not depend on the trimming: as
  long as no sample is dated after \<open>now\<close>, they exist exactly when some arrived sample is not older
  than the window, and then count exactly those samples, whatever the order of arrival.
\<close>

theorem stats_unaffected_by_trim:
  assumes "0 \<le> W" and "all_aware xs" and "\<forall>s\<in>set xs. in_range (at_us s - W)" and "xs \<noteq> []"
    and "\<forall>s\<in>set xs. at_us s \<le> now" and "w \<le> W" and "in_range (now - w)"
  shows "\<exists>ss. sorted (map at_us ss) \<and> mset ss = filter_mset (\<lambda>s. now - w \<le> at_us s) (mset xs) \<and>
    stats_for (Aware now) w (add_all xs (new_buffer W)) =
      (if ss = [] then Inr (no_stats, False) else Inr (projr (compute_stats ss), True))"
proof -
  let ?b = "add_all xs (new_buffer W)"
  have h: "holds_window W xs ?b"
    by (rule add_all_holds_window [OF assms(1,4,2,3)])
  let ?ss = "filter (\<lambda>s. now - w \<le> at_us s) (sb_samples ?b)"
  have "newest xs \<le> now"
    using newest_in [OF assms(4)] assms(5) by auto
  then have "mset ?ss = filter_mset (\<lambda>s. now - w \<le> at_us s) (mset xs)"
    using h assms(6) by (auto simp: holds_window_def filter_mset_filter_mset intro!: filter_mset_cong)
  moreover have "sorted (map at_us ?ss)"
    using h by (auto simp: holds_window_def)
  moreover have "all_aware (sb_samples ?b)"
    using h by (simp add: holds_window_def)
  moreover from this have "all_aware ?ss"
    by (auto intro: all_aware_set)
  then have "?ss \<noteq> [] \<Longrightarrow> compute_stats ?ss = Inr (projr (compute_stats ?ss))"
    using compute_stats_aware [of ?ss] by auto
  moreover have "stats_for (Aware now) w ?b =
      (if ?ss = [] then Inr (no_stats, False) else case compute_stats ?ss of Inl e \<Rightarrow> Inl e | Inr s \<Rightarrow> Inr (s, True))"
    using assms(7) \<open>all_aware (sb_samples ?b)\<close> by (simp add: stats_for_def samples_since_aware)
  ultimately show ?thesis
    by (intro exI [of _ ?ss]) (metis sum.case(2))
qed

theorem stats_unaffected_by_trim_witness:
  "\<exists>ss. mset ss = {#\<lparr>smp_at = Aware 9000000, smp_reading = 1\<rparr>#} \<and>
    stats_for (Aware 9500000) 1000000 (add_all [\<lparr>smp_at = Aware 9000000, smp_reading = 1\<rparr>,
      \<lparr>smp_at = Aware 8000000, smp_reading = 2\<rparr>] (new_buffer 3000000)) =
      (if ss = [] then Inr (no_stats, False) else Inr (projr (compute_stats ss), True))"
  using stats_unaffected_by_trim [of 3000000
      "[\<lparr>smp_at = Aware 9000000, smp_reading = 1\<rparr>, \<lparr>smp_at = Aware 8000000, smp_reading = 2\<rparr>]" 9500000 1000000]
  by (auto simp: in_range_def dt_max_def)

section \<open>A timestamp in the future\<close>

text \<open>
  One sample dated more than the longest window after every later arrival empties the buffer
  of them: each such arrival is trimmed at once, so the series keeps reporting the stray sample
  alone for as long as ordinary samples arrive.
\<close>

theorem future_sample_poisons_series:
  assumes "is_aware (smp_at f)" and "all_aware xs" and "\<forall>s\<in>set xs. at_us s < at_us f - W"
    and "0 \<le> W" and "in_range (at_us f - W)"
  shows "sb_samples (add_all (f # xs) (new_buffer W)) = [f]"
  using assms(2,3)
proof (induction xs rule: rev_induct)
  case Nil
  have "newest [f] = at_us f"
    by (simp add: newest_def)
  then show ?case
    using add_aware [of "new_buffer W" f] assms by (simp add: add_all_def new_buffer_def inserted_def)
next
  case (snoc s xs)
  let ?b = "add_all (f # xs) (new_buffer W)"
  have b: "sb_samples ?b = [f]"
    using snoc by simp
  have w: "sb_max_window ?b = W"
  proof -
    have "sb_max_window (add_all ys c) = sb_max_window c" for ys c
      by (induction ys arbitrary: c) (simp_all add: add_all_def)
    then show ?thesis by (simp add: new_buffer_def)
  qed
  have "inserted s [f] = [s, f]"
    using snoc.prems assms(4) by (simp add: inserted_def)
  moreover have "add_all (f # xs @ [s]) (new_buffer W) = snd (add (smp_at s) (smp_reading s) ?b)"
    by (simp add: add_all_def)
  ultimately show ?case
    using add_aware [of ?b s] b w assms snoc.prems by simp
qed

theorem future_sample_poisons_series_witness:
  "sb_samples (add_all [\<lparr>smp_at = Aware 90000000, smp_reading = 1\<rparr>, \<lparr>smp_at = Aware 8000000, smp_reading = 2\<rparr>]
     (new_buffer 3000000)) = [\<lparr>smp_at = Aware 90000000, smp_reading = 1\<rparr>]"
  using future_sample_poisons_series [of "\<lparr>smp_at = Aware 90000000, smp_reading = 1\<rparr>"
      "[\<lparr>smp_at = Aware 8000000, smp_reading = 2\<rparr>]" 3000000]
  by (simp add: in_range_def dt_max_def)

section \<open>The registry\<close>

text \<open>A naive timestamp is never compared with the buffer's own: the call raises.\<close>

lemma add_mixed:
  assumes "sb_samples buf \<noteq> []" and "is_aware t \<noteq> is_aware (smp_at (last (sb_samples buf)))"
  shows "add t v buf = (Inl TypeError, buf)"
proof -
  obtain n where n: "length (sb_samples buf) = Suc n"
    using assms(1) by (cases "sb_samples buf") auto
  then have "last (sb_samples buf) = sb_samples buf ! n"
    using assms(1) by (simp add: last_conv_nth)
  then have "dt_less t (smp_at (sb_samples buf ! n)) = Inl TypeError"
    using assms(2) by (cases t; cases "smp_at (sb_samples buf ! n)") auto
  then show ?thesis
    by (simp add: add_def n)
qed

lemma stats_for_naive:
  assumes "sb_samples buf = s # ss" and "\<not> is_aware (smp_at s)" and "in_range (now - w)"
  shows "stats_for (Aware now) w buf = Inl TypeError"
  using assms by (cases "smp_at s") (auto simp: stats_for_def)

lemma map_of_put_buffer:
  "map_of (put_buffer sid key b xs) k =
   (if k = sid then Some (case map_of xs sid of None \<Rightarrow> (key, b) | Some (key', _) \<Rightarrow> (key', b)) else map_of xs k)"
  by (induction sid key b xs rule: put_buffer.induct) (auto split: option.split)

text \<open>
  One request of the registry is a series key with a timestamp and a reading. The buffers are
  independent states, one per series identifier, all with the registry's longest window.
\<close>

type_synonym record_request = "series_key \<times> datetime \<times> real"

definition registry_store ::
  "int \<Rightarrow> record_request \<Rightarrow> (string \<times> series_key \<times> series_buffer) list \<Rightarrow>
   (exn + unit) \<times> (string \<times> series_key \<times> series_buffer) list" where
  "registry_store W q xs =
     (case q of (key, t, v) \<Rightarrow>
        (let (r, reg) = registry_record key t v \<lparr>sr_series = xs, sr_max_window = W\<rparr> in (r, sr_series reg)))"

interpretation registry: keyed_store
  "\<lambda>xs sid. registry_buffer \<lparr>sr_series = xs, sr_max_window = W\<rparr> sid"
  "registry_store W"
  "\<lambda>(key, t, v). series_id key"
  "\<lambda>(key, t, v) b. add t v b"
  for W
proof
  fix q :: record_request and s
  obtain key t v where q: "q = (key, t, v)" by (cases q)
  show "fst (registry_store W q s) =
      fst ((\<lambda>(key, t, v) b. add t v b) q
        (registry_buffer \<lparr>sr_series = s, sr_max_window = W\<rparr> ((\<lambda>(key, t, v). series_id key) q)))"
    by (simp add: q registry_store_def registry_record_def split: prod.split)
  show "registry_buffer \<lparr>sr_series = snd (registry_store W q s), sr_max_window = W\<rparr> ((\<lambda>(key, t, v). series_id key) q) =
      snd ((\<lambda>(key, t, v) b. add t v b) q
        (registry_buffer \<lparr>sr_series = s, sr_max_window = W\<rparr> ((\<lambda>(key, t, v). series_id key) q)))"
    by (auto simp: q registry_store_def registry_record_def registry_buffer_def map_of_put_buffer
        split: prod.split option.split)
  fix k
  assume "k \<noteq> (\<lambda>(key, t, v). series_id key) q"
  then show "registry_buffer \<lparr>sr_series = snd (registry_store W q s), sr_max_window = W\<rparr> k =
      registry_buffer \<lparr>sr_series = s, sr_max_window = W\<rparr> k"
    by (auto simp: q registry_store_def registry_record_def registry_buffer_def map_of_put_buffer
        split: prod.split option.split)
qed

text \<open>The registry after a list of requests, whether or not some of them raised.\<close>

definition record_all :: "record_request list \<Rightarrow> series_registry \<Rightarrow> series_registry" where
  "record_all qs reg = fold (\<lambda>(key, t, v) reg. snd (registry_record key t v reg)) qs reg"

lemma record_max_window [simp, frame]:
  "sr_max_window (snd (registry_record key t v reg)) = sr_max_window reg"
  by (simp add: registry_record_def split: prod.split)

lemma registry_record_store:
  "snd (registry_record key t v reg) =
   reg\<lparr>sr_series := snd (registry_store (sr_max_window reg) (key, t, v) (sr_series reg))\<rparr>"
  by (cases reg) (simp add: registry_store_def registry_record_def split: prod.split)

lemma record_all_store:
  "record_all qs reg =
   reg\<lparr>sr_series := run_updates (registry_store (sr_max_window reg)) qs (sr_series reg)\<rparr>"
proof (induction qs arbitrary: reg)
  case (Cons q qs)
  obtain key t v where q: "q = (key, t, v)" by (cases q)
  have "record_all (q # qs) reg = record_all qs (snd (registry_record key t v reg))"
    by (simp add: record_all_def q)
  then show ?case
    by (simp add: Cons q registry_record_store del: record_max_window)
qed (simp add: record_all_def)

lemma fold_add_all:
  "fold (\<lambda>q b. snd ((\<lambda>(key, t, v) b. add t v b) q b)) qs b =
   add_all (map (\<lambda>(key, t, v). \<lparr>smp_at = t, smp_reading = v\<rparr>) qs) b"
  by (induction qs arbitrary: b) (auto simp: add_all_def)

text \<open>
  Under any interleaving of the series, the buffer the registry keeps for a series is the one
  that adding this series' own samples, in their order, to an empty buffer gives.
\<close>

theorem registry_series_independent:
  "registry_buffer (record_all qs (new_registry W)) sid =
   add_all (map (\<lambda>(key, t, v). \<lparr>smp_at = t, smp_reading = v\<rparr>) (filter (\<lambda>(key, t, v). series_id key = sid) qs))
     (new_buffer W)"
proof -
  have "registry_buffer (record_all qs (new_registry W)) sid =
      fold (\<lambda>q b. snd ((\<lambda>(key, t, v) b. add t v b) q b))
        (updates_for (\<lambda>(key, t, v). series_id key) sid qs) (new_buffer W)"
    using registry.run_lookup [of W qs "[]" sid]
    by (simp add: record_all_store new_registry_def registry_buffer_def)
  moreover have "updates_for (\<lambda>(key, t, v). series_id key) sid qs = filter (\<lambda>(key, t, v). series_id key = sid) qs"
    by (auto simp: updates_for_def intro: filter_cong)
  ultimately show ?thesis
    by (simp only: fold_add_all)
qed

text \<open>The registry has one entry per series, so a snapshot lists every series once.\<close>

lemma put_buffer_keys:
  "map fst (put_buffer sid key b xs) = (if sid \<in> fst ` set xs then map fst xs else map fst xs @ [sid])"
  by (induction sid key b xs rule: put_buffer.induct) auto

lemma record_all_distinct: "distinct (map fst (sr_series reg)) \<Longrightarrow> distinct (map fst (sr_series (record_all qs reg)))"
proof (induction qs arbitrary: reg)
  case (Cons q qs)
  obtain key t v where q: "q = (key, t, v)" by (cases q)
  have "distinct (map fst (sr_series (snd (registry_record key t v reg))))"
    using Cons.prems by (simp add: registry_record_def put_buffer_keys split: prod.split)
  then show ?case
    using Cons.IH [of "snd (registry_record key t v reg)"] by (simp add: q record_all_def)
qed (simp add: record_all_def)

end
