(* ===== verification/Stream_Processor.thy ===== *)
theory Stream_Processor
  imports Window Broker Config
begin

text \<open>
  \<open>services/stream-processor\<close>: \<open>dedup.py\<close>, \<open>influx.py\<close>, \<open>kafka_io.py\<close> and \<open>main.py\<close>. The world of the
  service is the Kafka world extended with Redis, InfluxDB, the two breakers and the registry.
  Redis and InfluxDB answer from a sequence of replies, as the broker does; an entry of Redis is
  kept with its time of expiry. Pydantic's JSON and the decoding of bytes are functions handed in.
\<close>

section \<open>State\<close>

datatype field_value = FFloat real | FInt int

record point =
  pt_measurement :: string
  pt_tags :: "(string \<times> string) list"
  pt_fields :: "(string \<times> field_value) list"
  pt_time :: datetime

record stream_world = "string kworld" +
  st_redis :: "string \<Rightarrow> real option"
  st_redis_net :: "nat \<Rightarrow> reply"
  st_redis_tick :: nat
  st_influx :: "point list"
  st_influx_net :: "nat \<Rightarrow> reply"
  st_influx_tick :: nat
  st_influx_breaker :: circuit_breaker
  st_kafka_breaker :: circuit_breaker
  st_registry :: series_registry

record stream_codec =
  sc_parse :: "string \<Rightarrow> exn + real normalized_telemetry"
  sc_dump :: "real normalized_telemetry \<Rightarrow> exn + string"
  sc_dead :: "string dead_letter_record \<Rightarrow> string"
  sc_decode :: "string \<Rightarrow> string"

section \<open>Deduplication\<close>

text \<open>\<open>SET key 1 NX EX ttl\<close> on the entries of Redis.\<close>

definition redis_live :: "real \<Rightarrow> (string \<Rightarrow> real option) \<Rightarrow> string \<Rightarrow> bool" where
  "redis_live now r key \<longleftrightarrow> (case r key of None \<Rightarrow> False | Some expiry \<Rightarrow> now < expiry)"

definition set_nx :: "int \<Rightarrow> real \<Rightarrow> string \<Rightarrow> (string \<Rightarrow> real option) \<Rightarrow> bool \<times> (string \<Rightarrow> real option)" where
  "set_nx ttl now key r = (if redis_live now r key then (False, r) else (True, r(key := Some (now + of_int ttl))))"

definition dedup_key :: "string \<Rightarrow> string" where
  "dedup_key event_id = ''dedup:telemetry:'' @ event_id"

text \<open>Redis answers a time to live that is not positive with an error.\<close>

definition dedup_claim :: "stream_config \<Rightarrow> string \<Rightarrow> stream_world \<Rightarrow> (exn + bool) \<times> stream_world" where
  "dedup_claim cfg event_id w =
     (let reply = st_redis_net w (st_redis_tick w);
          ttl = py_trunc (sp_dedup_ttl_seconds cfg);
          w' = w\<lparr>st_redis_tick := Suc (st_redis_tick w)\<rparr>;
          (fresh, r) = set_nx ttl (clock w) (dedup_key event_id) (st_redis w)
      in if ttl \<le> 0 then (Inl (RedisError ''invalid expire time''), w')
         else (case reply of
                 Reply_ok \<Rightarrow> (Inr fresh, w'\<lparr>st_redis := r\<rparr>)
               | Reply_raises e took \<Rightarrow> (Inl e, if took then w'\<lparr>st_redis := r\<rparr> else w')))"

section \<open>InfluxDB\<close>

definition influx_write :: "point list \<Rightarrow> stream_world \<Rightarrow> (exn + unit) \<times> stream_world" where
  "influx_write points w =
     (let reply = st_influx_net w (st_influx_tick w);
          w' = w\<lparr>st_influx_tick := Suc (st_influx_tick w)\<rparr>;
          w'' = (if applied reply then w'\<lparr>st_influx := st_influx w' @ points\<rparr> else w')
      in case reply of Reply_ok \<Rightarrow> (ok, w'') | Reply_raises e _ \<Rightarrow> (Inl e, w''))"

definition write_with_protection ::
  "stream_config \<Rightarrow> point list \<Rightarrow> stream_world \<Rightarrow> (exn + unit) \<times> stream_world" where
  "write_with_protection cfg points w =
     (let (r, cb, w') = guarded_call (RuntimeError ''circuit breaker open for influxdb'')
            (sp_influx_max_retries cfg) (sp_influx_retry_base_delay_seconds cfg)
            (influx_write points) sleep clock (st_influx_breaker w) w
      in (r, w'\<lparr>st_influx_breaker := cb\<rparr>))"

definition series_tags :: "series_key \<Rightarrow> (string \<times> string) list" where
  "series_tags key =
     [(''factory_id'', sk_factory_id key), (''production_line_id'', sk_production_line_id key),
      (''machine_id'', sk_machine_id key), (''device_id'', sk_device_id key),
      (''sensor_id'', sk_sensor_id key), (''metric'', sk_metric key)]"

definition raw_point :: "series_key \<Rightarrow> datetime \<Rightarrow> real \<Rightarrow> point" where
  "raw_point key t v =
     \<lparr>pt_measurement = ''sensor_telemetry'', pt_tags = series_tags key,
      pt_fields = [(''value'', FFloat v)], pt_time = t\<rparr>"

definition write_raw_point ::
  "stream_config \<Rightarrow> series_key \<Rightarrow> datetime \<Rightarrow> real \<Rightarrow> stream_world \<Rightarrow> (exn + unit) \<times> stream_world" where
  "write_raw_point cfg key t v w = write_with_protection cfg [raw_point key t v] w"

definition write_aggregate_batch ::
  "stream_config \<Rightarrow> point list \<Rightarrow> stream_world \<Rightarrow> (exn + unit) \<times> stream_world" where
  "write_aggregate_batch cfg points w =
     (if points = [] then (ok, w) else write_with_protection cfg points w)"

definition build_aggregate_point :: "series_key \<Rightarrow> string \<Rightarrow> datetime \<Rightarrow> window_stats \<Rightarrow> point" where
  "build_aggregate_point key window_label t stats =
     \<lparr>pt_measurement = ''sensor_telemetry_agg'',
      pt_tags = series_tags key @ [(''window'', window_label)],
      pt_fields =
        [(''moving_avg'', FFloat (ws_moving_avg stats)), (''moving_stddev'', FFloat (ws_moving_stddev stats)),
         (''min'', FFloat (ws_min stats)), (''max'', FFloat (ws_max stats)),
         (''rate_of_change'', FFloat (ws_rate_of_change stats)), (''count'', FInt (ws_count stats))],
      pt_time = t\<rparr>"

section \<open>Kafka\<close>

definition sp_protected_write ::
  "stream_config \<Rightarrow> string \<Rightarrow> (stream_world \<Rightarrow> (exn + unit) \<times> stream_world) \<Rightarrow> stream_world \<Rightarrow>
   (exn + unit) \<times> stream_world" where
  "sp_protected_write cfg topic write_fn w =
     (let (r, cb, w') = guarded_call (KafkaPublishError (''circuit breaker open for kafka topic '' @ topic))
            (sp_kafka_max_retries cfg) (sp_kafka_retry_base_delay_seconds cfg)
            write_fn sleep clock (st_kafka_breaker w) w
      in (r, w'\<lparr>st_kafka_breaker := cb\<rparr>))"

definition publish_processed ::
  "stream_config \<Rightarrow> stream_codec \<Rightarrow> string \<Rightarrow> real normalized_telemetry \<Rightarrow> stream_world \<Rightarrow>
   (exn + unit) \<times> stream_world" where
  "publish_processed cfg cd key evt w =
     (case sc_dump cd evt of
        Inl e \<Rightarrow> (Inl (ErrPermanent ''marshal processed telemetry''), w)
      | Inr payload \<Rightarrow>
          sp_protected_write cfg (sp_topic_processed cfg)
            (produce_and_wait (sp_topic_processed cfg) key payload) w)"

definition sp_dead_letter ::
  "stream_config \<Rightarrow> stream_codec \<Rightarrow> string \<Rightarrow> exn \<Rightarrow> string \<Rightarrow> string \<Rightarrow> stream_world \<Rightarrow>
   (exn + unit) \<times> stream_world" where
  "sp_dead_letter cfg cd raw_payload cause stage correlation_id w =
     (let rec = \<lparr>dl_original_payload = sc_decode cd raw_payload, dl_error = cause,
                 dl_error_type = TRANSIENT_ERROR, dl_service = ''stream-processor'',
                 dl_processing_stage = stage, dl_retry_count = 0, dl_timestamp = utc_at (clock w),
                 dl_correlation_id = correlation_id, dl_source_topic = ''telemetry.raw''\<rparr>
      in produce_and_wait (sp_topic_dead_letter cfg) correlation_id (sc_dead cd rec) w)"

text \<open>
  \<open>lag\<close>: the answers of the consumer to \<open>assignment\<close> and \<open>position\<close> (the partitions with their
  offsets), and to \<open>get_watermark_offsets\<close> on each partition.
\<close>

fun lag_sum :: "('tp \<Rightarrow> exn + (int \<times> int) option) \<Rightarrow> ('tp \<times> int) list \<Rightarrow> int \<Rightarrow> exn + int" where
  "lag_sum watermarks [] acc = Inr acc"
| "lag_sum watermarks ((tp, offset) # tps) acc =
     (if offset < 0 then lag_sum watermarks tps acc
      else case watermarks tp of
             Inl e \<Rightarrow> Inl e
           | Inr None \<Rightarrow> lag_sum watermarks tps acc
           | Inr (Some (low, high)) \<Rightarrow> lag_sum watermarks tps (acc + max 0 (high - offset)))"

definition lag ::
  "(exn + 'tp list) \<Rightarrow> ('tp list \<Rightarrow> exn + ('tp \<times> int) list) \<Rightarrow> ('tp \<Rightarrow> exn + (int \<times> int) option) \<Rightarrow> exn + int" where
  "lag assignment position watermarks =
     (case assignment of
        Inl _ \<Rightarrow> Inr 0
      | Inr assigned \<Rightarrow>
          if assigned = [] then Inr 0
          else (case position assigned of Inl _ \<Rightarrow> Inr 0 | Inr positions \<Rightarrow> lag_sum watermarks positions 0))"

section \<open>Processing a message\<close>

definition sp_series_key :: "real normalized_telemetry \<Rightarrow> series_key" where
  "sp_series_key evt =
     \<lparr>sk_factory_id = te_factory_id evt, sk_production_line_id = te_production_line_id evt,
      sk_machine_id = te_machine_id evt, sk_device_id = te_device_id evt,
      sk_sensor_id = te_sensor_id evt, sk_metric = te_metric evt\<rparr>"

text \<open>The failure branches: dead-letter the message, and hold the offset if that fails too.\<close>

definition sp_give_up ::
  "stream_config \<Rightarrow> stream_codec \<Rightarrow> string \<Rightarrow> exn \<Rightarrow> string \<Rightarrow> string \<Rightarrow> stream_world \<Rightarrow>
   (exn + bool) \<times> stream_world" where
  "sp_give_up cfg cd raw cause stage correlation_id w =
     (case sp_dead_letter cfg cd raw cause stage correlation_id w of
        (Inl _, w') \<Rightarrow> (Inr False, w')
      | (Inr _, w') \<Rightarrow> (Inr True, inc ''dlq_messages_total'' w'))"

definition sp_process_event ::
  "stream_config \<Rightarrow> stream_codec \<Rightarrow> string \<Rightarrow> real normalized_telemetry \<Rightarrow> stream_world \<Rightarrow>
   (exn + bool) \<times> stream_world" where
  "sp_process_event cfg cd raw evt w =
     (let key = sp_series_key evt; t = time_of (te_timestamp evt)
      in case write_raw_point cfg key t (te_reading evt) w of
           (Inl e, w') \<Rightarrow>
             sp_give_up cfg cd raw e ''influxdb_write'' (te_event_id evt)
               (inc ''messages_failed_total:influx_write'' w')
         | (Inr _, w') \<Rightarrow>
             (case registry_record key t (te_reading evt) (st_registry w') of
                (Inl e, reg) \<Rightarrow> (Inl e, w'\<lparr>st_registry := reg\<rparr>)
              | (Inr _, reg) \<Rightarrow>
                  (case publish_processed cfg cd (te_device_id evt) evt (w'\<lparr>st_registry := reg\<rparr>) of
                     (Inl e, w'') \<Rightarrow>
                       sp_give_up cfg cd raw e ''republish_processed'' (te_event_id evt)
                         (inc ''messages_failed_total:republish'' w'')
                   | (Inr _, w'') \<Rightarrow> (Inr True, w''))))"

definition sp_process_message ::
  "stream_config \<Rightarrow> stream_codec \<Rightarrow> string \<Rightarrow> stream_world \<Rightarrow> (exn + bool) \<times> stream_world" where
  "sp_process_message cfg cd raw w0 =
     (let w = inc ''messages_consumed_total'' w0
      in case sc_parse cd raw of
           Inl e \<Rightarrow> sp_give_up cfg cd raw e ''unmarshal'' [] (inc ''messages_failed_total:unmarshal'' w)
         | Inr evt \<Rightarrow>
             (case dedup_claim cfg (te_event_id evt) w of
                (Inl e, w') \<Rightarrow> (Inr False, inc ''messages_failed_total:dedup_unavailable'' w')
              | (Inr first_seen, w') \<Rightarrow>
                  if \<not> first_seen then (Inr True, inc ''duplicate_events_total'' w')
                  else sp_process_event cfg cd raw evt w'))"

definition sp_consume_loop ::
  "stream_config \<Rightarrow> stream_codec \<Rightarrow> string poll list \<Rightarrow> stream_world \<Rightarrow> string loop_result \<times> stream_world" where
  "sp_consume_loop cfg cd polls w = consume_loop (sp_process_message cfg cd) polls w"

section \<open>Flushing the windows\<close>

definition duration_label :: "real \<Rightarrow> string" where
  "duration_label total_seconds =
     (let total = py_trunc total_seconds
      in if total < 60 then str_int total @ ''s''
         else
           let hours = total div 3600; rem = total mod 3600;
               minutes = rem div 60; secs = rem mod 60
           in if hours > 0 then str_int hours @ ''h'' @ str_int minutes @ ''m'' @ str_int secs @ ''s''
              else str_int minutes @ ''m'' @ str_int secs @ ''s'')"

fun series_points :: "datetime \<Rightarrow> series_key \<Rightarrow> series_buffer \<Rightarrow> real list \<Rightarrow> exn + point list" where
  "series_points now key buf [] = Inr []"
| "series_points now key buf (win # wins) =
     (case stats_for now (timedelta win) buf of
        Inl e \<Rightarrow> Inl e
      | Inr (stats, found) \<Rightarrow>
          (case series_points now key buf wins of
             Inl e \<Rightarrow> Inl e
           | Inr ps \<Rightarrow> Inr (if found then build_aggregate_point key (duration_label win) now stats # ps else ps)))"

fun flush_points :: "datetime \<Rightarrow> real list \<Rightarrow> (series_key \<times> series_buffer) list \<Rightarrow> exn + point list" where
  "flush_points now wins [] = Inr []"
| "flush_points now wins ((key, buf) # series) =
     (case series_points now key buf wins of
        Inl e \<Rightarrow> Inl e
      | Inr ps \<Rightarrow> (case flush_points now wins series of Inl e \<Rightarrow> Inl e | Inr qs \<Rightarrow> Inr (ps @ qs)))"

definition flush_once :: "stream_config \<Rightarrow> stream_world \<Rightarrow> (exn + unit) \<times> stream_world" where
  "flush_once cfg w =
     (case flush_points (utc_at (clock w)) (sp_windows_seconds cfg) (snapshot (st_registry w)) of
        Inl e \<Rightarrow> (Inl e, w)
      | Inr points \<Rightarrow>
          (case write_aggregate_batch cfg points w of
             (Inl e, w') \<Rightarrow> (ok, w')
           | (Inr _, w') \<Rightarrow> (ok, inc_by (length points) ''windowed_aggregates_written_total'' w')))"

text \<open>
  The flusher thread through \<open>n\<close> ticks of its timer; an exception that leaves \<open>_flush_once\<close> ends
  the thread.
\<close>

fun run_window_flusher :: "stream_config \<Rightarrow> nat \<Rightarrow> stream_world \<Rightarrow> (exn + unit) \<times> stream_world" where
  "run_window_flusher cfg 0 w = (ok, w)"
| "run_window_flusher cfg (Suc n) w =
     (case flush_once cfg (sleep (sp_window_flush_interval_seconds cfg) w) of
        (Inl e, w') \<Rightarrow> (Inl e, w')
      | (Inr _, w') \<Rightarrow> run_window_flusher cfg n w')"

text \<open>The state \<open>main\<close> starts from, given the dependencies.\<close>

definition sp_initial :: "stream_config \<Rightarrow> stream_world \<Rightarrow> bool" where
  "sp_initial cfg w \<longleftrightarrow>
     st_registry w = new_registry (timedelta (Max (set (sp_windows_seconds cfg)))) \<and>
     st_influx_breaker w = new_breaker (sp_breaker_failure_threshold cfg) (sp_breaker_cooldown_seconds cfg) \<and>
     st_kafka_breaker w = new_breaker (sp_breaker_failure_threshold cfg) (sp_breaker_cooldown_seconds cfg)"

section \<open>What the operations keep\<close>

text \<open>Everything after the claim leaves Redis alone and only adds to the topics and to InfluxDB.\<close>

definition st_extends :: "stream_world \<Rightarrow> stream_world \<Rightarrow> bool" where
  "st_extends w w' \<longleftrightarrow>
     topics_grow w w' \<and> net w' = net w \<and> st_redis w' = st_redis w \<and> set (st_influx w) \<subseteq> set (st_influx w')"

lemma st_extends_refl [simp, intro]: "st_extends w w"
  by (simp add: st_extends_def)

lemma st_extends_trans [trans]: "st_extends a b \<Longrightarrow> st_extends b c \<Longrightarrow> st_extends a c"
  unfolding st_extends_def by (auto intro: topics_grow_trans)

lemma st_extends_upd [simp]:
  "st_extends w (w'\<lparr>st_registry := reg\<rparr>) = st_extends w w'"
  "st_extends w (w'\<lparr>st_kafka_breaker := cb\<rparr>) = st_extends w w'"
  "st_extends w (w'\<lparr>st_influx_breaker := cb\<rparr>) = st_extends w w'"
  "st_extends w (inc n w') = st_extends w w'"
  "st_extends w (inc_by k n w') = st_extends w w'"
  "st_extends w (sleep d w') = st_extends w w'"
  by (simp_all add: st_extends_def topics_grow_def inc_def inc_by_def sleep_def)

lemma st_extends_produce [intro]: "st_extends w0 w \<Longrightarrow> st_extends w0 (snd (produce_and_wait t k p w))"
proof (rule st_extends_trans)
  show "st_extends w (snd (produce_and_wait t k p w))"
    by (auto simp: st_extends_def topics_grow_def produce_and_wait_def append_to_def Let_def split: delivery.split)
qed

lemma st_extends_influx_write [intro]: "st_extends w0 w \<Longrightarrow> st_extends w0 (snd (influx_write ps w))"
proof (rule st_extends_trans)
  show "st_extends w (snd (influx_write ps w))"
    by (auto simp: st_extends_def topics_grow_def influx_write_def Let_def split: reply.split)
qed

lemma st_extends_protected:
  assumes "\<And>w'. st_extends w w' \<Longrightarrow> st_extends w (snd (fn w'))"
  shows "st_extends w (snd (sp_protected_write cfg t fn w))"
  using guarded_invariant [of "st_extends w" fn sleep w] assms
  by (simp add: sp_protected_write_def split: prod.split) (metis snd_conv)

lemma st_extends_write: "st_extends w (snd (write_with_protection cfg ps w))"
  using guarded_invariant [of "st_extends w" "influx_write ps" sleep w]
  by (simp add: write_with_protection_def st_extends_influx_write split: prod.split) (metis snd_conv)

lemma st_extends_publish: "st_extends w (snd (publish_processed cfg cd k evt w))"
  by (auto simp: publish_processed_def intro!: st_extends_protected split: sum.split)

lemma st_extends_give_up: "st_extends w (snd (sp_give_up cfg cd raw e st c w))"
  using st_extends_produce [OF st_extends_refl]
  by (auto simp: sp_give_up_def sp_dead_letter_def Let_def split: prod.split sum.split) (metis snd_conv)+

lemma st_extends_process_event: "st_extends w (snd (sp_process_event cfg cd raw evt w))"
proof -
  let ?key = "sp_series_key evt" and ?t = "time_of (te_timestamp evt)"
  obtain r w1 where wr: "write_raw_point cfg ?key ?t (te_reading evt) w = (r, w1)" by fastforce
  have 1: "st_extends w w1"
    using st_extends_write [of w cfg] wr by (simp add: write_raw_point_def) (metis snd_conv)
  obtain q reg where rg: "registry_record ?key ?t (te_reading evt) (st_registry w1) = (q, reg)" by fastforce
  obtain u w2 where pb: "publish_processed cfg cd (te_device_id evt) evt (w1\<lparr>st_registry := reg\<rparr>) = (u, w2)"
    by fastforce
  have "st_extends (w1\<lparr>st_registry := reg\<rparr>) w2"
    using st_extends_publish [of "w1\<lparr>st_registry := reg\<rparr>" cfg cd] pb by (metis snd_conv)
  then have 2: "st_extends w w2"
    using 1 st_extends_trans [of w "w1\<lparr>st_registry := reg\<rparr>" w2] by simp
  have up: "st_extends w (snd (sp_give_up cfg cd raw e st c (inc n v)))" if "st_extends w v" for e st c n v
    using st_extends_trans [OF _ st_extends_give_up] that by simp
  show ?thesis
    using 1 2 up by (simp add: sp_process_event_def Let_def wr rg pb split: sum.split)
qed

lemma publish_processed_ok:
  assumes "publish_processed cfg cd k evt w = (ok, w')" and "net_ok w"
  shows "\<exists>p. sc_dump cd evt = Inr p \<and> (k, p) \<in> set (topics w' (sp_topic_processed cfg))"
proof -
  obtain p where p: "sc_dump cd evt = Inr p"
    using assms(1) by (auto simp: publish_processed_def split: sum.splits)
  obtain cb w1 where g: "guarded_call (KafkaPublishError (''circuit breaker open for kafka topic '' @ sp_topic_processed cfg))
      (sp_kafka_max_retries cfg) (sp_kafka_retry_base_delay_seconds cfg)
      (produce_and_wait (sp_topic_processed cfg) k p) sleep clock (st_kafka_breaker w) w = (ok, cb, w1)"
    and w': "w' = w1\<lparr>st_kafka_breaker := cb\<rparr>"
    using assms(1) p by (auto simp: publish_processed_def sp_protected_write_def split: prod.splits)
  have "net_ok w1 \<longrightarrow> (k, p) \<in> set (topics w1 (sp_topic_processed cfg))"
    using guarded_success [OF produced_in_topic g] .
  moreover have "net w' = net w"
    using st_extends_publish [of w cfg cd k evt] assms(1) by (simp add: st_extends_def)
  ultimately show ?thesis
    using assms(2) p w' net_ok_cong [of w1 w] by auto
qed

lemma write_raw_point_ok:
  assumes "write_raw_point cfg key t v w = (ok, w')"
  shows "raw_point key t v \<in> set (st_influx w')"
proof -
  have fn: "raw_point key t v \<in> set (st_influx b)" if "influx_write [raw_point key t v] a = (ok, b)" for a b
    using that by (auto simp: influx_write_def Let_def split: reply.splits)
  obtain cb w1 where g: "guarded_call (RuntimeError ''circuit breaker open for influxdb'')
      (sp_influx_max_retries cfg) (sp_influx_retry_base_delay_seconds cfg)
      (influx_write [raw_point key t v]) sleep clock (st_influx_breaker w) w = (ok, cb, w1)"
    and w': "w' = w1\<lparr>st_influx_breaker := cb\<rparr>"
    using assms by (auto simp: write_raw_point_def write_with_protection_def split: prod.splits)
  then show ?thesis
    using guarded_success [OF fn g] by simp
qed

lemma give_up_commits:
  assumes "sp_give_up cfg cd raw e st c w = (Inr True, w')" and "net_ok w"
  shows "\<exists>rec. dl_correlation_id rec = c \<and> dl_original_payload rec = sc_decode cd raw \<and>
    dl_processing_stage rec = st \<and> (c, sc_dead cd rec) \<in> set (topics w' (sp_topic_dead_letter cfg))"
proof -
  let ?rec = "\<lparr>dl_original_payload = sc_decode cd raw, dl_error = e,
                 dl_error_type = TRANSIENT_ERROR, dl_service = ''stream-processor'',
                 dl_processing_stage = st, dl_retry_count = 0, dl_timestamp = utc_at (clock w),
                 dl_correlation_id = c, dl_source_topic = ''telemetry.raw''\<rparr>"
  obtain w1 where p: "produce_and_wait (sp_topic_dead_letter cfg) c (sc_dead cd ?rec) w = (ok, w1)"
    and "w' = inc ''dlq_messages_total'' w1"
    using assms(1) by (auto simp: sp_give_up_def sp_dead_letter_def Let_def split: prod.splits sum.splits)
  then show ?thesis
    using produce_ok' [OF p assms(2)] by (intro exI [of _ ?rec]) simp
qed

section \<open>Committed means settled\<close>

definition sp_ident :: "stream_codec \<Rightarrow> string \<Rightarrow> string option" where
  "sp_ident cd raw = (case sc_parse cd raw of Inl _ \<Rightarrow> None | Inr evt \<Rightarrow> Some (te_event_id evt))"

definition sp_claimed :: "stream_world \<Rightarrow> string \<Rightarrow> bool" where
  "sp_claimed w event_id \<longleftrightarrow> st_redis w (dedup_key event_id) \<noteq> None"

text \<open>
  An event is settled when it has been forwarded, with its raw point stored, or dead-lettered.
\<close>

definition sp_settled :: "stream_config \<Rightarrow> stream_codec \<Rightarrow> stream_world \<Rightarrow> string \<Rightarrow> bool" where
  "sp_settled cfg cd w event_id \<longleftrightarrow>
     (\<exists>evt p. te_event_id evt = event_id \<and> sc_dump cd evt = Inr p \<and>
        (te_device_id evt, p) \<in> set (topics w (sp_topic_processed cfg)) \<and>
        raw_point (sp_series_key evt) (time_of (te_timestamp evt)) (te_reading evt) \<in> set (st_influx w)) \<or>
     (\<exists>rec. dl_correlation_id rec = event_id \<and> (event_id, sc_dead cd rec) \<in> set (topics w (sp_topic_dead_letter cfg)))"

lemma sp_settled_extends:
  assumes "st_extends w w'" and "sp_settled cfg cd w k"
  shows "sp_settled cfg cd w' k"
  using assms unfolding sp_settled_def st_extends_def topics_grow_def by blast

lemma dedup_key_inj [simp]: "dedup_key a = dedup_key b \<longleftrightarrow> a = b"
  by (simp add: dedup_key_def)

lemma dedup_claim_effect:
  assumes "dedup_claim cfg k w = (r, w')"
  shows "topics w' = topics w" and "net w' = net w" and "st_influx w' = st_influx w"
    and "st_registry w' = st_registry w" and "clock w' = clock w"
    and "st_redis w' = st_redis w \<or> st_redis w' = (st_redis w)(dedup_key k := Some (clock w + of_int (py_trunc (sp_dedup_ttl_seconds cfg))))"
    and "r = Inr b \<Longrightarrow> redis_live (clock w) (st_redis w') (dedup_key k)"
    and "r = Inr b \<Longrightarrow> b = (\<not> redis_live (clock w) (st_redis w) (dedup_key k))"
  using assms by (auto simp: dedup_claim_def set_nx_def redis_live_def Let_def split: reply.splits if_splits)

lemma process_event_commits:
  assumes "sp_process_event cfg cd raw evt w = (Inr True, w')" and "net_ok w"
  shows "sp_settled cfg cd w' (te_event_id evt)"
proof -
  let ?key = "sp_series_key evt" and ?t = "time_of (te_timestamp evt)"
  obtain r w1 where wr: "write_raw_point cfg ?key ?t (te_reading evt) w = (r, w1)" by fastforce
  have 1: "st_extends w w1"
    using st_extends_write [of w cfg] wr by (simp add: write_raw_point_def) (metis snd_conv)
  obtain q reg where rg: "registry_record ?key ?t (te_reading evt) (st_registry w1) = (q, reg)" by fastforce
  let ?w1 = "w1\<lparr>st_registry := reg\<rparr>"
  obtain u w2 where pb: "publish_processed cfg cd (te_device_id evt) evt ?w1 = (u, w2)" by fastforce
  have 2: "st_extends ?w1 w2"
    using st_extends_publish [of ?w1 cfg cd] pb by (metis snd_conv)
  have ok1: "net_ok w1" and ok2: "net_ok w2"
    using assms(2) 1 2 by (auto simp: st_extends_def net_ok_def)
  have dead: "sp_settled cfg cd w' (te_event_id evt)"
    if "sp_give_up cfg cd raw e st (te_event_id evt) (inc n v) = (Inr True, w')" and "net_ok v" for e st n v
    using give_up_commits [OF that(1)] that(2) net_ok_cong [of "inc n v" v] by (auto simp: sp_settled_def)
  show ?thesis
  proof (cases "r = ok \<and> u = ok \<and> q = ok")
    case True
    then have w': "w' = w2"
      using assms(1) by (simp add: sp_process_event_def Let_def wr rg pb)
    have "raw_point ?key ?t (te_reading evt) \<in> set (st_influx w1)"
      using write_raw_point_ok wr True by blast
    then have "raw_point ?key ?t (te_reading evt) \<in> set (st_influx w2)"
      using 2 by (auto simp: st_extends_def)
    moreover have "\<exists>p. sc_dump cd evt = Inr p \<and> (te_device_id evt, p) \<in> set (topics w2 (sp_topic_processed cfg))"
      using publish_processed_ok [of cfg cd "te_device_id evt" evt ?w1 w2] pb True ok1 net_ok_cong [of ?w1 w1] by simp
    ultimately show ?thesis
      unfolding w' sp_settled_def by blast
  next
    case False
    then show ?thesis
      using assms(1) dead ok1 ok2
      by (cases r; cases q; cases u) (auto simp: sp_process_event_def Let_def wr rg pb)
  qed
qed

text \<open>A message with a well-formed event: its claim, then, if granted, its processing.\<close>

lemma process_message_event:
  assumes "sc_parse cd raw = Inr evt"
    and "dedup_claim cfg (te_event_id evt) (inc ''messages_consumed_total'' w) = (r, w1)"
  shows "sp_process_message cfg cd raw w =
    (case r of Inl e \<Rightarrow> (Inr False, inc ''messages_failed_total:dedup_unavailable'' w1)
     | Inr b \<Rightarrow> if b then sp_process_event cfg cd raw evt w1 else (Inr True, inc ''duplicate_events_total'' w1))"
  using assms by (simp add: sp_process_message_def split: sum.split)

lemma sp_inc [simp]:
  "st_redis (inc n w) = st_redis w" "st_influx (inc n w) = st_influx w" "st_registry (inc n w) = st_registry w"
  "st_redis_net (inc n w) = st_redis_net w" "st_redis_tick (inc n w) = st_redis_tick w"
  by (simp_all add: inc_def)

lemma sp_process_message_effect:
  assumes "sp_process_message cfg cd raw w = (r, w')"
  shows "net w' = net w \<and> topics_grow w w' \<and> set (st_influx w) \<subseteq> set (st_influx w') \<and>
    (st_redis w' = st_redis w \<or>
     (\<exists>k x. sp_ident cd raw = Some k \<and> st_redis w' = (st_redis w)(dedup_key k := Some x)))"
proof (cases "sc_parse cd raw")
  case (Inl e)
  let ?w = "inc ''messages_failed_total:unmarshal'' (inc ''messages_consumed_total'' w)"
  have "st_extends ?w w'"
    using st_extends_give_up [of ?w cfg cd raw e "''unmarshal''" "[]"] assms Inl by (simp add: sp_process_message_def)
  then show ?thesis
    by (simp add: st_extends_def topics_grow_def)
next
  case (Inr evt)
  let ?w = "inc ''messages_consumed_total'' w"
  obtain q w1 where c: "dedup_claim cfg (te_event_id evt) ?w = (q, w1)" by fastforce
  note eff = dedup_claim_effect [OF c]
  have w': "st_extends w1 w'"
    using assms st_extends_process_event [of w1 cfg cd raw evt]
    by (auto simp: process_message_event [OF Inr c] split: sum.splits if_splits)
  moreover have "sp_ident cd raw = Some (te_event_id evt)"
    by (simp add: sp_ident_def Inr)
  ultimately show ?thesis
    using eff(1-3,6) by (auto simp: st_extends_def topics_grow_def)
qed

lemma sp_process_message_commit:
  assumes "sp_process_message cfg cd raw w = (Inr True, w')" and "net_ok w" and "sp_ident cd raw = Some k"
  shows "sp_claimed w' k \<and> (sp_claimed w k \<or> sp_settled cfg cd w' k)"
proof -
  obtain evt where evt: "sc_parse cd raw = Inr evt" and k: "te_event_id evt = k"
    using assms(3) by (auto simp: sp_ident_def split: sum.splits)
  let ?w = "inc ''messages_consumed_total'' w"
  obtain q w1 where c: "dedup_claim cfg (te_event_id evt) ?w = (q, w1)" by fastforce
  note m = assms(1) [unfolded process_message_event [OF evt c]]
  then obtain b where q: "q = Inr b"
    by (auto split: sum.splits)
  have live: "redis_live (clock w) (st_redis w1) (dedup_key k)"
    using dedup_claim_effect(7) [OF c q] k by simp
  have fresh: "b = (\<not> redis_live (clock w) (st_redis w) (dedup_key k))"
    using dedup_claim_effect(8) [OF c q] k by simp
  have ext: "st_extends w1 w'"
    using m q st_extends_process_event [of w1 cfg cd raw evt] by (auto split: if_splits)
  have "sp_claimed w' k"
    using live ext by (auto simp: sp_claimed_def redis_live_def st_extends_def split: option.splits)
  moreover have "sp_settled cfg cd w' k" if "\<not> sp_claimed w k"
  proof -
    have b
      using that fresh by (auto simp: sp_claimed_def redis_live_def)
    moreover have "net_ok w1"
      using dedup_claim_effect(2) [OF c] assms(2) by (simp add: net_ok_def)
    ultimately show ?thesis
      using m q process_event_commits [of cfg cd raw evt w1 w'] k by simp
  qed
  ultimately show ?thesis by blast
qed

interpretation sp_consumer: claiming_consumer
  "sp_process_message cfg cd" "sp_ident cd" sp_claimed "sp_settled cfg cd" net_ok
  for cfg cd
proof
  fix w m r w'
  assume w: "net_ok w" and p: "sp_process_message cfg cd m w = (r, w')"
  note e = sp_process_message_effect [OF p]
  show "net_ok w'"
    using e w by (simp add: net_ok_def)
  show "sp_claimed w k \<or> sp_ident cd m = Some k" if "sp_claimed w' k" for k
    using e that by (auto simp: sp_claimed_def split: if_splits)
  show "sp_claimed w' k" if "sp_claimed w k" for k
    using e that by (auto simp: sp_claimed_def)
  show "sp_settled cfg cd w' k" if "sp_settled cfg cd w k" for k
    using e that unfolding sp_settled_def topics_grow_def by blast
qed (use sp_process_message_commit in blast)+


text \<open>A small concrete deployment: events are their identifiers, every dependency answers.\<close>

definition demo_event :: "string \<Rightarrow> real normalized_telemetry" where
  "demo_event i =
     \<lparr>te_event_id = i, te_organization_id = ''o'', te_factory_id = ''f'', te_production_line_id = ''l'',
      te_machine_id = ''m'', te_device_id = ''d'', te_sensor_id = ''s'', te_timestamp = Some (Aware 63000000000000000),
      te_sequence_number = 1, te_metric = ''rpm'', te_reading = 5, te_unit = ''rpm'',
      nt_correlation_id = i, nt_ingested_at = Aware 63000000000000000, nt_schema_version = 1\<rparr>"

definition demo_codec :: stream_codec where
  "demo_codec =
     \<lparr>sc_parse = (\<lambda>raw. if raw = [] then Inl (ValidationError []) else Inr (demo_event raw)),
      sc_dump = (\<lambda>e. Inr (te_event_id e)), sc_dead = dl_correlation_id, sc_decode = (\<lambda>s. s)\<rparr>"

definition demo_config :: stream_config where
  "demo_config = load_stream_config Map.empty"

definition demo_world :: "(nat \<Rightarrow> delivery) \<Rightarrow> (nat \<Rightarrow> reply) \<Rightarrow> stream_world" where
  "demo_world n i =
     \<lparr>topics = (\<lambda>t. []), net = n, tick = 0, clock = 0, counters = (\<lambda>c. 0),
      st_redis = Map.empty, st_redis_net = (\<lambda>k. Reply_ok), st_redis_tick = 0,
      st_influx = [], st_influx_net = i, st_influx_tick = 0,
      st_influx_breaker = new_breaker 5 15, st_kafka_breaker = new_breaker 5 15,
      st_registry = new_registry 900000000\<rparr>"

lemmas demo_defs = demo_event_def demo_codec_def demo_world_def demo_config_def load_stream_config_def env_int_def env_str_def

lemmas sp_defs = sp_process_message_def sp_process_event_def dedup_claim_def set_nx_def redis_live_def py_trunc_def
  write_raw_point_def write_with_protection_def influx_write_def guarded_call_def allow_def new_breaker_def
  retry_with_backoff_def record_success_def record_failure_def publish_processed_def sp_protected_write_def
  produce_and_wait_def append_to_def inc_def sleep_def sp_give_up_def sp_dead_letter_def
  registry_record_def registry_buffer_def new_registry_def new_buffer_def add_def time_of_def in_range_def dt_max_def

lemma upto_5: "[1..5] = [1, 2, 3, 4, 5::int]"
  by (simp add: upto_rec1)

lemma demo_run:
  "\<exists>w. sp_consume_loop demo_config demo_codec [Poll_none, Poll_msg ''e1'', Poll_msg ''e1'']
     (demo_world (\<lambda>k. Delivered) (\<lambda>k. Reply_ok)) =
   (\<lparr>lr_committed = [''e1'', ''e1''], lr_held = [], lr_crashed = None\<rparr>, w)"
  by (simp add: sp_consume_loop_def sp_defs demo_defs upto_5 Let_def)


section \<open>A held message is lost when it is delivered again\<close>

text \<open>
  The claim is taken before the work and is not released when the work fails. An event whose
  identifier Redis still holds is committed without being stored, forwarded or dead-lettered: in
  particular one that an earlier delivery had claimed and then left uncommitted, if it comes back
  within the time to live.
\<close>

theorem claimed_redelivery_is_dropped:
  assumes "sc_parse cd raw = Inr evt" and "redis_live (clock w) (st_redis w) (dedup_key (te_event_id evt))"
    and "st_redis_net w (st_redis_tick w) = Reply_ok" and "1 \<le> sp_dedup_ttl_seconds cfg"
  shows "\<exists>w'. sp_process_message cfg cd raw w = (Inr True, w') \<and> topics w' = topics w \<and>
    st_influx w' = st_influx w \<and> st_registry w' = st_registry w"
proof -
  let ?w = "inc ''messages_consumed_total'' w"
  have "0 < py_trunc (sp_dedup_ttl_seconds cfg)"
    using assms(4) by (simp add: py_trunc_def)
  then have "dedup_claim cfg (te_event_id evt) ?w =
      (Inr False, ?w\<lparr>st_redis_tick := Suc (st_redis_tick w), st_redis := st_redis w\<rparr>)"
    using assms(2,3) by (simp add: dedup_claim_def set_nx_def)
  then show ?thesis
    by (simp add: process_message_event [OF assms(1)])
qed

text \<open>The run that loses an event: InfluxDB and the dead-letter topic are down at the first delivery.\<close>

lemma demo_lost:
  "\<exists>w. sp_consume_loop demo_config demo_codec [Poll_msg ''e1'', Poll_msg ''e1'']
     (demo_world (\<lambda>k. if k = 0 then Produce_raises (KafkaException []) else Delivered)
        (\<lambda>k. if k < 5 then Reply_raises (InfluxError []) False else Reply_ok)) =
   (\<lparr>lr_committed = [''e1''], lr_held = [''e1''], lr_crashed = None\<rparr>, w) \<and>
   topics w = (\<lambda>t. []) \<and> st_influx w = []"
  by (simp add: sp_consume_loop_def sp_defs demo_defs upto_5 Let_def)

theorem claimed_redelivery_is_dropped_witness:
  "\<exists>w. sp_process_message demo_config demo_codec ''e1''
      ((demo_world (\<lambda>k. Delivered) (\<lambda>k. Reply_ok))\<lparr>st_redis := [dedup_key ''e1'' \<mapsto> 10]\<rparr>) = (Inr True, w) \<and>
    st_influx w = []"
  using claimed_redelivery_is_dropped [of demo_codec "''e1''" "demo_event ''e1''"
      "(demo_world (\<lambda>k. Delivered) (\<lambda>k. Reply_ok))\<lparr>st_redis := [dedup_key ''e1'' \<mapsto> 10]\<rparr>" demo_config]
  by (auto simp: demo_defs redis_live_def)

section \<open>The Redis ledger\<close>

text \<open>Claims with a positive time to live are a ledger of claims.\<close>

interpretation redis_ledger: claim_ledger "\<lambda>t k r. set_nx (int (Suc n)) t k r" "\<lambda>t r k. redis_live t r k"
  for n
  by unfold_locales (auto simp: set_nx_def redis_live_def split: if_splits)

text \<open>
  While the time to live of a granted claim has not passed, the identifier is not granted again,
  whatever other claims come between; once it has passed, the next claim is granted.
\<close>

theorem claim_granted_once_per_ttl:
  assumes "0 < ttl" and "fst (set_nx ttl t k r)"
    and "\<forall>x\<in>set xs. t \<le> fst x \<and> fst x < t + of_int ttl"
  shows "k \<notin> set (fst (run_claims (set_nx ttl) xs (snd (set_nx ttl t k r)))) \<and>
    fst (set_nx ttl (t + of_int ttl) k (snd (run_claims (set_nx ttl) xs (snd (set_nx ttl t k r)))))"
proof -
  have "k \<notin> set (fst (run_claims (set_nx ttl) xs s)) \<and> snd (run_claims (set_nx ttl) xs s) k = Some (t + of_int ttl)"
    if "s k = Some (t + of_int ttl)" for s
    using that assms(3)
  proof (induction xs arbitrary: s)
    case (Cons x xs)
    obtain u i where x: "x = (u, i)" by (cases x)
    have keep: "snd (set_nx ttl u i s) k = Some (t + of_int ttl)" and no: "i = k \<Longrightarrow> \<not> fst (set_nx ttl u i s)"
      using Cons.prems x by (auto simp: set_nx_def redis_live_def)
    have "k \<notin> set (fst (run_claims (set_nx ttl) xs (snd (set_nx ttl u i s)))) \<and>
        snd (run_claims (set_nx ttl) xs (snd (set_nx ttl u i s))) k = Some (t + of_int ttl)"
      using Cons.IH [of "snd (set_nx ttl u i s)"] keep Cons.prems(2) by simp
    with no show ?case
      by (auto simp: x split: prod.split)
  qed simp
  moreover have "snd (set_nx ttl t k r) k = Some (t + of_int ttl)"
    using assms(2) by (auto simp: set_nx_def split: if_splits)
  ultimately show ?thesis
    by (simp add: set_nx_def redis_live_def)
qed

theorem claim_granted_once_per_ttl_witness:
  "''a'' \<notin> set (fst (run_claims (set_nx 60) [(10, ''b''), (20, ''a'')] (snd (set_nx 60 0 ''a'' Map.empty))))"
  using claim_granted_once_per_ttl [of 60 0 "''a''" Map.empty "[(10, ''b''), (20, ''a'')]"]
  by (simp add: set_nx_def redis_live_def)

section \<open>Window labels\<close>

lemma label_letters [simp]: "\<not> is_digit (CHR ''s'')" "\<not> is_digit (CHR ''m'')" "\<not> is_digit (CHR ''h'')"
  by (simp_all add: is_digit_def)

text \<open>The label of a whole number of seconds, by its hours, minutes and seconds.\<close>

definition label_of :: "nat \<Rightarrow> string" where
  "label_of n =
     (if n < 60 then str_nat n @ ''s''
      else if n < 3600 then str_nat (n div 60) @ ''m'' @ str_nat (n mod 60) @ ''s''
      else str_nat (n div 3600) @ ''h'' @ str_nat (n mod 3600 div 60) @ ''m'' @ str_nat (n mod 60) @ ''s'')"

lemma str_int_of_nat [simp]: "str_int (int n) = str_nat n"
  by (simp add: str_int_def)

lemma duration_label_nat: "duration_label (of_nat n) = label_of n"
proof -
  have t: "py_trunc (of_nat n) = int n"
    by (simp add: py_trunc_def)
  have h: "int n div 3600 = int (n div 3600)"
    by (simp add: zdiv_int)
  have m: "int n mod 3600 div 60 = int (n mod 3600 div 60)"
    by (simp add: zdiv_int zmod_int)
  have s: "int n mod 3600 mod 60 = int (n mod 60)"
    by (simp add: mod_mod_cancel zmod_int)
  have pos: "(0 < int (n div 3600)) = (\<not> n < 3600)"
    by (simp add: div_greater_zero_iff not_less)
  have small: "(int n < 60) = (n < 60)"
    by simp
  show ?thesis
    unfolding duration_label_def label_of_def Let_def t h m s pos small str_int_of_nat
    by (cases "n < 3600") (simp_all only: if_True if_False mod_less simp_thms)
qed

text \<open>Splitting a label at the first letter.\<close>

lemma takeWhile_label: "\<not> is_digit c \<Longrightarrow> takeWhile is_digit (str_nat a @ c # s) = str_nat a"
  by (subst takeWhile_append2) (use str_nat_digits in auto)

lemma label_split:
  assumes "str_nat a @ c # s = str_nat b @ d # t" and "\<not> is_digit c" and "\<not> is_digit d"
  shows "a = b \<and> c = d \<and> s = t"
proof -
  have "str_nat a = str_nat b"
    using takeWhile_label [OF assms(2)] takeWhile_label [OF assms(3)] assms(1) by metis
  then have "a = b"
    by (rule iffD1 [OF str_nat_inj])
  with assms(1) show ?thesis
    by (simp only: append_same_eq same_append_eq list.inject simp_thms)
qed

lemma div_mod_eq:
  assumes "(m::nat) div k = n div k" and "m mod k = n mod k"
  shows "m = n"
proof -
  have "m = m div k * k + m mod k"
    by (rule div_mult_mod_eq [symmetric])
  also have "\<dots> = n div k * k + n mod k"
    by (simp only: assms)
  also have "\<dots> = n"
    by (rule div_mult_mod_eq)
  finally show ?thesis .
qed

lemma label_forms:
  "n < 60 \<Longrightarrow> label_of n = str_nat n @ CHR ''s'' # []"
  "60 \<le> n \<Longrightarrow> n < 3600 \<Longrightarrow> label_of n = str_nat (n div 60) @ CHR ''m'' # (str_nat (n mod 60) @ CHR ''s'' # [])"
  "3600 \<le> n \<Longrightarrow> label_of n =
     str_nat (n div 3600) @ CHR ''h'' # (str_nat (n mod 3600 div 60) @ CHR ''m'' # (str_nat (n mod 60) @ CHR ''s'' # []))"
  by (simp_all only: label_of_def append_Cons append_Nil not_less [symmetric] if_True if_False) simp_all

lemma hours_eq:
  assumes "(m::nat) div 3600 = n div 3600" and "m mod 3600 div 60 = n mod 3600 div 60" and "m mod 60 = n mod 60"
  shows "m = n"
proof -
  have "m mod 3600 mod 60 = n mod 3600 mod 60"
    using assms(3) by (simp add: mod_mod_cancel)
  with assms(2) have "m mod 3600 = n mod 3600"
    by (rule div_mod_eq)
  with assms(1) show ?thesis
    by (rule div_mod_eq)
qed

lemma label_of_inj:
  assumes eq: "label_of m = label_of n"
  shows "m = n"
proof -
  have sizes: "k < 60 \<or> 60 \<le> k \<and> k < 3600 \<or> 3600 \<le> k" for k :: nat
    by linarith
  consider "m < 60" | "60 \<le> m" "m < 3600" | "3600 \<le> m"
    using sizes by blast
  then show ?thesis
  proof cases
    case 1
    with eq sizes [of n] show ?thesis
      by (auto simp only: label_forms str_nat_inj dest!: label_split simp: label_letters)
  next
    case 2
    with eq sizes [of n] show ?thesis
      by (auto simp only: label_forms str_nat_inj dest!: label_split simp: label_letters) (rule div_mod_eq, assumption+)
  next
    case 3
    with eq sizes [of n] show ?thesis
      by (auto simp only: label_forms str_nat_inj dest!: label_split simp: label_letters) (rule hours_eq, assumption+)
  qed
qed

text \<open>
  Two windows of whole seconds with the same label are the same window, so no two windows share
  a tag value; and the windows the service is configured with are labelled as Go printed them.
\<close>

theorem window_labels_distinct:
  "(duration_label (of_nat m) = duration_label (of_nat n)) = (m = n) \<and>
   map duration_label (sp_windows_seconds (load_stream_config env)) = [''10s'', ''30s'', ''1m0s'', ''5m0s'', ''15m0s'']"
proof
  show "(duration_label (of_nat m) = duration_label (of_nat n)) = (m = n)"
    using label_of_inj by (auto simp: duration_label_nat)
  have "map (\<lambda>n. duration_label (of_nat n)) [10, 30, 60, 300, 900] = [''10s'', ''30s'', ''1m0s'', ''5m0s'', ''15m0s'']"
    unfolding duration_label_nat by (simp add: label_of_def str_nat.simps digit_char_def char_of_def bit_iff_odd)
  then show "map duration_label (sp_windows_seconds (load_stream_config env)) =
      [''10s'', ''30s'', ''1m0s'', ''5m0s'', ''15m0s'']"
    by (simp add: load_stream_config_def)
qed

section \<open>The flusher\<close>

lemma series_points_aware:
  assumes "all_aware (sb_samples buf)" and "\<forall>win\<in>set wins. in_range (now - timedelta win)"
  shows "\<exists>ps. series_points (Aware now) key buf wins = Inr ps"
  using assms(2)
proof (induction wins)
  case (Cons win wins)
  let ?ss = "filter (\<lambda>s. now - timedelta win \<le> at_us s) (sb_samples buf)"
  have "all_aware ?ss"
    using assms(1) by (auto intro: all_aware_set)
  then have "\<exists>x. stats_for (Aware now) (timedelta win) buf = Inr x"
    using Cons.prems assms(1) compute_stats_aware [of ?ss]
    by (cases "?ss = []") (auto simp: stats_for_def samples_since_aware)
  with Cons show ?case by auto
qed simp

lemma flush_points_aware:
  assumes "\<forall>(key, buf)\<in>set series. all_aware (sb_samples buf)" and "\<forall>win\<in>set wins. in_range (now - timedelta win)"
  shows "\<exists>ps. flush_points (Aware now) wins series = Inr ps"
  using assms(1)
proof (induction series)
  case (Cons x series)
  obtain key buf where x: "x = (key, buf)" by (cases x)
  then show ?case
    using Cons series_points_aware [of buf wins now key] assms(2) by auto
qed simp

lemma flush_points_naive:
  assumes "(key, buf) \<in> set series" and "sb_samples buf = s # ss" and "\<not> is_aware (smp_at s)"
    and "in_range (now - timedelta win)"
  shows "raised (flush_points (Aware now) (win # wins) series)"
  using assms(1)
proof (induction series)
  case (Cons x series)
  obtain key' buf' where x: "x = (key', buf')" by (cases x)
  have "stats_for (Aware now) (timedelta win) buf = Inl TypeError"
    using assms(2-4) by (rule stats_for_naive)
  then show ?case
    using Cons by (auto simp: x split: sum.split)
qed simp

lemma flush_once_registry [simp]: "fst (flush_once cfg w) = Inl e \<Longrightarrow> snd (flush_once cfg w) = w"
  by (auto simp: flush_once_def split: sum.splits prod.splits)

text \<open>
  While every buffered sample carries an aware timestamp a flush never raises, so the flusher
  thread lives; a single buffer that starts with a sample without a timezone makes every flush
  raise before anything is written, which ends the thread and with it the aggregates of every
  series.
\<close>

theorem flusher_needs_aware_samples:
  assumes "sp_windows_seconds cfg = win # wins"
    and "\<forall>v\<in>set (win # wins). in_range (\<lfloor>clock w * 1000000\<rfloor> - timedelta v)"
  shows "((\<forall>(key, buf)\<in>set (snapshot (st_registry w)). all_aware (sb_samples buf)) \<longrightarrow> fst (flush_once cfg w) = ok) \<and>
    ((\<exists>(key, buf)\<in>set (snapshot (st_registry w)). \<exists>s ss. sb_samples buf = s # ss \<and> \<not> is_aware (smp_at s)) \<longrightarrow>
       raised (fst (flush_once cfg w)) \<and> snd (flush_once cfg w) = w)"
proof (intro conjI impI)
  assume "\<forall>(key, buf)\<in>set (snapshot (st_registry w)). all_aware (sb_samples buf)"
  then have "\<exists>ps. flush_points (utc_at (clock w)) (sp_windows_seconds cfg) (snapshot (st_registry w)) = Inr ps"
    using flush_points_aware [of "snapshot (st_registry w)" "win # wins"] assms by (simp add: utc_at_def)
  then show "fst (flush_once cfg w) = ok"
    by (auto simp: flush_once_def split: prod.split sum.split)
next
  assume "\<exists>(key, buf)\<in>set (snapshot (st_registry w)). \<exists>s ss. sb_samples buf = s # ss \<and> \<not> is_aware (smp_at s)"
  then have "raised (flush_points (utc_at (clock w)) (sp_windows_seconds cfg) (snapshot (st_registry w)))"
    using flush_points_naive assms by (fastforce simp: utc_at_def)
  then show "raised (fst (flush_once cfg w))" and "snd (flush_once cfg w) = w"
    by (auto simp: flush_once_def raised_iff)
qed

theorem flusher_needs_aware_samples_witness:
  "fst (flush_once demo_config ((demo_world (\<lambda>k. Delivered) (\<lambda>k. Reply_ok))\<lparr>clock := 63000000000\<rparr>)) = ok"
  using flusher_needs_aware_samples [of demo_config 10 "[30, 60, 300, 900]"
      "(demo_world (\<lambda>k. Delivered) (\<lambda>k. Reply_ok))\<lparr>clock := 63000000000\<rparr>"]
    timedelta_of_int [of 10] timedelta_of_int [of 30] timedelta_of_int [of 60] timedelta_of_int [of 300]
    timedelta_of_int [of 900]
  by (simp add: demo_defs new_registry_def snapshot_def in_range_def dt_max_def seconds_def)

text \<open>The reported lag is never negative.\<close>

lemma lag_sum_mono: "lag_sum watermarks tps acc = Inr n \<Longrightarrow> acc \<le> n"
  by (induction tps arbitrary: acc) (fastforce split: if_splits sum.splits option.splits)+

lemma lag_nonneg: "lag assignment position watermarks = Inr n \<Longrightarrow> 0 \<le> n"
  by (auto simp: lag_def dest: lag_sum_mono split: sum.splits if_splits)

end
