(* ===== verification/Pipeline.thy ===== *)
theory Pipeline
  imports Simulator Stream_Processor
begin

text \<open>
  The way of a reading from the simulator through ingestion to the stream processor, while the dependencies answer:
  ingestion's worker takes the messages of the simulator one after the other, and the stream processor consumes the records
  of the raw topic.
\<close>

section \<open>The stream processor while its dependencies answer\<close>

definition stream_up :: "stream_config \<Rightarrow> stream_world \<Rightarrow> bool" where
  "stream_up cfg w \<longleftrightarrow>
     (\<forall>i. net w i = Delivered) \<and> (\<forall>i. st_redis_net w i = Reply_ok) \<and> (\<forall>i. st_influx_net w i = Reply_ok) \<and>
     cb_state (st_influx_breaker w) = CLOSED \<and> cb_state (st_kafka_breaker w) = CLOSED \<and>
     1 \<le> sp_influx_max_retries cfg \<and> 1 \<le> sp_kafka_max_retries cfg \<and> 0 < py_trunc (sp_dedup_ttl_seconds cfg)"

text \<open>The point, the record and the request of the registry an event becomes.\<close>

definition point_of :: "real normalized_telemetry \<Rightarrow> point" where
  "point_of evt = raw_point (sp_series_key evt) (time_of (te_timestamp evt)) (te_reading evt)"

definition record_of :: "stream_codec \<Rightarrow> real normalized_telemetry \<Rightarrow> string \<times> string" where
  "record_of cd evt = (te_device_id evt, projr (sc_dump cd evt))"

definition request_of :: "real normalized_telemetry \<Rightarrow> record_request" where
  "request_of evt = (sp_series_key evt, time_of (te_timestamp evt), te_reading evt)"

text \<open>What Redis holds, what is stored and what is forwarded.\<close>

definition live_ids :: "stream_world \<Rightarrow> string set" where
  "live_ids w = {i. redis_live (clock w) (st_redis w) (dedup_key i)}"

definition forwarded :: "stream_config \<Rightarrow> stream_codec \<Rightarrow> real normalized_telemetry list \<Rightarrow> stream_world \<Rightarrow> stream_world \<Rightarrow> bool" where
  "forwarded cfg cd evts w w' \<longleftrightarrow>
     st_influx w' = st_influx w @ map point_of evts \<and>
     topics w' = (topics w)(sp_topic_processed cfg := topics w (sp_topic_processed cfg) @ map (record_of cd) evts) \<and>
     st_registry w' = record_all (map request_of evts) (st_registry w) \<and>
     live_ids w' = live_ids w \<union> te_event_id ` set evts \<and> stream_up cfg w' \<and> clock w' = clock w"

text \<open>A reading whose window cut-off is a date.\<close>

definition dated :: "int \<Rightarrow> ('a, 'z) telemetry_event_scheme \<Rightarrow> bool" where
  "dated W evt \<longleftrightarrow> is_aware (time_of (te_timestamp evt)) \<and> in_range (micros (time_of (te_timestamp evt)) - W)"

lemma guarded_up:
  "fn w = (ok, w') \<Longrightarrow> cb_state cb = CLOSED \<Longrightarrow> 1 \<le> m \<Longrightarrow>
   guarded_call oe m b fn slp clk cb w = (ok, record_success cb, w')"
  by (simp add: guarded_call_def allow_def retry_first)

lemma record_success_closed [simp]: "cb_state (record_success cb) = CLOSED"
  by (simp add: record_success_def)

lemma write_raw_point_up:
  assumes "stream_up cfg w"
  shows "\<exists>w'. write_raw_point cfg key t v w = (ok, w') \<and> st_influx w' = st_influx w @ [raw_point key t v] \<and>
    topics w' = topics w \<and> st_registry w' = st_registry w \<and> st_redis w' = st_redis w \<and> stream_up cfg w' \<and> clock w' = clock w"
proof -
  let ?w = "w\<lparr>st_influx_tick := Suc (st_influx_tick w), st_influx := st_influx w @ [raw_point key t v]\<rparr>"
  have "influx_write [raw_point key t v] w = (ok, ?w)"
    using assms by (simp add: influx_write_def stream_up_def)
  then have "write_raw_point cfg key t v w = (ok, ?w\<lparr>st_influx_breaker := record_success (st_influx_breaker w)\<rparr>)"
    using assms by (simp add: write_raw_point_def write_with_protection_def guarded_up stream_up_def)
  then show ?thesis
    using assms by (intro exI conjI) (assumption | simp add: stream_up_def)+
qed

lemma publish_processed_up:
  assumes "stream_up cfg w" and "sc_dump cd evt = Inr p"
  shows "\<exists>w'. publish_processed cfg cd k evt w = (ok, w') \<and> st_influx w' = st_influx w \<and>
    topics w' = (topics w)(sp_topic_processed cfg := topics w (sp_topic_processed cfg) @ [(k, p)]) \<and>
    st_registry w' = st_registry w \<and> st_redis w' = st_redis w \<and> stream_up cfg w' \<and> clock w' = clock w"
proof -
  let ?w = "append_to (sp_topic_processed cfg) k p (w\<lparr>tick := Suc (tick w)\<rparr>)"
  have "produce_and_wait (sp_topic_processed cfg) k p w = (ok, ?w)"
    using assms(1) by (intro produce_up) (simp add: stream_up_def)
  then have "publish_processed cfg cd k evt w = (ok, ?w\<lparr>st_kafka_breaker := record_success (st_kafka_breaker w)\<rparr>)"
    using assms by (simp add: publish_processed_def sp_protected_write_def guarded_up stream_up_def append_to_def)
  then show ?thesis
    using assms(1) by (intro exI conjI) (assumption | simp add: stream_up_def append_to_def)+
qed

text \<open>A registry that holds dated readings takes another one.\<close>

definition dated_registry :: "int \<Rightarrow> series_registry \<Rightarrow> bool" where
  "dated_registry W reg \<longleftrightarrow> (\<exists>evts. list_all (dated W) evts \<and> reg = record_all (map request_of evts) (new_registry W))"

lemma record_all_append: "record_all (xs @ ys) reg = record_all ys (record_all xs reg)"
  by (simp add: record_all_def)

lemma dated_registry_all:
  "dated_registry W reg \<Longrightarrow> list_all (dated W) evts \<Longrightarrow> dated_registry W (record_all (map request_of evts) reg)"
  unfolding dated_registry_def by (metis list_all_append map_append record_all_append)

lemma registry_takes:
  assumes "dated_registry W reg" and "dated W evt" and "0 \<le> W"
  shows "registry_record (sp_series_key evt) (time_of (te_timestamp evt)) (te_reading evt) reg = (ok, record_all [request_of evt] reg)"
proof -
  obtain evts where evts: "list_all (dated W) evts" "reg = record_all (map request_of evts) (new_registry W)"
    using assms(1) by (auto simp: dated_registry_def)
  let ?s = "\<lparr>smp_at = time_of (te_timestamp evt), smp_reading = te_reading evt\<rparr>"
  define xs where "xs = map (\<lambda>(key, t, v). \<lparr>smp_at = t, smp_reading = v\<rparr>)
    (filter (\<lambda>(key, t, v). series_id key = series_id (sp_series_key evt)) (map request_of evts))"
  have buf: "registry_buffer reg (series_id (sp_series_key evt)) = add_all xs (new_buffer W)"
    unfolding evts(2) xs_def by (rule registry_series_independent)
  have xs: "is_aware (smp_at s) \<and> in_range (at_us s - W)" if "s \<in> set (xs @ [?s])" for s
    using that evts(1) assms(2) by (auto simp: xs_def list_all_iff dated_def request_of_def)
  have hist: "xs = [] \<and> add_all xs (new_buffer W) = new_buffer W \<or> xs \<noteq> [] \<and> holds_window W xs (add_all xs (new_buffer W))"
    using add_all_holds_window [OF assms(3), of xs] xs by (cases "xs = []") (auto simp: add_all_def all_aware_def)
  have "in_range (newest (xs @ [?s]) - W)"
    using newest_in [of "xs @ [?s]"] xs by force
  then have "fst (add (time_of (te_timestamp evt)) (te_reading evt) (add_all xs (new_buffer W))) = ok"
    using add_step [OF hist assms(3), of ?s] xs [of ?s] by simp
  then show ?thesis
    by (cases "add (time_of (te_timestamp evt)) (te_reading evt) (add_all xs (new_buffer W))")
      (simp add: registry_record_def record_all_def request_of_def buf)
qed

lemma stream_up_upd [simp]:
  "stream_up cfg (w\<lparr>st_registry := reg\<rparr>) = stream_up cfg w" "stream_up cfg (inc n w) = stream_up cfg w"
  "stream_up cfg (w\<lparr>st_redis := r\<rparr>) = stream_up cfg w" "stream_up cfg (w\<lparr>st_redis_tick := k\<rparr>) = stream_up cfg w"
  by (simp_all add: stream_up_def inc_def)

lemma process_event_up:
  assumes "stream_up cfg w" and "dated_registry W (st_registry w)" and "dated W evt" and "0 \<le> W" and "\<not> raised (sc_dump cd evt)"
  shows "\<exists>w'. sp_process_event cfg cd raw evt w = (Inr True, w') \<and> st_influx w' = st_influx w @ [point_of evt] \<and>
    topics w' = (topics w)(sp_topic_processed cfg := topics w (sp_topic_processed cfg) @ [record_of cd evt]) \<and>
    st_registry w' = record_all [request_of evt] (st_registry w) \<and> st_redis w' = st_redis w \<and> stream_up cfg w' \<and> clock w' = clock w"
proof -
  let ?key = "sp_series_key evt" and ?t = "time_of (te_timestamp evt)"
  obtain p where p: "sc_dump cd evt = Inr p"
    using assms(5) by (cases "sc_dump cd evt") auto
  obtain w1 where w1: "write_raw_point cfg ?key ?t (te_reading evt) w = (ok, w1)" "st_influx w1 = st_influx w @ [point_of evt]"
    "topics w1 = topics w" "st_registry w1 = st_registry w" "st_redis w1 = st_redis w" "stream_up cfg w1" "clock w1 = clock w"
    using write_raw_point_up [OF assms(1), of ?key ?t "te_reading evt"] unfolding point_of_def by blast
  let ?w1 = "w1\<lparr>st_registry := record_all [request_of evt] (st_registry w)\<rparr>"
  have reg: "registry_record ?key ?t (te_reading evt) (st_registry w1) = (ok, record_all [request_of evt] (st_registry w))"
    using registry_takes [OF assms(2-4)] w1(4) by simp
  have "stream_up cfg ?w1"
    using w1(6) by simp
  from publish_processed_up [where k = "te_device_id evt", OF this p] obtain w2 where
    w2: "publish_processed cfg cd (te_device_id evt) evt ?w1 = (ok, w2)" "st_influx w2 = st_influx ?w1"
    "topics w2 = (topics ?w1)(sp_topic_processed cfg := topics ?w1 (sp_topic_processed cfg) @ [(te_device_id evt, p)])"
    "st_registry w2 = st_registry ?w1" "st_redis w2 = st_redis ?w1" "stream_up cfg w2" "clock w2 = clock ?w1"
    by blast
  have "sp_process_event cfg cd raw evt w = (Inr True, w2)"
    by (simp add: sp_process_event_def w1(1) reg w2(1) Let_def)
  then show ?thesis
    using w1 w2 p by (intro exI [of _ w2]) (simp add: record_of_def)
qed

lemma claim_up:
  assumes "stream_up cfg w"
  shows "\<exists>w'. dedup_claim cfg i w = (Inr (i \<notin> live_ids w), w') \<and> live_ids w' = insert i (live_ids w) \<and> st_influx w' = st_influx w \<and>
    topics w' = topics w \<and> st_registry w' = st_registry w \<and> stream_up cfg w' \<and> clock w' = clock w"
proof -
  obtain fresh r where n: "set_nx (py_trunc (sp_dedup_ttl_seconds cfg)) (clock w) (dedup_key i) (st_redis w) = (fresh, r)"
    by fastforce
  have ttl: "0 < py_trunc (sp_dedup_ttl_seconds cfg)"
    using assms by (simp add: stream_up_def)
  have fresh: "fresh = (i \<notin> live_ids w)"
    using n by (auto simp: set_nx_def live_ids_def split: if_splits)
  have live: "redis_live (clock w) r (dedup_key k) \<longleftrightarrow> k = i \<or> k \<in> live_ids w" for k
    using n ttl by (auto simp: set_nx_def live_ids_def redis_live_def split: if_splits option.splits)
  let ?w = "w\<lparr>st_redis_tick := Suc (st_redis_tick w), st_redis := r\<rparr>"
  have "dedup_claim cfg i w = (Inr fresh, ?w)"
    using assms ttl by (simp add: dedup_claim_def n stream_up_def)
  moreover have "live_ids ?w = insert i (live_ids w)"
    by (simp only: live_ids_def) (simp add: live; auto simp: live_ids_def)
  moreover have "stream_up cfg ?w"
    using assms by (simp add: stream_up_def)
  ultimately show ?thesis
    using fresh by (intro exI [of _ ?w]) simp
qed

lemma forwarded_Nil: "stream_up cfg w \<Longrightarrow> forwarded cfg cd [] w w"
  by (simp add: forwarded_def record_all_def)

lemma forwarded_append:
  "forwarded cfg cd xs w w1 \<Longrightarrow> forwarded cfg cd ys w1 w2 \<Longrightarrow> forwarded cfg cd (xs @ ys) w w2"
  by (auto simp: forwarded_def record_all_append)

lemma live_ids_inc [simp]: "live_ids (inc n w) = live_ids w"
  by (simp add: live_ids_def)

text \<open>One message: forwarded when its identifier is new, dropped when it is not, committed either way.\<close>

lemma process_message_up:
  assumes "stream_up cfg w" and "dated_registry W (st_registry w)" and "sc_parse cd raw = Inr evt" and "dated W evt" and "0 \<le> W"
    and "\<not> raised (sc_dump cd evt)"
  shows "\<exists>w'. sp_process_message cfg cd raw w = (Inr True, w') \<and>
    forwarded cfg cd (if te_event_id evt \<in> live_ids w then [] else [evt]) w w'"
proof -
  let ?w = "inc ''messages_consumed_total'' w"
  obtain w1 where w1: "dedup_claim cfg (te_event_id evt) ?w = (Inr (te_event_id evt \<notin> live_ids w), w1)"
    "live_ids w1 = insert (te_event_id evt) (live_ids w)" "st_influx w1 = st_influx w" "topics w1 = topics w"
    "st_registry w1 = st_registry w" "stream_up cfg w1" "clock w1 = clock w"
    using claim_up [of cfg ?w "te_event_id evt"] assms(1) by auto
  show ?thesis
  proof (cases "te_event_id evt \<in> live_ids w")
    case True
    then show ?thesis
      using w1 by (intro exI [of _ "inc ''duplicate_events_total'' w1"])
        (auto simp: process_message_event [OF assms(3) w1(1)] forwarded_def record_all_def)
  next
    case False
    obtain w2 where w2: "sp_process_event cfg cd raw evt w1 = (Inr True, w2)" "st_influx w2 = st_influx w1 @ [point_of evt]"
      "topics w2 = (topics w1)(sp_topic_processed cfg := topics w1 (sp_topic_processed cfg) @ [record_of cd evt])"
      "st_registry w2 = record_all [request_of evt] (st_registry w1)" "st_redis w2 = st_redis w1" "stream_up cfg w2" "clock w2 = clock w1"
      using process_event_up [OF w1(6) _ assms(4,5,6), of raw] assms(2) w1(5) by auto
    have "live_ids w2 = live_ids w1"
      by (simp add: live_ids_def w2(5,7))
    then show ?thesis
      using False w1 w2 by (intro exI [of _ w2]) (simp add: process_message_event [OF assms(3) w1(1)] forwarded_def)
  qed
qed

text \<open>The events of a list whose identifier comes for the first time.\<close>

fun first_seen :: "string set \<Rightarrow> ('a, 'z) telemetry_event_scheme list \<Rightarrow> ('a, 'z) telemetry_event_scheme list" where
  "first_seen seen [] = []"
| "first_seen seen (evt # evts) =
     (if te_event_id evt \<in> seen then first_seen seen evts else evt # first_seen (insert (te_event_id evt) seen) evts)"

lemma stream_run_up:
  assumes "list_all2 (\<lambda>p evt. sc_parse cd p = Inr evt \<and> dated W evt \<and> \<not> raised (sc_dump cd evt)) ps evts"
    and "stream_up cfg w" and "dated_registry W (st_registry w)" and "0 \<le> W"
  shows "\<exists>w'. sp_consume_loop cfg cd (map Poll_msg ps) w = (\<lparr>lr_committed = ps, lr_held = [], lr_crashed = None\<rparr>, w') \<and>
    forwarded cfg cd (first_seen (live_ids w) evts) w w'"
  using assms(1-3)
proof (induction ps evts arbitrary: w rule: list_all2_induct)
  case Nil
  then show ?case
    by (simp add: sp_consume_loop_def forwarded_Nil)
next
  case (Cons p ps evt evts)
  let ?now = "if te_event_id evt \<in> live_ids w then [] else [evt]"
  obtain w1 where w1: "sp_process_message cfg cd p w = (Inr True, w1)" "forwarded cfg cd ?now w w1"
    using process_message_up [OF Cons.prems, of cd p evt] Cons.hyps(1) assms(4) by blast
  have "stream_up cfg w1" "live_ids w1 = live_ids w \<union> te_event_id ` set ?now" "st_registry w1 = record_all (map request_of ?now) (st_registry w)"
    using w1(2) unfolding forwarded_def by blast+
  moreover from this have "dated_registry W (st_registry w1)"
    using dated_registry_all [OF Cons.prems(2), of ?now] Cons.hyps(1) by simp
  ultimately obtain w2 where w2: "sp_consume_loop cfg cd (map Poll_msg ps) w1 = (\<lparr>lr_committed = ps, lr_held = [], lr_crashed = None\<rparr>, w2)"
    "forwarded cfg cd (first_seen (live_ids w1) evts) w1 w2"
    using Cons.IH by blast
  have "first_seen (live_ids w) (evt # evts) = ?now @ first_seen (live_ids w1) evts"
    using \<open>live_ids w1 = _\<close> by (auto simp: insert_absorb)
  then have "forwarded cfg cd (first_seen (live_ids w) (evt # evts)) w w2"
    using forwarded_append [OF w1(2) w2(2)] by simp
  then show ?case
    using w1(1) w2(1) by (intro exI [of _ w2]) (simp add: sp_consume_loop_def)
qed

lemma forwarded_grow: "forwarded cfg cd evts w w' \<Longrightarrow> length (st_influx w') = length (st_influx w) + length evts"
  by (simp add: forwarded_def)

lemma first_seen_map:
  assumes "\<And>e. e \<in> set evts \<Longrightarrow> te_event_id (f e) = te_event_id e"
  shows "first_seen seen (map f evts) = map f (first_seen seen evts)"
  using assms by (induction seen evts rule: first_seen.induct) auto

lemma first_seen_fresh: "te_event_id ` set (first_seen seen evts) = te_event_id ` set evts - seen"
  by (induction seen evts rule: first_seen.induct) auto

lemma first_seen_subset: "set (first_seen seen evts) \<subseteq> set evts"
  by (induction seen evts rule: first_seen.induct) auto

lemma distinct_first_seen: "distinct (map te_event_id (first_seen seen evts))"
proof (induction seen evts rule: first_seen.induct)
  case (2 seen evt evts)
  then show ?case
    by (auto simp: first_seen_fresh simp flip: image_set)
qed simp

lemma first_seen_all:
  assumes "inj_on te_event_id (set evts)" and "seen \<inter> te_event_id ` set evts = {}"
  shows "set (first_seen seen evts) = set evts"
proof -
  have "te_event_id ` set (first_seen seen evts) = te_event_id ` set evts"
    using assms(2) by (auto simp: first_seen_fresh)
  then show ?thesis
    using inj_on_image_eq_iff [OF assms(1) first_seen_subset subset_refl] by blast
qed

section \<open>Ingestion of the simulator's messages\<close>

text \<open>What a message on the wire carries: the text of the job's event, on the job's topic.\<close>

definition carries_job :: "ingest_codec \<Rightarrow> publish_job \<Rightarrow> inbound \<Rightarrow> bool" where
  "carries_job cd j m \<longleftrightarrow>
     im_topic m = pj_topic j \<and>
     (case pj_payload j of
        Reading evt \<Rightarrow> ic_telemetry cd (im_payload m) = Inr evt
      | Event evt \<Rightarrow> ic_machine cd (im_payload m) = Inr evt
      | Status st \<Rightarrow> ic_machine cd (im_payload m) = Inr (status_as_event st))"

text \<open>One worker, the messages one after the other.\<close>

fun ingest_all :: "ingestion_config \<Rightarrow> ingest_codec \<Rightarrow> inbound list \<Rightarrow> ingest_world \<Rightarrow> (exn + unit) \<times> ingest_world" where
  "ingest_all cfg cd [] w = (ok, w)"
| "ingest_all cfg cd (m # ms) w =
     (case in_process_message cfg cd m w of
        (Inl e, w') \<Rightarrow> (Inl e, w')
      | (Inr _, w') \<Rightarrow> ingest_all cfg cd ms w')"

fun reading_in :: "sim_payload \<Rightarrow> reading list" where
  "reading_in (Reading evt) = [evt]"
| "reading_in (Event evt) = []"
| "reading_in (Status st) = []"

definition readings_of :: "publish_job list \<Rightarrow> reading list" where
  "readings_of jobs = concat (map (reading_in \<circ> pj_payload) jobs)"

lemma readings_of_simps [simp]:
  "readings_of [] = []" "readings_of (j # jobs) = reading_in (pj_payload j) @ readings_of jobs"
  by (simp_all add: readings_of_def)

lemma in_readings_of: "evt \<in> set (readings_of jobs) \<longleftrightarrow> (\<exists>j\<in>set jobs. pj_payload j = Reading evt)"
  by (induction jobs) (auto elim: reading_in.elims simp: image_iff split: sim_payload.splits, (metis reading_in.simps empty_iff empty_set list.set_intros(1) reading_in.elims set_ConsD)+)

definition raw_text :: "ingest_codec \<Rightarrow> datetime \<Rightarrow> reading \<Rightarrow> exn + string" where
  "raw_text cd t evt = ic_dump_telemetry cd (normalize_telemetry evt t)"

lemma ends_apart: "ends_with s ''/events'' \<Longrightarrow> \<not> ends_with s ''/telemetry''" "ends_with s ''/status'' \<Longrightarrow> \<not> ends_with s ''/telemetry''"
  by (auto simp: ends_with_def suffix_def)

lemma not_raisedE: "\<not> raised r \<Longrightarrow> (\<And>x. r = Inr x \<Longrightarrow> P) \<Longrightarrow> P"
  by (cases r) auto

lemma carried_destination:
  assumes "carries_job cd j m" and "accepted_job j" and "\<And>evt. \<not> raised (ic_dump_machine cd evt)"
    and "\<And>evt. pj_payload j = Reading evt \<Longrightarrow> \<not> raised (raw_text cd t evt)"
  shows "\<exists>d. destination cfg cd m u t = Inr (Some d) \<and>
    (case pj_payload j of Reading evt \<Rightarrow> d = (ig_topic_telemetry_raw cfg, te_device_id evt, projr (raw_text cd t evt))
     | _ \<Rightarrow> fst d = ig_topic_device_events cfg)"
proof (cases "pj_payload j")
  case (Reading evt)
  then obtain p where "raw_text cd t evt = Inr p"
    using assms(4) by (blast elim: not_raisedE)
  then show ?thesis
    using Reading assms(1,2) by (simp add: carries_job_def accepted_job_def destination_def raw_text_def)
next
  case (Event evt)
  obtain p where "ic_dump_machine cd (normalize_machine_event evt u t) = Inr p"
    using assms(3) by (blast elim: not_raisedE)
  then show ?thesis
    using Event assms(1,2) ends_apart(1) [of "pj_topic j"] by (simp add: carries_job_def accepted_job_def destination_def)
next
  case (Status st)
  obtain p where "ic_dump_machine cd (normalize_machine_event (status_as_event st) u t) = Inr p"
    using assms(3) by (blast elim: not_raisedE)
  then show ?thesis
    using Status assms(1,2) ends_apart(2) [of "pj_topic j"] by (simp add: carries_job_def accepted_job_def destination_def)
qed

lemma ingest_run_up:
  assumes "list_all2 (carries_job cd) jobs ms" and "list_all accepted_job jobs" and "\<And>evt. \<not> raised (ic_dump_machine cd evt)"
    and "list_all (\<lambda>evt. \<not> raised (raw_text cd (utc_at (clock w)) evt)) (readings_of jobs)"
    and "kafka_up cfg w" and "topics_differ cfg"
  shows "\<exists>w'. ingest_all cfg cd ms w = (ok, w') \<and> iw_acks w' = iw_acks w @ map im_id ms \<and>
    topics w' (ig_topic_telemetry_raw cfg) = topics w (ig_topic_telemetry_raw cfg) @
      map (\<lambda>evt. (te_device_id evt, projr (raw_text cd (utc_at (clock w)) evt))) (readings_of jobs)"
  using assms(1,2,4,5)
proof (induction jobs ms arbitrary: w rule: list_all2_induct)
  case (Cons j jobs m ms)
  let ?raw = "ig_topic_telemetry_raw cfg" and ?t = "utc_at (clock w)"
  obtain d where d: "destination cfg cd m (iw_uuids w (iw_uuid_tick w)) ?t = Inr (Some d)"
    "case pj_payload j of Reading evt \<Rightarrow> d = (?raw, te_device_id evt, projr (raw_text cd ?t evt)) | _ \<Rightarrow> fst d = ig_topic_device_events cfg"
    using carried_destination [OF Cons.hyps(1) _ assms(3)] Cons.prems(1,2) by fastforce
  obtain w1 where w1: "in_process_message cfg cd m w = (ok, w1)" "iw_acks w1 = iw_acks w @ [im_id m]" "delivered (Some d) w w1"
    "kafka_up cfg w1" "clock w1 = clock w"
    using message_routed [OF Cons.prems(3) d(1)] unfolding routed_def by blast
  obtain w2 where w2: "ingest_all cfg cd ms w1 = (ok, w2)" "iw_acks w2 = iw_acks w1 @ map im_id ms"
    "topics w2 ?raw = topics w1 ?raw @ map (\<lambda>evt. (te_device_id evt, projr (raw_text cd ?t evt))) (readings_of jobs)"
    using Cons.IH [of w1] Cons.prems(1,2) w1(4,5) by auto
  have "topics w1 ?raw = topics w ?raw @ map (\<lambda>evt. (te_device_id evt, projr (raw_text cd ?t evt))) (reading_in (pj_payload j))"
    using w1(3) d(2) assms(6) by (cases d; cases "pj_payload j") (auto simp: delivered_def topics_differ_def)
  then show ?case
    using w1 w2 by (intro exI [of _ w2]) simp
qed simp

section \<open>What the simulator sends\<close>

text \<open>Every reading sent or put off was made, and the readings made have the identifiers drawn, in order.\<close>

definition sends_made :: "(nat \<Rightarrow> string) \<Rightarrow> simulation \<Rightarrow> bool" where
  "sends_made uuids s \<longleftrightarrow>
     si_uuids s = uuids \<and> map te_event_id (si_made s) = map uuids [0..<si_uuid_tick s] \<and>
     (\<forall>j\<in>set (si_offered s) \<union> delays s. set (reading_in (pj_payload j)) \<subseteq> set (si_made s))"

lemma event_job_reads: "event_job catalog j \<Longrightarrow> reading_in (pj_payload j) = []"
  by (auto simp: event_job_def failure_job_def machine_job_def)

lemma adds_sends_made:
  assumes "adds jobs ds s s'" and "sends_made uuids s" and "si_made s' = si_made s @ made"
    and "map te_event_id made = map uuids [si_uuid_tick s..<si_uuid_tick s']" and "si_uuid_tick s \<le> si_uuid_tick s'"
    and "\<And>j. j \<in> set jobs \<union> job_of ` set ds \<Longrightarrow> set (reading_in (pj_payload j)) \<subseteq> set (si_made s')"
  shows "sends_made uuids s'"
proof -
  have "map te_event_id (si_made s') = map uuids [0..<si_uuid_tick s']"
    using assms(2-5) upt_add_eq_append [of 0 "si_uuid_tick s" "si_uuid_tick s' - si_uuid_tick s"] by (simp add: sends_made_def)
  moreover have "set (si_offered s') \<union> delays s' = (set (si_offered s) \<union> delays s) \<union> (set jobs \<union> job_of ` set ds)"
    using adds_delays [OF assms(1)] assms(1) by (auto simp: adds_def)
  moreover have "si_uuids s' = uuids"
    using assms(1,2) by (simp add: adds_def sends_made_def)
  moreover have "set (si_made s) \<subseteq> set (si_made s')"
    using assms(3) by simp
  ultimately show ?thesis
    using assms(2,6) unfolding sends_made_def by (metis (no_types, lifting) UnE subset_trans)
qed

lemma sends_made_step:
  assumes "sim_step cfg catalog s s'" and "sends_made uuids s"
  shows "sends_made uuids s'"
  using assms(1)
proof (cases rule: sim_step_kind)
  case (emits jobs)
  then have "reading_in (pj_payload j) = []" if "j \<in> set jobs" for j
    using that event_job_reads by (auto simp: list_all_iff)
  then show ?thesis
    using adds_sends_made [OF emits(1) assms(2), of "[]"] emits(3) by (simp add: same_readings_def)
next
  case (reads i evt)
  then obtain events jobs ds where a: "adds (events @ jobs) ds s s'" "list_all (event_job catalog) events"
      "job_of ` set ds \<union> set jobs = {reading_job (catalog ! i) evt}"
    and evt: "\<exists>now v. evt = reading_of (catalog ! i) (si_uuids s (si_uuid_tick s)) now (Suc (sk_seq (si_sensors s i))) v"
    and made: "si_made s' = si_made s @ [evt]" "si_uuid_tick s' = Suc (si_uuid_tick s)"
    unfolding makes_def by blast
  have "te_event_id evt = uuids (si_uuid_tick s)"
    using evt assms(2) by (auto simp: reading_of_def sends_made_def)
  moreover have "set (reading_in (pj_payload j)) \<subseteq> set (si_made s')" if "j \<in> set (events @ jobs) \<union> job_of ` set ds" for j
  proof -
    have "j \<in> set events \<or> j = reading_job (catalog ! i) evt"
      using that a(3) by auto
    then show ?thesis
      using a(2) event_job_reads made(1) by (auto simp: list_all_iff reading_job_def)
  qed
  ultimately show ?thesis
    using adds_sends_made [OF a(1) assms(2) made(1)] made(2) by simp
next
  case (fires d n)
  have "delays (s\<lparr>si_timers := remove1 d (si_timers s)\<rparr>) \<subseteq> delays s"
    using set_remove1_subset [of d "si_timers s"] by (auto simp: delays_def)
  then have "sends_made uuids (s\<lparr>si_timers := remove1 d (si_timers s)\<rparr>)"
    using assms(2) by (auto simp: sends_made_def)
  moreover have "job_of d \<in> delays s"
    using fires(1) by (simp add: delays_def)
  ultimately show ?thesis
    using adds_sends_made [OF fires(3), of uuids "[]"] fires(1,4) assms(2) unfolding same_readings_def sends_made_def
    by simp
next
  case ends
  then show ?thesis
    using assms(2) by (simp add: sends_made_def loop_ends_def delays_def)
qed

lemma simulated_readings:
  assumes "sim_reaches cfg catalog (new_simulation cfg catalog sd cd uuids now) s" and "set jobs \<subseteq> set (si_offered s)"
    and "inj_on uuids {..<si_uuid_tick s}"
  shows "inj_on te_event_id (set (readings_of jobs))"
proof -
  have "sends_made uuids (new_simulation cfg catalog sd cd uuids now)"
    by (simp add: sends_made_def new_simulation_def delays_def)
  then have inv: "sends_made uuids s"
    by (rule sim_invariant [OF assms(1)]) (rule sends_made_step)
  have "distinct (map uuids [0..<si_uuid_tick s])"
    using assms(3) by (simp add: distinct_map atLeast0LessThan)
  then have "inj_on te_event_id (set (si_made s))"
    using inv unfolding sends_made_def by (metis distinct_map)
  moreover have "set (readings_of jobs) \<subseteq> set (si_made s)"
    using inv assms(2) by (force simp: readings_of_def sends_made_def)
  ultimately show ?thesis
    by (rule inj_on_subset)
qed

section \<open>From the simulator to the store\<close>

text \<open>The stream processor reads the record of a reading as the reading, and can print it.\<close>

definition same_reading :: "reading \<Rightarrow> real normalized_telemetry \<Rightarrow> bool" where
  "same_reading a b \<longleftrightarrow>
     te_event_id b = te_event_id a \<and> te_organization_id b = te_organization_id a \<and> te_factory_id b = te_factory_id a \<and>
     te_production_line_id b = te_production_line_id a \<and> te_machine_id b = te_machine_id a \<and> te_device_id b = te_device_id a \<and>
     te_sensor_id b = te_sensor_id a \<and> te_timestamp b = te_timestamp a \<and> te_sequence_number b = te_sequence_number a \<and>
     te_metric b = te_metric a \<and> te_reading a = Finite (te_reading b) \<and> te_unit b = te_unit a"

definition reads_back :: "ingest_codec \<Rightarrow> stream_codec \<Rightarrow> datetime \<Rightarrow> reading \<Rightarrow> bool" where
  "reads_back ic sc t evt \<longleftrightarrow>
     (case raw_text ic t evt of
        Inl e \<Rightarrow> False
      | Inr p \<Rightarrow> (case sc_parse sc p of Inl e \<Rightarrow> False | Inr b \<Rightarrow> same_reading evt b \<and> \<not> raised (sc_dump sc b)))"

text \<open>The point a reading should become. A reading that passed validation is finite.\<close>

definition reading_point :: "reading \<Rightarrow> point" where
  "reading_point evt =
     \<lparr>pt_measurement = ''sensor_telemetry'',
      pt_tags = [(''factory_id'', te_factory_id evt), (''production_line_id'', te_production_line_id evt),
        (''machine_id'', te_machine_id evt), (''device_id'', te_device_id evt), (''sensor_id'', te_sensor_id evt),
        (''metric'', te_metric evt)],
      pt_fields = [(''value'', FFloat (case te_reading evt of Finite v \<Rightarrow> v | _ \<Rightarrow> 0))],
      pt_time = time_of (te_timestamp evt)\<rparr>"

lemma same_reading_point: "same_reading a b \<Longrightarrow> point_of b = reading_point a"
  by (simp add: same_reading_def point_of_def reading_point_def raw_point_def series_tags_def sp_series_key_def)

lemma same_reading_dated: "same_reading a b \<Longrightarrow> dated W b = dated W a"
  by (simp add: same_reading_def dated_def)

lemma reads_back_parsed:
  assumes "reads_back ic sc t evt"
  shows "\<not> raised (raw_text ic t evt)"
    and "sc_parse sc (projr (raw_text ic t evt)) = Inr (projr (sc_parse sc (projr (raw_text ic t evt))))"
    and "same_reading evt (projr (sc_parse sc (projr (raw_text ic t evt))))"
    and "\<not> raised (sc_dump sc (projr (sc_parse sc (projr (raw_text ic t evt)))))"
  using assms unfolding reads_back_def by (auto split: sum.splits)

lemma readings_stored:
  assumes "list_all2 (carries_job ic) jobs ms" and "list_all accepted_job jobs" and "inj_on te_event_id (set (readings_of jobs))"
    and "\<And>evt. \<not> raised (ic_dump_machine ic evt)" and "list_all (reads_back ic sc (utc_at (clock w))) (readings_of jobs)"
    and "list_all (dated W) (readings_of jobs)" and "0 \<le> W" and "kafka_up icfg w" and "topics_differ icfg"
    and "stream_up scfg v" and "st_registry v = new_registry W" and "live_ids v \<inter> te_event_id ` set (readings_of jobs) = {}"
  shows "\<exists>w' ps v' rs. ingest_all icfg ic ms w = (ok, w') \<and> iw_acks w' = iw_acks w @ map im_id ms \<and>
    map snd (topics w' (ig_topic_telemetry_raw icfg)) = map snd (topics w (ig_topic_telemetry_raw icfg)) @ ps \<and>
    sp_consume_loop scfg sc (map Poll_msg ps) v = (\<lparr>lr_committed = ps, lr_held = [], lr_crashed = None\<rparr>, v') \<and>
    distinct rs \<and> set rs = set (readings_of jobs) \<and> st_influx v' = st_influx v @ map reading_point rs \<and>
    map fst (topics v' (sp_topic_processed scfg)) = map fst (topics v (sp_topic_processed scfg)) @ map te_device_id rs"
proof -
  let ?rds = "readings_of jobs" and ?text = "\<lambda>evt. projr (raw_text ic (utc_at (clock w)) evt)"
  let ?event = "\<lambda>evt. projr (sc_parse sc (?text evt))"
  have parsed: "\<not> raised (raw_text ic (utc_at (clock w)) evt) \<and> sc_parse sc (?text evt) = Inr (?event evt) \<and> same_reading evt (?event evt) \<and>
      \<not> raised (sc_dump sc (?event evt)) \<and> dated W (?event evt)" if "evt \<in> set ?rds" for evt
    using reads_back_parsed [of ic sc "utc_at (clock w)" evt] same_reading_dated [of evt "?event evt" W] that assms(5,6)
    unfolding list_all_iff by blast
  obtain w' where w': "ingest_all icfg ic ms w = (ok, w')" "iw_acks w' = iw_acks w @ map im_id ms"
    "topics w' (ig_topic_telemetry_raw icfg) = topics w (ig_topic_telemetry_raw icfg) @ map (\<lambda>evt. (te_device_id evt, ?text evt)) ?rds"
    using ingest_run_up [OF assms(1,2,4) _ assms(8,9)] parsed by (auto simp: list_all_iff)
  have "dated_registry W (st_registry v)"
    unfolding dated_registry_def assms(11) by (intro exI [of _ "[]"]) (simp add: record_all_def)
  moreover have "list_all2 (\<lambda>p evt. sc_parse sc p = Inr evt \<and> dated W evt \<and> \<not> raised (sc_dump sc evt)) (map ?text ?rds) (map ?event ?rds)"
    using parsed by (auto simp: list_all2_map1 list_all2_map2 list_all2_same)
  ultimately obtain v' where v': "sp_consume_loop scfg sc (map Poll_msg (map ?text ?rds)) v =
      (\<lparr>lr_committed = map ?text ?rds, lr_held = [], lr_crashed = None\<rparr>, v')"
    "forwarded scfg sc (first_seen (live_ids v) (map ?event ?rds)) v v'"
    using stream_run_up [OF _ assms(10) _ assms(7)] by blast
  let ?rs = "first_seen (live_ids v) ?rds"
  have same: "same_reading evt (?event evt)" if "evt \<in> set ?rs" for evt
    using that parsed first_seen_subset by blast
  have rs: "first_seen (live_ids v) (map ?event ?rds) = map ?event ?rs"
    using parsed by (intro first_seen_map) (simp add: same_reading_def)
  have "map point_of (map ?event ?rs) = map reading_point ?rs" "map fst (map (record_of sc) (map ?event ?rs)) = map te_device_id ?rs"
    using same same_reading_point by (auto simp: record_of_def same_reading_def)
  then have "st_influx v' = st_influx v @ map reading_point ?rs"
    "map fst (topics v' (sp_topic_processed scfg)) = map fst (topics v (sp_topic_processed scfg)) @ map te_device_id ?rs"
    using v'(2) unfolding forwarded_def rs by simp_all
  moreover have "distinct ?rs" "set ?rs = set ?rds"
    using distinct_first_seen [of "live_ids v" ?rds] first_seen_all [OF assms(3,12)] by (simp_all add: distinct_map)
  moreover have "map snd (topics w' (ig_topic_telemetry_raw icfg)) = map snd (topics w (ig_topic_telemetry_raw icfg)) @ map ?text ?rds"
    by (simp add: w'(3))
  ultimately show ?thesis
    using w'(1,2) v'(1) by blast
qed

section \<open>One reading all the way\<close>

definition demo_sent :: reading where
  "demo_sent = reading_of demo_entry demo_uuid (utc_at 1000000) 1 50"

definition demo_wire_message :: inbound where
  "demo_wire_message = \<lparr>im_topic = telemetry_topic demo_entry, im_payload = ''r'', im_id = 7\<rparr>"

definition demo_wire_ingest :: ingest_codec where
  "demo_wire_ingest =
     \<lparr>ic_telemetry = (\<lambda>p. Inr demo_sent), ic_machine = (\<lambda>p. Inl (ValueError [])), ic_dump_telemetry = (\<lambda>e. Inr ''r''),
      ic_dump_machine = (\<lambda>e. Inr []), ic_dead = (\<lambda>r. []), ic_decode = (\<lambda>p. p)\<rparr>"

definition demo_wire_stream :: stream_codec where
  "demo_wire_stream =
     \<lparr>sc_parse = (\<lambda>p. Inr
        \<lparr>te_event_id = demo_uuid, te_organization_id = demo_uuid, te_factory_id = demo_uuid, te_production_line_id = demo_uuid,
         te_machine_id = demo_uuid, te_device_id = demo_uuid, te_sensor_id = demo_uuid, te_timestamp = Some (utc_at 1000000),
         te_sequence_number = 1, te_metric = ''rpm'', te_reading = 50, te_unit = ''1/min'',
         nt_correlation_id = demo_uuid, nt_ingested_at = utc_at 0, nt_schema_version = 1\<rparr>),
      sc_dump = (\<lambda>e. Inr ''n''), sc_dead = (\<lambda>r. []), sc_decode = (\<lambda>p. p)\<rparr>"

definition demo_stream_start :: stream_world where
  "demo_stream_start = demo_world (\<lambda>k. Delivered) (\<lambda>k. Reply_ok)"

lemma demo_stream_up: "stream_up demo_config demo_stream_start" "live_ids demo_stream_start = {}"
  "st_registry demo_stream_start = new_registry 900000000" "st_influx demo_stream_start = []" "topics demo_stream_start t = []"
  by (simp_all add: stream_up_def demo_stream_start_def demo_world_def demo_config_def load_stream_config_def env_int_def env_float_def
      new_breaker_def py_trunc_def live_ids_def redis_live_def)

lemma reading_in_job [simp]: "reading_in (pj_payload (reading_job e evt)) = [evt]"
  by (simp add: reading_job_def)

lemma demo_wire_carries: "carries_job demo_wire_ingest (reading_job demo_entry demo_sent) demo_wire_message"
  by (simp add: carries_job_def reading_job_def demo_wire_ingest_def demo_wire_message_def)

lemma demo_wire_prints: "ic_dump_machine demo_wire_ingest evt = Inr []"
  by (simp add: demo_wire_ingest_def)

lemma demo_entry_ok: "entry_ok demo_entry"
  by (simp add: entry_ok_def demo_entry_def demo_uuid_ok VALID_METRICS_def)

lemma demo_wire_reads_back: "reads_back demo_wire_ingest demo_wire_stream t demo_sent"
  by (simp add: reads_back_def raw_text_def demo_wire_ingest_def demo_wire_stream_def same_reading_def demo_sent_def reading_of_def
      demo_entry_def)

lemma demo_wire_dated: "dated 900000000 demo_sent"
  by (simp add: dated_def demo_sent_def reading_of_def time_of_def utc_at_def in_range_def dt_max_def)

lemma demo_wire_sent:
  "\<exists>s. sim_reaches (load_simulator_config (\<lambda>_. None)) [demo_entry] demo_simulation s \<and> si_offered s = [reading_job demo_entry demo_sent] \<and>
     si_uuid_tick s = 1"
proof -
  obtain s where s: "sim_reaches (load_simulator_config (\<lambda>_. None)) [demo_entry] demo_simulation s"
    "si_made s = [demo_sent]" "si_offered s = [reading_job demo_entry demo_sent]"
    using demo_first_reading unfolding demo_sent_def by metis
  have "sends_made (\<lambda>_. demo_uuid) demo_simulation"
    by (simp add: sends_made_def demo_simulation_def new_simulation_def delays_def)
  then have "sends_made (\<lambda>_. demo_uuid) s"
    by (rule sim_invariant [OF s(1)]) (rule sends_made_step)
  then have "length (map te_event_id (si_made s)) = si_uuid_tick s"
    by (metis diff_zero length_map length_upt sends_made_def)
  then show ?thesis
    using s by auto
qed

end
