(* ===== verification/Ingestion_Session.thy ===== *)
theory Ingestion_Session
  imports Ingestion
begin

text \<open>
  The ingestion process around its workers: \<open>mqtt_client.py\<close> and the threads of \<open>main.py\<close>. The MQTT broker, which is
  outside the repository, keeps the unacknowledged messages of the persistent session and hands each out once on every
  connection; the callback puts it in the bounded queue or leaves it; workers take messages from the queue and process
  them. A step of a worker processes one message to its end. The process may be killed at any point and started again.
\<close>

section \<open>The process and the session\<close>

record ingest_system =
  sy_world :: ingest_world
  sy_session :: "inbound list"
  sy_sent :: "nat list"
  sy_queue :: "inbound list"
  sy_hands :: "nat \<Rightarrow> inbound option"
  sy_alive :: "nat \<Rightarrow> bool"
  sy_shutdown :: bool
  sy_published :: "inbound list"

text \<open>\<open>put_nowait\<close> on a \<open>queue.Queue\<close>: a bound below one means no bound.\<close>

definition queue_full :: "ingestion_config \<Rightarrow> inbound list \<Rightarrow> bool" where
  "queue_full cfg q \<longleftrightarrow> 0 < ig_queue_capacity cfg \<and> ig_queue_capacity cfg \<le> int (length q)"

definition on_message :: "ingestion_config \<Rightarrow> inbound \<Rightarrow> ingest_system \<Rightarrow> ingest_system" where
  "on_message cfg job s =
     (if sy_shutdown s then s
      else if queue_full cfg (sy_queue s) then s
      else s\<lparr>sy_queue := sy_queue s @ [job]\<rparr>)"

definition start_process :: "ingestion_config \<Rightarrow> ingest_system \<Rightarrow> ingest_system" where
  "start_process cfg s =
     s\<lparr>sy_world := (sy_world s)\<lparr>iw_breaker := new_breaker (ig_breaker_failure_threshold cfg) (ig_breaker_cooldown_seconds cfg)\<rparr>,
       sy_sent := [], sy_queue := [], sy_hands := (\<lambda>_. None), sy_alive := (\<lambda>i. int i < ig_worker_pool_size cfg), sy_shutdown := False\<rparr>"

text \<open>The broker drops a message from the session when its acknowledgement arrives.\<close>

definition drop_acked :: "ingest_world \<Rightarrow> inbound list \<Rightarrow> inbound list" where
  "drop_acked w session = filter (\<lambda>m. im_id m \<notin> set (iw_acks w)) session"

definition worker_process :: "ingestion_config \<Rightarrow> ingest_codec \<Rightarrow> nat \<Rightarrow> inbound \<Rightarrow> ingest_system \<Rightarrow> ingest_system" where
  "worker_process cfg cd i job s =
     (case in_process_message cfg cd job (sy_world s) of
        (r, w) \<Rightarrow>
          s\<lparr>sy_world := w, sy_session := drop_acked w (sy_session s), sy_hands := (sy_hands s)(i := None),
            sy_alive := (sy_alive s)(i := \<not> raised r)\<rparr>)"

inductive ingest_step :: "ingestion_config \<Rightarrow> ingest_codec \<Rightarrow> ingest_system \<Rightarrow> ingest_system \<Rightarrow> bool" for cfg cd where
  device_publishes:
    "im_id m \<notin> im_id ` set (sy_published s) \<Longrightarrow>
     ingest_step cfg cd s (s\<lparr>sy_session := sy_session s @ [m], sy_published := sy_published s @ [m]\<rparr>)"
| broker_delivers:
    "m \<in> set (sy_session s) \<Longrightarrow> im_id m \<notin> set (sy_sent s) \<Longrightarrow>
     ingest_step cfg cd s (on_message cfg m (s\<lparr>sy_sent := im_id m # sy_sent s\<rparr>))"
| worker_takes:
    "sy_alive s i \<Longrightarrow> sy_hands s i = None \<Longrightarrow> sy_queue s = m # q \<Longrightarrow>
     ingest_step cfg cd s (s\<lparr>sy_hands := (sy_hands s)(i := Some m), sy_queue := q\<rparr>)"
| worker_finishes: "sy_hands s i = Some m \<Longrightarrow> ingest_step cfg cd s (worker_process cfg cd i m s)"
| reconnects: "ingest_step cfg cd s (s\<lparr>sy_sent := []\<rparr>)"
| stops: "ingest_step cfg cd s (s\<lparr>sy_shutdown := True\<rparr>)"
| restarts: "ingest_step cfg cd s (start_process cfg s)"
| time_passes: "0 \<le> d \<Longrightarrow> ingest_step cfg cd s (s\<lparr>sy_world := sleep d (sy_world s)\<rparr>)"

definition new_system :: "ingestion_config \<Rightarrow> ingest_world \<Rightarrow> ingest_system" where
  "new_system cfg w = start_process cfg
     \<lparr>sy_world = w, sy_session = [], sy_sent = [], sy_queue = [], sy_hands = (\<lambda>_. None), sy_alive = (\<lambda>_. False),
      sy_shutdown = False, sy_published = []\<rparr>"

definition ingest_reaches :: "ingestion_config \<Rightarrow> ingest_codec \<Rightarrow> ingest_world \<Rightarrow> ingest_system \<Rightarrow> bool" where
  "ingest_reaches cfg cd w s \<longleftrightarrow> (ingest_step cfg cd)\<^sup>*\<^sup>* (new_system cfg w) s"

section \<open>No message is lost\<close>

text \<open>Every message published is in the session or recorded; whatever is in transfer was published.\<close>

definition in_transfer :: "ingest_system \<Rightarrow> inbound set" where
  "in_transfer s = set (sy_queue s) \<union> {m. \<exists>i. sy_hands s i = Some m}"

definition none_lost :: "ingestion_config \<Rightarrow> ingest_codec \<Rightarrow> ingest_system \<Rightarrow> bool" where
  "none_lost cfg cd s \<longleftrightarrow>
     net_ok (sy_world s) \<and> inj_on im_id (set (sy_published s)) \<and>
     set (sy_session s) \<union> in_transfer s \<subseteq> set (sy_published s) \<and>
     (\<forall>m\<in>set (sy_published s). m \<in> set (sy_session s) \<or> recorded cfg cd m (sy_world s)) \<and>
     (\<forall>m\<in>set (sy_published s). im_id m \<in> set (iw_acks (sy_world s)) \<longrightarrow> recorded cfg cd m (sy_world s)) \<and>
     set (iw_acks (sy_world s)) \<subseteq> im_id ` set (sy_published s)"

lemma recorded_same: "topics w' = topics w \<Longrightarrow> recorded cfg cd m w' = recorded cfg cd m w"
  by (simp add: recorded_def in_dlq_def)

lemma ack_fields [simp]:
  "topics (ack m w) = topics w" "net (ack m w) = net w" "iw_acks (ack m w) = iw_acks w @ [im_id m]"
  by (simp_all add: ack_def)

lemma recorded_ack [simp]: "recorded cfg cd x (ack m w) = recorded cfg cd x w"
  by (rule recorded_same) simp

lemma none_lost_process:
  assumes "none_lost cfg cd s" and "sy_hands s i = Some m"
  shows "none_lost cfg cd (worker_process cfg cd i m s)"
proof -
  let ?w = "sy_world s"
  obtain r w' where p: "in_process_message cfg cd m ?w = (r, w')" by fastforce
  have m: "m \<in> set (sy_published s)"
    using assms by (auto simp: none_lost_def in_transfer_def)
  have net: "net_ok ?w"
    using assms(1) by (simp add: none_lost_def)
  have "settles_if_acked cfg cd m ?w (r, w')"
    using settles_message [of cfg cd m ?w] p by simp
  then consider "in_extends ?w w'" | w1 where "in_extends ?w w1" "w' = ack m w1" "recorded cfg cd m w1"
    using net by (auto simp: settles_if_acked_def)
  then have "topics_grow ?w w' \<and> net w' = net ?w \<and>
      (iw_acks w' = iw_acks ?w \<or> (iw_acks w' = iw_acks ?w @ [im_id m] \<and> recorded cfg cd m w'))"
    by cases (simp_all add: in_extends_def topics_grow_def)
  then have grow: "topics_grow ?w w'" and net': "net_ok w'"
    and acks: "iw_acks w' = iw_acks ?w \<or> (iw_acks w' = iw_acks ?w @ [im_id m] \<and> recorded cfg cd m w')"
    using net by (simp_all add: net_ok_def)
  have rec: "recorded cfg cd x w'" if "x \<in> set (sy_published s)" "im_id x \<in> set (iw_acks w')" for x
  proof (cases "im_id x \<in> set (iw_acks ?w)")
    case True
    then show ?thesis
      using that(1) assms(1) grow recorded_grow by (auto simp: none_lost_def)
  next
    case False
    then have "im_id x = im_id m" and "recorded cfg cd m w'"
      using that(2) acks by auto
    then show ?thesis
      using that(1) m assms(1) inj_onD by (fastforce simp: none_lost_def)
  qed
  have kept: "x \<in> set (drop_acked w' (sy_session s)) \<or> recorded cfg cd x w'" if "x \<in> set (sy_published s)" for x
    using that rec [OF that] assms(1) recorded_grow [OF _ grow] by (auto simp: none_lost_def drop_acked_def)
  have s': "worker_process cfg cd i m s =
      s\<lparr>sy_world := w', sy_session := drop_acked w' (sy_session s), sy_hands := (sy_hands s)(i := None),
        sy_alive := (sy_alive s)(i := \<not> raised r)\<rparr>"
    using p by (simp add: worker_process_def)
  have "set (iw_acks w') \<subseteq> im_id ` set (sy_published s)"
    using acks m assms(1) by (auto simp: none_lost_def)
  then show ?thesis
    using assms(1) net' rec kept unfolding s'
    by (auto simp: none_lost_def in_transfer_def drop_acked_def split: if_splits)
qed

lemma none_lost_step:
  assumes "ingest_step cfg cd s s'" and "none_lost cfg cd s"
  shows "none_lost cfg cd s'"
  using assms(1)
proof cases
  case (worker_finishes i m)
  then show ?thesis
    using none_lost_process [OF assms(2)] by simp
next
  case (device_publishes m)
  then show ?thesis
    using assms(2) by (auto simp: none_lost_def in_transfer_def)
next
  case (broker_delivers m)
  then show ?thesis
    using assms(2) by (auto simp: none_lost_def in_transfer_def on_message_def)
next
  case (worker_takes i m q)
  then show ?thesis
    using assms(2) by (auto simp: none_lost_def in_transfer_def split: if_splits)
next
  case restarts
  then show ?thesis
    using assms(2) by (auto simp: none_lost_def in_transfer_def start_process_def recorded_def in_dlq_def net_ok_def)
next
  case (time_passes d)
  then show ?thesis
    using assms(2) by (auto simp: none_lost_def in_transfer_def recorded_def in_dlq_def net_ok_def sleep_def)
qed (use assms(2) in \<open>auto simp: none_lost_def in_transfer_def\<close>)

lemma none_lost_new: "net_ok w \<Longrightarrow> iw_acks w = [] \<Longrightarrow> none_lost cfg cd (new_system cfg w)"
  by (auto simp: none_lost_def new_system_def start_process_def in_transfer_def net_ok_def)

text \<open>
  C3. No message is lost: in every state that deliveries, any number of workers, failing Kafka writes, full queues,
  reconnections and restarts at any point can lead to, each message a device has published is still in the session of the
  MQTT broker, which will hand it out again, or is recorded: as a valid event in the topic of its kind or in the
  dead-letter topic (a message on an unknown topic is dropped on purpose). Acknowledged messages are recorded.
\<close>
theorem no_message_is_lost:
  assumes "ingest_reaches cfg cd w s" and "net_ok w" and "iw_acks w = []" and "m \<in> set (sy_published s)"
  shows "(m \<in> set (sy_session s) \<or> recorded cfg cd m (sy_world s)) \<and>
    (im_id m \<in> set (iw_acks (sy_world s)) \<longrightarrow> recorded cfg cd m (sy_world s))"
proof -
  have "none_lost cfg cd s"
    using assms(1) none_lost_new [OF assms(2,3)] unfolding ingest_reaches_def
    by (induction rule: rtranclp_induct) (auto intro: none_lost_step)
  then show ?thesis
    using assms(4) by (simp add: none_lost_def)
qed

section \<open>Only valid readings reach the stream\<close>

lemma raw_valid_step:
  assumes "ingest_step cfg cd s s'" and "topics_differ cfg" and "raw_valid cfg cd (sy_world s)"
  shows "raw_valid cfg cd (sy_world s')"
  using assms(1)
proof cases
  case (worker_finishes i m)
  then show ?thesis
    using raw_valid_message [OF assms(3,2), of m] by (auto simp: worker_process_def split: prod.split)
qed (use assms(3) in \<open>auto simp: on_message_def start_process_def\<close>)

text \<open>
  C34. Whatever devices send and however the workers interleave, every record ingestion puts on the topic of raw readings is
  the printed form of a reading all of whose identifiers are accepted as UUIDs, with a time, a sequence number other than
  zero, a known metric, a finite value and a unit, and its key is the device's identifier.
\<close>
theorem raw_topic_holds_valid_readings:
  assumes "ingest_reaches cfg cd w s" and "topics_differ cfg" and "topics w (ig_topic_telemetry_raw cfg) = []"
  shows "\<forall>(key, payload)\<in>set (topics (sy_world s) (ig_topic_telemetry_raw cfg)). \<exists>evt t x.
    ic_dump_telemetry cd (normalize_telemetry evt t) = Inr payload \<and> key = te_device_id evt \<and>
    list_all is_uuid (telemetry_ids evt) \<and> te_timestamp evt \<noteq> None \<and> te_sequence_number evt \<noteq> 0 \<and>
    te_metric evt \<in> set VALID_METRICS \<and> te_reading evt = Finite x \<and> te_unit evt \<noteq> []"
proof -
  have new: "raw_valid cfg cd (sy_world (new_system cfg w))"
    using assms(3) by (simp add: raw_valid_def new_system_def start_process_def)
  have "raw_valid cfg cd (sy_world s)"
    using assms(1) [unfolded ingest_reaches_def] new
    by (induction rule: rtranclp_induct) (use raw_valid_step [OF _ assms(2)] in blast)+
  then show ?thesis
    unfolding raw_valid_def valid_record_def validate_telemetry_ok by fastforce
qed

section \<open>Recovery\<close>

text \<open>Kafka works from here on and the process can be configured to work at all.\<close>

definition can_work :: "ingestion_config \<Rightarrow> ingest_codec \<Rightarrow> inbound \<Rightarrow> ingest_world \<Rightarrow> bool" where
  "can_work cfg cd m w \<longleftrightarrow>
     (\<forall>i. net w i = Delivered) \<and> 1 \<le> ig_kafka_max_retries cfg \<and> 1 \<le> ig_worker_pool_size cfg \<and>
     (\<forall>u t. \<exists>d. destination cfg cd m u t = Inr d)"

lemma worker_process_up:
  assumes "kafka_up cfg (sy_world s)"
    and "destination cfg cd m (iw_uuids (sy_world s) (iw_uuid_tick (sy_world s))) (utc_at (clock (sy_world s))) = Inr d"
  shows "\<exists>w'. worker_process cfg cd i m s =
      s\<lparr>sy_world := w', sy_session := drop_acked w' (sy_session s), sy_hands := (sy_hands s)(i := None), sy_alive := (sy_alive s)(i := True)\<rparr> \<and>
    routed cfg d m (sy_world s) w'"
  using message_routed [OF assms] by (auto simp: worker_process_def)

text \<open>One message, delivered to a fresh process and processed by its first worker.\<close>

lemma fresh_process_settles:
  assumes "m \<in> set (sy_session s)" and "can_work cfg cd m (sy_world s)"
  shows "\<exists>s'. (ingest_step cfg cd)\<^sup>*\<^sup>* s s' \<and> im_id m \<in> set (iw_acks (sy_world s')) \<and> m \<notin> set (sy_session s') \<and>
    sy_published s' = sy_published s"
proof -
  define s1 where "s1 = start_process cfg s"
  define s2 where "s2 = s1\<lparr>sy_sent := [im_id m], sy_queue := [m]\<rparr>"
  define s3 where "s3 = s2\<lparr>sy_hands := (sy_hands s2)(0 := Some m), sy_queue := []\<rparr>"
  have s1: "sy_session s1 = sy_session s" "sy_sent s1 = []" "sy_queue s1 = []" "sy_hands s1 = (\<lambda>_. None)" "sy_alive s1 0"
      "\<not> sy_shutdown s1" "kafka_up cfg (sy_world s1)" "sy_published s1 = sy_published s"
    using assms(2) by (auto simp: s1_def start_process_def can_work_def kafka_up_def new_breaker_def)
  have "ingest_step cfg cd s s1"
    unfolding s1_def by (rule restarts)
  moreover have "ingest_step cfg cd s1 s2"
    using broker_delivers [of m s1 cfg cd] assms(1) s1 by (auto simp: on_message_def queue_full_def s2_def split: if_splits)
  moreover have "ingest_step cfg cd s2 s3"
    using worker_takes [of s2 0 m "[]" cfg cd] s1 by (simp add: s2_def s3_def)
  moreover have "ingest_step cfg cd s3 (worker_process cfg cd 0 m s3)"
    by (rule worker_finishes) (simp add: s3_def)
  moreover obtain d where "destination cfg cd m (iw_uuids (sy_world s3) (iw_uuid_tick (sy_world s3))) (utc_at (clock (sy_world s3))) = Inr d"
    using assms(2) unfolding can_work_def by blast
  then obtain w' where "worker_process cfg cd 0 m s3 =
      s3\<lparr>sy_world := w', sy_session := drop_acked w' (sy_session s3), sy_hands := (sy_hands s3)(0 := None), sy_alive := (sy_alive s3)(0 := True)\<rparr>"
    "routed cfg d m (sy_world s3) w'"
    using worker_process_up [of cfg s3 cd m d 0] s1(7) by (fastforce simp: s2_def s3_def)
  ultimately show ?thesis
    using s1(8) by (intro exI [of _ "worker_process cfg cd 0 m s3"])
      (auto simp: drop_acked_def s2_def s3_def routed_def intro: converse_rtranclp_into_rtranclp)
qed

lemma none_lost_reached:
  assumes "(ingest_step cfg cd)\<^sup>*\<^sup>* s s'" and "none_lost cfg cd s"
  shows "none_lost cfg cd s'"
  using assms by (induction rule: rtranclp_induct) (auto intro: none_lost_step)


section \<open>Workers overtake one another\<close>

text \<open>
  With two workers or more, two readings of one device that arrive in order can be forwarded in the opposite order: the
  second worker finishes the second message while the first still holds the first. The records have the same key, so their
  consumers see the device's readings swapped.
\<close>
theorem workers_swap_readings:
  assumes "net w = (\<lambda>_. Delivered)" and "1 \<le> ig_kafka_max_retries cfg" and "2 \<le> ig_worker_pool_size cfg" and "2 \<le> ig_queue_capacity cfg"
    and "im_id m1 \<noteq> im_id m2"
    and "\<And>u. destination cfg cd m1 u (utc_at (clock w)) = Inr (Some (t, dev, p1))"
    and "\<And>u. destination cfg cd m2 u (utc_at (clock w)) = Inr (Some (t, dev, p2))"
  shows "\<exists>s s'. ingest_reaches cfg cd w s \<and> sy_queue s = [m1, m2] \<and> (ingest_step cfg cd)\<^sup>*\<^sup>* s s' \<and>
    topics (sy_world s') t = topics w t @ [(dev, p2), (dev, p1)] \<and> iw_acks (sy_world s') = iw_acks w @ [im_id m2, im_id m1]"
proof -
  let ?step = "ingest_step cfg cd" and ?w0 = "sy_world (new_system cfg w)"
  define s where "s = (new_system cfg w)\<lparr>sy_session := [m1, m2], sy_published := [m1, m2], sy_sent := [im_id m2, im_id m1], sy_queue := [m1, m2]\<rparr>"
  define s2 where "s2 = s\<lparr>sy_hands := [0 \<mapsto> m1, 1 \<mapsto> m2], sy_queue := []\<rparr>"
  note new = new_system_def start_process_def
  have "?step\<^sup>*\<^sup>* (new_system cfg w) s"
  proof -
    define a1 where "a1 = (new_system cfg w)\<lparr>sy_session := [m1], sy_published := [m1]\<rparr>"
    define a2 where "a2 = a1\<lparr>sy_session := [m1, m2], sy_published := [m1, m2]\<rparr>"
    define a3 where "a3 = a2\<lparr>sy_sent := [im_id m1], sy_queue := [m1]\<rparr>"
    have "?step (new_system cfg w) a1"
      using device_publishes [of m1 "new_system cfg w" cfg cd] by (simp add: a1_def new)
    moreover have "?step a1 a2"
      using device_publishes [of m2 a1 cfg cd] assms(5) by (simp add: a1_def a2_def new)
    moreover have "?step a2 a3"
      using broker_delivers [of m1 a2 cfg cd] assms(4) by (simp add: a1_def a2_def a3_def new on_message_def queue_full_def)
    moreover have "?step a3 s"
      using broker_delivers [of m2 a3 cfg cd] assms(4,5) by (simp add: a1_def a2_def a3_def s_def new on_message_def queue_full_def)
    ultimately show ?thesis
      by (meson converse_rtranclp_into_rtranclp rtranclp.rtrancl_refl)
  qed
  moreover have "?step\<^sup>*\<^sup>* s s2"
  proof -
    define b1 where "b1 = s\<lparr>sy_hands := [0 \<mapsto> m1], sy_queue := [m2]\<rparr>"
    have "?step s b1"
      using worker_takes [of s 0 m1 "[m2]" cfg cd] assms(3) by (simp add: s_def b1_def new)
    moreover have "?step b1 s2"
      using worker_takes [of b1 1 m2 "[]" cfg cd] assms(3) by (simp add: s_def b1_def s2_def new)
    ultimately show ?thesis
      by (meson converse_rtranclp_into_rtranclp rtranclp.rtrancl_refl)
  qed
  moreover have w2: "sy_world s2 = ?w0" "kafka_up cfg ?w0" "clock ?w0 = clock w" "topics ?w0 = topics w" "iw_acks ?w0 = iw_acks w"
    using assms(1,2) by (simp_all add: s2_def s_def new kafka_up_def new_breaker_def)
  obtain w3 where p2: "worker_process cfg cd 1 m2 s2 = s2\<lparr>sy_world := w3, sy_session := drop_acked w3 (sy_session s2),
      sy_hands := (sy_hands s2)(1 := None), sy_alive := (sy_alive s2)(1 := True)\<rparr>" and r3: "routed cfg (Some (t, dev, p2)) m2 ?w0 w3"
    using worker_process_up [of cfg s2 cd m2 _ 1] w2 assms(7) by auto
  define s3 where "s3 = worker_process cfg cd 1 m2 s2"
  have "?step s2 s3"
    unfolding s3_def by (rule worker_finishes) (simp add: s2_def)
  moreover have w3: "sy_world s3 = w3" "sy_hands s3 0 = Some m1"
    unfolding s3_def p2 by (simp_all add: s2_def)
  obtain w4 where p4: "sy_world (worker_process cfg cd 0 m1 s3) = w4" and r4: "routed cfg (Some (t, dev, p1)) m1 w3 w4"
    using worker_process_up [of cfg s3 cd m1 _ 0] w3 r3 w2(3) assms(6) by (auto simp: routed_def)
  have "?step s3 (worker_process cfg cd 0 m1 s3)"
    by (rule worker_finishes) (rule w3(2))
  ultimately have "?step\<^sup>*\<^sup>* s (worker_process cfg cd 0 m1 s3)"
    by (meson rtranclp.rtrancl_into_rtrancl)
  then show ?thesis
    using \<open>?step\<^sup>*\<^sup>* (new_system cfg w) s\<close> r3 r4 w2 p4 unfolding ingest_reaches_def
    by (intro exI [of _ s] exI [of _ "worker_process cfg cd 0 m1 s3"]) (simp add: routed_def delivered_def s_def)
qed

section \<open>Concrete runs\<close>

lemma demo_can_work: "net w = (\<lambda>_. Delivered) \<Longrightarrow> can_work demo_ingest_config demo_ingest_codec (demo_message (Suc n)) w"
  using demo_config(1,2) demo_destination [of "Suc n"] by (auto simp: can_work_def)

lemma demo_published:
  "ingest_reaches demo_ingest_config demo_ingest_codec demo_ingest_world
     ((new_system demo_ingest_config demo_ingest_world)\<lparr>sy_session := [demo_message 3], sy_published := [demo_message 3]\<rparr>)"
  (is "ingest_reaches _ _ _ ?s")
proof -
  have "ingest_step demo_ingest_config demo_ingest_codec (new_system demo_ingest_config demo_ingest_world) ?s"
    using device_publishes [of "demo_message 3" "new_system demo_ingest_config demo_ingest_world"]
    by (simp add: new_system_def start_process_def)
  then show ?thesis
    by (simp add: ingest_reaches_def)
qed

lemma demo_settled:
  "\<exists>s. ingest_reaches demo_ingest_config demo_ingest_codec demo_ingest_world s \<and> sy_published s = [demo_message 3] \<and>
    demo_message 3 \<notin> set (sy_session s)"
proof -
  let ?s = "(new_system demo_ingest_config demo_ingest_world)\<lparr>sy_session := [demo_message 3], sy_published := [demo_message 3]\<rparr>"
  have "can_work demo_ingest_config demo_ingest_codec (demo_message 3) (sy_world ?s)"
    using demo_can_work [of "sy_world ?s" 2] by (simp add: new_system_def start_process_def demo_ingest_world_def numeral_3_eq_3)
  then obtain s' where "(ingest_step demo_ingest_config demo_ingest_codec)\<^sup>*\<^sup>* ?s s'" "demo_message 3 \<notin> set (sy_session s')"
      "sy_published s' = [demo_message 3]"
    using fresh_process_settles [of "demo_message 3" ?s] by auto
  then show ?thesis
    using demo_published unfolding ingest_reaches_def by (blast intro: rtranclp_trans)
qed

lemma demo_world_ok: "net_ok demo_ingest_world" "iw_acks demo_ingest_world = []" "topics demo_ingest_world t = []"
  by (simp_all add: net_ok_def demo_ingest_world_def)

theorem no_message_is_lost_witness:
  "\<exists>s. ingest_reaches demo_ingest_config demo_ingest_codec demo_ingest_world s \<and> demo_message 3 \<notin> set (sy_session s) \<and>
    recorded demo_ingest_config demo_ingest_codec (demo_message 3) (sy_world s)"
  using demo_settled no_message_is_lost [OF _ demo_world_ok(1,2), of demo_ingest_config demo_ingest_codec _ "demo_message 3"] by fastforce


theorem raw_topic_holds_valid_readings_witness:
  "\<exists>s. ingest_reaches demo_ingest_config demo_ingest_codec demo_ingest_world s \<and> sy_published s = [demo_message 3] \<and>
    demo_message 3 \<notin> set (sy_session s) \<and> list_all (\<lambda>r. is_uuid (fst r)) (topics (sy_world s) ''telemetry.raw'')"
proof -
  obtain s where s: "ingest_reaches demo_ingest_config demo_ingest_codec demo_ingest_world s" "sy_published s = [demo_message 3]"
      "demo_message 3 \<notin> set (sy_session s)"
    using demo_settled by blast
  show ?thesis
    using raw_topic_holds_valid_readings [OF s(1) demo_config(4)] s demo_world_ok(3)
    by (intro exI [of _ s]) (auto simp: demo_config(5) list_all_iff telemetry_ids_def)
qed

theorem workers_swap_readings_witness:
  "\<exists>s s'. ingest_reaches demo_ingest_config demo_ingest_codec demo_ingest_world s \<and> sy_queue s = [demo_message 1, demo_message 2] \<and>
    (ingest_step demo_ingest_config demo_ingest_codec)\<^sup>*\<^sup>* s s' \<and>
    topics (sy_world s') ''telemetry.raw'' = [(demo_uuid, ''2''), (demo_uuid, ''1'')]"
proof -
  have "str_nat 1 = ''1''" "str_nat 2 = ''2''" by code_simp+
  then show ?thesis
    using workers_swap_readings [of demo_ingest_world demo_ingest_config "demo_message 1" "demo_message 2" demo_ingest_codec
        "''telemetry.raw''" demo_uuid "''1''" "''2''"] demo_config demo_destination [of 1] demo_destination [of 2]
    by (fastforce simp: demo_ingest_world_def demo_message_def)
qed

end
