(* ===== verification/Detection.thy ===== *)
theory Detection
  imports Interfaces Events Config
begin

text \<open>
  The detectors of \<open>services/anomaly-detector\<close>: \<open>rules.py\<close> (operating range), \<open>stats.py\<close> (EWMA
  z-score per series), \<open>detect.py\<close> (running and combining the detectors) and \<open>featurestore.py\<close> (the
  latest values of a device and the training buffers). The empty severity string of a detector that
  did not fire is \<open>None\<close>.
\<close>

section \<open>Operating range\<close>

record metric_range =
  mr_min :: real
  mr_max :: real

definition empty_range :: metric_range where
  "empty_range = \<lparr>mr_min = 0, mr_max = 0\<rparr>"

definition clamp01 :: "real \<Rightarrow> real" where
  "clamp01 v = (if v < 0 then 0 else if v > 1 then 1 else v)"

type_synonym verdict = "bool \<times> severity option \<times> real"

definition not_fired :: verdict where
  "not_fired = (False, None, 0)"

definition rule_check :: "real \<Rightarrow> metric_range \<Rightarrow> verdict" where
  "rule_check v r =
     (let span = mr_max r - mr_min r;
          flag = (\<lambda>overshoot.
            (True,
             Some (if overshoot \<ge> 5 / 10 then CRITICAL else if overshoot \<ge> 2 / 10 then HIGH else WARNING),
             clamp01 overshoot))
      in if span \<le> 0 then not_fired
         else if v > mr_max r then flag ((v - mr_max r) / span)
         else if v < mr_min r then flag ((mr_min r - v) / span)
         else not_fired)"

section \<open>EWMA baseline\<close>

record ewma_tracker =
  ew_alpha :: real
  ew_mean :: real
  ew_variance :: real
  ew_sample_count :: int
  ew_initialized :: bool

definition new_tracker :: "real \<Rightarrow> ewma_tracker" where
  "new_tracker alpha =
     \<lparr>ew_alpha = alpha, ew_mean = 0, ew_variance = 0, ew_sample_count = 0, ew_initialized = False\<rparr>"

definition ewma_update :: "real \<Rightarrow> ewma_tracker \<Rightarrow> (exn + real \<times> int) \<times> ewma_tracker" where
  "ewma_update v tr =
     (if \<not> ew_initialized tr then
        (Inr (0, 1), tr\<lparr>ew_mean := v, ew_variance := 0, ew_initialized := True, ew_sample_count := 1\<rparr>)
      else if ew_variance tr < 0 then (Inl (ValueError ''math domain error''), tr)
      else
        let stddev = sqrt (ew_variance tr);
            z_score = (if stddev > 0 then (v - ew_mean tr) / stddev else 0);
            delta = v - ew_mean tr;
            count = ew_sample_count tr + 1
        in (Inr (z_score, count),
            tr\<lparr>ew_mean := ew_mean tr + ew_alpha tr * delta,
               ew_variance := (1 - ew_alpha tr) * (ew_variance tr + ew_alpha tr * delta * delta),
               ew_sample_count := count\<rparr>))"

record statistical_trackers =
  st_trackers :: "string \<Rightarrow> ewma_tracker option"
  st_alpha :: real

definition new_trackers :: "real \<Rightarrow> statistical_trackers" where
  "new_trackers alpha = \<lparr>st_trackers = Map.empty, st_alpha = alpha\<rparr>"

definition tracker_for :: "statistical_trackers \<Rightarrow> string \<Rightarrow> ewma_tracker" where
  "tracker_for sts key = (case st_trackers sts key of None \<Rightarrow> new_tracker (st_alpha sts) | Some tr \<Rightarrow> tr)"

definition trackers_update ::
  "string \<Rightarrow> string \<Rightarrow> real \<Rightarrow> statistical_trackers \<Rightarrow> (exn + real \<times> int) \<times> statistical_trackers" where
  "trackers_update device_id metric v sts =
     (let key = bar_key device_id metric; (r, tr) = ewma_update v (tracker_for sts key)
      in (r, sts\<lparr>st_trackers := (st_trackers sts)(key \<mapsto> tr)\<rparr>))"

definition stat_check :: "real \<Rightarrow> int \<Rightarrow> int \<Rightarrow> real \<Rightarrow> exn + verdict" where
  "stat_check z_score sample_count min_samples threshold =
     (if sample_count < min_samples then Inr not_fired
      else
        let abs_z = \<bar>z_score\<bar>
        in if abs_z < threshold then Inr not_fired
           else if threshold * 2 = 0 then Inl ZeroDivisionError
           else Inr
             (True,
              Some (if abs_z \<ge> threshold * (16 / 10) then CRITICAL
                    else if abs_z \<ge> threshold * (13 / 10) then HIGH else WARNING),
              clamp01 (abs_z / (threshold * 2))))"

section \<open>Running and combining the detectors\<close>

record detection =
  dt_method :: string
  dt_severity :: severity
  dt_score :: real
  dt_reason :: string

definition isolation_check :: "real \<Rightarrow> real \<Rightarrow> verdict" where
  "isolation_check score threshold =
     (if score < threshold then not_fired
      else (True,
            Some (if score \<ge> 75 / 100 then CRITICAL else if score \<ge> threshold + 6 / 100 then HIGH else WARNING),
            score))"

text \<open>\<open>if fired: results.append(Detection(...))\<close>\<close>

definition detections_of :: "string \<Rightarrow> string \<Rightarrow> verdict \<Rightarrow> detection list" where
  "detections_of name reason v =
     (case v of
        (True, Some sev, score) \<Rightarrow> [\<lparr>dt_method = name, dt_severity = sev, dt_score = score, dt_reason = reason\<rparr>]
      | _ \<Rightarrow> [])"

text \<open>The f-strings of the reasons.\<close>

definition rule_reason :: "real \<Rightarrow> metric_range \<Rightarrow> string" where
  "rule_reason v rng =
     ''value '' @ format_fixed 2 v @ '' outside safe operating range ['' @ format_fixed 2 (mr_min rng) @
     '', '' @ format_fixed 2 (mr_max rng) @ '']''"

definition stat_reason :: "real \<Rightarrow> anomaly_config \<Rightarrow> string" where
  "stat_reason z_score cfg =
     ''z-score '' @ format_fixed 2 z_score @ '' exceeds threshold '' @
     format_fixed 2 (an_zscore_threshold cfg) @ '' against rolling baseline''"

definition forest_reason :: "real \<Rightarrow> anomaly_config \<Rightarrow> string" where
  "forest_reason forest_score cfg =
     ''isolation forest anomaly score '' @ format_fixed 3 forest_score @ '' exceeds threshold '' @
     format_fixed 3 (an_forest_score_threshold cfg)"

definition run_detectors ::
  "real \<Rightarrow> metric_range \<Rightarrow> bool \<Rightarrow> real \<Rightarrow> int \<Rightarrow> anomaly_config \<Rightarrow> real \<Rightarrow> bool \<Rightarrow> exn + detection list" where
  "run_detectors v rng has_range z_score sample_count cfg forest_score has_forest =
     (let rule = (if has_range then detections_of ''RULE'' (rule_reason v rng) (rule_check v rng) else []);
          forest = (if has_forest
                    then detections_of ''ISOLATION_FOREST'' (forest_reason forest_score cfg)
                           (isolation_check forest_score (an_forest_score_threshold cfg))
                    else [])
      in case stat_check z_score sample_count (an_min_samples_for_zscore cfg) (an_zscore_threshold cfg) of
           Inl e \<Rightarrow> Inl e
         | Inr verdict \<Rightarrow> Inr (rule @ detections_of ''STATISTICAL'' (stat_reason z_score cfg) verdict @ forest))"

fun combine_loop ::
  "detection list \<Rightarrow> severity \<times> real \<times> string list \<times> string \<Rightarrow> severity \<times> real \<times> string list \<times> string" where
  "combine_loop [] acc = acc"
| "combine_loop (r # rs) (severity, score, methods, reason) =
     combine_loop rs
       (if severity_rank (dt_severity r) > severity_rank severity then dt_severity r else severity,
        if dt_score r > score then dt_score r else score,
        methods @ [dt_method r],
        if reason = [] then dt_reason r else reason @ ''; '' @ dt_reason r)"

definition combine_detections :: "detection list \<Rightarrow> severity \<times> real \<times> string list \<times> string" where
  "combine_detections results = combine_loop results (INFO, 0, [], [])"

section \<open>Feature vectors\<close>

record feature_store =
  fs_latest :: "string \<Rightarrow> string \<Rightarrow> real option"
  fs_training :: "(string \<times> real list list) list"
  fs_buffer_size :: int

definition new_feature_store :: "int \<Rightarrow> feature_store" where
  "new_feature_store buffer_size =
     \<lparr>fs_latest = (\<lambda>d. Map.empty), fs_training = [], fs_buffer_size = buffer_size\<rparr>"

definition training_snapshot :: "feature_store \<Rightarrow> string \<Rightarrow> real list list" where
  "training_snapshot fs machine_type =
     (case map_of (fs_training fs) machine_type of None \<Rightarrow> [] | Some buf \<Rightarrow> buf)"

definition machine_types_with_data :: "feature_store \<Rightarrow> string list" where
  "machine_types_with_data fs = map fst (fs_training fs)"

text \<open>A dictionary in insertion order.\<close>

fun dict_put :: "'k \<Rightarrow> 'v \<Rightarrow> ('k \<times> 'v) list \<Rightarrow> ('k \<times> 'v) list" where
  "dict_put k v [] = [(k, v)]"
| "dict_put k v ((k', v') # xs) = (if k' = k then (k, v) # xs else (k', v') # dict_put k v xs)"

text \<open>The values of a device in the order of the features, if it has them all.\<close>

fun assemble :: "(string \<Rightarrow> real option) \<Rightarrow> string list \<Rightarrow> real list option" where
  "assemble vals [] = Some []"
| "assemble vals (m # ms) =
     (case vals m of
        None \<Rightarrow> None
      | Some v \<Rightarrow> (case assemble vals ms of None \<Rightarrow> None | Some vs \<Rightarrow> Some (v # vs)))"

definition trim_buffer :: "int \<Rightarrow> 'a list \<Rightarrow> 'a list" where
  "trim_buffer cap buf = (if int (length buf) > cap then drop (nat (int (length buf) - cap)) buf else buf)"

definition observe ::
  "string \<Rightarrow> string \<Rightarrow> string \<Rightarrow> real \<Rightarrow> string list \<Rightarrow> feature_store \<Rightarrow>
   (real list option \<times> bool) \<times> feature_store" where
  "observe device_id machine_type metric v feature_order fs =
     (let vals = (fs_latest fs device_id)(metric \<mapsto> v);
          fs' = fs\<lparr>fs_latest := (fs_latest fs)(device_id := vals)\<rparr>
      in if feature_order = [] then ((None, False), fs')
         else case assemble vals feature_order of
                None \<Rightarrow> ((None, False), fs')
              | Some vector \<Rightarrow>
                  ((Some vector, True),
                   fs'\<lparr>fs_training :=
                     dict_put machine_type
                       (trim_buffer (fs_buffer_size fs) (training_snapshot fs machine_type @ [vector]))
                       (fs_training fs)\<rparr>))"

section \<open>The range detector\<close>

lemma clamp01_bounds [simp]: "0 \<le> clamp01 v" "clamp01 v \<le> 1"
  by (simp_all add: clamp01_def)

definition overshoot_of :: "real \<Rightarrow> metric_range \<Rightarrow> real" where
  "overshoot_of v r = max (v - mr_max r) (mr_min r - v) / (mr_max r - mr_min r)"

definition overshoot_severity :: "real \<Rightarrow> severity" where
  "overshoot_severity x = (if x \<ge> 5 / 10 then CRITICAL else if x \<ge> 2 / 10 then HIGH else WARNING)"

lemma overshoot_severity_mono: "x \<le> y \<Longrightarrow> overshoot_severity x \<le> overshoot_severity y"
  by (simp add: overshoot_severity_def less_eq_severity_def)

lemma rule_check_eq:
  "rule_check v r =
   (if mr_min r < mr_max r \<and> \<not> (mr_min r \<le> v \<and> v \<le> mr_max r)
    then (True, Some (overshoot_severity (overshoot_of v r)), clamp01 (overshoot_of v r)) else not_fired)"
  by (auto simp: rule_check_def Let_def overshoot_of_def overshoot_severity_def not_le max_def)

text \<open>
  The range detector fires exactly on readings outside a range of positive width; its score is
  between 0 and 1, and of two readings on the same side the one further out is never less severe
  and never scores lower.
\<close>

theorem rule_check_correct:
  "(fst (rule_check v r) = (mr_min r < mr_max r \<and> \<not> (mr_min r \<le> v \<and> v \<le> mr_max r))) \<and>
   0 \<le> snd (snd (rule_check v r)) \<and> snd (snd (rule_check v r)) \<le> 1 \<and>
   (mr_min r < mr_max r \<and> (mr_max r < v \<and> v \<le> v' \<or> v' \<le> v \<and> v < mr_min r) \<longrightarrow>
      the (fst (snd (rule_check v r))) \<le> the (fst (snd (rule_check v' r))) \<and>
      snd (snd (rule_check v r)) \<le> snd (snd (rule_check v' r)))"
proof (intro conjI impI)
  assume a: "mr_min r < mr_max r \<and> (mr_max r < v \<and> v \<le> v' \<or> v' \<le> v \<and> v < mr_min r)"
  then have "overshoot_of v r \<le> overshoot_of v' r"
    by (auto simp: overshoot_of_def divide_right_mono)
  then show "the (fst (snd (rule_check v r))) \<le> the (fst (snd (rule_check v' r)))"
    and "snd (snd (rule_check v r)) \<le> snd (snd (rule_check v' r))"
    using a overshoot_severity_mono by (auto simp: rule_check_eq clamp01_def not_fired_def)
qed (auto simp: rule_check_eq not_fired_def)

theorem rule_check_correct_witness:
  "fst (rule_check 120 \<lparr>mr_min = 0, mr_max = 100\<rparr>) \<and>
   the (fst (snd (rule_check 120 \<lparr>mr_min = 0, mr_max = 100\<rparr>))) \<le> the (fst (snd (rule_check 300 \<lparr>mr_min = 0, mr_max = 100\<rparr>)))"
  using rule_check_correct [of 120 "\<lparr>mr_min = 0, mr_max = 100\<rparr>" 300] by simp

section \<open>The baseline\<close>

definition feed :: "real list \<Rightarrow> ewma_tracker \<Rightarrow> ewma_tracker" where
  "feed vs tr = fold (\<lambda>v tr. snd (ewma_update v tr)) vs tr"

lemma feed_simps [simp]: "feed [] tr = tr" "feed (v # vs) tr = feed vs (snd (ewma_update v tr))"
  "feed (vs @ [v]) tr = snd (ewma_update v (feed vs tr))"
  by (simp_all add: feed_def)

text \<open>Between the bounds of what it has seen, with a variance that is not negative.\<close>

definition tracker_ok :: "real \<Rightarrow> real \<Rightarrow> real \<Rightarrow> ewma_tracker \<Rightarrow> bool" where
  "tracker_ok alpha lo hi tr \<longleftrightarrow>
     ew_alpha tr = alpha \<and> 0 \<le> ew_variance tr \<and> (ew_initialized tr \<longrightarrow> lo \<le> ew_mean tr \<and> ew_mean tr \<le> hi)"

lemma ewma_update_ok:
  assumes "tracker_ok alpha lo hi tr" and "0 \<le> alpha" and "alpha \<le> 1" and "lo \<le> v" and "v \<le> hi"
  shows "\<not> raised (fst (ewma_update v tr)) \<and> tracker_ok alpha lo hi (snd (ewma_update v tr))"
proof -
  have "lo \<le> m + alpha * (v - m) \<and> m + alpha * (v - m) \<le> hi" if "lo \<le> m" and "m \<le> hi" for m
  proof -
    have eq: "m + alpha * (v - m) = (1 - alpha) * m + alpha * v"
      by (simp add: algebra_simps)
    have "(1 - alpha) * lo + alpha * lo \<le> (1 - alpha) * m + alpha * v"
      and "(1 - alpha) * m + alpha * v \<le> (1 - alpha) * hi + alpha * hi"
      using assms that by (intro add_mono mult_left_mono; simp)+
    then show ?thesis
      unfolding eq by (simp add: algebra_simps)
  qed
  moreover have "0 \<le> (1 - alpha) * (s + alpha * d * d)" if "0 \<le> s" for s d
  proof -
    have "0 \<le> alpha * d * d"
      using mult_nonneg_nonneg [OF assms(2) zero_le_square [of d]] by (simp only: mult.assoc)
    then show ?thesis
      using assms(3) that by (intro mult_nonneg_nonneg) simp_all
  qed
  ultimately show ?thesis
    using assms by (auto simp: tracker_ok_def ewma_update_def Let_def)
qed

lemma feed_ok:
  assumes "0 \<le> alpha" and "alpha \<le> 1" and "\<forall>v\<in>set vs. lo \<le> v \<and> v \<le> hi"
  shows "tracker_ok alpha lo hi (feed vs (new_tracker alpha))"
  using assms(3)
proof (induction vs rule: rev_induct)
  case Nil
  then show ?case by (simp add: tracker_ok_def new_tracker_def)
next
  case (snoc v vs)
  then show ?case
    using ewma_update_ok [of alpha lo hi "feed vs (new_tracker alpha)" v] assms(1,2) by simp
qed

lemma feed_initialized: "vs \<noteq> [] \<Longrightarrow> ew_initialized (feed vs (new_tracker alpha)) \<and> ew_alpha (feed vs (new_tracker alpha)) = alpha"
proof (induction vs rule: rev_induct)
  case (snoc v vs)
  then show ?case
    by (cases "vs = []") (auto simp: ewma_update_def Let_def new_tracker_def)
qed simp

text \<open>
  With a smoothing factor between 0 and 1, whatever readings a series brings: no update raises,
  the variance stays non-negative and the mean stays between the smallest and the largest reading.
\<close>

theorem ewma_baseline_bounded:
  assumes "0 \<le> alpha" and "alpha \<le> 1" and "\<forall>v\<in>set (vs @ [u]). lo \<le> v \<and> v \<le> hi" and "vs \<noteq> []"
  shows "\<not> raised (fst (ewma_update u (feed vs (new_tracker alpha)))) \<and>
    lo \<le> ew_mean (feed vs (new_tracker alpha)) \<and> ew_mean (feed vs (new_tracker alpha)) \<le> hi \<and>
    0 \<le> ew_variance (feed vs (new_tracker alpha))"
proof -
  have ok: "tracker_ok alpha lo hi (feed vs (new_tracker alpha))"
    using assms(1-3) by (intro feed_ok) auto
  then have "\<not> raised (fst (ewma_update u (feed vs (new_tracker alpha))))"
    using ewma_update_ok [OF ok assms(1,2)] assms(3) by simp
  then show ?thesis
    using ok feed_initialized [OF assms(4), of alpha] by (simp add: tracker_ok_def)
qed

theorem ewma_baseline_bounded_witness:
  "1 \<le> ew_mean (feed [1, 5] (new_tracker (1 / 10))) \<and> ew_mean (feed [1, 5] (new_tracker (1 / 10))) \<le> 9"
  using ewma_baseline_bounded [of "1 / 10" "[1, 5]" 9 1 9] by simp

lemma feed_constant:
  assumes "\<forall>v\<in>set vs. v = c" and "vs \<noteq> []"
  shows "ew_mean (feed vs (new_tracker alpha)) = c \<and> ew_variance (feed vs (new_tracker alpha)) = 0"
  using assms
proof (induction vs rule: rev_induct)
  case (snoc v vs)
  then show ?case
    using feed_initialized [of vs alpha]
    by (cases "vs = []") (auto simp: ewma_update_def new_tracker_def Let_def)
qed simp

text \<open>
  A series that never changes is never a statistical anomaly, however many samples it has and
  whatever the threshold, as long as that is positive.
\<close>

theorem constant_series_never_fires:
  assumes "\<forall>v\<in>set (vs @ [u]). v = c" and "0 < threshold"
    and "fst (ewma_update u (feed vs (new_tracker alpha))) = Inr (z, n)"
  shows "stat_check z n min_samples threshold = Inr not_fired"
proof -
  have "z = 0"
  proof (cases "vs = []")
    case True
    with assms(3) show ?thesis by (simp add: ewma_update_def new_tracker_def)
  next
    case False
    then have "ew_variance (feed vs (new_tracker alpha)) = 0"
      using feed_constant [of vs c alpha] assms(1) by simp
    then show ?thesis
      using assms(3) feed_initialized [OF False, of alpha] by (simp add: ewma_update_def Let_def)
  qed
  then show ?thesis
    using assms(2) by (simp add: stat_check_def)
qed

theorem constant_series_never_fires_witness:
  "stat_check 0 3 2 3 = Inr not_fired"
  using constant_series_never_fires [of "[7, 7]" 7 7 3 "1 / 10" 0 3 2]
  by (simp add: ewma_update_def new_tracker_def)

section \<open>One tracker per series\<close>

type_synonym reading_request = "string \<times> string \<times> real"

lemma trackers_alpha [simp, frame]: "st_alpha (snd (trackers_update d m v sts)) = st_alpha sts"
  by (simp add: trackers_update_def Let_def split: prod.split)

interpretation trackers: keyed_store
  tracker_for
  "\<lambda>(device_id, metric, v). trackers_update device_id metric v"
  "\<lambda>(device_id, metric, v). bar_key device_id metric"
  "\<lambda>(device_id, metric, v) tr. ewma_update v tr"
  by unfold_locales (auto simp: trackers_update_def tracker_for_def Let_def split: prod.split option.split)

text \<open>
  Under any interleaving of the series, the z-score and the count an update answers are those
  that the earlier readings of its own series alone would give.
\<close>

theorem tracker_answers_own_series:
  "fst (trackers_update d m v
      (run_updates (\<lambda>(device_id, metric, v). trackers_update device_id metric v) qs (new_trackers alpha))) =
   fst (ewma_update v (feed (map (\<lambda>(d, m, v). v) (filter (\<lambda>(d', m', v'). bar_key d' m' = bar_key d m) qs)) (new_tracker alpha)))"
proof -
  have "fold (\<lambda>q tr. snd ((\<lambda>(device_id, metric, v) tr. ewma_update v tr) q tr)) us tr =
      feed (map (\<lambda>(d, m, v). v) us) tr" for us :: "reading_request list" and tr
    by (induction us arbitrary: tr) auto
  moreover have "updates_for (\<lambda>(device_id, metric, v). bar_key device_id metric) (bar_key d m) qs =
      filter (\<lambda>(d', m', v'). bar_key d' m' = bar_key d m) qs"
    by (auto simp: updates_for_def intro: filter_cong)
  ultimately show ?thesis
    using trackers.result_own_history [of "(d, m, v)" qs "new_trackers alpha"]
    by (simp add: tracker_for_def new_trackers_def)
qed

section \<open>The combined record\<close>

lemma rank_max: "(if severity_rank a > severity_rank b then a else b) = max b a"
  by (auto simp: max_def less_eq_severity_def)

lemma Max_insert_max: "finite A \<Longrightarrow> Max (insert (max a b) A) = Max (insert a (insert b A))"
  by (cases "A = {}") (simp_all add: max.assoc)

lemma Max_insert_below:
  assumes "finite A" and "x \<in> A" and "b \<le> x"
  shows "Max (insert b A) = Max A"
proof -
  have "b \<le> Max A"
    using assms Max_ge [of A x] by (blast intro: order_trans)
  moreover have "Max (insert b A) = max b (Max A)"
    using assms by (intro Max_insert) auto
  ultimately show ?thesis
    by (simp add: max_absorb2)
qed

lemma combine_loop_eq:
  "\<forall>r\<in>set rs. dt_reason r \<noteq> [] \<Longrightarrow>
   combine_loop rs (sev, score, ms, reason) =
     (Max (insert sev (dt_severity ` set rs)), Max (insert score (dt_score ` set rs)), ms @ map dt_method rs,
      if reason = [] then join ''; '' (map dt_reason rs) else join ''; '' (reason # map dt_reason rs))"
proof (induction rs arbitrary: sev score ms reason)
  case (Cons r rs)
  have sc: "(if dt_score r > score then dt_score r else score) = max score (dt_score r)"
    by simp
  have "join ''; '' ((reason @ ''; '' @ dt_reason r) # map dt_reason rs) = join ''; '' (reason # map dt_reason (r # rs))"
    by (cases "map dt_reason rs") simp_all
  then show ?case
    using Cons by (simp only: combine_loop.simps rank_max sc) (simp add: Max_insert_max)
qed simp

lemma detections_of_reason: "r \<in> set (detections_of n reason v) \<Longrightarrow> dt_reason r = reason"
  by (auto simp: detections_of_def split: prod.splits bool.splits option.splits)

lemma detections_of_method: "r \<in> set (detections_of n reason v) \<Longrightarrow> dt_method r = n"
  by (auto simp: detections_of_def split: prod.splits bool.splits option.splits)

lemma detections_of_severity:
  "r \<in> set (detections_of n reason v) \<Longrightarrow> fst (snd v) = Some (dt_severity r) \<and> snd (snd v) = dt_score r"
  by (auto simp: detections_of_def split: prod.splits bool.splits option.splits)

text \<open>A verdict that fires is at least a warning and scores between 0 and 1.\<close>

definition verdict_ok :: "verdict \<Rightarrow> bool" where
  "verdict_ok w \<longleftrightarrow> (\<forall>sev. fst (snd w) = Some sev \<longrightarrow> WARNING \<le> sev) \<and> 0 \<le> snd (snd w) \<and> snd (snd w) \<le> 1"

lemma warning_le [simp]: "WARNING \<le> WARNING" "WARNING \<le> HIGH" "WARNING \<le> CRITICAL"
  by (simp_all add: less_eq_severity_def)

lemma rule_verdict_ok: "verdict_ok (rule_check v rng)"
  by (simp add: rule_check_eq verdict_ok_def not_fired_def overshoot_severity_def)

lemma stat_verdict_ok: "stat_check z n m t = Inr w \<Longrightarrow> verdict_ok w"
  by (auto simp: stat_check_def verdict_ok_def not_fired_def Let_def split: if_splits)

lemma isolation_verdict_ok: "0 \<le> x \<Longrightarrow> x \<le> 1 \<Longrightarrow> verdict_ok (isolation_check x t)"
  by (simp add: isolation_check_def verdict_ok_def not_fired_def)

lemma detections_ok:
  assumes "verdict_ok w"
  shows "\<forall>r\<in>set (detections_of name why w). WARNING \<le> dt_severity r \<and> 0 \<le> dt_score r \<and> dt_score r \<le> 1"
  using assms detections_of_severity [of _ name why w] by (auto simp: verdict_ok_def)

lemma run_detectors_parts:
  assumes "run_detectors v rng hr z n cfg fscore hf = Inr rs"
  obtains verdict where
    "stat_check z n (an_min_samples_for_zscore cfg) (an_zscore_threshold cfg) = Inr verdict"
    "rs = (if hr then detections_of ''RULE'' (rule_reason v rng) (rule_check v rng) else []) @
      detections_of ''STATISTICAL'' (stat_reason z cfg) verdict @
      (if hf then detections_of ''ISOLATION_FOREST'' (forest_reason fscore cfg)
         (isolation_check fscore (an_forest_score_threshold cfg)) else [])"
  using assms by (auto simp: run_detectors_def Let_def split: sum.splits)

lemma reasons_not_Nil [simp]: "rule_reason v rng \<noteq> []" "stat_reason z cfg \<noteq> []" "forest_reason fscore cfg \<noteq> []"
  by (simp_all add: rule_reason_def stat_reason_def forest_reason_def)

text \<open>
  The record built from the detectors that fired carries the worst of their severities, the
  highest of their scores, their names in order and their reasons joined; it is at least a warning
  when any fired, and its score is between 0 and 1 when the forest's score is.
\<close>

theorem combined_record_is_worst:
  assumes "run_detectors v rng hr z n cfg fscore hf = Inr rs" and "rs \<noteq> []" and "0 \<le> fscore" and "fscore \<le> 1"
  shows "\<exists>sev score methods reason. combine_detections rs = (sev, score, methods, reason) \<and>
    sev = Max (dt_severity ` set rs) \<and> score = Max (dt_score ` set rs) \<and> methods = map dt_method rs \<and>
    reason = join ''; '' (map dt_reason rs) \<and> WARNING \<le> sev \<and> 0 \<le> score \<and> score \<le> 1"
proof -
  obtain verdict where st: "stat_check z n (an_min_samples_for_zscore cfg) (an_zscore_threshold cfg) = Inr verdict"
    and rs: "rs = (if hr then detections_of ''RULE'' (rule_reason v rng) (rule_check v rng) else []) @
      detections_of ''STATISTICAL'' (stat_reason z cfg) verdict @
      (if hf then detections_of ''ISOLATION_FOREST'' (forest_reason fscore cfg)
         (isolation_check fscore (an_forest_score_threshold cfg)) else [])"
    using run_detectors_parts [OF assms(1)] by blast
  have reasons: "\<forall>r\<in>set rs. dt_reason r \<noteq> []"
    unfolding rs by (auto dest!: detections_of_reason split: if_splits)
  have b: "\<forall>r\<in>set rs. WARNING \<le> dt_severity r \<and> 0 \<le> dt_score r \<and> dt_score r \<le> 1"
    unfolding rs using detections_ok [OF rule_verdict_ok [of v rng]] detections_ok [OF stat_verdict_ok [OF st]]
      detections_ok [OF isolation_verdict_ok [OF assms(3,4)]]
    by (cases hr; cases hf; simp add: ball_Un)
  obtain r where r: "r \<in> set rs"
    using assms(2) by (cases rs) auto
  have "INFO \<le> dt_severity r" and "0 \<le> dt_score r"
    using b r by auto
  then have "Max (insert INFO (dt_severity ` set rs)) = Max (dt_severity ` set rs)"
    and "Max (insert 0 (dt_score ` set rs)) = Max (dt_score ` set rs)"
    using r Max_insert_below [of "dt_severity ` set rs" "dt_severity r"] Max_insert_below [of "dt_score ` set rs" "dt_score r"]
    by simp_all
  moreover have "WARNING \<le> Max (dt_severity ` set rs)" and "0 \<le> Max (dt_score ` set rs)"
    using b r order_trans [OF _ Max_ge [of "dt_severity ` set rs" "dt_severity r"], of WARNING]
      order_trans [OF _ Max_ge [of "dt_score ` set rs" "dt_score r"], of 0]
    by simp_all
  moreover have "Max (dt_score ` set rs) \<le> 1"
    using b r by (subst Max_le_iff) auto
  ultimately show ?thesis
    using combine_loop_eq [OF reasons, of INFO 0 "[]" "[]"] by (simp add: combine_detections_def)
qed

lemma demo_detectors:
  "run_detectors 250 \<lparr>mr_min = 0, mr_max = 100\<rparr> True 0 1 (load_anomaly_config Map.empty) 0 False =
   Inr [\<lparr>dt_method = ''RULE'', dt_severity = CRITICAL, dt_score = 1, dt_reason = rule_reason 250 \<lparr>mr_min = 0, mr_max = 100\<rparr>\<rparr>]"
  by (simp add: run_detectors_def stat_check_def rule_check_def detections_of_def not_fired_def clamp01_def
      load_anomaly_config_def env_int_def env_float_def)

theorem combined_record_is_worst_witness:
  "\<exists>score methods reason.
    combine_detections [\<lparr>dt_method = ''RULE'', dt_severity = CRITICAL, dt_score = 1,
      dt_reason = rule_reason 250 \<lparr>mr_min = 0, mr_max = 100\<rparr>\<rparr>] = (CRITICAL, score, methods, reason) \<and> score \<le> 1"
  using combined_record_is_worst [OF demo_detectors] by auto

section \<open>The training buffer\<close>

lemma map_of_dict_put [simp]: "map_of (dict_put k v xs) k' = (if k' = k then Some v else map_of xs k')"
  by (induction k v xs rule: dict_put.induct) auto

lemma trim_buffer_eq: "0 \<le> cap \<Longrightarrow> trim_buffer cap xs = drop (length xs - nat cap) xs"
  by (auto simp: trim_buffer_def nat_diff_distrib)

lemma trim_buffer_snoc:
  "0 \<le> cap \<Longrightarrow> trim_buffer cap (drop (length xs - nat cap) xs @ [x]) = drop (length (xs @ [x]) - nat cap) (xs @ [x])"
  by (cases "length xs < nat cap") (auto simp: trim_buffer_eq drop_Cons' Suc_diff_le not_less)

lemma assemble_eq:
  "assemble vals ms = (if \<forall>m\<in>set ms. vals m \<noteq> None then Some (map (the \<circ> vals) ms) else None)"
  by (induction ms) (auto split: option.splits)

text \<open>One reading for the store: device, machine type, metric, value and the features of the type.\<close>

type_synonym observation = "string \<times> string \<times> string \<times> real \<times> string list"

definition observe_all :: "observation list \<Rightarrow> feature_store \<Rightarrow> feature_store" where
  "observe_all obs fs = fold (\<lambda>(d, mt, m, v, fo) fs. snd (observe d mt m v fo fs)) obs fs"

text \<open>The complete vectors a sequence of observations produces for one machine type, in order.\<close>

fun vectors_for :: "string \<Rightarrow> observation list \<Rightarrow> feature_store \<Rightarrow> real list list" where
  "vectors_for mt [] fs = []"
| "vectors_for mt ((d, mt', m, v, fo) # obs) fs =
     (case observe d mt' m v fo fs of
        ((Some vec, _), fs') \<Rightarrow> (if mt' = mt then [vec] else []) @ vectors_for mt obs fs'
      | ((None, _), fs') \<Rightarrow> vectors_for mt obs fs')"

lemma observe_frame [simp, frame]: "fs_buffer_size (snd (observe d mt m v fo fs)) = fs_buffer_size fs"
  by (simp add: observe_def Let_def split: option.split)

lemma observe_training:
  "training_snapshot (snd (observe d mt' m v fo fs)) mt =
   (case fst (fst (observe d mt' m v fo fs)) of
      Some vec \<Rightarrow> if mt' = mt then trim_buffer (fs_buffer_size fs) (training_snapshot fs mt @ [vec])
                  else training_snapshot fs mt
    | None \<Rightarrow> training_snapshot fs mt)"
  by (auto simp: observe_def training_snapshot_def Let_def split: option.split)

lemma observe_all_training:
  assumes "0 \<le> fs_buffer_size fs" and "training_snapshot fs mt = drop (length ws - nat (fs_buffer_size fs)) ws"
  shows "training_snapshot (observe_all obs fs) mt =
    drop (length (ws @ vectors_for mt obs fs) - nat (fs_buffer_size fs)) (ws @ vectors_for mt obs fs)"
  using assms
proof (induction obs arbitrary: fs ws)
  case (Cons x obs)
  obtain d mt' m v fo where x: "x = (d, mt', m, v, fo)" by (cases x)
  obtain r b fs' where o: "observe d mt' m v fo fs = ((r, b), fs')" by (metis surj_pair)
  have cap: "fs_buffer_size fs' = fs_buffer_size fs"
    using observe_frame [of d mt' m v fo fs] o by simp
  define new where "new = (case r of Some vec \<Rightarrow> if mt' = mt then [vec] else [] | None \<Rightarrow> [])"
  have "training_snapshot fs' mt = drop (length (ws @ new) - nat (fs_buffer_size fs')) (ws @ new)"
    using observe_training [of d mt' m v fo fs mt] o Cons.prems trim_buffer_snoc [of "fs_buffer_size fs" ws] cap
    by (auto simp: new_def split: option.splits)
  then have "training_snapshot (observe_all obs fs') mt =
      drop (length ((ws @ new) @ vectors_for mt obs fs') - nat (fs_buffer_size fs')) ((ws @ new) @ vectors_for mt obs fs')"
    using Cons.IH [of fs' "ws @ new"] Cons.prems cap by simp
  moreover have "observe_all (x # obs) fs = observe_all obs fs'"
    by (simp add: observe_all_def x o)
  moreover have "vectors_for mt (x # obs) fs = new @ vectors_for mt obs fs'"
    by (simp add: x o new_def split: option.split)
  ultimately show ?case
    by (simp add: cap)
qed (simp add: observe_all_def)

text \<open>
  The training buffer of a machine type is bounded: after any readings of any devices it holds
  exactly the last \<open>buffer_size\<close> complete feature vectors of that type, in order.
\<close>

theorem training_buffer_is_recent_vectors:
  assumes "0 \<le> cap"
  shows "training_snapshot (observe_all obs (new_feature_store cap)) mt =
      drop (length (vectors_for mt obs (new_feature_store cap)) - nat cap) (vectors_for mt obs (new_feature_store cap)) \<and>
    int (length (training_snapshot (observe_all obs (new_feature_store cap)) mt)) \<le> cap"
proof -
  have "training_snapshot (observe_all obs (new_feature_store cap)) mt =
      drop (length (vectors_for mt obs (new_feature_store cap)) - nat cap) (vectors_for mt obs (new_feature_store cap))"
    using observe_all_training [of "new_feature_store cap" mt "[]" obs] assms
    by (simp add: new_feature_store_def training_snapshot_def)
  then show ?thesis
    using assms by simp
qed

theorem training_buffer_is_recent_vectors_witness:
  "training_snapshot (observe_all [(''d'', ''pump'', ''rpm'', 1, [''rpm'']), (''d'', ''pump'', ''rpm'', 2, [''rpm''])]
     (new_feature_store 1)) ''pump'' = [[2]] \<and>
   int (length (training_snapshot (observe_all [(''d'', ''pump'', ''rpm'', 1, [''rpm'']), (''d'', ''pump'', ''rpm'', 2, [''rpm''])]
     (new_feature_store 1)) ''pump'')) \<le> 1"
  using training_buffer_is_recent_vectors [of 1 "[(''d'', ''pump'', ''rpm'', 1, [''rpm'']), (''d'', ''pump'', ''rpm'', 2, [''rpm''])]" "''pump''"]
  by (simp add: observe_def new_feature_store_def training_snapshot_def)

end
