(* ===== verification/Isolation_Forest.thy ===== *)
theory Isolation_Forest
  imports Detection
begin

text \<open>
  \<open>services/anomaly-detector/isolationforest.py\<close> and \<open>forestregistry.py\<close>: building isolation trees
  from random subsamples, scoring a vector, and the periodic retraining. The pseudo-random generator
  is a state \<open>'g\<close> with the three operations the code calls on \<open>random.Random\<close>; what the library
  documents of them is the predicate \<open>rng_ok\<close>. Indexing a row beyond its length raises.
\<close>

section \<open>The generator\<close>

record 'g rng =
  rg_randrange :: "nat \<Rightarrow> 'g \<Rightarrow> nat \<times> 'g"
  rg_random :: "'g \<Rightarrow> real \<times> 'g"
  rg_sample :: "real list list \<Rightarrow> nat \<Rightarrow> 'g \<Rightarrow> real list list \<times> 'g"

definition rng_ok :: "'g rng \<Rightarrow> bool" where
  "rng_ok R \<longleftrightarrow>
     (\<forall>n g. 0 < n \<longrightarrow> fst (rg_randrange R n g) < n) \<and>
     (\<forall>g. 0 \<le> fst (rg_random R g) \<and> fst (rg_random R g) < 1) \<and>
     (\<forall>xs n g. n \<le> length xs \<longrightarrow> length (fst (rg_sample R xs n g)) = n \<and> mset (fst (rg_sample R xs n g)) \<subseteq># mset xs)"

section \<open>Trees\<close>

datatype itree =
    Leaf (leaf_size: nat)
  | Split (split_feature: nat) (split_value: real) (split_left: itree) (split_right: itree)

record isolation_forest =
  if_trees :: "itree list"
  if_subsample_size :: int
  if_avg_path_norm_c :: real

definition row_at :: "real list \<Rightarrow> nat \<Rightarrow> exn + real" where
  "row_at row i = (if i < length row then Inr (row ! i) else Inl IndexError)"

fun range_loop :: "real list list \<Rightarrow> nat \<Rightarrow> real \<Rightarrow> real \<Rightarrow> exn + real \<times> real" where
  "range_loop [] feature lo hi = Inr (lo, hi)"
| "range_loop (row # rows) feature lo hi =
     (case row_at row feature of
        Inl e \<Rightarrow> Inl e
      | Inr v \<Rightarrow> range_loop rows feature (if v < lo then v else lo) (if v > hi then v else hi))"

definition feature_range :: "real list list \<Rightarrow> nat \<Rightarrow> exn + real \<times> real" where
  "feature_range data feature =
     (case data of
        [] \<Rightarrow> Inl IndexError
      | row # rows \<Rightarrow> (case row_at row feature of Inl e \<Rightarrow> Inl e | Inr v \<Rightarrow> range_loop data feature v v))"

text \<open>
  The loop over the candidate features, with the number of tries left; the first usable split, if any.
\<close>

fun try_split ::
  "'g rng \<Rightarrow> real list list \<Rightarrow> nat \<Rightarrow> nat \<Rightarrow> 'g \<Rightarrow>
   (exn + (nat \<times> real \<times> real list list \<times> real list list) option) \<times> 'g" where
  "try_split R data num_features 0 g = (Inr None, g)"
| "try_split R data num_features (Suc tries) g =
     (let (feature, g1) = rg_randrange R num_features g
      in case feature_range data feature of
           Inl e \<Rightarrow> (Inl e, g1)
         | Inr (lo, hi) \<Rightarrow>
             if lo = hi then try_split R data num_features tries g1
             else
               let (u, g2) = rg_random R g1;
                   split_value = lo + u * (hi - lo);
                   left = filter (\<lambda>row. row ! feature < split_value) data;
                   right = filter (\<lambda>row. row ! feature \<ge> split_value) data
               in if left = [] \<or> right = [] then try_split R data num_features tries g2
                  else (Inr (Some (feature, split_value, left, right)), g2))"

function build_tree :: "'g rng \<Rightarrow> real list list \<Rightarrow> nat \<Rightarrow> nat \<Rightarrow> 'g \<Rightarrow> (exn + itree) \<times> 'g" where
  "build_tree R data depth max_depth g =
     (if depth \<ge> max_depth \<or> length data \<le> 1 then (Inr (Leaf (length data)), g)
      else case try_split R data (length (hd data)) (length (hd data)) g of
             (Inl e, g1) \<Rightarrow> (Inl e, g1)
           | (Inr None, g1) \<Rightarrow> (Inr (Leaf (length data)), g1)
           | (Inr (Some (feature, sv, left, right)), g1) \<Rightarrow>
               (case build_tree R left (Suc depth) max_depth g1 of
                  (Inl e, g2) \<Rightarrow> (Inl e, g2)
                | (Inr l, g2) \<Rightarrow>
                    (case build_tree R right (Suc depth) max_depth g2 of
                       (Inl e, g3) \<Rightarrow> (Inl e, g3)
                     | (Inr r, g3) \<Rightarrow> (Inr (Split feature sv l r), g3))))"
  by pat_completeness auto

termination
  by (relation "measure (\<lambda>(R, data, depth, max_depth, g). max_depth - depth)") auto

declare build_tree.simps [simp del]

definition average_path_length_normalizer :: "nat \<Rightarrow> real" where
  "average_path_length_normalizer n =
     (if n \<le> 1 then 0 else if n = 2 then 1
      else
        let euler_mascheroni = 5772156649 / 10000000000;
            harmonic = ln (of_nat n - 1) + euler_mascheroni
        in 2 * harmonic - (2 * (of_nat n - 1) / of_nat n))"

fun path_length :: "real list \<Rightarrow> itree \<Rightarrow> nat \<Rightarrow> exn + real" where
  "path_length x (Leaf n) depth = Inr (of_nat depth + average_path_length_normalizer n)"
| "path_length x (Split feature sv l r) depth =
     (case row_at x feature of
        Inl e \<Rightarrow> Inl e
      | Inr v \<Rightarrow> if v < sv then path_length x l (Suc depth) else path_length x r (Suc depth))"

section \<open>Forests\<close>

fun sum_paths :: "real list \<Rightarrow> itree list \<Rightarrow> exn + real" where
  "sum_paths x [] = Inr 0"
| "sum_paths x (t # ts) =
     (case path_length x t 0 of
        Inl e \<Rightarrow> Inl e
      | Inr p \<Rightarrow> (case sum_paths x ts of Inl e \<Rightarrow> Inl e | Inr q \<Rightarrow> Inr (p + q)))"

definition score :: "real list \<Rightarrow> isolation_forest \<Rightarrow> exn + real" where
  "score x f =
     (if if_trees f = [] \<or> if_avg_path_norm_c f = 0 then Inr 0
      else case sum_paths x (if_trees f) of
             Inl e \<Rightarrow> Inl e
           | Inr p \<Rightarrow> Inr (2 powr (- (p / of_nat (length (if_trees f))) / if_avg_path_norm_c f)))"

definition sample_without_replacement ::
  "'g rng \<Rightarrow> real list list \<Rightarrow> int \<Rightarrow> 'g \<Rightarrow> (exn + real list list) \<times> 'g" where
  "sample_without_replacement R data n g =
     (if n \<ge> int (length data) then (Inr data, g)
      else if n < 0 then (Inl (ValueError ''Sample larger than population or is negative''), g)
      else let (s, g') = rg_sample R data (nat n) g in (Inr s, g'))"

fun fit_trees ::
  "'g rng \<Rightarrow> real list list \<Rightarrow> int \<Rightarrow> nat \<Rightarrow> nat \<Rightarrow> 'g \<Rightarrow> (exn + itree list) \<times> 'g" where
  "fit_trees R data subsample_size max_depth 0 g = (Inr [], g)"
| "fit_trees R data subsample_size max_depth (Suc k) g =
     (case sample_without_replacement R data subsample_size g of
        (Inl e, g1) \<Rightarrow> (Inl e, g1)
      | (Inr sample, g1) \<Rightarrow>
          (case build_tree R sample 0 max_depth g1 of
             (Inl e, g2) \<Rightarrow> (Inl e, g2)
           | (Inr t, g2) \<Rightarrow>
               (case fit_trees R data subsample_size max_depth k g2 of
                  (Inl e, g3) \<Rightarrow> (Inl e, g3)
                | (Inr ts, g3) \<Rightarrow> (Inr (t # ts), g3))))"

definition fit_isolation_forest ::
  "'g rng \<Rightarrow> real list list \<Rightarrow> int \<Rightarrow> int \<Rightarrow> 'g \<Rightarrow> (exn + isolation_forest) \<times> 'g" where
  "fit_isolation_forest R data num_trees subsample_size g =
     (let ss = (if subsample_size > int (length data) then int (length data) else subsample_size);
          max_depth = nat \<lceil>log 2 (of_int (max ss 2))\<rceil>
      in case fit_trees R data ss max_depth (nat num_trees) g of
           (Inl e, g') \<Rightarrow> (Inl e, g')
         | (Inr ts, g') \<Rightarrow>
             (Inr \<lparr>if_trees = ts, if_subsample_size = ss,
                   if_avg_path_norm_c = average_path_length_normalizer (nat ss)\<rparr>, g'))"

section \<open>Retraining\<close>

definition MIN_TRAINING_SAMPLES :: nat where
  "MIN_TRAINING_SAMPLES = 60"

type_synonym forest_registry = "(string \<times> isolation_forest) list"

definition forest_get :: "forest_registry \<Rightarrow> string \<Rightarrow> isolation_forest option" where
  "forest_get reg machine_type = map_of reg machine_type"

definition forest_set :: "string \<Rightarrow> isolation_forest \<Rightarrow> forest_registry \<Rightarrow> forest_registry" where
  "forest_set machine_type f reg = dict_put machine_type f reg"

definition trained_machine_types :: "forest_registry \<Rightarrow> string list" where
  "trained_machine_types reg = map fst reg"

text \<open>
  One tick of \<open>run_forest_trainer\<close>: the result, the registry, the generator and the number of
  forests trained. An exception leaves the loop and ends the thread.
\<close>

fun train_types ::
  "'g rng \<Rightarrow> anomaly_config \<Rightarrow> feature_store \<Rightarrow> string list \<Rightarrow> forest_registry \<Rightarrow> 'g \<Rightarrow>
   (exn + unit) \<times> forest_registry \<times> 'g \<times> nat" where
  "train_types R cfg fs [] reg g = (ok, reg, g, 0)"
| "train_types R cfg fs (mt # mts) reg g =
     (let data = training_snapshot fs mt
      in if length data < MIN_TRAINING_SAMPLES then train_types R cfg fs mts reg g
         else case fit_isolation_forest R data (an_forest_num_trees cfg) (an_forest_subsample_size cfg) g of
                (Inl e, g') \<Rightarrow> (Inl e, reg, g', 0)
              | (Inr f, g') \<Rightarrow>
                  (case train_types R cfg fs mts (forest_set mt f reg) g' of
                     (r, reg', g'', n) \<Rightarrow> (r, reg', g'', Suc n)))"

definition forest_trainer_tick ::
  "'g rng \<Rightarrow> anomaly_config \<Rightarrow> feature_store \<Rightarrow> forest_registry \<Rightarrow> 'g \<Rightarrow>
   (exn + unit) \<times> forest_registry \<times> 'g \<times> nat" where
  "forest_trainer_tick R cfg fs reg g = train_types R cfg fs (machine_types_with_data fs) reg g"

section \<open>Splits partition the data\<close>

definition uniform :: "nat \<Rightarrow> real list list \<Rightarrow> bool" where
  "uniform n data \<longleftrightarrow> (\<forall>row\<in>set data. length row = n)"

lemma uniform_subset: "uniform n data \<Longrightarrow> set rows \<subseteq> set data \<Longrightarrow> uniform n rows"
  by (auto simp: uniform_def)

lemma range_loop_uniform:
  "uniform n rows \<Longrightarrow> f < n \<Longrightarrow> \<exists>lo' hi'. range_loop rows f lo hi = Inr (lo', hi')"
  by (induction rows arbitrary: lo hi) (auto simp: uniform_def row_at_def)

lemma feature_range_uniform:
  "uniform n data \<Longrightarrow> f < n \<Longrightarrow> data \<noteq> [] \<Longrightarrow> \<exists>lo hi. feature_range data f = Inr (lo, hi)"
  using range_loop_uniform [of n data f "hd data ! f" "hd data ! f"]
  by (auto simp: feature_range_def uniform_def row_at_def neq_Nil_conv)

text \<open>A split taken is on a feature of the rows and separates the data into two smaller parts.\<close>

definition good_split :: "nat \<Rightarrow> real list list \<Rightarrow> nat \<times> real \<times> real list list \<times> real list list \<Rightarrow> bool" where
  "good_split n data s \<longleftrightarrow>
     (case s of (f, sv, left, right) \<Rightarrow>
        f < n \<and> left \<noteq> [] \<and> right \<noteq> [] \<and>
        left = filter (\<lambda>row. row ! f < sv) data \<and> right = filter (\<lambda>row. row ! f \<ge> sv) data)"

lemma try_split_good:
  assumes "rng_ok R" and "0 < n"
  shows "try_split R data n k g = (Inr (Some s), g') \<Longrightarrow> good_split n data s"
proof (induction k arbitrary: g)
  case (Suc k)
  obtain f g1 where f: "rg_randrange R n g = (f, g1)" by fastforce
  have "f < n"
    using assms f unfolding rng_ok_def by (metis fst_conv)
  with Suc show ?case
    by (auto simp: f Let_def good_split_def split: sum.splits prod.splits if_splits)
qed simp

lemma try_split_uniform:
  assumes "rng_ok R" and "0 < n" and "uniform n data" and "data \<noteq> []"
  shows "\<exists>s g'. try_split R data n k g = (Inr s, g')"
proof (induction k arbitrary: g)
  case (Suc k)
  obtain f g1 where f: "rg_randrange R n g = (f, g1)" by fastforce
  have "f < n"
    using assms f unfolding rng_ok_def by (metis fst_conv)
  then obtain lo hi where "feature_range data f = Inr (lo, hi)"
    using feature_range_uniform assms by blast
  then show ?case
    using Suc by (simp add: f Let_def split: prod.split)
qed simp

lemma length_good_split:
  "good_split n data (f, sv, left, right) \<Longrightarrow> length left + length right = length data"
  using sum_length_filter_compl [of "\<lambda>row. row ! f < sv" data] by (simp add: good_split_def not_less)

text \<open>The number of training rows at the leaves, the depth of a tree and the features it tests.\<close>

primrec tree_size :: "itree \<Rightarrow> nat" where
  "tree_size (Leaf n) = n"
| "tree_size (Split f sv l r) = tree_size l + tree_size r"

primrec tree_depth :: "itree \<Rightarrow> nat" where
  "tree_depth (Leaf n) = 0"
| "tree_depth (Split f sv l r) = Suc (max (tree_depth l) (tree_depth r))"

primrec tree_features :: "itree \<Rightarrow> nat set" where
  "tree_features (Leaf n) = {}"
| "tree_features (Split f sv l r) = insert f (tree_features l \<union> tree_features r)"

definition tree_ok :: "nat \<Rightarrow> real list list \<Rightarrow> nat \<Rightarrow> itree \<Rightarrow> bool" where
  "tree_ok n data levels t \<longleftrightarrow>
     tree_size t = length data \<and> tree_depth t \<le> levels \<and> tree_features t \<subseteq> {..<n}"

lemma try_split_no_features: "try_split R data m 0 g = (Inr None, g)"
  by simp

lemma build_tree_ok:
  "rng_ok R \<Longrightarrow> uniform n data \<Longrightarrow> \<exists>t g'. build_tree R data depth max_depth g = (Inr t, g') \<and> tree_ok n data (max_depth - depth) t"
proof (induction "max_depth - depth" arbitrary: data depth g rule: less_induct)
  case less
  note IH = less.hyps [OF _ less.prems(1)]
  show ?case
  proof (cases "depth \<ge> max_depth \<or> length data \<le> 1")
    case True
    then show ?thesis by (subst build_tree.simps) (simp add: tree_ok_def)
  next
    case False
    then have ne: "data \<noteq> []" by auto
    have n: "length (hd data) = n"
      using less.prems(2) ne by (simp add: uniform_def)
    obtain s g1 where s: "try_split R data n n g = (Inr s, g1)"
      using try_split_uniform [of R n data n g] less.prems ne by (cases "n = 0") auto
    show ?thesis
    proof (cases s)
      case None
      then show ?thesis
        using False s n by (subst build_tree.simps) (simp add: tree_ok_def)
    next
      case (Some q)
      obtain f sv left right where q: "q = (f, sv, left, right)" by (cases q)
      have g: "good_split n data (f, sv, left, right)"
        using try_split_good [of R n data n g q g1] s Some q less.prems(1) by (cases "n = 0") auto
      then have u: "uniform n left" "uniform n right"
        using less.prems by (auto simp: good_split_def intro: uniform_subset)
      have dec: "max_depth - Suc depth < max_depth - depth"
        using False by linarith
      obtain l g2 where l: "build_tree R left (Suc depth) max_depth g1 = (Inr l, g2)"
        and lok: "tree_ok n left (max_depth - Suc depth) l"
        using IH [OF dec u(1)] by blast
      obtain r g3 where r: "build_tree R right (Suc depth) max_depth g2 = (Inr r, g3)"
        and rok: "tree_ok n right (max_depth - Suc depth) r"
        using IH [OF dec u(2)] by blast
      have "build_tree R data depth max_depth g = (Inr (Split f sv l r), g3)"
        using False s Some q l r n by (subst build_tree.simps) simp
      moreover have "tree_ok n data (max_depth - depth) (Split f sv l r)"
        using lok rok g length_good_split [OF g] False by (auto simp: tree_ok_def good_split_def)
      ultimately show ?thesis by blast
    qed
  qed
qed

section \<open>Scores\<close>

lemma ln_2_ge_half: "1 / 2 \<le> ln (2::real)"
proof -
  have "ln (1 / 2 :: real) \<le> 1 / 2 - 1"
    by (rule ln_le_minus_one) simp
  then show ?thesis
    by (simp add: ln_div)
qed

lemma normalizer_nonneg: "0 \<le> average_path_length_normalizer n"
proof (cases "n \<le> 2")
  case False
  then have "2 \<le> real n - 1"
    by (simp add: not_le)
  then have "ln 2 \<le> ln (real n - 1)"
    by (subst ln_le_cancel_iff) auto
  then have "1 / 2 \<le> ln (real n - 1)"
    using ln_2_ge_half by linarith
  moreover have "2 * (real n - 1) / real n \<le> 2"
    using False by (simp add: pos_divide_le_eq)
  ultimately show ?thesis
    using False by (simp add: average_path_length_normalizer_def Let_def)
qed (auto simp: average_path_length_normalizer_def)

lemma path_length_ok:
  "tree_features t \<subseteq> {..<length x} \<Longrightarrow> \<exists>p. path_length x t d = Inr p \<and> 0 \<le> p"
proof (induction t arbitrary: d)
  case (Leaf n)
  then show ?case by (simp add: normalizer_nonneg)
next
  case (Split f sv l r)
  then have "row_at x f = Inr (x ! f)"
    by (simp add: row_at_def)
  then show ?case
    using Split by simp
qed

lemma sum_paths_ok:
  "\<forall>t\<in>set ts. tree_features t \<subseteq> {..<length x} \<Longrightarrow> \<exists>p. sum_paths x ts = Inr p \<and> 0 \<le> p"
proof (induction ts)
  case (Cons t ts)
  then show ?case
    using path_length_ok [of t x 0] by auto
qed simp

lemma score_ok:
  assumes "\<forall>t\<in>set (if_trees f). tree_features t \<subseteq> {..<length x}" and "0 \<le> if_avg_path_norm_c f"
  shows "\<exists>s. score x f = Inr s \<and> 0 \<le> s \<and> s \<le> 1"
proof -
  obtain p where "sum_paths x (if_trees f) = Inr p" and "0 \<le> p"
    using sum_paths_ok [OF assms(1)] by blast
  moreover have "2 powr (- (p / of_nat (length (if_trees f))) / if_avg_path_norm_c f) \<le> (1::real)"
    using powr_mono [of "- (p / of_nat (length (if_trees f))) / if_avg_path_norm_c f" 0 2] \<open>0 \<le> p\<close> assms(2)
    by simp
  ultimately show ?thesis
    by (auto simp: score_def)
qed

lemma sample_ok:
  assumes "rng_ok R" and "0 \<le> ss" and "ss \<le> int (length data)" and "uniform n data"
  shows "\<exists>rows g'. sample_without_replacement R data ss g = (Inr rows, g') \<and> uniform n rows \<and> int (length rows) = ss"
proof (cases "ss \<ge> int (length data)")
  case False
  obtain rows g' where s: "rg_sample R data (nat ss) g = (rows, g')" by fastforce
  have "length rows = nat ss \<and> mset rows \<subseteq># mset data"
    using assms(1) s False unfolding rng_ok_def by (metis fst_conv nat_le_iff linorder_not_le order_less_imp_le)
  moreover from this have "set rows \<subseteq> set data"
    by (metis set_mset_mono set_mset_mset)
  ultimately show ?thesis
    using False assms s uniform_subset by (auto simp: sample_without_replacement_def)
qed (use assms in \<open>auto simp: sample_without_replacement_def\<close>)

lemma fit_trees_ok:
  assumes "rng_ok R" and "0 \<le> ss" and "ss \<le> int (length data)" and "uniform n data"
  shows "\<exists>ts g'. fit_trees R data ss md k g = (Inr ts, g') \<and> length ts = k \<and>
    (\<forall>t\<in>set ts. tree_features t \<subseteq> {..<n} \<and> int (tree_size t) = ss \<and> tree_depth t \<le> md)"
proof (induction k arbitrary: g)
  case (Suc k)
  obtain rows g1 where s: "sample_without_replacement R data ss g = (Inr rows, g1)" and u: "uniform n rows"
    and len: "int (length rows) = ss"
    using sample_ok [OF assms] by blast
  obtain t g2 where t: "build_tree R rows 0 md g1 = (Inr t, g2)" and ok: "tree_ok n rows (md - 0) t"
    using build_tree_ok [OF assms(1) u] by blast
  obtain ts g3 where "fit_trees R data ss md k g2 = (Inr ts, g3)" and "length ts = k"
    and "\<forall>t\<in>set ts. tree_features t \<subseteq> {..<n} \<and> int (tree_size t) = ss \<and> tree_depth t \<le> md"
    using Suc by blast
  then show ?case
    using s t ok len by (simp add: tree_ok_def)
qed simp

text \<open>
  C21. Training on rows of one length never raises, whatever the generator draws: it gives the
  configured number of trees, each of bounded depth and with every sampled row at one of its
  leaves; and the forest scores every vector of that length between 0 and 1.
\<close>

theorem forest_fits_and_scores:
  assumes "rng_ok R" and "uniform n data" and "0 \<le> subsample_size"
  shows "\<exists>f g'. fit_isolation_forest R data num_trees subsample_size g = (Inr f, g') \<and>
    length (if_trees f) = nat num_trees \<and>
    (\<forall>t\<in>set (if_trees f). int (tree_size t) = min subsample_size (int (length data)) \<and>
       tree_depth t \<le> nat \<lceil>log 2 (of_int (max (min subsample_size (int (length data))) 2))\<rceil>) \<and>
    (\<forall>x. length x = n \<longrightarrow> (\<exists>s. score x f = Inr s \<and> 0 \<le> s \<and> s \<le> 1))"
proof -
  let ?ss = "min subsample_size (int (length data))"
  let ?md = "nat \<lceil>log 2 (of_int (max ?ss 2))\<rceil>"
  have ss: "(if subsample_size > int (length data) then int (length data) else subsample_size) = ?ss"
    by auto
  obtain ts g' where ts: "fit_trees R data ?ss ?md (nat num_trees) g = (Inr ts, g')" "length ts = nat num_trees"
    and t: "\<forall>t\<in>set ts. tree_features t \<subseteq> {..<n} \<and> int (tree_size t) = ?ss \<and> tree_depth t \<le> ?md"
    using fit_trees_ok [OF assms(1) _ _ assms(2), of ?ss ?md "nat num_trees" g] assms(3) by auto
  let ?f = "\<lparr>if_trees = ts, if_subsample_size = ?ss, if_avg_path_norm_c = average_path_length_normalizer (nat ?ss)\<rparr>"
  have "fit_isolation_forest R data num_trees subsample_size g = (Inr ?f, g')"
    unfolding fit_isolation_forest_def ss Let_def ts(1) by simp
  moreover have "\<exists>s. score x ?f = Inr s \<and> 0 \<le> s \<and> s \<le> 1" if "length x = n" for x
    using t that normalizer_nonneg by (intro score_ok) auto
  ultimately show ?thesis
    using ts(2) t by (intro exI [of _ ?f] exI [of _ g']) simp
qed

text \<open>A generator for the examples: always the first feature, the middle of its range, a prefix.\<close>

definition first_rng :: "unit rng" where
  "first_rng = \<lparr>rg_randrange = (\<lambda>n g. (0, g)), rg_random = (\<lambda>g. (1 / 2, g)), rg_sample = (\<lambda>xs n g. (take n xs, g))\<rparr>"

lemma first_rng_ok: "rng_ok first_rng"
proof -
  have "mset (take n xs) \<subseteq># mset xs" for n and xs :: "real list list"
    by (metis append_take_drop_id mset_append mset_subset_eq_add_left)
  then show ?thesis
    by (simp add: rng_ok_def first_rng_def)
qed

theorem forest_fits_and_scores_witness:
  "\<exists>f s. fit_isolation_forest first_rng [[1, 2], [3, 4], [50, 60]] 1 256 () = (Inr f, ()) \<and>
    score [1, 2] f = Inr s \<and> s \<le> 1"
proof -
  have "uniform 2 [[1, 2], [3, 4], [50, 60]]"
    by (simp add: uniform_def)
  then obtain f where "fit_isolation_forest first_rng [[1, 2], [3, 4], [50, 60]] 1 256 () = (Inr f, ())"
    and "\<forall>x. length x = 2 \<longrightarrow> (\<exists>s. score x f = Inr s \<and> 0 \<le> s \<and> s \<le> 1)"
    using forest_fits_and_scores [OF first_rng_ok, of 2 "[[1, 2], [3, 4], [50, 60]]" 256 1 "()"] by auto
  moreover have "length [1, 2 :: real] = 2"
    by simp
  ultimately show ?thesis
    by blast
qed

section \<open>Rows of different lengths\<close>

text \<open>
  When a machine type gains a metric, its buffer mixes old and longer new vectors. Training then
  raises as soon as the first tree's first pick is a feature that some row does not have: the
  registry keeps its old forest, and the exception ends the trainer thread.
\<close>

theorem mixed_vectors_kill_training:
  assumes "rg_randrange R (length row) g = (feature, g')" and "feature < length row"
    and "short \<in> set (row # rows)" and "length short \<le> feature"
    and "length (row # rows) \<le> nat subsample_size" and "0 < num_trees" and "rows \<noteq> []"
  shows "fst (fit_isolation_forest R (row # rows) num_trees subsample_size g) = Inl IndexError"
proof -
  let ?data = "row # rows"
  let ?md = "nat \<lceil>log 2 (of_int (max (int (length ?data)) 2))\<rceil>"
  have loop: "short \<in> set xs \<Longrightarrow> range_loop xs feature lo hi = Inl IndexError" for xs lo hi
    using assms(4) by (induction xs arbitrary: lo hi) (auto simp: row_at_def)
  have range: "feature_range ?data feature = Inl IndexError"
    using assms(2,3) loop [of ?data] by (simp add: feature_range_def row_at_def del: range_loop.simps)
  obtain k where k: "length row = Suc k"
    using assms(2) by (cases "length row") auto
  have split: "try_split R ?data (length row) (length row) g = (Inl IndexError, g')"
    using assms(1) range k by simp
  have "1 \<le> log 2 (of_int (max (int (length ?data)) 2))"
    by (subst le_log_iff) auto
  then have "\<not> ?md \<le> 0"
    by simp
  moreover have "\<not> length ?data \<le> 1"
    using assms(7) by (cases rows) auto
  ultimately have tree: "build_tree R ?data 0 ?md g = (Inl IndexError, g')"
    using split by (subst build_tree.simps) (simp del: try_split.simps)
  have ss: "(if subsample_size > int (length ?data) then int (length ?data) else subsample_size) = int (length ?data)"
    using assms(5) by auto
  obtain m where m: "nat num_trees = Suc m"
    using assms(6) by (cases "nat num_trees") auto
  have sample: "sample_without_replacement R ?data (int (length ?data)) g = (Inr ?data, g)"
    by (simp add: sample_without_replacement_def)
  show ?thesis
    unfolding fit_isolation_forest_def ss Let_def m fit_trees.simps sample tree prod.case sum.case by simp
qed

theorem mixed_vectors_kill_training_witness:
  "fst (fit_isolation_forest (first_rng\<lparr>rg_randrange := (\<lambda>n g. (n - 1, g))\<rparr>) [[1, 2, 3], [1, 2], [4, 5]] 100 256 ()) = Inl IndexError"
  by (rule mixed_vectors_kill_training [where feature = 2 and short = "[1, 2]" and g' = "()"]) simp_all

end
