(* ===== verification/Anomaly_Detector.thy ===== *)
theory Anomaly_Detector
  imports Isolation_Forest Broker "HOL-Library.List_Lexorder" "HOL-Library.Char_ord"
begin

text \<open>
  \<open>services/anomaly-detector\<close>: \<open>catalog.py\<close> (device metadata), \<open>idempotency.py\<close> (the claim in
  Postgres), \<open>kafka_io.py\<close> and \<open>main.py\<close>. Tables are lists of rows; the statements the service runs
  on them are functions, and Postgres answers each call from a sequence of replies. An identifier
  from \<open>uuid.uuid4\<close> is the next of a given sequence.
\<close>

section \<open>The catalog\<close>

record device_row =
  dv_id :: string
  dv_machine_id :: string

record machine_row =
  mc_id :: string
  mc_machine_type :: string

record sensor_row =
  sn_device_id :: string
  sn_metric :: string
  sn_min_operating_value :: "real option"
  sn_max_operating_value :: "real option"

text \<open>The join of \<open>_CATALOG_QUERY\<close>, with its defaults for missing bounds.\<close>

definition catalog_query ::
  "device_row list \<Rightarrow> machine_row list \<Rightarrow> sensor_row list \<Rightarrow> (string \<times> string \<times> string \<times> real \<times> real) list" where
  "catalog_query devices machines sensors =
     concat (map (\<lambda>d. concat (map (\<lambda>m. map (\<lambda>s.
        (dv_id d, mc_machine_type m, sn_metric s,
         case sn_min_operating_value s of None \<Rightarrow> 0 | Some x \<Rightarrow> x,
         case sn_max_operating_value s of None \<Rightarrow> 100 | Some x \<Rightarrow> x))
       (filter (\<lambda>s. sn_device_id s = dv_id d) sensors))
       (filter (\<lambda>m. mc_id m = dv_machine_id d) machines))) devices)"

record device_info =
  di_machine_type :: string
  di_ranges :: "string \<Rightarrow> metric_range option"

record catalog =
  ct_devices :: "string \<Rightarrow> device_info option"
  ct_feature_order :: "string \<Rightarrow> string list option"

fun catalog_loop ::
  "(string \<times> string \<times> string \<times> real \<times> real) list \<Rightarrow> (string \<Rightarrow> device_info option) \<times> (string \<Rightarrow> string list option) \<Rightarrow>
   (string \<Rightarrow> device_info option) \<times> (string \<Rightarrow> string list option)" where
  "catalog_loop [] acc = acc"
| "catalog_loop ((device_id, machine_type, metric, lo, hi) # rows) (devices, metrics_by_type) =
     (let info = (case devices device_id of
            None \<Rightarrow> \<lparr>di_machine_type = machine_type, di_ranges = Map.empty\<rparr> | Some i \<Rightarrow> i);
          info' = info\<lparr>di_ranges := (di_ranges info)(metric \<mapsto> \<lparr>mr_min = lo, mr_max = hi\<rparr>)\<rparr>;
          ms = (case metrics_by_type machine_type of None \<Rightarrow> [] | Some ms \<Rightarrow> ms)
      in catalog_loop rows
           (devices(device_id \<mapsto> info'), metrics_by_type(machine_type \<mapsto> List.insert metric ms)))"

definition catalog_refresh :: "(string \<times> string \<times> string \<times> real \<times> real) list \<Rightarrow> catalog" where
  "catalog_refresh rows =
     (let (devices, metrics_by_type) = catalog_loop rows (Map.empty, Map.empty)
      in \<lparr>ct_devices = devices, ct_feature_order = (\<lambda>mt. map_option sort (metrics_by_type mt))\<rparr>)"

definition catalog_lookup :: "catalog \<Rightarrow> string \<Rightarrow> device_info option" where
  "catalog_lookup cat device_id = ct_devices cat device_id"

definition features_for :: "catalog \<Rightarrow> string \<Rightarrow> string list" where
  "features_for cat machine_type = (case ct_feature_order cat machine_type of None \<Rightarrow> [] | Some fo \<Rightarrow> fo)"

text \<open>
  The refresher's tick: the rows Postgres answers, or the exception it raises, which keeps the old
  catalog.
\<close>

definition catalog_refresher_tick :: "exn + (string \<times> string \<times> string \<times> real \<times> real) list \<Rightarrow> catalog \<Rightarrow> catalog" where
  "catalog_refresher_tick answer cat = (case answer of Inl _ \<Rightarrow> cat | Inr rows \<Rightarrow> catalog_refresh rows)"

section \<open>State\<close>

record anomaly_world = "string kworld" +
  aw_ledger :: "(string \<times> string) list"
  aw_pg :: "nat \<Rightarrow> reply"
  aw_pg_tick :: nat
  aw_breaker :: circuit_breaker
  aw_catalog :: catalog
  aw_trackers :: statistical_trackers
  aw_features :: feature_store
  aw_forests :: forest_registry
  aw_uuids :: "nat \<Rightarrow> string"
  aw_uuid_tick :: nat

record anomaly_codec =
  ac_parse :: "string \<Rightarrow> exn + real normalized_telemetry"
  ac_dump :: "anomaly_detected \<Rightarrow> exn + string"
  ac_dead :: "string dead_letter_record \<Rightarrow> string"
  ac_decode :: "string \<Rightarrow> string"

section \<open>The claim\<close>

definition ANOMALY_DEDUP_SCOPE :: string where
  "ANOMALY_DEDUP_SCOPE = ''anomaly_detection''"

text \<open>\<open>INSERT ... ON CONFLICT (scope, key) DO NOTHING RETURNING id\<close>: whether a row was returned.\<close>

definition insert_key :: "string \<Rightarrow> (string \<times> string) list \<Rightarrow> bool \<times> (string \<times> string) list" where
  "insert_key key rows =
     (if (ANOMALY_DEDUP_SCOPE, key) \<in> set rows then (False, rows) else (True, rows @ [(ANOMALY_DEDUP_SCOPE, key)]))"

definition claim_telemetry_event_once :: "string \<Rightarrow> anomaly_world \<Rightarrow> (exn + bool) \<times> anomaly_world" where
  "claim_telemetry_event_once event_id w =
     (let w' = w\<lparr>aw_pg_tick := Suc (aw_pg_tick w)\<rparr>;
          (fresh, rows) = insert_key event_id (aw_ledger w)
      in case aw_pg w (aw_pg_tick w) of
           Reply_ok \<Rightarrow> (Inr fresh, w'\<lparr>aw_ledger := rows\<rparr>)
         | Reply_raises e took \<Rightarrow> (Inl e, if took then w'\<lparr>aw_ledger := rows\<rparr> else w'))"

section \<open>Kafka\<close>

definition an_protected_write ::
  "anomaly_config \<Rightarrow> string \<Rightarrow> (anomaly_world \<Rightarrow> (exn + unit) \<times> anomaly_world) \<Rightarrow> anomaly_world \<Rightarrow>
   (exn + unit) \<times> anomaly_world" where
  "an_protected_write cfg topic write_fn w =
     (let (r, cb, w') = guarded_call (KafkaPublishError (''circuit breaker open for kafka topic '' @ topic))
            (an_kafka_max_retries cfg) (an_kafka_retry_base_delay_seconds cfg)
            write_fn sleep clock (aw_breaker w) w
      in (r, w'\<lparr>aw_breaker := cb\<rparr>))"

definition publish_anomaly ::
  "anomaly_config \<Rightarrow> anomaly_codec \<Rightarrow> string \<Rightarrow> anomaly_detected \<Rightarrow> anomaly_world \<Rightarrow> (exn + unit) \<times> anomaly_world" where
  "publish_anomaly cfg cd key evt w =
     (case ac_dump cd evt of
        Inl e \<Rightarrow> (Inl (ErrPermanent ''marshal anomaly''), w)
      | Inr payload \<Rightarrow>
          an_protected_write cfg (an_topic_anomalies cfg) (produce_and_wait (an_topic_anomalies cfg) key payload) w)"

definition an_dead_letter ::
  "anomaly_config \<Rightarrow> anomaly_codec \<Rightarrow> string \<Rightarrow> exn \<Rightarrow> string \<Rightarrow> string \<Rightarrow> anomaly_world \<Rightarrow>
   (exn + unit) \<times> anomaly_world" where
  "an_dead_letter cfg cd raw_payload cause stage correlation_id w =
     (let rec = \<lparr>dl_original_payload = ac_decode cd raw_payload, dl_error = cause,
                 dl_error_type = TRANSIENT_ERROR, dl_service = ''anomaly-detector'',
                 dl_processing_stage = stage, dl_retry_count = 0, dl_timestamp = utc_at (clock w),
                 dl_correlation_id = correlation_id, dl_source_topic = ''telemetry.processed''\<rparr>
      in produce_and_wait (an_topic_dead_letter cfg) correlation_id (ac_dead cd rec) w)"

section \<open>Processing a message\<close>

text \<open>
  Detection on one claimed event: catalog lookup, baseline, feature vector, forest, detectors.
\<close>

definition an_detect ::
  "anomaly_config \<Rightarrow> real normalized_telemetry \<Rightarrow> anomaly_world \<Rightarrow> (exn + detection list) \<times> anomaly_world" where
  "an_detect cfg evt w =
     (let info = catalog_lookup (aw_catalog w) (te_device_id evt);
          rng = (case info of None \<Rightarrow> empty_range
                 | Some i \<Rightarrow> (case di_ranges i (te_metric evt) of None \<Rightarrow> empty_range | Some r \<Rightarrow> r));
          has_range = (case info of None \<Rightarrow> False | Some i \<Rightarrow> di_ranges i (te_metric evt) \<noteq> None)
      in case trackers_update (te_device_id evt) (te_metric evt) (te_reading evt) (aw_trackers w) of
           (Inl e, ts) \<Rightarrow> (Inl e, w\<lparr>aw_trackers := ts\<rparr>)
         | (Inr (z_score, sample_count), ts) \<Rightarrow>
             (let w1 = w\<lparr>aw_trackers := ts\<rparr>;
                  (vector, w2) =
                    (case info of
                       None \<Rightarrow> (None, w1)
                     | Some i \<Rightarrow>
                         (case observe (te_device_id evt) (di_machine_type i) (te_metric evt) (te_reading evt)
                                 (features_for (aw_catalog w) (di_machine_type i)) (aw_features w1) of
                            ((vec, observed), fs) \<Rightarrow>
                              (if observed then map_option (\<lambda>v. (v, di_machine_type i)) vec else None,
                               w1\<lparr>aw_features := fs\<rparr>)));
                  forest =
                    (case vector of
                       None \<Rightarrow> Inr None
                     | Some (vec, mt) \<Rightarrow>
                         (case forest_get (aw_forests w2) mt of
                            None \<Rightarrow> Inr None
                          | Some f \<Rightarrow> (case score vec f of Inl e \<Rightarrow> Inl e | Inr s \<Rightarrow> Inr (Some s))))
              in case forest of
                   Inl e \<Rightarrow> (Inl e, w2)
                 | Inr fsc \<Rightarrow>
                     (run_detectors (te_reading evt) rng has_range z_score sample_count cfg
                        (case fsc of None \<Rightarrow> 0 | Some s \<Rightarrow> s) (fsc \<noteq> None), w2)))"

definition anomaly_of ::
  "real normalized_telemetry \<Rightarrow> detection list \<Rightarrow> string \<Rightarrow> datetime \<Rightarrow> anomaly_detected" where
  "anomaly_of evt results anomaly_id now =
     (case combine_detections results of
        (severity, worst, methods, reason) \<Rightarrow>
          \<lparr>ad_anomaly_id = anomaly_id, ad_event_id = te_event_id evt, ad_organization_id = te_organization_id evt,
           ad_factory_id = te_factory_id evt, ad_production_line_id = te_production_line_id evt,
           ad_machine_id = te_machine_id evt, ad_device_id = te_device_id evt, ad_sensor_id = te_sensor_id evt,
           ad_metric = te_metric evt, ad_reading = te_reading evt, ad_severity = severity, ad_score = worst,
           ad_methods = methods, ad_reason = reason, ad_detected_at = now\<rparr>)"

definition count_methods :: "detection list \<Rightarrow> anomaly_world \<Rightarrow> anomaly_world" where
  "count_methods results w = fold (\<lambda>r w. inc (''anomalies_detected_total:'' @ dt_method r) w) results w"

definition an_give_up ::
  "anomaly_config \<Rightarrow> anomaly_codec \<Rightarrow> string \<Rightarrow> exn \<Rightarrow> string \<Rightarrow> string \<Rightarrow> anomaly_world \<Rightarrow>
   (exn + bool) \<times> anomaly_world" where
  "an_give_up cfg cd raw cause stage correlation_id w =
     (case an_dead_letter cfg cd raw cause stage correlation_id w of
        (Inl _, w') \<Rightarrow> (Inr False, w')
      | (Inr _, w') \<Rightarrow> (Inr True, inc ''dlq_messages_total'' w'))"

definition an_announce ::
  "anomaly_config \<Rightarrow> anomaly_codec \<Rightarrow> string \<Rightarrow> real normalized_telemetry \<Rightarrow> detection list \<Rightarrow> anomaly_world \<Rightarrow>
   (exn + bool) \<times> anomaly_world" where
  "an_announce cfg cd raw evt results w =
     (if results = [] then (Inr True, w)
      else
        let w1 = count_methods results w;
            anomaly = anomaly_of evt results (aw_uuids w1 (aw_uuid_tick w1)) (utc_at (clock w1));
            w2 = w1\<lparr>aw_uuid_tick := Suc (aw_uuid_tick w1)\<rparr>
        in case publish_anomaly cfg cd (te_device_id evt) anomaly w2 of
             (Inl e, w3) \<Rightarrow>
               an_give_up cfg cd raw e ''publish_anomaly'' (te_event_id evt)
                 (inc ''messages_failed_total:publish_anomaly'' w3)
           | (Inr _, w3) \<Rightarrow> (Inr True, w3))"

definition an_process_message ::
  "anomaly_config \<Rightarrow> anomaly_codec \<Rightarrow> string \<Rightarrow> anomaly_world \<Rightarrow> (exn + bool) \<times> anomaly_world" where
  "an_process_message cfg cd raw w0 =
     (let w = inc ''messages_consumed_total'' w0
      in case ac_parse cd raw of
           Inl e \<Rightarrow> an_give_up cfg cd raw e ''unmarshal'' [] (inc ''messages_failed_total:unmarshal'' w)
         | Inr evt \<Rightarrow>
             (case claim_telemetry_event_once (te_event_id evt) w of
                (Inl e, w') \<Rightarrow> (Inr False, w')
              | (Inr claimed, w') \<Rightarrow>
                  if \<not> claimed then (Inr True, w')
                  else (case an_detect cfg evt w' of
                          (Inl e, w'') \<Rightarrow> (Inl e, w'')
                        | (Inr results, w'') \<Rightarrow> an_announce cfg cd raw evt results w'')))"

definition an_consume_loop ::
  "anomaly_config \<Rightarrow> anomaly_codec \<Rightarrow> string poll list \<Rightarrow> anomaly_world \<Rightarrow> string loop_result \<times> anomaly_world" where
  "an_consume_loop cfg cd polls w = consume_loop (an_process_message cfg cd) polls w"

section \<open>The durable ledger\<close>

interpretation pg_ledger: durable_ledger
  "\<lambda>t key rows. insert_key key rows" "\<lambda>t rows key. (ANOMALY_DEDUP_SCOPE, key) \<in> set rows"
  by unfold_locales (auto simp: insert_key_def split: if_splits)

text \<open>
  The ledger of event identifiers grants every identifier exactly once: of any claims, in any
  order, those granted are distinct and are the identifiers that were not in the table before.
\<close>

theorem claims_granted_exactly_once:
  "distinct (fst (run_claims (\<lambda>t key rows. insert_key key rows) (map (Pair 0) keys) rows)) \<and>
   set (fst (run_claims (\<lambda>t key rows. insert_key key rows) (map (Pair 0) keys) rows)) =
     {k. k \<in> set keys \<and> (ANOMALY_DEDUP_SCOPE, k) \<notin> set rows}"
proof -
  let ?xs = "map (Pair (0::real)) keys"
  let ?granted = "fst (run_claims (\<lambda>t key rows. insert_key key rows) ?xs rows)"
  have s: "sorted (map fst ?xs)"
    by (induction keys) auto
  have "distinct ?granted" and "\<forall>k\<in>set ?granted. (ANOMALY_DEDUP_SCOPE, k) \<notin> set rows"
    using pg_ledger.granted_once [OF s, of rows] by auto
  moreover have "k \<in> set ?granted" if "k \<in> set keys" and "(ANOMALY_DEDUP_SCOPE, k) \<notin> set rows" for k
    using that by (intro pg_ledger.granted_complete [of 0 k ?xs 0]) auto
  moreover have "set ?granted \<subseteq> set keys"
    using granted_subset [of _ ?xs rows] by force
  ultimately show ?thesis
    by auto
qed

section \<open>What the operations keep\<close>

definition aw_extends :: "anomaly_world \<Rightarrow> anomaly_world \<Rightarrow> bool" where
  "aw_extends w w' \<longleftrightarrow>
     topics_grow w w' \<and> net w' = net w \<and> aw_ledger w' = aw_ledger w \<and> aw_trackers w' = aw_trackers w \<and>
     aw_features w' = aw_features w"

lemma aw_extends_refl [simp, intro]: "aw_extends w w"
  by (simp add: aw_extends_def)

lemma aw_extends_trans [trans]: "aw_extends a b \<Longrightarrow> aw_extends b c \<Longrightarrow> aw_extends a c"
  unfolding aw_extends_def by (auto intro: topics_grow_trans)

lemma aw_extends_upd [simp]:
  "aw_extends w (w'\<lparr>aw_breaker := cb\<rparr>) = aw_extends w w'"
  "aw_extends w (w'\<lparr>aw_uuid_tick := n\<rparr>) = aw_extends w w'"
  "aw_extends w (inc l w') = aw_extends w w'"
  "aw_extends w (sleep d w') = aw_extends w w'"
  by (simp_all add: aw_extends_def topics_grow_def inc_def sleep_def)

lemma aw_inc [simp]:
  "aw_ledger (inc l w) = aw_ledger w" "aw_trackers (inc l w) = aw_trackers w" "aw_features (inc l w) = aw_features w"
  "aw_pg (inc l w) = aw_pg w" "aw_pg_tick (inc l w) = aw_pg_tick w"
  by (simp_all add: inc_def)

lemma count_methods_extends [simp]: "aw_extends w (count_methods rs w') = aw_extends w w'"
  unfolding count_methods_def by (induction rs arbitrary: w') simp_all

lemma aw_extends_produce: "aw_extends w0 w \<Longrightarrow> aw_extends w0 (snd (produce_and_wait t k p w))"
proof (rule aw_extends_trans)
  show "aw_extends w (snd (produce_and_wait t k p w))"
    by (auto simp: aw_extends_def topics_grow_def produce_and_wait_def append_to_def Let_def split: delivery.split)
qed

lemma aw_extends_protected:
  assumes "\<And>w'. aw_extends w w' \<Longrightarrow> aw_extends w (snd (fn w'))"
  shows "aw_extends w (snd (an_protected_write cfg t fn w))"
  using guarded_invariant [of "aw_extends w" fn sleep w] assms
  by (simp add: an_protected_write_def split: prod.split) (metis snd_conv)

lemma aw_extends_publish: "aw_extends w (snd (publish_anomaly cfg cd k a w))"
  by (auto simp: publish_anomaly_def intro!: aw_extends_protected aw_extends_produce split: sum.split)

lemma aw_extends_give_up: "aw_extends w (snd (an_give_up cfg cd raw e st c w))"
  using aw_extends_produce [OF aw_extends_refl]
  by (auto simp: an_give_up_def an_dead_letter_def Let_def split: prod.split sum.split) (metis snd_conv)+

lemma aw_extends_announce: "aw_extends w (snd (an_announce cfg cd raw evt rs w))"
proof -
  let ?w1 = "count_methods rs w"
  let ?a = "anomaly_of evt rs (aw_uuids ?w1 (aw_uuid_tick ?w1)) (utc_at (clock ?w1))"
  let ?w2 = "?w1\<lparr>aw_uuid_tick := Suc (aw_uuid_tick ?w1)\<rparr>"
  obtain r w3 where p: "publish_anomaly cfg cd (te_device_id evt) ?a ?w2 = (r, w3)" by fastforce
  have "aw_extends ?w2 w3"
    using aw_extends_publish [of ?w2 cfg cd] p by (metis snd_conv)
  then have w3: "aw_extends w w3"
    by (rule aw_extends_trans [rotated]) simp
  have "aw_extends w (snd (an_give_up cfg cd raw e st c (inc l w3)))" for e st c l
    using aw_extends_trans [OF _ aw_extends_give_up] w3 by simp
  with w3 show ?thesis
    by (simp add: an_announce_def Let_def p split: sum.split)
qed

lemma an_detect_effect:
  assumes "an_detect cfg evt w = (r, w')"
  shows "topics w' = topics w" and "net w' = net w" and "aw_ledger w' = aw_ledger w" and "clock w' = clock w"
    and "aw_trackers w' = snd (trackers_update (te_device_id evt) (te_metric evt) (te_reading evt) (aw_trackers w))"
proof -
  obtain q ts where t: "trackers_update (te_device_id evt) (te_metric evt) (te_reading evt) (aw_trackers w) = (q, ts)"
    by fastforce
  note d = assms [unfolded an_detect_def Let_def t]
  show "topics w' = topics w" "net w' = net w" "aw_ledger w' = aw_ledger w" "clock w' = clock w"
    "aw_trackers w' = snd (trackers_update (te_device_id evt) (te_metric evt) (te_reading evt) (aw_trackers w))"
    using d by (auto simp: t split: sum.splits option.splits prod.splits)
qed

lemma claim_effect:
  assumes "claim_telemetry_event_once k w = (r, w')"
  shows "topics w' = topics w" and "net w' = net w" and "aw_trackers w' = aw_trackers w"
    and "aw_features w' = aw_features w" and "clock w' = clock w"
    and "set (aw_ledger w') = set (aw_ledger w) \<or> set (aw_ledger w') = insert (ANOMALY_DEDUP_SCOPE, k) (set (aw_ledger w))"
    and "r = Inr b \<Longrightarrow> (ANOMALY_DEDUP_SCOPE, k) \<in> set (aw_ledger w')"
    and "r = Inr b \<Longrightarrow> b = ((ANOMALY_DEDUP_SCOPE, k) \<notin> set (aw_ledger w))"
  using assms by (auto simp: claim_telemetry_event_once_def insert_key_def Let_def split: reply.splits if_splits)

lemma an_process_event:
  assumes "ac_parse cd raw = Inr evt"
    and "claim_telemetry_event_once (te_event_id evt) (inc ''messages_consumed_total'' w) = (r, w1)"
  shows "an_process_message cfg cd raw w =
    (case r of
       Inl e \<Rightarrow> (Inr False, w1)
     | Inr b \<Rightarrow>
         if \<not> b then (Inr True, w1)
         else (case an_detect cfg evt w1 of
                 (Inl e, w2) \<Rightarrow> (Inl e, w2) | (Inr results, w2) \<Rightarrow> an_announce cfg cd raw evt results w2))"
  using assms by (simp add: an_process_message_def split: sum.split)

section \<open>Each event reaches the baselines at most once\<close>

definition an_claimed :: "anomaly_world \<Rightarrow> string \<Rightarrow> bool" where
  "an_claimed w event_id \<longleftrightarrow> (ANOMALY_DEDUP_SCOPE, event_id) \<in> set (aw_ledger w)"

definition baseline_request :: "real normalized_telemetry \<Rightarrow> reading_request" where
  "baseline_request evt = (te_device_id evt, te_metric evt, te_reading evt)"

text \<open>One message: at most one claim, and the baseline moves only on a granted one.\<close>

lemma an_process_message_effect:
  assumes "an_process_message cfg cd raw w = (r, w')"
  shows "topics_grow w w' \<and> net w' = net w \<and>
    (aw_trackers w' = aw_trackers w \<and> aw_features w' = aw_features w \<and>
       (\<forall>k. an_claimed w k \<longrightarrow> an_claimed w' k) \<or>
     (\<exists>evt. ac_parse cd raw = Inr evt \<and> \<not> an_claimed w (te_event_id evt) \<and>
        (\<forall>k. an_claimed w' k = (an_claimed w k \<or> k = te_event_id evt)) \<and>
        aw_trackers w' = snd (trackers_update (te_device_id evt) (te_metric evt) (te_reading evt) (aw_trackers w))))"
proof (cases "ac_parse cd raw")
  case (Inl e)
  let ?w = "inc ''messages_failed_total:unmarshal'' (inc ''messages_consumed_total'' w)"
  have "aw_extends ?w w'"
    using aw_extends_give_up [of ?w cfg cd raw e "''unmarshal''" "[]"] assms Inl by (simp add: an_process_message_def)
  then show ?thesis
    by (simp add: aw_extends_def topics_grow_def an_claimed_def)
next
  case (Inr evt)
  let ?w = "inc ''messages_consumed_total'' w"
  obtain q w1 where c: "claim_telemetry_event_once (te_event_id evt) ?w = (q, w1)" by fastforce
  note eff = claim_effect [OF c]
  note m = assms [unfolded an_process_event [OF Inr c]]
  show ?thesis
  proof (cases "q = Inr True")
    case False
    then have "w' = w1"
      using m by (auto split: sum.splits if_splits)
    then show ?thesis
      using eff(1-4,6) by (auto simp: topics_grow_def an_claimed_def)
  next
    case True
    obtain d w2 where d: "an_detect cfg evt w1 = (d, w2)" by fastforce
    note de = an_detect_effect [OF d]
    have ext: "aw_extends w2 w'"
      using m True d aw_extends_announce [of w2 cfg cd raw evt] by (auto split: sum.splits) (metis snd_conv)
    have "set (aw_ledger w1) = insert (ANOMALY_DEDUP_SCOPE, te_event_id evt) (set (aw_ledger w))"
      using eff(6) eff(7) [OF True] by auto
    moreover have "\<not> an_claimed w (te_event_id evt)"
      using eff(8) [OF True] by (simp add: an_claimed_def)
    ultimately show ?thesis
      using de eff(1-3) ext Inr unfolding aw_extends_def topics_grow_def an_claimed_def
      by (intro conjI disjI2 exI [of _ evt]) auto
  qed
qed

text \<open>What the loop fed the trackers with: the events \<open>evts\<close>, from the messages \<open>polls\<close>, in this order.\<close>

definition baseline_fed ::
  "anomaly_codec \<Rightarrow> string poll list \<Rightarrow> anomaly_world \<Rightarrow> statistical_trackers \<Rightarrow> real normalized_telemetry list \<Rightarrow> bool" where
  "baseline_fed cd polls w ts evts \<longleftrightarrow>
     distinct (map te_event_id evts) \<and> (\<forall>e\<in>set evts. \<not> an_claimed w (te_event_id e)) \<and>
     (\<forall>e\<in>set evts. \<exists>raw. Poll_msg raw \<in> set polls \<and> ac_parse cd raw = Inr e) \<and>
     ts = run_updates (\<lambda>(device_id, metric, v). trackers_update device_id metric v) (map baseline_request evts) (aw_trackers w)"

lemma baseline_fed_nothing: "baseline_fed cd polls w (aw_trackers w) []"
  by (simp add: baseline_fed_def)

lemma baseline_fed_later: "baseline_fed cd ps w ts evts \<Longrightarrow> baseline_fed cd (p # ps) w ts evts"
  by (auto simp: baseline_fed_def)

lemma baseline_fed_message:
  assumes "an_process_message cfg cd raw w = (q, w1)" and "baseline_fed cd ps w1 ts evts"
  shows "\<exists>evts. baseline_fed cd (Poll_msg raw # ps) w ts evts"
proof -
  consider "aw_trackers w1 = aw_trackers w" "\<forall>k. an_claimed w k \<longrightarrow> an_claimed w1 k"
    | evt where "ac_parse cd raw = Inr evt" "\<not> an_claimed w (te_event_id evt)"
      "\<forall>k. an_claimed w1 k = (an_claimed w k \<or> k = te_event_id evt)"
      "aw_trackers w1 = snd (trackers_update (te_device_id evt) (te_metric evt) (te_reading evt) (aw_trackers w))"
    using an_process_message_effect [OF assms(1)] by blast
  then show ?thesis
  proof cases
    case 1
    with assms(2) show ?thesis
      by (intro exI [of _ evts]) (auto simp: baseline_fed_def)
  next
    case 2
    with assms(2) show ?thesis
      by (intro exI [of _ "evt # evts"]) (auto simp: baseline_fed_def baseline_request_def [of evt])
  qed
qed

lemma loop_feeds_baseline:
  "consume_loop (an_process_message cfg cd) polls w = (r, w') \<Longrightarrow> \<exists>evts. baseline_fed cd polls w (aw_trackers w') evts"
proof (induction polls arbitrary: w r w')
  case Nil
  then show ?case using baseline_fed_nothing by auto
next
  case (Cons p ps)
  show ?case
  proof (cases p)
    case (Poll_msg raw)
    obtain q w1 where m: "an_process_message cfg cd raw w = (q, w1)" by fastforce
    have "\<exists>evts. baseline_fed cd ps w1 (aw_trackers w') evts"
    proof (cases q)
      case (Inl e)
      then show ?thesis
        using Cons.prems m Poll_msg baseline_fed_nothing by auto
    next
      case (Inr b)
      obtain r' w2 where "consume_loop (an_process_message cfg cd) ps w1 = (r', w2)" by fastforce
      then show ?thesis
        using Cons.prems m Poll_msg Inr Cons.IH [of w1 r' w2] by (auto split: bool.splits)
    qed
    then show ?thesis
      using baseline_fed_message [OF m] Poll_msg by blast
  qed (use Cons.IH Cons.prems baseline_fed_later in \<open>simp_all, blast+\<close>)
qed

text \<open>
  C20. However often telemetry is delivered again, each event identifier moves the statistical
  baseline at most once, and never if it was claimed before: after any run of the consumer loop the
  trackers are those that one update per event of some list of events with distinct, previously
  unclaimed identifiers would give.
\<close>

theorem baseline_sees_each_event_once:
  assumes "an_consume_loop cfg cd polls w = (r, w')"
  shows "\<exists>evts. distinct (map te_event_id evts) \<and> (\<forall>e\<in>set evts. \<not> an_claimed w (te_event_id e)) \<and>
    (\<forall>e\<in>set evts. \<exists>raw. Poll_msg raw \<in> set polls \<and> ac_parse cd raw = Inr e) \<and>
    aw_trackers w' =
      run_updates (\<lambda>(device_id, metric, v). trackers_update device_id metric v) (map baseline_request evts) (aw_trackers w)"
  using loop_feeds_baseline [OF assms [unfolded an_consume_loop_def]] by (simp add: baseline_fed_def)

text \<open>A small concrete deployment: one device with a range, every dependency answers.\<close>

definition demo_reading :: "string \<Rightarrow> real normalized_telemetry" where
  "demo_reading i =
     \<lparr>te_event_id = i, te_organization_id = ''o'', te_factory_id = ''f'', te_production_line_id = ''l'',
      te_machine_id = ''m'', te_device_id = ''d'', te_sensor_id = ''s'', te_timestamp = Some (Aware 63000000000000000),
      te_sequence_number = 1, te_metric = ''rpm'', te_reading = 250, te_unit = ''rpm'',
      nt_correlation_id = i, nt_ingested_at = Aware 63000000000000000, nt_schema_version = 1\<rparr>"

definition demo_anomaly_codec :: anomaly_codec where
  "demo_anomaly_codec =
     \<lparr>ac_parse = (\<lambda>raw. if raw = [] then Inl (ValidationError []) else Inr (demo_reading raw)),
      ac_dump = (\<lambda>e. Inr (ad_event_id e)), ac_dead = dl_correlation_id, ac_decode = (\<lambda>s. s)\<rparr>"

definition demo_anomaly_config :: anomaly_config where
  "demo_anomaly_config = load_anomaly_config Map.empty"

definition demo_catalog :: catalog where
  "demo_catalog = catalog_refresh [(''d'', ''pump'', ''rpm'', 0, 100)]"

definition demo_anomaly_world :: "(nat \<Rightarrow> delivery) \<Rightarrow> anomaly_world" where
  "demo_anomaly_world n =
     \<lparr>topics = (\<lambda>t. []), net = n, tick = 0, clock = 0, counters = (\<lambda>c. 0),
      aw_ledger = [], aw_pg = (\<lambda>k. Reply_ok), aw_pg_tick = 0, aw_breaker = new_breaker 5 15,
      aw_catalog = demo_catalog, aw_trackers = new_trackers (1 / 10), aw_features = new_feature_store 512,
      aw_forests = [], aw_uuids = str_nat, aw_uuid_tick = 0\<rparr>"

theorem baseline_sees_each_event_once_witness:
  "\<exists>evts. distinct (map te_event_id evts) \<and>
    aw_trackers (snd (an_consume_loop demo_anomaly_config demo_anomaly_codec [Poll_msg ''e'', Poll_msg ''e'']
        (demo_anomaly_world (\<lambda>k. Delivered)))) =
      run_updates (\<lambda>(device_id, metric, v). trackers_update device_id metric v) (map baseline_request evts)
        (new_trackers (1 / 10))"
proof -
  let ?w = "demo_anomaly_world (\<lambda>k. Delivered)"
  obtain r w' where l: "an_consume_loop demo_anomaly_config demo_anomaly_codec [Poll_msg ''e'', Poll_msg ''e''] ?w = (r, w')"
    by fastforce
  have "aw_trackers ?w = new_trackers (1 / 10)"
    by (simp add: demo_anomaly_world_def)
  then show ?thesis
    using baseline_sees_each_event_once [OF l] by (auto simp: l)
qed

section \<open>What a granted claim leads to\<close>

lemma an_produced:
  assumes "produce_and_wait t k p w = (ok, w')"
  shows "net_ok w' \<longrightarrow> (k, p) \<in> set (topics w' t)"
proof -
  have "net w' = net w"
    using produce_frame(1) [of t k p w] assms by simp
  then show ?thesis
    using produce_ok' [OF assms] net_ok_cong by blast
qed

lemma publish_anomaly_ok:
  assumes "publish_anomaly cfg cd k a w = (ok, w')" and "net_ok w"
  shows "\<exists>p. ac_dump cd a = Inr p \<and> (k, p) \<in> set (topics w' (an_topic_anomalies cfg))"
proof -
  obtain p where p: "ac_dump cd a = Inr p"
    using assms(1) by (auto simp: publish_anomaly_def split: sum.splits)
  obtain cb w1 where g: "guarded_call (KafkaPublishError (''circuit breaker open for kafka topic '' @ an_topic_anomalies cfg))
      (an_kafka_max_retries cfg) (an_kafka_retry_base_delay_seconds cfg)
      (produce_and_wait (an_topic_anomalies cfg) k p) sleep clock (aw_breaker w) w = (ok, cb, w1)"
    and w': "w' = w1\<lparr>aw_breaker := cb\<rparr>"
    using assms(1) p by (auto simp: publish_anomaly_def an_protected_write_def split: prod.splits)
  have "net_ok w1 \<longrightarrow> (k, p) \<in> set (topics w1 (an_topic_anomalies cfg))"
    using guarded_success [OF an_produced g] .
  moreover have "net w' = net w"
    using aw_extends_publish [of w cfg cd k a] assms(1) by (simp add: aw_extends_def)
  ultimately show ?thesis
    using assms(2) p w' net_ok_cong [of w1 w] by auto
qed

lemma an_give_up_commits:
  assumes "an_give_up cfg cd raw e st c w = (Inr True, w')" and "net_ok w"
  shows "\<exists>rec. dl_correlation_id rec = c \<and> dl_original_payload rec = ac_decode cd raw \<and>
    dl_processing_stage rec = st \<and> (c, ac_dead cd rec) \<in> set (topics w' (an_topic_dead_letter cfg))"
proof -
  let ?rec = "\<lparr>dl_original_payload = ac_decode cd raw, dl_error = e,
                 dl_error_type = TRANSIENT_ERROR, dl_service = ''anomaly-detector'',
                 dl_processing_stage = st, dl_retry_count = 0, dl_timestamp = utc_at (clock w),
                 dl_correlation_id = c, dl_source_topic = ''telemetry.processed''\<rparr>"
  obtain w1 where p: "produce_and_wait (an_topic_dead_letter cfg) c (ac_dead cd ?rec) w = (ok, w1)"
    and "w' = inc ''dlq_messages_total'' w1"
    using assms(1) by (auto simp: an_give_up_def an_dead_letter_def Let_def split: prod.splits sum.splits)
  then show ?thesis
    using produce_ok' [OF p assms(2)] by (intro exI [of _ ?rec]) simp
qed

lemma an_announce_commits:
  assumes "an_announce cfg cd raw evt rs w = (Inr True, w')" and "net_ok w" and "rs \<noteq> []"
  shows "(\<exists>i now p. ac_dump cd (anomaly_of evt rs i now) = Inr p \<and>
      (te_device_id evt, p) \<in> set (topics w' (an_topic_anomalies cfg))) \<or>
    (\<exists>rec. dl_correlation_id rec = te_event_id evt \<and> dl_original_payload rec = ac_decode cd raw \<and>
      (te_event_id evt, ac_dead cd rec) \<in> set (topics w' (an_topic_dead_letter cfg)))"
proof -
  let ?w1 = "count_methods rs w"
  let ?a = "anomaly_of evt rs (aw_uuids ?w1 (aw_uuid_tick ?w1)) (utc_at (clock ?w1))"
  let ?w2 = "?w1\<lparr>aw_uuid_tick := Suc (aw_uuid_tick ?w1)\<rparr>"
  obtain r w3 where p: "publish_anomaly cfg cd (te_device_id evt) ?a ?w2 = (r, w3)" by fastforce
  have "aw_extends w ?w2"
    by simp
  then have n2: "net_ok ?w2"
    using assms(2) unfolding aw_extends_def net_ok_def by simp
  have "aw_extends ?w2 w3"
    using aw_extends_publish [of ?w2 cfg cd] p by (metis snd_conv)
  then have n3: "net_ok w3"
    using n2 unfolding aw_extends_def net_ok_def by simp
  show ?thesis
  proof (cases "r = ok")
    case True
    then have "w' = w3"
      using assms(1,3) by (simp add: an_announce_def Let_def p)
    then show ?thesis
      using publish_anomaly_ok [of cfg cd "te_device_id evt" ?a ?w2 w3] p True n2 by blast
  next
    case False
    then obtain e where "an_give_up cfg cd raw e ''publish_anomaly'' (te_event_id evt)
        (inc ''messages_failed_total:publish_anomaly'' w3) = (Inr True, w')"
      using assms(1,3) by (cases r) (auto simp: an_announce_def Let_def p)
    then show ?thesis
      using an_give_up_commits n3 net_ok_cong [of "inc ''messages_failed_total:publish_anomaly'' w3" w3] by fastforce
  qed
qed

text \<open>
  An event committed on a granted claim was run through the detectors exactly as the state after
  the claim prescribes, and if any of them fired then the combined anomaly has been published under
  the device's key, or the message dead-lettered.
\<close>

theorem granted_event_is_judged:
  assumes "an_process_message cfg cd raw w = (Inr True, w')" and "net_ok w"
    and "ac_parse cd raw = Inr evt" and "\<not> an_claimed w (te_event_id evt)"
  shows "\<exists>w1 rs. claim_telemetry_event_once (te_event_id evt) (inc ''messages_consumed_total'' w) = (Inr True, w1) \<and>
    fst (an_detect cfg evt w1) = Inr rs \<and>
    (rs = [] \<and> topics w' = topics w \<or>
     (\<exists>i now p. ac_dump cd (anomaly_of evt rs i now) = Inr p \<and>
        (te_device_id evt, p) \<in> set (topics w' (an_topic_anomalies cfg))) \<or>
     (\<exists>rec. dl_correlation_id rec = te_event_id evt \<and> dl_original_payload rec = ac_decode cd raw \<and>
        (te_event_id evt, ac_dead cd rec) \<in> set (topics w' (an_topic_dead_letter cfg))))"
proof -
  obtain q w1 where c: "claim_telemetry_event_once (te_event_id evt) (inc ''messages_consumed_total'' w) = (q, w1)"
    by fastforce
  note eff = claim_effect [OF c]
  note m = assms(1) [unfolded an_process_event [OF assms(3) c]]
  then obtain b where q: "q = Inr b"
    by (auto split: sum.splits)
  then have b
    using eff(8) [of b] assms(4) by (simp add: an_claimed_def)
  obtain d w2 where d: "an_detect cfg evt w1 = (d, w2)" by fastforce
  obtain rs where rs: "d = Inr rs" and a: "an_announce cfg cd raw evt rs w2 = (Inr True, w')"
    using m q \<open>b\<close> d by (cases d) auto
  have "net_ok w2" and t: "topics w2 = topics w"
    using an_detect_effect(1,2) [OF d] eff(1,2) assms(2) by (auto simp: net_ok_def)
  then show ?thesis
    using an_announce_commits [OF a] c q \<open>b\<close> d rs a
    by (intro exI [of _ w1] exI [of _ rs]) (cases "rs = []"; auto simp: an_announce_def)
qed

section \<open>Committed means in the ledger or dead-lettered\<close>

definition an_handled :: "anomaly_config \<Rightarrow> anomaly_codec \<Rightarrow> string \<Rightarrow> anomaly_world \<Rightarrow> bool" where
  "an_handled cfg cd raw w \<longleftrightarrow>
     (case ac_parse cd raw of
        Inr evt \<Rightarrow> an_claimed w (te_event_id evt)
      | Inl _ \<Rightarrow> \<exists>rec. dl_original_payload rec = ac_decode cd raw \<and> dl_processing_stage rec = ''unmarshal'' \<and>
          ([], ac_dead cd rec) \<in> set (topics w (an_topic_dead_letter cfg)))"

interpretation an_commits: commit_discipline "an_process_message cfg cd" "an_handled cfg cd" net_ok
  for cfg cd
proof
  fix w m r w'
  assume w: "net_ok w" and p: "an_process_message cfg cd m w = (r, w')"
  note e = an_process_message_effect [OF p]
  show "net_ok w'"
    using e w by (simp add: net_ok_def)
next
  fix w m w'
  assume w: "net_ok w" and p: "an_process_message cfg cd m w = (Inr True, w')"
  show "an_handled cfg cd m w'"
  proof (cases "ac_parse cd m")
    case (Inl e)
    let ?w = "inc ''messages_failed_total:unmarshal'' (inc ''messages_consumed_total'' w)"
    have "an_give_up cfg cd m e ''unmarshal'' [] ?w = (Inr True, w')"
      using p Inl by (simp add: an_process_message_def)
    moreover have "net_ok ?w"
      using w by (simp add: net_ok_def)
    ultimately show ?thesis
      using an_give_up_commits Inl unfolding an_handled_def by fastforce
  next
    case (Inr evt)
    obtain q w1 where c: "claim_telemetry_event_once (te_event_id evt) (inc ''messages_consumed_total'' w) = (q, w1)"
      by fastforce
    then obtain b where q: "q = Inr b"
      using p by (auto simp: an_process_event [OF Inr c] split: sum.splits)
    have led: "(ANOMALY_DEDUP_SCOPE, te_event_id evt) \<in> set (aw_ledger w1)"
      using claim_effect(7) [OF c q] .
    obtain d w2 where d: "an_detect cfg evt w1 = (d, w2)" by fastforce
    have "aw_ledger w' = aw_ledger w1"
      using p q an_detect_effect(3) [OF d] aw_extends_announce [of w2 cfg cd m evt]
      by (auto simp: an_process_event [OF Inr c] d aw_extends_def split: sum.splits if_splits) (metis snd_conv)
    then show ?thesis
      using led Inr by (simp add: an_handled_def an_claimed_def)
  qed
next
  fix w m m' r w'
  assume h: "an_handled cfg cd m w" and p: "an_process_message cfg cd m' w = (r, w')"
  note e = an_process_message_effect [OF p]
  show "an_handled cfg cd m w'"
    using h e unfolding an_handled_def topics_grow_def by (auto split: sum.splits)
qed


section \<open>A claimed event is never judged again\<close>

text \<open>
  The claim is durable and is not undone when the announcement fails. Once an identifier is in the
  ledger, every later delivery is committed without detection, publication or dead-lettering, so an
  anomaly whose publication and dead-lettering both failed is lost although its offset was held.
\<close>

theorem claimed_event_is_skipped:
  assumes "ac_parse cd raw = Inr evt" and "an_claimed w (te_event_id evt)" and "aw_pg w (aw_pg_tick w) = Reply_ok"
  shows "\<exists>w'. an_process_message cfg cd raw w = (Inr True, w') \<and> topics w' = topics w \<and>
    aw_trackers w' = aw_trackers w \<and> aw_features w' = aw_features w \<and> aw_ledger w' = aw_ledger w"
proof -
  let ?w = "inc ''messages_consumed_total'' w"
  have "claim_telemetry_event_once (te_event_id evt) ?w =
      (Inr False, ?w\<lparr>aw_pg_tick := Suc (aw_pg_tick ?w), aw_ledger := aw_ledger ?w\<rparr>)"
    using assms(2,3) by (simp add: claim_telemetry_event_once_def insert_key_def an_claimed_def)
  then show ?thesis
    by (simp add: an_process_event [OF assms(1)])
qed

theorem claimed_event_is_skipped_witness:
  "\<exists>w'. an_process_message demo_anomaly_config demo_anomaly_codec ''e''
      ((demo_anomaly_world (\<lambda>k. Delivered))\<lparr>aw_ledger := [(ANOMALY_DEDUP_SCOPE, ''e'')]\<rparr>) = (Inr True, w') \<and>
    topics w' = (\<lambda>t. [])"
  using claimed_event_is_skipped [of demo_anomaly_codec "''e''" "demo_reading ''e''"
      "(demo_anomaly_world (\<lambda>k. Delivered))\<lparr>aw_ledger := [(ANOMALY_DEDUP_SCOPE, ''e'')]\<rparr>" demo_anomaly_config]
  by (auto simp: demo_anomaly_codec_def demo_anomaly_world_def demo_reading_def an_claimed_def)

lemmas demo_an_defs = demo_reading_def demo_anomaly_codec_def demo_anomaly_world_def demo_anomaly_config_def
  demo_catalog_def load_anomaly_config_def env_int_def env_str_def env_float_def

lemmas an_defs = an_process_message_def an_detect_def an_announce_def claim_telemetry_event_once_def insert_key_def
  catalog_refresh_def catalog_lookup_def features_for_def trackers_update_def tracker_for_def new_trackers_def
  ewma_update_def new_tracker_def observe_def new_feature_store_def training_snapshot_def trim_buffer_def
  forest_get_def run_detectors_def stat_check_def rule_check_def not_fired_def clamp01_def detections_of_def
  count_methods_def publish_anomaly_def an_protected_write_def guarded_call_def allow_def new_breaker_def
  retry_with_backoff_def record_success_def produce_and_wait_def append_to_def inc_def

lemma upto_5': "[1..5] = [1, 2, 3, 4, 5::int]"
  by (simp add: upto_rec1)

lemma demo_an_run:
  "\<exists>w. an_process_message demo_anomaly_config demo_anomaly_codec ''e'' (demo_anomaly_world (\<lambda>k. Delivered)) = (Inr True, w)"
  by (simp add: an_defs demo_an_defs upto_5' Let_def)

lemma demo_an_ok: "net_ok (demo_anomaly_world (\<lambda>k. Delivered))"
  by (simp add: net_ok_def demo_anomaly_world_def)

theorem granted_event_is_judged_witness:
  "\<exists>w1 rs. fst (an_detect demo_anomaly_config (demo_reading ''e'') w1) = Inr rs"
proof -
  obtain w where "an_process_message demo_anomaly_config demo_anomaly_codec ''e'' (demo_anomaly_world (\<lambda>k. Delivered)) = (Inr True, w)"
    using demo_an_run by blast
  moreover have "ac_parse demo_anomaly_codec ''e'' = Inr (demo_reading ''e'')"
    by (simp add: demo_anomaly_codec_def)
  moreover have "\<not> an_claimed (demo_anomaly_world (\<lambda>k. Delivered)) (te_event_id (demo_reading ''e''))"
    by (simp add: an_claimed_def demo_anomaly_world_def)
  ultimately show ?thesis
    using granted_event_is_judged [OF _ demo_an_ok] by blast
qed


section \<open>The catalog after a refresh\<close>

type_synonym catalog_row = "string \<times> string \<times> string \<times> real \<times> real"

lemma catalog_loop_append: "catalog_loop (xs @ ys) acc = catalog_loop ys (catalog_loop xs acc)"
  by (induction xs acc rule: catalog_loop.induct) (auto simp: Let_def)

definition metrics_of :: "string \<Rightarrow> catalog_row list \<Rightarrow> string set" where
  "metrics_of mt rows = {m. \<exists>d lo hi. (d, mt, m, lo, hi) \<in> set rows}"

lemma metrics_of_snoc:
  "metrics_of mt (rows @ [(d, t, m, lo, hi)]) = (if t = mt then insert m (metrics_of mt rows) else metrics_of mt rows)"
  by (auto simp: metrics_of_def)

lemma catalog_loop_features:
  "case snd (catalog_loop rows (Map.empty, Map.empty)) mt of
     None \<Rightarrow> metrics_of mt rows = {} | Some ms \<Rightarrow> distinct ms \<and> set ms = metrics_of mt rows"
proof (induction rows rule: rev_induct)
  case (snoc row rows)
  obtain d t m lo hi where row: "row = (d, t, m, lo, hi)" by (cases row)
  obtain devs feats where l: "catalog_loop rows (Map.empty, Map.empty) = (devs, feats)" by fastforce
  show ?case
    using snoc by (auto simp: row catalog_loop_append l Let_def metrics_of_snoc split: option.splits)
qed (simp add: metrics_of_def)

text \<open>The last row of a device and metric gives the range, the first row of a device its type.\<close>

lemma catalog_loop_device:
  "fst (catalog_loop rows (Map.empty, Map.empty)) d =
   (case filter (\<lambda>row. fst row = d) rows of
      [] \<Rightarrow> None
    | first # rest \<Rightarrow>
        Some \<lparr>di_machine_type = fst (snd first),
              di_ranges = map_of (rev (map (\<lambda>(d, t, m, lo, hi). (m, \<lparr>mr_min = lo, mr_max = hi\<rparr>)) (first # rest)))\<rparr>)"
proof (induction rows rule: rev_induct)
  case (snoc row rows)
  obtain d' t m lo hi where row: "row = (d', t, m, lo, hi)" by (cases row)
  obtain devs feats where l: "catalog_loop rows (Map.empty, Map.empty) = (devs, feats)" by fastforce
  show ?case
    using snoc by (auto simp: row catalog_loop_append l Let_def split: list.splits)
qed simp

text \<open>
  After a refresh the features of a machine type are the metrics of its sensors, each once and in
  ascending order, and a device is known exactly if the query returned a row for it; its range for a
  metric is that of the last row for the two.
\<close>

theorem catalog_refresh_correct:
  "sorted (features_for (catalog_refresh rows) mt) \<and> distinct (features_for (catalog_refresh rows) mt) \<and>
   set (features_for (catalog_refresh rows) mt) = metrics_of mt rows \<and>
   catalog_lookup (catalog_refresh rows) d =
     (case filter (\<lambda>row. fst row = d) rows of
        [] \<Rightarrow> None
      | first # rest \<Rightarrow>
          Some \<lparr>di_machine_type = fst (snd first),
                di_ranges = map_of (rev (map (\<lambda>(d, t, m, lo, hi). (m, \<lparr>mr_min = lo, mr_max = hi\<rparr>)) (first # rest)))\<rparr>)"
proof -
  obtain devs feats where l: "catalog_loop rows (Map.empty, Map.empty) = (devs, feats)" by fastforce
  show ?thesis
    using catalog_loop_features [where rows = rows and mt = mt] catalog_loop_device [where rows = rows and d = d]
    by (auto simp: catalog_refresh_def catalog_lookup_def features_for_def l split: option.splits)
qed

end
