(* ===== verification/Alert_Rules.thy ===== *)
theory Alert_Rules
  imports Events Interfaces
begin

text \<open>
  \<open>services/alert-service\<close>: \<open>rules.py\<close> (alert rules and their cache), \<open>conditions.py\<close> and
  \<open>anomalycount.py\<close> (the sliding-window counter of \<open>ANOMALY_COUNT\<close> rules).
\<close>

section \<open>Rules\<close>

record alert_rule =
  rl_id :: string
  rl_organization_id :: string
  rl_name :: string
  rl_metric :: string
  rl_condition :: string
  rl_threshold_value :: "real option"
  rl_threshold_min :: "real option"
  rl_threshold_max :: "real option"
  rl_severity :: severity
  rl_cooldown_seconds :: int
  rl_window_seconds :: int
  rl_machine_id :: "string option"
  rl_device_id :: "string option"
  rl_sensor_id :: "string option"

definition scope_matches :: "alert_rule \<Rightarrow> string \<Rightarrow> string \<Rightarrow> string \<Rightarrow> bool" where
  "scope_matches rule machine_id device_id sensor_id =
     (if rl_machine_id rule \<noteq> None \<and> rl_machine_id rule \<noteq> Some machine_id then False
      else if rl_device_id rule \<noteq> None \<and> rl_device_id rule \<noteq> Some device_id then False
      else if rl_sensor_id rule \<noteq> None \<and> rl_sensor_id rule \<noteq> Some sensor_id then False
      else True)"

text \<open>A row of \<open>alert_rules\<close>; the cache reads the active ones.\<close>

record rule_row =
  rr_rule :: alert_rule
  rr_is_active :: bool

definition active_rules :: "rule_row list \<Rightarrow> alert_rule list" where
  "active_rules rows = map rr_rule (filter rr_is_active rows)"

type_synonym rule_cache = "string \<Rightarrow> alert_rule list option"

text \<open>\<open>by_key.setdefault(key, []).append(rule)\<close>\<close>

definition add_rule :: "alert_rule \<Rightarrow> rule_cache \<Rightarrow> rule_cache" where
  "add_rule rule by_key =
     (let k = bar_key (rl_organization_id rule) (rl_metric rule)
      in by_key(k \<mapsto> (case by_key k of None \<Rightarrow> [] | Some rs \<Rightarrow> rs) @ [rule]))"

text \<open>The cache after the query answered with these rules.\<close>

definition rules_refresh :: "alert_rule list \<Rightarrow> rule_cache" where
  "rules_refresh rows = fold add_rule rows Map.empty"

definition rules_for :: "rule_cache \<Rightarrow> string \<Rightarrow> string \<Rightarrow> alert_rule list" where
  "rules_for by_key org_id metric = (case by_key (bar_key org_id metric) of None \<Rightarrow> [] | Some rs \<Rightarrow> rs)"

text \<open>A tick of \<open>_run_rule_refresher\<close>: an exception of the query keeps the stale rules.\<close>

definition rule_refresher_tick :: "exn + alert_rule list \<Rightarrow> rule_cache \<Rightarrow> rule_cache" where
  "rule_refresher_tick answer cache = (case answer of Inl _ \<Rightarrow> cache | Inr rows \<Rightarrow> rules_refresh rows)"

section \<open>Conditions\<close>

definition condition_matches :: "alert_rule \<Rightarrow> real \<Rightarrow> nat \<Rightarrow> bool" where
  "condition_matches rule reading count_in_window =
     (if rl_condition rule = ''GREATER_THAN'' then
        (case rl_threshold_value rule of None \<Rightarrow> False | Some t \<Rightarrow> reading > t)
      else if rl_condition rule = ''LESS_THAN'' then
        (case rl_threshold_value rule of None \<Rightarrow> False | Some t \<Rightarrow> reading < t)
      else if rl_condition rule = ''OUTSIDE_RANGE'' then
        (case (rl_threshold_min rule, rl_threshold_max rule) of
           (Some lo, Some hi) \<Rightarrow> reading < lo \<or> reading > hi
         | _ \<Rightarrow> False)
      else if rl_condition rule = ''ANOMALY_COUNT'' then
        (case rl_threshold_value rule of None \<Rightarrow> False | Some t \<Rightarrow> real count_in_window \<ge> t)
      else False)"

section \<open>Counting anomalies in a sliding window\<close>

type_synonym count_tracker = "string \<Rightarrow> datetime list option"

text \<open>\<open>[t for t in times if t >= cutoff]\<close>; comparing an aware with a naive time raises.\<close>

fun keep_since :: "datetime \<Rightarrow> datetime list \<Rightarrow> exn + datetime list" where
  "keep_since cutoff [] = Inr []"
| "keep_since cutoff (t # ts) =
     (case dt_less t cutoff of
        Inl e \<Rightarrow> Inl e
      | Inr older \<Rightarrow>
          (case keep_since cutoff ts of
             Inl e \<Rightarrow> Inl e
           | Inr kept \<Rightarrow> Inr (if older then kept else t # kept)))"

text \<open>The step of one key's list.\<close>

definition count_step :: "datetime \<Rightarrow> int \<Rightarrow> datetime list \<Rightarrow> (exn + nat) \<times> datetime list" where
  "count_step now window_seconds seen_at =
     (case dt_sub now (seconds window_seconds) of
        Inl e \<Rightarrow> (Inl e, seen_at)
      | Inr cutoff \<Rightarrow>
          (case keep_since cutoff seen_at of
             Inl e \<Rightarrow> (Inl e, seen_at)
           | Inr kept \<Rightarrow> (Inr (Suc (length kept)), kept @ [now])))"

definition times_of :: "count_tracker \<Rightarrow> string \<Rightarrow> datetime list" where
  "times_of seen key = (case seen key of None \<Rightarrow> [] | Some ts \<Rightarrow> ts)"

definition count_record :: "string \<Rightarrow> datetime \<Rightarrow> int \<Rightarrow> count_tracker \<Rightarrow> (exn + nat) \<times> count_tracker" where
  "count_record key now window_seconds seen =
     (case count_step now window_seconds (times_of seen key) of
        (Inl e, _) \<Rightarrow> (Inl e, seen)
      | (Inr n, seen_at) \<Rightarrow> (Inr n, seen(key \<mapsto> seen_at)))"

section \<open>The rule cache\<close>

lemma times_of_simps [simp]:
  "times_of (seen(k \<mapsto> ts)) k' = (if k' = k then ts else times_of seen k')"
  "times_of Map.empty k = []"
  by (simp_all add: times_of_def)

lemma rules_for_add_rule:
  "rules_for (add_rule r by_key) org metric =
   rules_for by_key org metric @
   (if bar_key (rl_organization_id r) (rl_metric r) = bar_key org metric then [r] else [])"
  by (auto simp: rules_for_def add_rule_def Let_def split: option.split)

lemma rules_for_fold:
  "rules_for (fold add_rule rows by_key) org metric =
   rules_for by_key org metric @
   filter (\<lambda>r. bar_key (rl_organization_id r) (rl_metric r) = bar_key org metric) rows"
  by (induction rows arbitrary: by_key) (auto simp: rules_for_add_rule)

text \<open>
  After a refresh the cache answers a lookup with exactly the active rules of that organization
  and metric, in the order of the rows: rules of another organization are never returned, because
  an organization identifier contains no vertical bar.
\<close>

theorem rules_for_own_organization:
  assumes "CHR ''|'' \<notin> set org" and "\<forall>r\<in>set (active_rules rows). CHR ''|'' \<notin> set (rl_organization_id r)"
  shows "rules_for (rules_refresh (active_rules rows)) org metric =
    map rr_rule (filter (\<lambda>r. rr_is_active r \<and> rl_organization_id (rr_rule r) = org \<and> rl_metric (rr_rule r) = metric) rows)"
proof -
  have key: "bar_key (rl_organization_id r) (rl_metric r) = bar_key org metric \<longleftrightarrow>
      rl_organization_id r = org \<and> rl_metric r = metric" if "r \<in> set (active_rules rows)" for r
    using assms that bar_key_inj [of "rl_organization_id r" org "rl_metric r" metric] by auto
  have "rules_for (rules_refresh (active_rules rows)) org metric =
      filter (\<lambda>r. rl_organization_id r = org \<and> rl_metric r = metric) (active_rules rows)"
    using key unfolding rules_refresh_def rules_for_fold
    by (auto simp: rules_for_def intro: filter_cong)
  then show ?thesis
    by (simp add: active_rules_def filter_map comp_def conj_commute conj_left_commute)
qed

definition demo_rule :: alert_rule where
  "demo_rule =
     \<lparr>rl_id = ''r'', rl_organization_id = ''o'', rl_name = ''hot'', rl_metric = ''temperature'', rl_condition = ''GREATER_THAN'',
      rl_threshold_value = Some 80, rl_threshold_min = None, rl_threshold_max = None, rl_severity = HIGH,
      rl_cooldown_seconds = 300, rl_window_seconds = 300, rl_machine_id = None, rl_device_id = None, rl_sensor_id = None\<rparr>"

theorem rules_for_own_organization_witness:
  "rules_for (rules_refresh (active_rules [\<lparr>rr_rule = demo_rule, rr_is_active = True\<rparr>,
      \<lparr>rr_rule = demo_rule\<lparr>rl_organization_id := ''p''\<rparr>, rr_is_active = True\<rparr>])) ''o'' ''temperature'' = [demo_rule]"
  by (subst rules_for_own_organization) (simp_all add: active_rules_def demo_rule_def)

section \<open>The counter\<close>

type_synonym count_request = "string \<times> datetime \<times> int"

interpretation counts: keyed_store
  "times_of" "\<lambda>(key, now, window). count_record key now window" "fst"
  "\<lambda>(key, now, window). count_step now window"
  by unfold_locales
     (auto simp: count_record_def count_step_def split: prod.splits sum.splits)

definition occurrences_of :: "string \<Rightarrow> int list \<Rightarrow> int \<Rightarrow> count_request list" where
  "occurrences_of key ms window = map (\<lambda>m. (key, Aware m, window)) ms"

lemma keep_since_aware:
  "keep_since (Aware c) (map Aware ms) = Inr (map Aware (filter (\<lambda>m. c \<le> m) ms))"
  by (induction ms) auto

lemma count_step_aware:
  "in_range (m - seconds window) \<Longrightarrow>
   count_step (Aware m) window (map Aware ms) =
     (Inr (Suc (length (filter (\<lambda>t. m - seconds window \<le> t) ms))),
      map Aware (filter (\<lambda>t. m - seconds window \<le> t) ms @ [m]))"
  by (simp add: count_step_def keep_since_aware)

text \<open>The list a key holds after arrivals at the seen_at \<open>ms\<close> within one window length.\<close>

lemma fold_count_step:
  assumes "\<forall>m\<in>set ms. in_range (m - seconds window)"
  shows "\<exists>kept. fold (\<lambda>(key, now, w) v. snd (count_step now w v)) (occurrences_of key ms window) [] = map Aware kept \<and>
    mset kept \<subseteq># mset ms \<and>
    (\<forall>c. (\<forall>m\<in>set ms. m - seconds window \<le> c) \<longrightarrow> filter (\<lambda>t. c \<le> t) kept = filter (\<lambda>t. c \<le> t) ms)"
  using assms
proof (induction ms rule: rev_induct)
  case (snoc m ms)
  let ?f = "\<lambda>ms. fold (\<lambda>(key, now, w) v. snd (count_step now w v)) (occurrences_of key ms window) []"
  obtain kept where k: "?f ms = map Aware kept" "mset kept \<subseteq># mset ms"
    and all: "\<And>c. (\<forall>m\<in>set ms. m - seconds window \<le> c) \<Longrightarrow> filter (\<lambda>t. c \<le> t) kept = filter (\<lambda>t. c \<le> t) ms"
    using snoc by auto
  let ?c = "m - seconds window"
  have f: "?f (ms @ [m]) = map Aware (filter (\<lambda>t. ?c \<le> t) kept @ [m])"
    using k(1) snoc.prems by (simp add: occurrences_of_def count_step_aware)
  have "mset (filter (\<lambda>t. ?c \<le> t) kept @ [m]) \<subseteq># mset (ms @ [m])"
    using k(2) by (simp add: subset_mset.order_trans [OF multiset_filter_subset])
  moreover have "filter (\<lambda>t. c \<le> t) (filter (\<lambda>t. ?c \<le> t) kept @ [m]) = filter (\<lambda>t. c \<le> t) (ms @ [m])"
    if "\<forall>x\<in>set (ms @ [m]). x - seconds window \<le> c" for c
  proof -
    have "filter (\<lambda>t. c \<le> t) (filter (\<lambda>t. ?c \<le> t) kept) = filter (\<lambda>t. c \<le> t) kept"
      using that by (auto simp: filter_filter intro: filter_cong)
    then show ?thesis
      using all [of c] that by simp
  qed
  ultimately show ?case
    unfolding f by blast
qed (simp add: occurrences_of_def)

text \<open>
  C22. Whatever other keys do in between, and in whatever order the times arrive, the counter answers
  an occurrence that is not older than any before it with the number of occurrences of its own key
  within the window ending at it, itself included.
\<close>

theorem count_is_window_count:
  assumes "updates_for fst key reqs = occurrences_of key ms window"
    and "\<forall>m\<in>set (now # ms). in_range (m - seconds window) \<and> m \<le> now"
  shows "fst (count_record key (Aware now) window (run_updates (\<lambda>(key, now, window). count_record key now window) reqs Map.empty)) =
    Inr (Suc (length (filter (\<lambda>m. now - seconds window \<le> m) ms)))"
proof -
  obtain kept where k: "fold (\<lambda>(key, now, w) v. snd (count_step now w v)) (occurrences_of key ms window) [] = map Aware kept"
    and all: "\<And>c. (\<forall>m\<in>set ms. m - seconds window \<le> c) \<Longrightarrow> filter (\<lambda>t. c \<le> t) kept = filter (\<lambda>t. c \<le> t) ms"
    using fold_count_step [of ms window key] assms(2) by auto
  have "fst (count_record key (Aware now) window (run_updates (\<lambda>(key, now, window). count_record key now window) reqs Map.empty)) =
      fst (count_step (Aware now) window (map Aware kept))"
    using counts.result_own_history [of "(key, Aware now, window)" reqs Map.empty] assms(1) k
    by (simp add: case_prod_beta')
  also have "\<dots> = Inr (Suc (length (filter (\<lambda>m. now - seconds window \<le> m) kept)))"
    using assms(2) by (simp add: count_step_aware)
  finally show ?thesis
    using all [of "now - seconds window"] assms(2) by simp
qed

theorem count_is_window_count_witness:
  "fst (count_record ''k'' (Aware 600000000) 300 (run_updates (\<lambda>(key, now, window). count_record key now window)
     [(''k'', Aware 590000000, 300), (''j'', Aware 595000000, 300), (''k'', Aware 310000000, 300)] Map.empty)) = Inr 3"
  using count_is_window_count [of "''k''" "[(''k'', Aware 590000000, 300), (''j'', Aware 595000000, 300), (''k'', Aware 310000000, 300)]"
      "[590000000, 310000000]" 300 600000000]
  by (simp add: occurrences_of_def in_range_def dt_max_def seconds_def)

end
