(* ===== verification/Database.thy ===== *)
theory Database
  imports Broker
begin

text \<open>
  Postgres as the services use it: with autocommit every statement is its own transaction. A store
  operation is a program of statements; it can be run to the end, or interleaved statement by
  statement with the programs of other connections, threads or processes.

  A table is the list of its rows in insertion order. Each execution takes the next reply of a
  sequence: it succeeds, or it raises, with or without having taken effect (a lost connection, or
  a value a foreign key or a column type refuses). \<open>db_ids\<close> is the sequence of \<open>gen_random_uuid\<close>,
  \<open>db_uuid\<close> the parsing of a text into a \<open>uuid\<close> value (\<open>None\<close>: the statement raises a data error)
  and \<open>db_now\<close> the value of \<open>now()\<close> in microseconds.
\<close>

section \<open>Programs of statements\<close>

datatype ('s, 'a) prog = Done 'a | Stmt "'s \<Rightarrow> ('s, 'a) prog \<times> 's"

primrec run :: "('s, 'a) prog \<Rightarrow> 's \<Rightarrow> 'a \<times> 's" where
  "run (Done x) = (\<lambda>s. (x, s))"
| "run (Stmt f) = (\<lambda>s. (\<lambda>(g, s'). g s') ((map_prod run id \<circ> f) s))"

lemma run_Stmt [simp]: "run (Stmt f) s = (case f s of (p, s') \<Rightarrow> run p s')"
  by (simp add: case_prod_beta)

declare run.simps(2) [simp del]

text \<open>\<open>keeps I p\<close>: every statement of the program, in any state with \<open>I\<close>, keeps \<open>I\<close>.\<close>

inductive keeps :: "('s \<Rightarrow> bool) \<Rightarrow> ('s, 'a) prog \<Rightarrow> bool" for I where
  keeps_Done: "keeps I (Done x)"
| keeps_Stmt: "(\<And>s. I s \<Longrightarrow> I (snd (f s))) \<Longrightarrow> (\<And>s. I s \<Longrightarrow> keeps I (fst (f s))) \<Longrightarrow> keeps I (Stmt f)"

declare keeps_Done [simp, intro]

inductive_cases keeps_StmtE [elim!]: "keeps I (Stmt f)"

lemma keeps_run: "keeps I p \<Longrightarrow> I s \<Longrightarrow> I (snd (run p s))"
proof (induction arbitrary: s rule: keeps.induct)
  case (keeps_Stmt f)
  obtain p s' where f: "f s = (p, s')" by fastforce
  have "I s'"
    using keeps_Stmt(1) [OF keeps_Stmt.prems] f by simp
  then show ?case
    using keeps_Stmt(3) [OF keeps_Stmt.prems] f by simp
qed simp

text \<open>Forgetting the result of a program.\<close>

definition discard :: "('s, 'a) prog \<Rightarrow> ('s, unit) prog" where
  "discard p = map_prog (\<lambda>_. ()) p"

lemma discard_simps [simp]:
  "discard (Done x) = Done ()"
  "discard (Stmt f) = Stmt (\<lambda>s. case f s of (p, s') \<Rightarrow> (discard p, s'))"
  by (auto simp: discard_def fun_eq_iff split: prod.split)

lemma keeps_discard: "keeps I p \<Longrightarrow> keeps I (discard p)"
  by (induction rule: keeps.induct) (auto intro!: keeps_Stmt split: prod.split simp: case_prod_beta)

text \<open>One statement of one of the running programs.\<close>

inductive interleave :: "('s, 'a) prog list \<times> 's \<Rightarrow> ('s, 'a) prog list \<times> 's \<Rightarrow> bool" where
  "i < length ps \<Longrightarrow> ps ! i = Stmt f \<Longrightarrow> f s = (p, s') \<Longrightarrow> interleave (ps, s) (ps[i := p], s')"

inductive_cases interleaveE: "interleave (ps, s) c"

text \<open>A shared state that every program keeps is kept by every interleaving.\<close>

lemma interleave_keeps:
  assumes "interleave\<^sup>*\<^sup>* (ps, s) (ps', s')" and "\<forall>p\<in>set ps. keeps I p" and "I s"
  shows "I s' \<and> (\<forall>p\<in>set ps'. keeps I p)"
  using assms
proof (induction rule: rtranclp_induct2)
  case (step qs t qs' t')
  then have I: "I t" and q: "\<forall>p\<in>set qs. keeps I p" by auto
  obtain i f p where i: "i < length qs" "qs ! i = Stmt f" "f t = (p, t')" and qs': "qs' = qs[i := p]"
    using step.hyps(2) by (auto elim: interleaveE)
  have "keeps I (Stmt f)"
    using q i by (metis nth_mem)
  then have "I t'" and "keeps I p"
    using I i(3) by (auto elim!: keeps_StmtE dest: spec)
  then show ?case
    using q qs' set_update_subset_insert [of qs i p] by blast
qed auto

section \<open>Tables\<close>

record alert_row =
  alr_id :: string
  alr_organization_id :: string
  alr_rule_id :: string
  alr_factory_id :: "string option"
  alr_machine_id :: "string option"
  alr_device_id :: "string option"
  alr_sensor_id :: "string option"
  alr_severity :: severity
  alr_status :: string
  alr_title :: string
  alr_description :: string
  alr_dedupe_key :: string
  alr_triggered_at :: int
  alr_escalation_level :: int
  alr_last_escalated_at :: "int option"

record incident_row =
  ir_id :: string
  ir_organization_id :: string
  ir_alert_id :: "string option"
  ir_factory_id :: "string option"
  ir_machine_id :: "string option"
  ir_device_id :: "string option"
  ir_sensor_id :: "string option"
  ir_severity :: severity
  ir_status :: string
  ir_title :: string
  ir_description :: string
  ir_assigned_to :: "string option"
  ir_resolution_notes :: "string option"
  ir_opened_at :: int
  ir_resolved_at :: "int option"
  ir_closed_at :: "int option"

record incident_event_row =
  ie_id :: string
  ie_incident_id :: string
  ie_event_type :: string
  ie_actor_user_id :: "string option"
  ie_old_value :: "string option"
  ie_new_value :: "string option"
  ie_note :: string
  ie_created_at :: int

record database =
  db_alerts :: "alert_row list"
  db_incidents :: "incident_row list"
  db_incident_events :: "incident_event_row list"
  db_now :: int
  db_ids :: "nat \<Rightarrow> string"
  db_next :: nat
  db_uuid :: "string \<Rightarrow> string option"
  db_replies :: "nat \<Rightarrow> reply"
  db_tick :: nat

section \<open>Statements\<close>

type_synonym 'a statement = "database \<Rightarrow> (exn + 'a) \<times> database"

definition exec :: "'a statement \<Rightarrow> 'a statement" where
  "exec q db =
     (let reply = db_replies db (db_tick db);
          db0 = db\<lparr>db_tick := Suc (db_tick db)\<rparr>;
          (r, db') = q db0
      in case reply of Reply_ok \<Rightarrow> (r, db') | Reply_raises e took \<Rightarrow> (Inl e, if took then db' else db0))"

text \<open>Execute a statement and go on with its answer; an exception ends the program.\<close>

definition stmt :: "'a statement \<Rightarrow> ('a \<Rightarrow> (database, exn + 'b) prog) \<Rightarrow> (database, exn + 'b) prog" where
  "stmt q k = Stmt (\<lambda>db. case exec q db of (Inl e, db') \<Rightarrow> (Done (Inl e), db') | (Inr x, db') \<Rightarrow> (k x, db'))"

lemma run_stmt [simp]:
  "run (stmt q k) db = (case exec q db of (Inl e, db') \<Rightarrow> (Inl e, db') | (Inr x, db') \<Rightarrow> run (k x) db')"
  by (simp add: stmt_def split: prod.split sum.split)

definition null_if_empty :: "string \<Rightarrow> string option" where
  "null_if_empty s = (if s = [] then None else Some s)"

text \<open>\<open>COALESCE(c::text, '')\<close>\<close>

definition coalesce :: "string option \<Rightarrow> string" where
  "coalesce c = (case c of None \<Rightarrow> [] | Some s \<Rightarrow> s)"

lemma coalesce_simps [simp]: "coalesce None = []" "coalesce (Some s) = s"
  by (simp_all add: coalesce_def)

text \<open>A text used where the column is a \<open>uuid\<close>.\<close>

definition with_uuid :: "string \<Rightarrow> (string \<Rightarrow> 'a statement) \<Rightarrow> 'a statement" where
  "with_uuid s q db = (case db_uuid db s of None \<Rightarrow> (Inl DataError, db) | Some u \<Rightarrow> q u db)"

text \<open>The same for a nullable column.\<close>

definition with_uuid_option :: "string option \<Rightarrow> (string option \<Rightarrow> 'a statement) \<Rightarrow> 'a statement" where
  "with_uuid_option s q db =
     (case s of None \<Rightarrow> q None db | Some t \<Rightarrow> (case db_uuid db t of None \<Rightarrow> (Inl DataError, db) | Some u \<Rightarrow> q (Some u) db))"

text \<open>A property of the tables that a statement keeps is kept by its execution.\<close>

definition table_inv :: "(database \<Rightarrow> bool) \<Rightarrow> bool" where
  "table_inv I \<longleftrightarrow> (\<forall>db n. I (db\<lparr>db_tick := n\<rparr>) = I db)"

definition stmt_keeps :: "(database \<Rightarrow> bool) \<Rightarrow> 'a statement \<Rightarrow> bool" where
  "stmt_keeps I q \<longleftrightarrow> (\<forall>db. I db \<longrightarrow> I (snd (q db)))"

lemma exec_keeps: "table_inv I \<Longrightarrow> stmt_keeps I q \<Longrightarrow> I db \<Longrightarrow> I (snd (exec q db))"
  by (auto simp: exec_def table_inv_def stmt_keeps_def Let_def split: prod.split reply.split)
     (metis snd_conv)+

lemma keeps_stmt:
  assumes "table_inv I" and "stmt_keeps I q" and "\<And>x. keeps I (k x)"
  shows "keeps I (stmt q k)"
  unfolding stmt_def
proof (rule keeps_Stmt)
  fix db assume "I db"
  then show "I (snd (case exec q db of (Inl e, db') \<Rightarrow> (Done (Inl e), db') | (Inr x, db') \<Rightarrow> (k x, db')))"
    using exec_keeps [OF assms(1,2), of db] by (auto split: prod.split sum.split)
  show "keeps I (fst (case exec q db of (Inl e, db') \<Rightarrow> (Done (Inl e), db') | (Inr x, db') \<Rightarrow> (k x, db')))"
    using assms(3) by (auto split: prod.split sum.split)
qed

lemma stmt_keeps_uuid [intro]: "(\<And>u. stmt_keeps I (q u)) \<Longrightarrow> stmt_keeps I (with_uuid s q)"
  by (auto simp: stmt_keeps_def with_uuid_def split: option.split)

lemma stmt_keeps_uuid_option [intro]: "(\<And>u. stmt_keeps I (q u)) \<Longrightarrow> stmt_keeps I (with_uuid_option s q)"
  by (auto simp: stmt_keeps_def with_uuid_option_def split: option.split)

lemma exec_ok:
  "db_replies db (db_tick db) = Reply_ok \<Longrightarrow> exec q db = q (db\<lparr>db_tick := Suc (db_tick db)\<rparr>)"
  by (simp add: exec_def split: prod.split)

text \<open>Every statement is answered.\<close>

definition all_ok :: "database \<Rightarrow> bool" where
  "all_ok db \<longleftrightarrow> (\<forall>i. db_replies db i = Reply_ok)"

lemma all_ok_tick [simp]: "all_ok (db\<lparr>db_tick := n\<rparr>) = all_ok db"
  by (simp add: all_ok_def)

lemma exec_all_ok: "all_ok db \<Longrightarrow> exec q db = q (db\<lparr>db_tick := Suc (db_tick db)\<rparr>)"
  by (simp add: exec_ok all_ok_def)

text \<open>A statement that answered was executed.\<close>

lemma exec_answered: "exec q db = (Inr x, db') \<Longrightarrow> q (db\<lparr>db_tick := Suc (db_tick db)\<rparr>) = (Inr x, db')"
  by (auto simp: exec_def Let_def split: reply.splits prod.splits)

end
