(* ===== verification/Alert_Store.thy ===== *)
theory Alert_Store
  imports Database
begin

text \<open>
  \<open>services/alert-service/store.py\<close>: alert creation with deduplication and cooldown, the escalation
  query and update, and the severity ladder; and the one other statement of the repository that
  changes an alert, the acknowledgement of \<open>services/api/handlers_alerts.py\<close>. Times are
  microseconds. The clock of the Python process, read after the first statement of
  \<open>create_if_due\<close>, is the argument \<open>now\<close>; \<open>db_now\<close> is the clock of Postgres.
\<close>

section \<open>State\<close>

record alert =
  at_organization_id :: string
  at_severity :: severity
  at_factory_id :: string
  at_machine_id :: string
  at_device_id :: string
  at_sensor_id :: string
  at_title :: string
  at_description :: string
  at_id :: string
  at_status :: string
  at_triggered_at :: "int option"
  at_escalation_level :: int

datatype create_result = CREATED | SUPPRESSED_OPEN | SUPPRESSED_COOLDOWN

section \<open>The severity ladder\<close>

definition severity_ladder :: "severity list" where
  "severity_ladder = [WARNING, HIGH, CRITICAL]"

fun next_on :: "severity list \<Rightarrow> severity \<Rightarrow> severity" where
  "next_on (a # b # rest) current = (if a = current then b else next_on (b # rest) current)"
| "next_on _ current = current"

definition next_severity :: "severity \<Rightarrow> severity" where
  "next_severity current = next_on severity_ladder current"

section \<open>Statements\<close>

text \<open>The alerts of one rule and deduplication key, and those of them that are open.\<close>

definition alert_for :: "string \<Rightarrow> string \<Rightarrow> alert_row \<Rightarrow> bool" where
  "alert_for rule key r \<longleftrightarrow> alr_rule_id r = rule \<and> alr_dedupe_key r = key"

definition open_for :: "string \<Rightarrow> string \<Rightarrow> alert_row \<Rightarrow> bool" where
  "open_for rule key r \<longleftrightarrow> alert_for rule key r \<and> alr_status r = ''OPEN''"

text \<open>\<open>ORDER BY triggered_at DESC LIMIT 1\<close>\<close>

definition latest_alert :: "string \<Rightarrow> string \<Rightarrow> alert_row list \<Rightarrow> alert_row option" where
  "latest_alert rule key rows =
     (case sort_key (\<lambda>r. - alr_triggered_at r) (filter (alert_for rule key) rows) of [] \<Rightarrow> None | r # _ \<Rightarrow> Some r)"

definition select_latest :: "string \<Rightarrow> string \<Rightarrow> (string \<times> int) option statement" where
  "select_latest rule_id dedupe_key =
     with_uuid rule_id (\<lambda>rule db.
       (Inr (map_option (\<lambda>r. (alr_status r, alr_triggered_at r)) (latest_alert rule dedupe_key (db_alerts db))), db))"

definition insert_alert :: "string \<Rightarrow> alert \<Rightarrow> string \<Rightarrow> (string \<times> int) option statement" where
  "insert_alert rule_id alert dedupe_key =
     with_uuid (at_organization_id alert) (\<lambda>org.
     with_uuid rule_id (\<lambda>rule.
     with_uuid_option (null_if_empty (at_factory_id alert)) (\<lambda>factory.
     with_uuid_option (null_if_empty (at_machine_id alert)) (\<lambda>machine.
     with_uuid_option (null_if_empty (at_device_id alert)) (\<lambda>device.
     with_uuid_option (null_if_empty (at_sensor_id alert)) (\<lambda>sensor db.
       if \<exists>r\<in>set (db_alerts db). open_for rule dedupe_key r then (Inr None, db)
       else
         let new_id = db_ids db (db_next db);
             row = \<lparr>alr_id = new_id, alr_organization_id = org, alr_rule_id = rule, alr_factory_id = factory,
                    alr_machine_id = machine, alr_device_id = device, alr_sensor_id = sensor,
                    alr_severity = at_severity alert, alr_status = ''OPEN'', alr_title = at_title alert,
                    alr_description = at_description alert, alr_dedupe_key = dedupe_key,
                    alr_triggered_at = db_now db, alr_escalation_level = 0, alr_last_escalated_at = None\<rparr>
         in (Inr (Some (new_id, db_now db)), db\<lparr>db_alerts := db_alerts db @ [row], db_next := Suc (db_next db)\<rparr>)))))))"

text \<open>\<open>COALESCE(last_escalated_at, triggered_at) < now() - make_interval(secs => after_seconds)\<close>\<close>

definition escalation_due :: "int \<Rightarrow> int \<Rightarrow> alert_row \<Rightarrow> bool" where
  "escalation_due now after_seconds r \<longleftrightarrow>
     alr_status r = ''OPEN'' \<and> alr_escalation_level r < 2 \<and>
     (case alr_last_escalated_at r of None \<Rightarrow> alr_triggered_at r | Some t \<Rightarrow> t) < now - after_seconds * 1000000"

text \<open>The columns the escalation query selects; the others keep the defaults of the class.\<close>

definition escalation_candidate :: "alert_row \<Rightarrow> alert" where
  "escalation_candidate r =
     \<lparr>at_organization_id = alr_organization_id r, at_severity = alr_severity r, at_factory_id = [],
      at_machine_id = coalesce (alr_machine_id r), at_device_id = coalesce (alr_device_id r), at_sensor_id = [],
      at_title = alr_title r, at_description = alr_description r, at_id = alr_id r, at_status = [],
      at_triggered_at = Some (alr_triggered_at r), at_escalation_level = alr_escalation_level r\<rparr>"

definition select_due :: "int \<Rightarrow> alert list statement" where
  "select_due after_seconds db =
     (Inr (map escalation_candidate (filter (escalation_due (db_now db) after_seconds) (db_alerts db))), db)"

definition escalated_row :: "severity \<Rightarrow> int \<Rightarrow> alert_row \<Rightarrow> alert_row" where
  "escalated_row new_severity now r =
     r\<lparr>alr_severity := new_severity, alr_escalation_level := alr_escalation_level r + 1, alr_last_escalated_at := Some now\<rparr>"

definition update_escalated :: "string \<Rightarrow> severity \<Rightarrow> unit statement" where
  "update_escalated alert_id new_severity =
     with_uuid alert_id (\<lambda>u db.
       (ok, db\<lparr>db_alerts := map (\<lambda>r. if alr_id r = u then escalated_row new_severity (db_now db) r else r) (db_alerts db)\<rparr>))"

text \<open>The acknowledgement, answering the number of rows it changed.\<close>

definition acknowledgeable :: "string \<Rightarrow> string \<Rightarrow> alert_row \<Rightarrow> bool" where
  "acknowledgeable u org r \<longleftrightarrow> alr_id r = u \<and> alr_organization_id r = org \<and> alr_status r = ''OPEN''"

definition update_acknowledged :: "string \<Rightarrow> string \<Rightarrow> nat statement" where
  "update_acknowledged alert_id org_id =
     with_uuid alert_id (\<lambda>u. with_uuid org_id (\<lambda>org db.
       (Inr (length (filter (acknowledgeable u org) (db_alerts db))),
        db\<lparr>db_alerts := map (\<lambda>r. if acknowledgeable u org r then r\<lparr>alr_status := ''ACKNOWLEDGED''\<rparr> else r) (db_alerts db)\<rparr>)))"

section \<open>The store's operations\<close>

definition create_if_due ::
  "int \<Rightarrow> string \<Rightarrow> int \<Rightarrow> alert \<Rightarrow> string \<Rightarrow> (database, exn + (create_result \<times> alert option)) prog" where
  "create_if_due now rule_id cooldown_seconds alert dedupe_key =
     stmt (select_latest rule_id dedupe_key) (\<lambda>row.
       let insert =
         stmt (insert_alert rule_id alert dedupe_key) (\<lambda>inserted. case inserted of
           None \<Rightarrow> Done (Inr (SUPPRESSED_OPEN, None))
         | Some (new_id, triggered_at) \<Rightarrow>
             Done (Inr (CREATED, Some (alert\<lparr>at_id := new_id, at_triggered_at := Some triggered_at, at_status := ''OPEN''\<rparr>))))
       in case row of
            None \<Rightarrow> insert
          | Some (last_status, last_triggered_at) \<Rightarrow>
              if last_status \<noteq> ''RESOLVED'' then Done (Inr (SUPPRESSED_OPEN, None))
              else if now - last_triggered_at < seconds cooldown_seconds then Done (Inr (SUPPRESSED_COOLDOWN, None))
              else insert)"

definition due_for_escalation :: "int \<Rightarrow> (database, exn + alert list) prog" where
  "due_for_escalation after_seconds = stmt (select_due after_seconds) (\<lambda>x. Done (Inr x))"

definition escalate :: "string \<Rightarrow> severity \<Rightarrow> (database, exn + unit) prog" where
  "escalate alert_id new_severity = stmt (update_escalated alert_id new_severity) (\<lambda>_. Done ok)"

definition acknowledge :: "string \<Rightarrow> string \<Rightarrow> (database, exn + nat) prog" where
  "acknowledge org_id alert_id = stmt (update_acknowledged alert_id org_id) (\<lambda>n. Done (Inr n))"

section \<open>At most one open alert per condition\<close>

definition alerts_ok :: "database \<Rightarrow> bool" where
  "alerts_ok db \<longleftrightarrow> (\<forall>rule key. length (filter (open_for rule key) (db_alerts db)) \<le> 1)"

lemma table_inv_alerts [simp]: "table_inv alerts_ok"
  by (simp add: table_inv_def alerts_ok_def)

lemma keeps_alert_selects [simp]: "stmt_keeps I (select_latest rule key)" "stmt_keeps I (select_due secs)"
  unfolding select_latest_def select_due_def
  by (intro stmt_keeps_uuid) (simp_all add: stmt_keeps_def)

lemma length_filter_map_le:
  assumes "\<And>r. P (f r) \<Longrightarrow> P r"
  shows "length (filter P (map f rs)) \<le> length (filter P rs)"
  using assms by (induction rs) (auto intro: le_SucI)

lemma keeps_insert_alert: "stmt_keeps alerts_ok (insert_alert rule_id alert key)"
  unfolding insert_alert_def
proof (intro stmt_keeps_uuid stmt_keeps_uuid_option, unfold stmt_keeps_def Let_def, intro allI impI)
  fix org rule factory machine device sensor db
  assume ok: "alerts_ok db"
  have none: "filter (open_for rule key) (db_alerts db) = []" if "\<not> (\<exists>r\<in>set (db_alerts db). open_for rule key r)"
    using that by (simp add: filter_empty_conv)
  show "alerts_ok (snd (if \<exists>r\<in>set (db_alerts db). open_for rule key r then (Inr None, db)
    else (Inr (Some (db_ids db (db_next db), db_now db)), db\<lparr>db_alerts := db_alerts db @
      [\<lparr>alr_id = db_ids db (db_next db), alr_organization_id = org, alr_rule_id = rule, alr_factory_id = factory,
        alr_machine_id = machine, alr_device_id = device, alr_sensor_id = sensor, alr_severity = at_severity alert,
        alr_status = ''OPEN'', alr_title = at_title alert, alr_description = at_description alert, alr_dedupe_key = key,
        alr_triggered_at = db_now db, alr_escalation_level = 0, alr_last_escalated_at = None\<rparr>],
      db_next := Suc (db_next db)\<rparr>)))"
    using ok none by (auto simp: alerts_ok_def open_for_def alert_for_def)
qed

lemma keeps_update_alerts:
  assumes "\<And>rule key r. open_for rule key (f r) \<Longrightarrow> open_for rule key r" and "alerts_ok db"
  shows "alerts_ok (db\<lparr>db_alerts := map f (db_alerts db)\<rparr>)"
  unfolding alerts_ok_def
proof (intro allI)
  fix rule key
  have "length (filter (open_for rule key) (map f (db_alerts db))) \<le> length (filter (open_for rule key) (db_alerts db))"
    by (rule length_filter_map_le) (rule assms(1))
  also have "\<dots> \<le> 1"
    using assms(2) by (simp add: alerts_ok_def)
  finally show "length (filter (open_for rule key) (db_alerts (db\<lparr>db_alerts := map f (db_alerts db)\<rparr>))) \<le> 1"
    by simp
qed

lemma keeps_update_escalated: "stmt_keeps alerts_ok (update_escalated i s)"
  unfolding update_escalated_def
  by (intro stmt_keeps_uuid, unfold stmt_keeps_def, intro allI impI, simp, rule keeps_update_alerts)
     (auto simp: open_for_def alert_for_def escalated_row_def split: if_splits)

lemma keeps_update_acknowledged: "stmt_keeps alerts_ok (update_acknowledged i org)"
  unfolding update_acknowledged_def
  by (intro stmt_keeps_uuid, unfold stmt_keeps_def, intro allI impI, simp, rule keeps_update_alerts)
     (auto simp: open_for_def alert_for_def split: if_splits)

lemmas keeps_alert_statements = keeps_insert_alert keeps_update_escalated keeps_update_acknowledged

text \<open>The operations on alerts, whatever they are called with, as programs without a result.\<close>

definition alert_op :: "(database, unit) prog \<Rightarrow> bool" where
  "alert_op p \<longleftrightarrow>
     (\<exists>now rule cooldown a key. p = discard (create_if_due now rule cooldown a key)) \<or>
     (\<exists>secs. p = discard (due_for_escalation secs)) \<or>
     (\<exists>i s. p = discard (escalate i s)) \<or> (\<exists>org i. p = discard (acknowledge org i))"

lemma keeps_create_if_due: "keeps alerts_ok (create_if_due now rule cooldown a key)"
  by (auto simp: create_if_due_def Let_def intro!: keeps_stmt keeps_alert_statements split: option.split)

lemma alert_op_keeps: "alert_op p \<Longrightarrow> keeps alerts_ok p"
  unfolding alert_op_def due_for_escalation_def escalate_def acknowledge_def
  by (elim disjE exE) (auto intro!: keeps_discard keeps_create_if_due keeps_stmt keeps_alert_statements)

lemma alert_op_intros [intro]:
  "alert_op (discard (create_if_due now rule cooldown a key))" "alert_op (discard (due_for_escalation secs))"
  "alert_op (discard (escalate i s))" "alert_op (discard (acknowledge org i))"
  unfolding alert_op_def by blast+


definition demo_alert_database :: "alert_row list \<Rightarrow> database" where
  "demo_alert_database rows =
     \<lparr>db_alerts = rows, db_incidents = [], db_incident_events = [], db_now = 900000000, db_ids = str_nat, db_next = 2,
      db_uuid = (\<lambda>s. if s = [] then None else Some s), db_replies = (\<lambda>i. Reply_ok), db_tick = 0\<rparr>"

definition demo_alert_row :: "string \<Rightarrow> alert_row" where
  "demo_alert_row st =
     \<lparr>alr_id = ''1'', alr_organization_id = ''o'', alr_rule_id = ''r'', alr_factory_id = None, alr_machine_id = Some ''m'',
      alr_device_id = Some ''d'', alr_sensor_id = None, alr_severity = HIGH, alr_status = st, alr_title = ''hot'',
      alr_description = [], alr_dedupe_key = ''k'', alr_triggered_at = 0, alr_escalation_level = 0, alr_last_escalated_at = None\<rparr>"

definition demo_new_alert :: alert where
  "demo_new_alert =
     \<lparr>at_organization_id = ''o'', at_severity = HIGH, at_factory_id = [], at_machine_id = ''m'', at_device_id = ''d'',
      at_sensor_id = [], at_title = ''hot'', at_description = [], at_id = [], at_status = [], at_triggered_at = None,
      at_escalation_level = 0\<rparr>"


section \<open>When an alert is created\<close>

lemma exec_with_uuid:
  assumes "all_ok db" and "db_uuid db s = Some u"
  shows "exec (with_uuid s q) db = q u (db\<lparr>db_tick := Suc (db_tick db)\<rparr>)"
  using assms by (simp add: exec_all_ok with_uuid_def)

text \<open>The alert's identifiers can be stored.\<close>

definition storable :: "database \<Rightarrow> string \<Rightarrow> alert \<Rightarrow> bool" where
  "storable db rule_id a \<longleftrightarrow>
     db_uuid db rule_id \<noteq> None \<and> db_uuid db (at_organization_id a) \<noteq> None \<and>
     (\<forall>s\<in>set [at_factory_id a, at_machine_id a, at_device_id a, at_sensor_id a]. s = [] \<or> db_uuid db s \<noteq> None)"

definition cooling_down :: "int \<Rightarrow> int \<Rightarrow> alert_row \<Rightarrow> bool" where
  "cooling_down now cooldown_seconds r \<longleftrightarrow> now - alr_triggered_at r < seconds cooldown_seconds"

definition create_verdict :: "int \<Rightarrow> int \<Rightarrow> string \<Rightarrow> string \<Rightarrow> alert_row list \<Rightarrow> create_result" where
  "create_verdict now cooldown rule key rows =
     (case latest_alert rule key rows of
        None \<Rightarrow> CREATED
      | Some r \<Rightarrow>
          if alr_status r \<noteq> ''RESOLVED'' then SUPPRESSED_OPEN
          else if cooling_down now cooldown r then SUPPRESSED_COOLDOWN
          else if \<exists>q\<in>set rows. open_for rule key q then SUPPRESSED_OPEN else CREATED)"

lemma latest_alert_None: "latest_alert rule key rows = None \<longleftrightarrow> filter (alert_for rule key) rows = []"
proof -
  have "sort_key f xs = [] \<longleftrightarrow> xs = []" for f :: "alert_row \<Rightarrow> int" and xs
    by (metis length_0_conv length_sort)
  then show ?thesis
    by (auto simp: latest_alert_def split: list.splits)
qed

lemma no_open_without_alert: "filter (alert_for rule key) rows = [] \<Longrightarrow> r \<in> set rows \<Longrightarrow> \<not> open_for rule key r"
  by (auto simp: open_for_def filter_empty_conv)

lemma with_uuid_null:
  "s = [] \<or> db_uuid db s \<noteq> None \<Longrightarrow>
   with_uuid_option (null_if_empty s) q db = q (if s = [] then None else db_uuid db s) db"
  by (auto simp: with_uuid_option_def null_if_empty_def)

text \<open>The row an insertion adds.\<close>

definition new_row :: "database \<Rightarrow> alert \<Rightarrow> string \<Rightarrow> string \<Rightarrow> alert_row \<Rightarrow> bool" where
  "new_row db a rule key row \<longleftrightarrow> open_for rule key row \<and> alr_severity row = at_severity a \<and> alr_title row = at_title a \<and>
     alr_triggered_at row = db_now db \<and> alr_id row = db_ids db (db_next db)"

lemma select_latest_run:
  assumes "all_ok db" and "db_uuid db rule_id = Some rule"
  shows "exec (select_latest rule_id key) db =
    (Inr (map_option (\<lambda>r. (alr_status r, alr_triggered_at r)) (latest_alert rule key (db_alerts db))),
     db\<lparr>db_tick := Suc (db_tick db)\<rparr>)"
  by (simp add: select_latest_def exec_with_uuid [OF assms])

lemma insert_alert_run:
  assumes "all_ok db" and "storable db rule_id a" and "db_uuid db rule_id = Some rule"
  shows "\<exists>row. new_row db a rule key row \<and> exec (insert_alert rule_id a key) db =
    (if \<exists>r\<in>set (db_alerts db). open_for rule key r then (Inr None, db\<lparr>db_tick := Suc (db_tick db)\<rparr>)
     else (Inr (Some (db_ids db (db_next db), db_now db)),
           db\<lparr>db_tick := Suc (db_tick db), db_alerts := db_alerts db @ [row], db_next := Suc (db_next db)\<rparr>))"
proof -
  let ?db = "db\<lparr>db_tick := Suc (db_tick db)\<rparr>"
  let ?row = "\<lambda>org factory machine device sensor. \<lparr>alr_id = db_ids db (db_next db), alr_organization_id = org, alr_rule_id = rule, alr_factory_id = factory,
      alr_machine_id = machine, alr_device_id = device, alr_sensor_id = sensor, alr_severity = at_severity a,
      alr_status = ''OPEN'', alr_title = at_title a, alr_description = at_description a, alr_dedupe_key = key,
      alr_triggered_at = db_now db, alr_escalation_level = 0, alr_last_escalated_at = None\<rparr>"
  obtain org where org: "db_uuid db (at_organization_id a) = Some org"
    using assms(2) by (auto simp: storable_def)
  have null: "with_uuid_option (null_if_empty s) q ?db = q (if s = [] then None else db_uuid db s) ?db"
    if "s \<in> set [at_factory_id a, at_machine_id a, at_device_id a, at_sensor_id a]" for s and q :: "string option \<Rightarrow> (string \<times> int) option statement"
    using assms(2) that with_uuid_null [of s ?db q] by (auto simp: storable_def)
  have "\<exists>f m d t. exec (insert_alert rule_id a key) db =
      (if \<exists>r\<in>set (db_alerts db). open_for rule key r then (Inr None, ?db)
       else (Inr (Some (db_ids db (db_next db), db_now db)),
             ?db\<lparr>db_alerts := db_alerts db @ [?row org f m d t], db_next := Suc (db_next db)\<rparr>))"
    using assms(1,3) org by (simp add: exec_all_ok insert_alert_def with_uuid_def null Let_def) blast
  moreover have "new_row db a rule key (?row org f m d t)" for f m d t
    by (simp add: new_row_def open_for_def alert_for_def)
  ultimately show ?thesis
    by (elim exE) (rule exI, rule conjI, assumption, simp)
qed

lemma create_if_due_run:
  assumes "all_ok db" and "storable db rule_id a" and "db_uuid db rule_id = Some rule"
  shows "if create_verdict now cooldown rule key (db_alerts db) = CREATED
    then \<exists>row t. run (create_if_due now rule_id cooldown a key) db =
        (Inr (CREATED, Some (a\<lparr>at_id := alr_id row, at_triggered_at := Some (db_now db), at_status := ''OPEN''\<rparr>)),
         db\<lparr>db_tick := t, db_alerts := db_alerts db @ [row], db_next := Suc (db_next db)\<rparr>) \<and>
      open_for rule key row \<and> alr_severity row = at_severity a \<and> alr_title row = at_title a \<and>
      alr_triggered_at row = db_now db \<and> alr_id row = db_ids db (db_next db)
    else \<exists>t. run (create_if_due now rule_id cooldown a key) db =
        (Inr (create_verdict now cooldown rule key (db_alerts db), None), db\<lparr>db_tick := t\<rparr>)"
proof -
  let ?db1 = "db\<lparr>db_tick := Suc (db_tick db)\<rparr>"
  let ?run = "run (create_if_due now rule_id cooldown a key) db"
  let ?verdict = "create_verdict now cooldown rule key (db_alerts db)"
  note sel = select_latest_run [OF assms(1,3), of key]
  have "all_ok ?db1" and "storable ?db1 rule_id a" and "db_uuid ?db1 rule_id = Some rule"
    using assms by (simp_all add: all_ok_def storable_def)
  from insert_alert_run [OF this, of key] obtain row where row: "new_row ?db1 a rule key row"
    and ins: "exec (insert_alert rule_id a key) ?db1 =
      (if \<exists>r\<in>set (db_alerts db). open_for rule key r then (Inr None, ?db1\<lparr>db_tick := Suc (Suc (db_tick db))\<rparr>)
       else (Inr (Some (db_ids db (db_next db), db_now db)),
             ?db1\<lparr>db_tick := Suc (Suc (db_tick db)), db_alerts := db_alerts db @ [row], db_next := Suc (db_next db)\<rparr>))"
    by auto
  have rid: "alr_id row = db_ids db (db_next db)"
    using row by (simp add: new_row_def)
  note defs = create_if_due_def sel ins create_verdict_def cooling_down_def
  have none: "\<not> (\<exists>r\<in>set (db_alerts db). open_for rule key r)" if "latest_alert rule key (db_alerts db) = None"
    using that no_open_without_alert by (auto simp: latest_alert_None)
  show ?thesis
  proof (cases "?verdict = CREATED")
    case True
    then have created: "?run = (Inr (CREATED, Some (a\<lparr>at_id := alr_id row, at_triggered_at := Some (db_now db), at_status := ''OPEN''\<rparr>)),
        db\<lparr>db_tick := Suc (Suc (db_tick db)), db_alerts := db_alerts db @ [row], db_next := Suc (db_next db)\<rparr>)"
      using none rid by (cases "latest_alert rule key (db_alerts db)") (auto simp: defs split: if_splits)
    have "open_for rule key row \<and> alr_severity row = at_severity a \<and> alr_title row = at_title a \<and>
        alr_triggered_at row = db_now db \<and> alr_id row = db_ids db (db_next db)"
      using row by (simp add: new_row_def)
    then show ?thesis
      unfolding if_P [OF True] by (intro exI) (rule conjI [OF created])
  next
    case False
    then have "?run = (Inr (?verdict, None), ?db1) \<or> ?run = (Inr (?verdict, None), db\<lparr>db_tick := Suc (Suc (db_tick db))\<rparr>)"
      using none by (cases "latest_alert rule key (db_alerts db)") (auto simp: defs split: if_splits)
    then show ?thesis
      unfolding if_not_P [OF False] by (elim disjE) (rule exI, assumption)+
  qed
qed

text \<open>
  An alert is created exactly when the latest alert of its rule and key is resolved and was triggered
  at least the cooldown ago, or there is none, and none is open; then one open row is appended with
  the values of the alert and the caller gets it back with its identifier. Otherwise the answer says
  why it was suppressed and the table is as it was.
\<close>

theorem create_if_due_correct:
  assumes "all_ok db" and "storable db rule_id a" and "db_uuid db rule_id = Some rule"
  shows "\<exists>a' db'. run (create_if_due now rule_id cooldown a key) db =
      (Inr (create_verdict now cooldown rule key (db_alerts db), a'), db') \<and>
    (if create_verdict now cooldown rule key (db_alerts db) = CREATED
     then \<exists>row. db_alerts db' = db_alerts db @ [row] \<and> open_for rule key row \<and> alr_severity row = at_severity a \<and>
       alr_title row = at_title a \<and> alr_triggered_at row = db_now db \<and>
       a' = Some (a\<lparr>at_id := alr_id row, at_triggered_at := Some (db_now db), at_status := ''OPEN''\<rparr>)
     else a' = None \<and> db_alerts db' = db_alerts db)"
  using create_if_due_run [OF assms, of now cooldown key] by (auto split: if_splits)

theorem create_if_due_correct_witness:
  "\<exists>a'. fst (run (create_if_due 400000000 ''r'' 300 demo_new_alert ''k'') (demo_alert_database [demo_alert_row ''RESOLVED''])) =
    Inr (CREATED, a')"
  using create_if_due_correct [of "demo_alert_database [demo_alert_row ''RESOLVED'']" "''r''" demo_new_alert "''r''" 400000000 300 "''k''"]
  by (auto simp: demo_alert_database_def demo_alert_row_def demo_new_alert_def all_ok_def storable_def create_verdict_def
      latest_alert_def alert_for_def cooling_down_def open_for_def seconds_def)

section \<open>A condition alerts once\<close>

text \<open>
  The calls of the repository that change alerts, run one after the other, with the passing of time
  between them.
\<close>

datatype alert_call =
    Create int string int alert string
  | Escalate string severity
  | Acknowledge string string
  | Sweep_query int
  | Pass_time int

fun run_alert_call :: "alert_call \<Rightarrow> database \<Rightarrow> database" where
  "run_alert_call (Create now rule cooldown a key) db = snd (run (create_if_due now rule cooldown a key) db)"
| "run_alert_call (Escalate i s) db = snd (run (escalate i s) db)"
| "run_alert_call (Acknowledge org i) db = snd (run (acknowledge org i) db)"
| "run_alert_call (Sweep_query secs) db = snd (run (due_for_escalation secs) db)"
| "run_alert_call (Pass_time t) db = db\<lparr>db_now := t\<rparr>"

text \<open>The rule and key have these alerts, and none of them is resolved.\<close>

definition alerted :: "(string \<Rightarrow> string option) \<Rightarrow> string \<Rightarrow> string \<Rightarrow> string list \<Rightarrow> database \<Rightarrow> bool" where
  "alerted U rule key ids db \<longleftrightarrow>
     db_uuid db = U \<and> map alr_id (filter (alert_for rule key) (db_alerts db)) = ids \<and>
     (\<forall>r\<in>set (db_alerts db). alert_for rule key r \<longrightarrow> alr_status r \<noteq> ''RESOLVED'')"

lemma table_inv_alerted [simp]: "table_inv (alerted U rule key ids)"
  by (simp add: table_inv_def alerted_def)

lemma filter_map_same:
  assumes "\<And>r. P (f r) = P r" and "\<And>r. g (f r) = g r"
  shows "map g (filter P (map f rs)) = map g (filter P rs)"
  using assms by (induction rs) simp_all

lemma alerted_update:
  assumes "alerted U rule key ids db" and "\<And>r. alert_for rule key (f r) = alert_for rule key r" and "\<And>r. alr_id (f r) = alr_id r"
    and "\<And>r. alr_status r \<noteq> ''RESOLVED'' \<Longrightarrow> alr_status (f r) \<noteq> ''RESOLVED''"
  shows "alerted U rule key ids (db\<lparr>db_alerts := map f (db_alerts db)\<rparr>)"
  using assms filter_map_same [of "alert_for rule key" f alr_id "db_alerts db"] by (auto simp: alerted_def)

lemma alerted_escalate: "stmt_keeps (alerted U rule key ids) (update_escalated i s)"
  unfolding update_escalated_def
  by (intro stmt_keeps_uuid, unfold stmt_keeps_def, intro allI impI, simp, erule alerted_update)
     (auto simp: alert_for_def escalated_row_def)

lemma alerted_acknowledge: "stmt_keeps (alerted U rule key ids) (update_acknowledged i org)"
  unfolding update_acknowledged_def
  by (intro stmt_keeps_uuid, unfold stmt_keeps_def, intro allI impI, simp, erule alerted_update)
     (auto simp: alert_for_def)

lemma stmt_keeps_known_uuid:
  assumes "\<And>db. I db \<Longrightarrow> db_uuid db = U" and "\<And>u. U s = Some u \<Longrightarrow> stmt_keeps I (q u)"
  shows "stmt_keeps I (with_uuid s q)"
  unfolding stmt_keeps_def
proof (intro allI impI)
  fix db
  assume I: "I db"
  show "I (snd (with_uuid s q db))"
    using I assms(1) [OF I] assms(2) by (auto simp: with_uuid_def stmt_keeps_def split: option.split)
qed

lemma alerted_uuid: "alerted U rule key ids db \<Longrightarrow> db_uuid db = U"
  by (simp add: alerted_def)

lemma alerted_insert_other:
  assumes "\<not> (U rule_id = Some rule \<and> key' = key)"
  shows "stmt_keeps (alerted U rule key ids) (insert_alert rule_id a key')"
  unfolding insert_alert_def
proof (intro stmt_keeps_uuid stmt_keeps_known_uuid [OF alerted_uuid] stmt_keeps_uuid_option, assumption)
  fix org rule' factory machine device sensor
  assume "U rule_id = Some rule'"
  then show "stmt_keeps (alerted U rule key ids) (\<lambda>db.
      if \<exists>r\<in>set (db_alerts db). open_for rule' key' r then (Inr None, db)
      else let new_id = db_ids db (db_next db);
             row = \<lparr>alr_id = new_id, alr_organization_id = org, alr_rule_id = rule', alr_factory_id = factory,
                    alr_machine_id = machine, alr_device_id = device, alr_sensor_id = sensor,
                    alr_severity = at_severity a, alr_status = ''OPEN'', alr_title = at_title a,
                    alr_description = at_description a, alr_dedupe_key = key',
                    alr_triggered_at = db_now db, alr_escalation_level = 0, alr_last_escalated_at = None\<rparr>
         in (Inr (Some (new_id, db_now db)), db\<lparr>db_alerts := db_alerts db @ [row], db_next := Suc (db_next db)\<rparr>))"
    using assms by (auto simp: stmt_keeps_def alerted_def alert_for_def Let_def)
qed

lemma latest_alert_in:
  assumes "latest_alert rule key rows = Some r"
  shows "r \<in> set rows \<and> alert_for rule key r"
proof -
  obtain rs where "sort_key (\<lambda>r. - alr_triggered_at r) (filter (alert_for rule key) rows) = r # rs"
    using assms by (auto simp: latest_alert_def split: list.splits)
  then have "r \<in> set (sort_key (\<lambda>r. - alr_triggered_at r) (filter (alert_for rule key) rows))"
    by (simp only: list.set_intros)
  then show ?thesis
    by simp
qed

lemma alerted_suppresses:
  assumes "alerted U rule key ids db" and "ids \<noteq> []" and "U rule_id = Some rule"
    and "exec (select_latest rule_id key) db = (x, db')"
  shows "raised x \<or> (\<exists>st t. x = Inr (Some (st, t)) \<and> st \<noteq> ''RESOLVED'')"
proof -
  have "latest_alert rule key (db_alerts db) \<noteq> None"
    using assms(1,2) by (auto simp: alerted_def latest_alert_None)
  then obtain r where r: "latest_alert rule key (db_alerts db) = Some r"
    by blast
  then have "alr_status r \<noteq> ''RESOLVED''"
    using latest_alert_in [OF r] assms(1) by (auto simp: alerted_def)
  moreover have "db_uuid db = U"
    using assms(1) by (simp add: alerted_def)
  ultimately show ?thesis
    using assms(3,4) r by (auto simp: exec_def select_latest_def with_uuid_def Let_def split: reply.splits)
qed

lemma alerted_create:
  assumes "alerted U rule key ids db" and "ids \<noteq> []"
  shows "alerted U rule key ids (snd (run (create_if_due now rule_id cooldown a key') db))"
proof (cases "U rule_id = Some rule \<and> key' = key")
  case True
  obtain x db1 where e: "exec (select_latest rule_id key) db = (x, db1)" by fastforce
  have "alerted U rule key ids db1"
    using exec_keeps [of "alerted U rule key ids" "select_latest rule_id key" db] assms(1) e by simp
  then show ?thesis
    using alerted_suppresses [OF assms _ e] True e
    by (auto simp: create_if_due_def raised_iff)
next
  case False
  then have "keeps (alerted U rule key ids) (create_if_due now rule_id cooldown a key')"
    by (auto simp: create_if_due_def Let_def intro!: keeps_stmt alerted_insert_other split: option.split)
  then show ?thesis
    using assms(1) by (rule keeps_run)
qed

lemma alerted_call:
  assumes "alerted U rule key ids db" and "ids \<noteq> []"
  shows "alerted U rule key ids (run_alert_call c db)"
proof (cases c)
  case (Create now rule_id cooldown a key')
  then show ?thesis
    using alerted_create [OF assms] by simp
next
  case (Pass_time t)
  then show ?thesis
    using assms(1) by (simp add: alerted_def)
next
  case (Escalate i s)
  have "keeps (alerted U rule key ids) (escalate i s)"
    by (simp add: escalate_def keeps_stmt alerted_escalate)
  then show ?thesis
    using keeps_run assms(1) Escalate by fastforce
next
  case (Acknowledge org i)
  have "keeps (alerted U rule key ids) (acknowledge org i)"
    by (simp add: acknowledge_def keeps_stmt alerted_acknowledge)
  then show ?thesis
    using keeps_run assms(1) Acknowledge by fastforce
next
  case (Sweep_query secs)
  have "keeps (alerted U rule key ids) (due_for_escalation secs)"
    by (simp add: due_for_escalation_def keeps_stmt)
  then show ?thesis
    using keeps_run assms(1) Sweep_query by fastforce
qed

text \<open>
  Once a rule and key have an alert, no other is ever created for them: nothing in the repository
  marks an alert as resolved, so after any calls, over any time, with any failures, a further occurrence
  is suppressed as open (or the query fails) and the alerts of the rule and key are the same.
\<close>

theorem condition_alerts_once:
  assumes "r \<in> set (db_alerts db)" and "alert_for rule key r" and "db_uuid db rule_id = Some rule"
    and "\<forall>q\<in>set (db_alerts db). alert_for rule key q \<longrightarrow> alr_status q \<noteq> ''RESOLVED''"
  shows "map alr_id (filter (alert_for rule key) (db_alerts (fold run_alert_call calls db))) =
      map alr_id (filter (alert_for rule key) (db_alerts db)) \<and>
    (raised (fst (run (create_if_due now rule_id cooldown a key) (fold run_alert_call calls db))) \<or>
     fst (run (create_if_due now rule_id cooldown a key) (fold run_alert_call calls db)) = Inr (SUPPRESSED_OPEN, None))"
proof -
  let ?ids = "map alr_id (filter (alert_for rule key) (db_alerts db))"
  let ?db = "fold run_alert_call calls db"
  have ids: "?ids \<noteq> []"
    using assms(1,2) by (auto simp: filter_empty_conv)
  have al: "alerted (db_uuid db) rule key ?ids ?db"
  proof (induction calls rule: rev_induct)
    case Nil
    then show ?case using assms(4) by (simp add: alerted_def)
  next
    case (snoc c calls)
    then show ?case using alerted_call [OF _ ids] by simp
  qed
  obtain x db' where e: "exec (select_latest rule_id key) ?db = (x, db')" by fastforce
  have "raised x \<or> (\<exists>st t. x = Inr (Some (st, t)) \<and> st \<noteq> ''RESOLVED'')"
    using alerted_suppresses [OF al ids assms(3) e] .
  then have "raised (fst (run (create_if_due now rule_id cooldown a key) ?db)) \<or>
      fst (run (create_if_due now rule_id cooldown a key) ?db) = Inr (SUPPRESSED_OPEN, None)"
    using e by (auto simp: create_if_due_def raised_iff)
  then show ?thesis
    using al by (simp add: alerted_def)
qed

theorem condition_alerts_once_witness:
  "map alr_id (filter (alert_for ''r'' ''k'') (db_alerts (fold run_alert_call
     [Acknowledge ''o'' ''1'', Pass_time 900000000000, Create 900000000000 ''r'' 300 demo_new_alert ''k'']
     (demo_alert_database [demo_alert_row ''OPEN''])))) = [''1'']"
proof -
  have "map alr_id (filter (alert_for ''r'' ''k'') (db_alerts (fold run_alert_call
      [Acknowledge ''o'' ''1'', Pass_time 900000000000, Create 900000000000 ''r'' 300 demo_new_alert ''k'']
      (demo_alert_database [demo_alert_row ''OPEN''])))) =
    map alr_id (filter (alert_for ''r'' ''k'') (db_alerts (demo_alert_database [demo_alert_row ''OPEN''])))"
    by (rule condition_alerts_once [THEN conjunct1])
       (auto simp: demo_alert_database_def demo_alert_row_def alert_for_def)
  also have "\<dots> = [''1'']"
    by (simp add: demo_alert_database_def demo_alert_row_def alert_for_def)
  finally show ?thesis .
qed

end
