(* ===== verification/Notifications.thy ===== *)
theory Notifications
  imports Broker
begin

text \<open>
  \<open>services/alert-service/notify.py\<close>: the notification providers. The console provider only logs.
  The webhook's HTTP endpoint is outside the repository: its answer to each request is the next of
  a sequence of replies, and \<open>nw_posted\<close> records the requests that reached it.
\<close>

section \<open>State\<close>

record notification =
  no_alert_id :: string
  no_title :: string
  no_description :: string
  no_severity :: severity
  no_machine_id :: string
  no_device_id :: string
  no_triggered_at :: datetime
  no_is_escalation :: bool

text \<open>A status code, or a \<open>requests\<close> exception with the request having arrived or not.\<close>

datatype http_reply = Http_status int | Http_raises string bool

record notify_world = "string kworld" +
  nw_http :: "nat \<Rightarrow> http_reply"
  nw_http_tick :: nat
  nw_posted :: "notification list"
  nw_webhook_breaker :: circuit_breaker

datatype provider = Console_provider | Webhook_provider string

fun provider_name :: "provider \<Rightarrow> string" where
  "provider_name Console_provider = ''console''"
| "provider_name (Webhook_provider url) = ''webhook''"

section \<open>Sending\<close>

text \<open>One attempt of \<open>WebhookProvider.send\<close>.\<close>

definition webhook_attempt ::
  "notification \<Rightarrow> 'z notify_world_scheme \<Rightarrow> (exn + unit) \<times> 'z notify_world_scheme" where
  "webhook_attempt n w =
     (let w' = w\<lparr>nw_http_tick := Suc (nw_http_tick w)\<rparr>;
          arrived = w'\<lparr>nw_posted := nw_posted w @ [n]\<rparr>
      in case nw_http w (nw_http_tick w) of
           Http_raises m reached \<Rightarrow> (Inl (RuntimeError m), if reached then arrived else w')
         | Http_status s \<Rightarrow>
             if s \<ge> 500 then (Inl (RuntimeError (''webhook returned '' @ str_int s)), arrived)
             else if s \<ge> 400 then (Inl (ErrPermanent (''webhook returned '' @ str_int s)), arrived)
             else (ok, arrived))"

definition webhook_send ::
  "notification \<Rightarrow> 'z notify_world_scheme \<Rightarrow> (exn + unit) \<times> 'z notify_world_scheme" where
  "webhook_send n w =
     (let (r, cb, w') = guarded_call (RuntimeError ''webhook circuit breaker open'') 3 (1 / 2) (webhook_attempt n) sleep clock
            (nw_webhook_breaker w) w
      in (r, w'\<lparr>nw_webhook_breaker := cb\<rparr>))"

fun provider_send ::
  "provider \<Rightarrow> notification \<Rightarrow> 'z notify_world_scheme \<Rightarrow> (exn + unit) \<times> 'z notify_world_scheme" where
  "provider_send Console_provider n w = (ok, w)"
| "provider_send (Webhook_provider url) n w = webhook_send n w"

fun notify_all :: "provider list \<Rightarrow> notification \<Rightarrow> 'z notify_world_scheme \<Rightarrow> 'z notify_world_scheme" where
  "notify_all [] n w = w"
| "notify_all (p # ps) n w =
     (case provider_send p n w of
        (Inl _, w') \<Rightarrow> notify_all ps n (inc (''notifications_failed_total:'' @ provider_name p) w')
      | (Inr _, w') \<Rightarrow> notify_all ps n (inc (''notifications_sent_total:'' @ provider_name p) w'))"

section \<open>What sending keeps\<close>

text \<open>
  A property of the world that no clock, counter or webhook state enters is kept by every
  notification.
\<close>

definition notify_inv :: "('z notify_world_scheme \<Rightarrow> bool) \<Rightarrow> bool" where
  "notify_inv P \<longleftrightarrow>
     (\<forall>w n b k ps d. P (inc n w) = P w \<and> P (sleep d w) = P w \<and> P (w\<lparr>nw_http_tick := k\<rparr>) = P w \<and>
        P (w\<lparr>nw_posted := ps\<rparr>) = P w \<and> P (w\<lparr>nw_webhook_breaker := b\<rparr>) = P w)"

lemma notify_invD [simp]:
  assumes "notify_inv P"
  shows "P (inc n w) = P w" "P (sleep d w) = P w" "P (w\<lparr>nw_http_tick := k\<rparr>) = P w"
    "P (w\<lparr>nw_posted := ps\<rparr>) = P w" "P (w\<lparr>nw_webhook_breaker := b\<rparr>) = P w"
  using assms unfolding notify_inv_def by blast+

lemma webhook_attempt_keeps: "notify_inv P \<Longrightarrow> P w \<Longrightarrow> P (snd (webhook_attempt n w))"
  by (auto simp: webhook_attempt_def Let_def split: http_reply.split)

lemma webhook_send_keeps:
  assumes "notify_inv P" and "P w"
  shows "P (snd (webhook_send n w))"
proof -
  have "P (snd (snd (guarded_call (RuntimeError ''webhook circuit breaker open'') 3 (1 / 2) (webhook_attempt n) sleep clock
            (nw_webhook_breaker w) w)))"
    by (rule guarded_invariant [of P]) (use assms webhook_attempt_keeps in auto)
  then show ?thesis
    using assms(1) by (auto simp: webhook_send_def Let_def split: prod.split)
qed

lemma notify_all_keeps: "notify_inv P \<Longrightarrow> P w \<Longrightarrow> P (notify_all ps n w)"
proof (induction ps arbitrary: w)
  case (Cons p ps)
  have "P (snd (provider_send p n w))"
    using Cons.prems webhook_send_keeps by (cases p) auto
  then show ?case
    using Cons by (cases "provider_send p n w") (auto split: sum.split)
qed simp

text \<open>
  Every configured provider is tried, in whatever way those before it failed: each adds one to its
  own counter of sent or of failed notifications.
\<close>

theorem every_provider_is_tried:
  "counters (notify_all ps n w) (''notifications_sent_total:'' @ name) +
   counters (notify_all ps n w) (''notifications_failed_total:'' @ name) =
   counters w (''notifications_sent_total:'' @ name) + counters w (''notifications_failed_total:'' @ name) +
   length (filter (\<lambda>p. provider_name p = name) ps)"
proof (induction ps arbitrary: w)
  case (Cons p ps)
  let ?P = "\<lambda>w'. counters w' = counters w"
  have "counters (snd (webhook_attempt n w')) = counters w'" for w' :: "'a notify_world_scheme"
    by (auto simp: webhook_attempt_def Let_def split: http_reply.split)
  then have "?P (snd (snd (guarded_call (RuntimeError ''webhook circuit breaker open'') 3 (1 / 2) (webhook_attempt n) sleep clock
            (nw_webhook_breaker w) w)))"
    by (intro guarded_invariant [of ?P]) auto
  then have "counters (snd (provider_send p n w)) = counters w"
    by (cases p) (auto simp: webhook_send_def Let_def split: prod.split)
  then show ?case
    using Cons.IH by (cases "provider_send p n w") (auto simp: inc_def split: sum.split)
qed simp

end
