(* ===== verification/Incidents.thy ===== *)
theory Incidents
  imports Database Config
begin

text \<open>
  \<open>shared/incidents.py\<close>: the lifecycle of an incident and its store. An operation is a program of
  the SQL statements it executes, each of which is a function on the database here, with the partial
  unique index of the migrations as part of the statements that insert or update. Both services
  construct the store without a publisher, so \<open>_publish\<close> returns at once and is left out.
\<close>

section \<open>The lifecycle\<close>

record alert_ref =
  ar_id :: string
  ar_organization_id :: string
  ar_severity :: severity
  ar_factory_id :: string
  ar_machine_id :: string
  ar_device_id :: string
  ar_sensor_id :: string
  ar_title :: string
  ar_description :: string

record incident =
  ic_id :: string
  ic_organization_id :: string
  ic_alert_id :: string
  ic_factory_id :: string
  ic_machine_id :: string
  ic_device_id :: string
  ic_sensor_id :: string
  ic_severity :: severity
  ic_status :: string
  ic_title :: string
  ic_description :: string
  ic_assigned_to :: string
  ic_resolution_notes :: string
  ic_opened_at :: int
  ic_resolved_at :: "int option"
  ic_closed_at :: "int option"

record incident_event =
  iv_id :: string
  iv_incident_id :: string
  iv_event_type :: string
  iv_actor_user_id :: "string option"
  iv_old_value :: string
  iv_new_value :: string
  iv_note :: string
  iv_created_at :: int

definition valid_transitions :: "string \<Rightarrow> string list" where
  "valid_transitions s =
     (if s = ''OPEN'' then [''ACKNOWLEDGED'', ''INVESTIGATING'', ''RESOLVED'']
      else if s = ''ACKNOWLEDGED'' then [''INVESTIGATING'', ''RESOLVED'']
      else if s = ''INVESTIGATING'' then [''RESOLVED'']
      else if s = ''RESOLVED'' then [''CLOSED'', ''INVESTIGATING'']
      else [])"

definition is_valid_transition :: "string \<Rightarrow> string \<Rightarrow> bool" where
  "is_valid_transition from_status to_status \<longleftrightarrow> to_status \<in> set (valid_transitions from_status)"

definition row_to_incident :: "incident_row \<Rightarrow> incident" where
  "row_to_incident r =
     \<lparr>ic_id = ir_id r, ic_organization_id = ir_organization_id r, ic_alert_id = coalesce (ir_alert_id r),
      ic_factory_id = coalesce (ir_factory_id r), ic_machine_id = coalesce (ir_machine_id r),
      ic_device_id = coalesce (ir_device_id r), ic_sensor_id = coalesce (ir_sensor_id r),
      ic_severity = ir_severity r, ic_status = ir_status r, ic_title = ir_title r,
      ic_description = ir_description r, ic_assigned_to = coalesce (ir_assigned_to r),
      ic_resolution_notes = coalesce (ir_resolution_notes r), ic_opened_at = ir_opened_at r,
      ic_resolved_at = ir_resolved_at r, ic_closed_at = ir_closed_at r\<rparr>"

section \<open>Statements\<close>

text \<open>\<open>status IN ('OPEN', 'ACKNOWLEDGED', 'INVESTIGATING')\<close>\<close>

definition active_status :: "string \<Rightarrow> bool" where
  "active_status s \<longleftrightarrow> s \<in> set [''OPEN'', ''ACKNOWLEDGED'', ''INVESTIGATING'']"

definition active_on :: "string \<Rightarrow> incident_row \<Rightarrow> bool" where
  "active_on machine r \<longleftrightarrow> ir_machine_id r = Some machine \<and> active_status (ir_status r)"

definition select_active :: "string \<Rightarrow> string option statement" where
  "select_active machine_id =
     with_uuid machine_id (\<lambda>u db. (Inr (map_option ir_id (find (active_on u) (db_incidents db))), db))"

text \<open>
  The insert with \<open>ON CONFLICT ... DO NOTHING RETURNING id\<close>; a null machine conflicts with nothing.
\<close>

definition insert_incident :: "alert_ref \<Rightarrow> string option statement" where
  "insert_incident alert =
     with_uuid (ar_organization_id alert) (\<lambda>org.
     with_uuid (ar_id alert) (\<lambda>al.
     with_uuid_option (null_if_empty (ar_factory_id alert)) (\<lambda>factory.
     with_uuid_option (null_if_empty (ar_machine_id alert)) (\<lambda>machine.
     with_uuid_option (null_if_empty (ar_device_id alert)) (\<lambda>device.
     with_uuid_option (null_if_empty (ar_sensor_id alert)) (\<lambda>sensor db.
       if machine \<noteq> None \<and> (\<exists>r\<in>set (db_incidents db). active_on (the machine) r) then (Inr None, db)
       else
         let new_id = db_ids db (db_next db);
             row = \<lparr>ir_id = new_id, ir_organization_id = org, ir_alert_id = Some al, ir_factory_id = factory,
                    ir_machine_id = machine, ir_device_id = device, ir_sensor_id = sensor,
                    ir_severity = ar_severity alert, ir_status = ''OPEN'', ir_title = ar_title alert,
                    ir_description = ar_description alert, ir_assigned_to = None, ir_resolution_notes = None,
                    ir_opened_at = db_now db, ir_resolved_at = None, ir_closed_at = None\<rparr>
         in (Inr (Some new_id), db\<lparr>db_incidents := db_incidents db @ [row], db_next := Suc (db_next db)\<rparr>)))))))"

definition log_event ::
  "string \<Rightarrow> string \<Rightarrow> string option \<Rightarrow> string \<Rightarrow> string \<Rightarrow> string \<Rightarrow> unit statement" where
  "log_event incident_id event_type actor_user_id old_value new_value note =
     with_uuid incident_id (\<lambda>inc.
     with_uuid_option actor_user_id (\<lambda>actor db.
       let row = \<lparr>ie_id = db_ids db (db_next db), ie_incident_id = inc, ie_event_type = event_type,
                  ie_actor_user_id = actor, ie_old_value = null_if_empty old_value,
                  ie_new_value = null_if_empty new_value, ie_note = note, ie_created_at = db_now db\<rparr>
       in (ok, db\<lparr>db_incident_events := db_incident_events db @ [row], db_next := Suc (db_next db)\<rparr>)))"

definition select_status :: "string \<Rightarrow> string option statement" where
  "select_status incident_id =
     with_uuid incident_id (\<lambda>u db. (Inr (map_option ir_status (find (\<lambda>r. ir_id r = u) (db_incidents db))), db))"

text \<open>\<open>UPDATE incidents SET ... WHERE id = u\<close>\<close>

definition update_incident :: "string \<Rightarrow> (incident_row \<Rightarrow> incident_row) \<Rightarrow> database \<Rightarrow> database" where
  "update_incident u f db = db\<lparr>db_incidents := map (\<lambda>r. if ir_id r = u then f r else r) (db_incidents db)\<rparr>"

text \<open>The row after a status change, with the column the code sets for the new status.\<close>

definition with_status :: "string \<Rightarrow> int \<Rightarrow> incident_row \<Rightarrow> incident_row" where
  "with_status new_status now r =
     (let r' = r\<lparr>ir_status := new_status\<rparr>
      in if new_status = ''RESOLVED'' then r'\<lparr>ir_resolved_at := Some now\<rparr>
         else if new_status = ''CLOSED'' then r'\<lparr>ir_closed_at := Some now\<rparr> else r')"

definition update_status :: "string \<Rightarrow> string \<Rightarrow> unit statement" where
  "update_status incident_id new_status =
     with_uuid incident_id (\<lambda>u db.
       if active_status new_status \<and>
          (\<exists>r\<in>set (db_incidents db). ir_id r = u \<and> ir_machine_id r \<noteq> None \<and>
             (\<exists>q\<in>set (db_incidents db). ir_id q \<noteq> u \<and> active_on (the (ir_machine_id r)) q))
       then (Inl (UniqueViolation ''idx_incidents_one_active_per_machine''), db)
       else (ok, update_incident u (with_status new_status (db_now db)) db))"

definition update_assigned :: "string \<Rightarrow> string \<Rightarrow> unit statement" where
  "update_assigned incident_id user_id =
     with_uuid user_id (\<lambda>who. with_uuid incident_id (\<lambda>u db.
       (ok, update_incident u (\<lambda>r. r\<lparr>ir_assigned_to := Some who\<rparr>) db)))"

definition update_notes :: "string \<Rightarrow> string \<Rightarrow> unit statement" where
  "update_notes incident_id notes =
     with_uuid incident_id (\<lambda>u db. (ok, update_incident u (\<lambda>r. r\<lparr>ir_resolution_notes := Some notes\<rparr>) db))"

definition select_incident :: "string \<Rightarrow> string \<Rightarrow> incident option statement" where
  "select_incident org_id incident_id =
     with_uuid incident_id (\<lambda>u. with_uuid org_id (\<lambda>org db.
       (Inr (map_option row_to_incident
          (find (\<lambda>r. ir_id r = u \<and> ir_organization_id r = org) (db_incidents db))), db)))"

definition select_incidents :: "string \<Rightarrow> string \<Rightarrow> nat \<Rightarrow> nat \<Rightarrow> incident list statement" where
  "select_incidents org_id status_filter limit offset =
     with_uuid org_id (\<lambda>org db.
       (Inr (map row_to_incident (take limit (drop offset
          (sort_key (\<lambda>r. - ir_opened_at r)
             (filter (\<lambda>r. ir_organization_id r = org \<and> (status_filter = [] \<or> ir_status r = status_filter))
                (db_incidents db)))))), db))"

definition select_events :: "string \<Rightarrow> incident_event list statement" where
  "select_events incident_id =
     with_uuid incident_id (\<lambda>u db.
       (Inr (map (\<lambda>r. \<lparr>iv_id = ie_id r, iv_incident_id = ie_incident_id r, iv_event_type = ie_event_type r,
                     iv_actor_user_id = ie_actor_user_id r, iv_old_value = coalesce (ie_old_value r),
                     iv_new_value = coalesce (ie_new_value r), iv_note = ie_note r, iv_created_at = ie_created_at r\<rparr>)
            (sort_key ie_created_at (filter (\<lambda>r. ie_incident_id r = u) (db_incident_events db)))), db))"

section \<open>The store's operations\<close>

type_synonym 'a op = "(database, exn + 'a) prog"

definition open_or_attach :: "alert_ref \<Rightarrow> (string \<times> bool) op" where
  "open_or_attach alert =
     stmt (select_active (ar_machine_id alert)) (\<lambda>row. case row of
       Some existing_id \<Rightarrow>
         stmt (log_event existing_id ''ALERT_ATTACHED'' None [] []
                (''alert '' @ ar_id alert @ '' ('' @ severity_name (ar_severity alert) @ '') attached: '' @ ar_title alert))
           (\<lambda>_. Done (Inr (existing_id, False)))
     | None \<Rightarrow>
         stmt (insert_incident alert) (\<lambda>row. case row of
           None \<Rightarrow>
             stmt (select_active (ar_machine_id alert)) (\<lambda>existing. case existing of
               None \<Rightarrow> Done (Inl (RuntimeError (''resolve incident creation race for machine '' @ ar_machine_id alert @ '': no incident found'')))
             | Some i \<Rightarrow> Done (Inr (i, False)))
         | Some incident_id \<Rightarrow>
             stmt (log_event incident_id ''STATUS_CHANGE'' None [] ''OPEN'' (''incident opened from alert '' @ ar_id alert))
               (\<lambda>_. Done (Inr (incident_id, True)))))"

definition transition :: "string \<Rightarrow> string \<Rightarrow> string option \<Rightarrow> string \<Rightarrow> unit op" where
  "transition incident_id new_status actor_user_id note =
     stmt (select_status incident_id) (\<lambda>row. case row of
       None \<Rightarrow> Done (Inl (RuntimeError (''load incident '' @ incident_id @ '': not found'')))
     | Some current_status \<Rightarrow>
         if \<not> is_valid_transition current_status new_status
         then Done (Inl (ValueError (''invalid incident transition '' @ current_status @ '' -> '' @ new_status)))
         else
           stmt (update_status incident_id new_status) (\<lambda>_.
           stmt (log_event incident_id ''STATUS_CHANGE'' actor_user_id current_status new_status note)
             (\<lambda>_. Done ok)))"

definition assign :: "string \<Rightarrow> string \<Rightarrow> string option \<Rightarrow> unit op" where
  "assign incident_id user_id actor_user_id =
     stmt (update_assigned incident_id user_id) (\<lambda>_.
     stmt (log_event incident_id ''ASSIGNMENT'' actor_user_id [] user_id (''assigned to technician '' @ user_id))
       (\<lambda>_. Done ok))"

definition resolve :: "string \<Rightarrow> string \<Rightarrow> string option \<Rightarrow> unit op" where
  "resolve incident_id resolution_notes actor_user_id =
     stmt (update_notes incident_id resolution_notes)
       (\<lambda>_. transition incident_id ''RESOLVED'' actor_user_id resolution_notes)"

definition get_incident :: "string \<Rightarrow> string \<Rightarrow> incident option op" where
  "get_incident org_id incident_id = stmt (select_incident org_id incident_id) (\<lambda>x. Done (Inr x))"

definition list_incidents :: "string \<Rightarrow> string \<Rightarrow> nat \<Rightarrow> nat \<Rightarrow> incident list op" where
  "list_incidents org_id status_filter limit offset =
     stmt (select_incidents org_id status_filter limit offset) (\<lambda>x. Done (Inr x))"

definition list_events :: "string \<Rightarrow> incident_event list op" where
  "list_events incident_id = stmt (select_events incident_id) (\<lambda>x. Done (Inr x))"

section \<open>At most one active incident per machine\<close>

text \<open>
  Identifiers come from the generator and are distinct, and no two rows are active on one machine.
\<close>

definition incidents_ok :: "database \<Rightarrow> bool" where
  "incidents_ok db \<longleftrightarrow>
     inj (db_ids db) \<and> distinct (map ir_id (db_incidents db)) \<and>
     (\<forall>r\<in>set (db_incidents db). \<exists>n<db_next db. ir_id r = db_ids db n) \<and>
     (\<forall>m. \<forall>r\<in>set (db_incidents db). \<forall>q\<in>set (db_incidents db). active_on m r \<longrightarrow> active_on m q \<longrightarrow> ir_id r = ir_id q)"

lemma incidents_okI:
  assumes "inj (db_ids db)" and "distinct (map ir_id (db_incidents db))"
    and "\<And>r. r \<in> set (db_incidents db) \<Longrightarrow> \<exists>n<db_next db. ir_id r = db_ids db n"
    and "\<And>m r q. r \<in> set (db_incidents db) \<Longrightarrow> q \<in> set (db_incidents db) \<Longrightarrow> active_on m r \<Longrightarrow> active_on m q \<Longrightarrow>
      ir_id r = ir_id q"
  shows "incidents_ok db"
  unfolding incidents_ok_def
proof (intro conjI allI ballI impI)
  show "inj (db_ids db)" and "distinct (map ir_id (db_incidents db))"
    by (rule assms)+
qed (erule assms(3), erule assms(4), assumption+)

lemma incidents_inj: "incidents_ok db \<Longrightarrow> inj (db_ids db)"
  unfolding incidents_ok_def by (elim conjE)

lemma incidents_distinct: "incidents_ok db \<Longrightarrow> distinct (map ir_id (db_incidents db))"
  unfolding incidents_ok_def by (elim conjE)

lemma incidents_drawn:
  "incidents_ok db \<Longrightarrow> r \<in> set (db_incidents db) \<Longrightarrow> \<exists>n<db_next db. ir_id r = db_ids db n"
  unfolding incidents_ok_def by (elim conjE) (erule bspec)

lemma incidents_unique:
  "incidents_ok db \<Longrightarrow> r \<in> set (db_incidents db) \<Longrightarrow> q \<in> set (db_incidents db) \<Longrightarrow> active_on m r \<Longrightarrow> active_on m q \<Longrightarrow>
   ir_id r = ir_id q"
  unfolding incidents_ok_def by (elim conjE) blast

lemma incidents_ok_same:
  assumes "incidents_ok db" and "db_incidents db' = db_incidents db" and "db_ids db' = db_ids db"
    and "db_next db \<le> db_next db'"
  shows "incidents_ok db'"
proof (rule incidents_okI)
  show "inj (db_ids db')" and "distinct (map ir_id (db_incidents db'))"
    using incidents_inj [OF assms(1)] incidents_distinct [OF assms(1)] by (simp_all only: assms(2,3))
  fix r
  assume "r \<in> set (db_incidents db')"
  then obtain n where "n < db_next db" and "ir_id r = db_ids db n"
    using incidents_drawn [OF assms(1)] unfolding assms(2) by blast
  then show "\<exists>n<db_next db'. ir_id r = db_ids db' n"
    using assms(4) unfolding assms(3) by (intro exI [of _ n]) simp
next
  fix m r q
  assume "r \<in> set (db_incidents db')" "q \<in> set (db_incidents db')" "active_on m r" "active_on m q"
  then show "ir_id r = ir_id q"
    unfolding assms(2) by (rule incidents_unique [OF assms(1)])
qed

lemma table_inv_incidents [simp]: "table_inv incidents_ok"
  by (simp add: table_inv_def incidents_ok_def)

lemma active_statuses [simp]:
  "active_status ''OPEN''" "active_status ''ACKNOWLEDGED''" "active_status ''INVESTIGATING''"
  "\<not> active_status ''RESOLVED''" "\<not> active_status ''CLOSED''"
  by (simp_all add: active_status_def)

lemma with_status_fields [simp, frame]:
  "ir_id (with_status s t r) = ir_id r" "ir_machine_id (with_status s t r) = ir_machine_id r"
  "ir_status (with_status s t r) = s" "ir_organization_id (with_status s t r) = ir_organization_id r"
  by (simp_all add: with_status_def Let_def)

lemma keeps_select [simp]:
  "stmt_keeps I (select_active m)" "stmt_keeps I (select_status i)"
  "stmt_keeps I (select_incident org i)" "stmt_keeps I (select_incidents org f l k)" "stmt_keeps I (select_events i)"
  unfolding select_active_def select_status_def select_incident_def select_incidents_def select_events_def
  by (intro stmt_keeps_uuid; simp add: stmt_keeps_def)+

lemma fresh_id:
  assumes "incidents_ok db" and "r \<in> set (db_incidents db)"
  shows "ir_id r \<noteq> db_ids db (db_next db)"
proof
  assume eq: "ir_id r = db_ids db (db_next db)"
  obtain n where "n < db_next db" and "ir_id r = db_ids db n"
    using incidents_drawn [OF assms] by blast
  moreover have "inj (db_ids db)"
    using incidents_inj [OF assms(1)] .
  ultimately show False
    using eq by (simp add: inj_eq)
qed

lemma keeps_insert_incident: "stmt_keeps incidents_ok (insert_incident alert)"
  unfolding insert_incident_def
proof (intro stmt_keeps_uuid stmt_keeps_uuid_option, unfold stmt_keeps_def, intro allI impI)
  fix org al factory machine device sensor db
  assume ok: "incidents_ok db"
  let ?row = "\<lparr>ir_id = db_ids db (db_next db), ir_organization_id = org, ir_alert_id = Some al, ir_factory_id = factory,
                    ir_machine_id = machine, ir_device_id = device, ir_sensor_id = sensor,
                    ir_severity = ar_severity alert, ir_status = ''OPEN'', ir_title = ar_title alert,
                    ir_description = ar_description alert, ir_assigned_to = None, ir_resolution_notes = None,
                    ir_opened_at = db_now db, ir_resolved_at = None, ir_closed_at = None\<rparr>"
  have "incidents_ok (db\<lparr>db_incidents := db_incidents db @ [?row], db_next := Suc (db_next db)\<rparr>)"
    if free: "\<not> (machine \<noteq> None \<and> (\<exists>r\<in>set (db_incidents db). active_on (the machine) r))"
  proof -
    let ?db = "db\<lparr>db_incidents := db_incidents db @ [?row], db_next := Suc (db_next db)\<rparr>"
    have alone: "\<not> (active_on m ?row \<and> active_on m r)" if "r \<in> set (db_incidents db)" for m r
      using free that by (auto simp: active_on_def)
    have mem: "r = ?row \<or> r \<in> set (db_incidents db)" if "r \<in> set (db_incidents ?db)" for r
      using that by simp
    show ?thesis
    proof (rule incidents_okI)
      show "inj (db_ids ?db)"
        using incidents_inj [OF ok] by simp
      show "distinct (map ir_id (db_incidents ?db))"
        using incidents_distinct [OF ok] fresh_id [OF ok]
        by (simp add: image_iff) (metis fresh_id ok)
      show "\<exists>n<db_next ?db. ir_id r = db_ids ?db n" if "r \<in> set (db_incidents ?db)" for r
        using mem [OF that]
      proof
        assume "r = ?row"
        then show ?thesis
          by (intro exI [of _ "db_next db"]) simp
      next
        assume "r \<in> set (db_incidents db)"
        then obtain n where "n < db_next db" and "ir_id r = db_ids db n"
          using incidents_drawn [OF ok] by blast
        then show ?thesis
          by (intro exI [of _ n]) simp
      qed
      show "ir_id r = ir_id q"
        if "r \<in> set (db_incidents ?db)" "q \<in> set (db_incidents ?db)" "active_on m r" "active_on m q" for m r q
        using mem [OF that(1)] mem [OF that(2)] that(3,4) alone incidents_unique [OF ok, of r q m] by blast
    qed
  qed
  then show "incidents_ok (snd (if machine \<noteq> None \<and> (\<exists>r\<in>set (db_incidents db). active_on (the machine) r) then (Inr None, db)
       else
         let new_id = db_ids db (db_next db);
             row = \<lparr>ir_id = new_id, ir_organization_id = org, ir_alert_id = Some al, ir_factory_id = factory,
                    ir_machine_id = machine, ir_device_id = device, ir_sensor_id = sensor,
                    ir_severity = ar_severity alert, ir_status = ''OPEN'', ir_title = ar_title alert,
                    ir_description = ar_description alert, ir_assigned_to = None, ir_resolution_notes = None,
                    ir_opened_at = db_now db, ir_resolved_at = None, ir_closed_at = None\<rparr>
         in (Inr (Some new_id), db\<lparr>db_incidents := db_incidents db @ [row], db_next := Suc (db_next db)\<rparr>)))"
    using ok by (simp add: Let_def)
qed

lemma keeps_log_event: "stmt_keeps incidents_ok (log_event i t a ov nv n)"
  unfolding log_event_def
  by (intro stmt_keeps_uuid stmt_keeps_uuid_option, unfold stmt_keeps_def Let_def, intro allI impI)
     (erule incidents_ok_same, simp_all)

text \<open>Updates that keep the identifier, the machine and the activity of every row.\<close>

lemma update_incident_ok:
  assumes "incidents_ok db" and "\<And>r. ir_id (f r) = ir_id r"
    and "\<And>m r q. r \<in> set (db_incidents db) \<Longrightarrow> q \<in> set (db_incidents db) \<Longrightarrow> ir_id r = u \<Longrightarrow> ir_id q \<noteq> u \<Longrightarrow>
      active_on m (f r) \<Longrightarrow> active_on m q \<Longrightarrow> False"
  shows "incidents_ok (update_incident u f db)"
proof -
  have ids: "map ir_id (db_incidents (update_incident u f db)) = map ir_id (db_incidents db)"
    using assms(2) by (simp add: update_incident_def)
  have mem: "\<exists>r0\<in>set (db_incidents db). r = (if ir_id r0 = u then f r0 else r0) \<and> ir_id r = ir_id r0"
    if "r \<in> set (db_incidents (update_incident u f db))" for r
    using that assms(2) by (auto simp: update_incident_def)
  have "ir_id r = ir_id q"
    if H: "r \<in> set (db_incidents (update_incident u f db))" "q \<in> set (db_incidents (update_incident u f db))"
      "active_on m r" "active_on m q" for m r q
  proof (rule ccontr)
    assume neq: "ir_id r \<noteq> ir_id q"
    obtain r0 where r0: "r0 \<in> set (db_incidents db)" "r = (if ir_id r0 = u then f r0 else r0)" "ir_id r = ir_id r0"
      using mem [OF H(1)] by blast
    obtain q0 where q0: "q0 \<in> set (db_incidents db)" "q = (if ir_id q0 = u then f q0 else q0)" "ir_id q = ir_id q0"
      using mem [OF H(2)] by blast
    consider "ir_id r0 = u" "ir_id q0 \<noteq> u" | "ir_id r0 \<noteq> u" "ir_id q0 = u" | "ir_id r0 \<noteq> u" "ir_id q0 \<noteq> u"
      using neq r0(3) q0(3) by fastforce
    then show False
    proof cases
      case 1
      then show ?thesis
        using assms(3) [OF r0(1) q0(1), of m] r0(2) q0(2) H(3,4) by simp
    next
      case 2
      then show ?thesis
        using assms(3) [OF q0(1) r0(1), of m] r0(2) q0(2) H(3,4) by simp
    next
      case 3
      then show ?thesis
        using incidents_unique [OF assms(1) r0(1) q0(1), of m] H(3,4) neq r0(2) q0(2) by (simp only: if_False)
    qed
  qed
  note one = this
  have frame: "db_ids (update_incident u f db) = db_ids db" "db_next (update_incident u f db) = db_next db"
    by (simp_all add: update_incident_def)
  show ?thesis
  proof (rule incidents_okI)
    show "\<exists>n<db_next (update_incident u f db). ir_id r = db_ids (update_incident u f db) n"
      if r: "r \<in> set (db_incidents (update_incident u f db))" for r
      using mem [OF r] incidents_drawn [OF assms(1)] unfolding frame by metis
    show "inj (db_ids (update_incident u f db))" and "distinct (map ir_id (db_incidents (update_incident u f db)))"
      using incidents_inj [OF assms(1)] incidents_distinct [OF assms(1)] by (simp_all only: frame ids)
  qed (rule one)
qed

lemma update_incident_same:
  assumes "incidents_ok db"
    and "\<And>r. ir_id (f r) = ir_id r \<and> ir_machine_id (f r) = ir_machine_id r \<and> ir_status (f r) = ir_status r"
  shows "incidents_ok (update_incident u f db)"
proof (rule update_incident_ok [OF assms(1)])
  show "ir_id (f r) = ir_id r" for r
    using assms(2) by simp
  fix m r q
  assume r: "r \<in> set (db_incidents db)" and q: "q \<in> set (db_incidents db)" and "ir_id r = u" "ir_id q \<noteq> u"
    and a: "active_on m (f r)" "active_on m q"
  have "active_on m r"
    using a(1) assms(2) by (simp add: active_on_def)
  then show False
    using incidents_unique [OF assms(1) r q _ a(2)] \<open>ir_id r = u\<close> \<open>ir_id q \<noteq> u\<close> by (elim notE) simp
qed

lemma keeps_update_assigned: "stmt_keeps incidents_ok (update_assigned i who)"
  unfolding update_assigned_def
  by (intro stmt_keeps_uuid, unfold stmt_keeps_def, intro allI impI, simp) (rule update_incident_same; simp)

lemma keeps_update_notes: "stmt_keeps incidents_ok (update_notes i notes)"
  unfolding update_notes_def
  by (intro stmt_keeps_uuid, unfold stmt_keeps_def, intro allI impI, simp) (rule update_incident_same; simp)

lemma keeps_update_status: "stmt_keeps incidents_ok (update_status i s)"
  unfolding update_status_def
proof (intro stmt_keeps_uuid, unfold stmt_keeps_def, intro allI impI)
  fix u db
  assume ok: "incidents_ok db"
  let ?conflict = "active_status s \<and>
          (\<exists>r\<in>set (db_incidents db). ir_id r = u \<and> ir_machine_id r \<noteq> None \<and>
             (\<exists>q\<in>set (db_incidents db). ir_id q \<noteq> u \<and> active_on (the (ir_machine_id r)) q))"
  have "incidents_ok (update_incident u (with_status s (db_now db)) db)" if free: "\<not> ?conflict"
  proof (rule update_incident_ok [OF ok])
    fix m r q
    assume r: "r \<in> set (db_incidents db)" and q: "q \<in> set (db_incidents db)" and "ir_id r = u" "ir_id q \<noteq> u"
      and a: "active_on m (with_status s (db_now db) r)" "active_on m q"
    then have "active_status s" and "ir_machine_id r = Some m"
      by (simp_all add: active_on_def)
    then show False
      using free r q a(2) \<open>ir_id r = u\<close> \<open>ir_id q \<noteq> u\<close> by fastforce
  qed simp
  then show "incidents_ok (snd (if ?conflict then (Inl (UniqueViolation ''idx_incidents_one_active_per_machine''), db)
       else (ok, update_incident u (with_status s (db_now db)) db)))"
    using ok by simp
qed

text \<open>The operations that change the tables, with their results forgotten.\<close>

definition store_op :: "(database, unit) prog \<Rightarrow> bool" where
  "store_op p \<longleftrightarrow>
     (\<exists>alert. p = discard (open_or_attach alert)) \<or> (\<exists>i s a n. p = discard (transition i s a n)) \<or>
     (\<exists>i u a. p = discard (assign i u a)) \<or> (\<exists>i n a. p = discard (resolve i n a))"

lemmas keeps_statements = keeps_insert_incident keeps_log_event keeps_update_assigned keeps_update_notes keeps_update_status

lemma keeps_transition: "keeps incidents_ok (transition i s a n)"
  by (auto simp: transition_def intro!: keeps_stmt keeps_statements split: option.split)

lemma keeps_open_or_attach: "keeps incidents_ok (open_or_attach alert)"
  by (auto simp: open_or_attach_def intro!: keeps_stmt keeps_statements split: option.split)

lemma keeps_assign: "keeps incidents_ok (assign i u a)"
  by (auto simp: assign_def intro!: keeps_stmt keeps_statements)

lemma keeps_resolve: "keeps incidents_ok (resolve i n a)"
  by (auto simp: resolve_def intro!: keeps_stmt keeps_statements keeps_transition)

lemma store_op_keeps: "store_op p \<Longrightarrow> keeps incidents_ok p"
  unfolding store_op_def
  by (elim disjE exE) (simp_all add: keeps_discard keeps_transition keeps_open_or_attach keeps_assign keeps_resolve)


text \<open>A small database: one incident of one machine, identifiers that are any text but the empty one.\<close>

definition demo_incident :: "string \<Rightarrow> incident_row" where
  "demo_incident st =
     \<lparr>ir_id = ''1'', ir_organization_id = ''org'', ir_alert_id = Some ''al'', ir_factory_id = None,
      ir_machine_id = Some ''m'', ir_device_id = None, ir_sensor_id = None, ir_severity = HIGH, ir_status = st,
      ir_title = ''t'', ir_description = [], ir_assigned_to = None, ir_resolution_notes = None,
      ir_opened_at = 0, ir_resolved_at = None, ir_closed_at = None\<rparr>"

definition demo_database :: "incident_row list \<Rightarrow> database" where
  "demo_database rows =
     \<lparr>db_alerts = [], db_incidents = rows, db_incident_events = [], db_now = 7, db_ids = str_nat, db_next = 2,
      db_uuid = (\<lambda>s. if s = [] then None else Some s), db_replies = (\<lambda>i. Reply_ok), db_tick = 0\<rparr>"

definition demo_alert :: alert_ref where
  "demo_alert =
     \<lparr>ar_id = ''al2'', ar_organization_id = ''org'', ar_severity = HIGH, ar_factory_id = [], ar_machine_id = ''m'',
      ar_device_id = [], ar_sensor_id = [], ar_title = ''t'', ar_description = []\<rparr>"

lemma demo_database_ok [simp]: "incidents_ok (demo_database [])" "all_ok (demo_database rows)"
proof -
  have "inj str_nat"
    by (simp add: inj_def)
  then show "incidents_ok (demo_database [])"
    by (simp add: incidents_ok_def demo_database_def)
  show "all_ok (demo_database rows)"
    by (simp add: all_ok_def demo_database_def)
qed


section \<open>What a transition does\<close>

lemma exec_uuid:
  assumes "all_ok db" and "db_uuid db s = Some u"
  shows "exec (with_uuid s q) db = q u (db\<lparr>db_tick := Suc (db_tick db)\<rparr>)"
  using assms by (simp add: exec_all_ok with_uuid_def)

text \<open>The database after \<open>n\<close> more statements that changed nothing else.\<close>

abbreviation ticked :: "nat \<Rightarrow> database \<Rightarrow> database" where
  "ticked n db \<equiv> db\<lparr>db_tick := db_tick db + n\<rparr>"

definition row_of :: "database \<Rightarrow> string \<Rightarrow> incident_row option" where
  "row_of db u = find (\<lambda>r. ir_id r = u) (db_incidents db)"

definition change_event :: "database \<Rightarrow> string \<Rightarrow> string option \<Rightarrow> string \<Rightarrow> string \<Rightarrow> string \<Rightarrow> incident_event_row" where
  "change_event db u actor old_status new_status note =
     \<lparr>ie_id = db_ids db (db_next db), ie_incident_id = u, ie_event_type = ''STATUS_CHANGE'', ie_actor_user_id = actor,
      ie_old_value = null_if_empty old_status, ie_new_value = null_if_empty new_status, ie_note = note,
      ie_created_at = db_now db\<rparr>"

definition status_conflict :: "database \<Rightarrow> string \<Rightarrow> string \<Rightarrow> bool" where
  "status_conflict db u new_status \<longleftrightarrow>
     active_status new_status \<and>
     (\<exists>r\<in>set (db_incidents db). ir_id r = u \<and> ir_machine_id r \<noteq> None \<and>
        (\<exists>q\<in>set (db_incidents db). ir_id q \<noteq> u \<and> active_on (the (ir_machine_id r)) q))"

lemma run_transition:
  assumes "all_ok db" and "db_uuid db i = Some u" and "a = None \<or> (\<exists>w. a = Some w \<and> db_uuid db w = Some w)"
  shows "run (transition i s a n) db =
    (case row_of db u of
       None \<Rightarrow> (Inl (RuntimeError (''load incident '' @ i @ '': not found'')), ticked 1 db)
     | Some r \<Rightarrow>
         if \<not> is_valid_transition (ir_status r) s
         then (Inl (ValueError (''invalid incident transition '' @ ir_status r @ '' -> '' @ s)), ticked 1 db)
         else if status_conflict db u s
         then (Inl (UniqueViolation ''idx_incidents_one_active_per_machine''), ticked 2 db)
         else (ok, (update_incident u (with_status s (db_now db)) (ticked 3 db))
                \<lparr>db_incident_events := db_incident_events db @ [change_event db u a (ir_status r) s n],
                 db_next := Suc (db_next db)\<rparr>))"
proof -
  have sel: "exec (select_status i) db = (Inr (map_option ir_status (row_of db u)), ticked 1 db)"
    by (simp add: exec_uuid [OF assms(1,2)] select_status_def row_of_def)
  have upd: "exec (update_status i s) (ticked 1 db) =
      (if status_conflict db u s then (Inl (UniqueViolation ''idx_incidents_one_active_per_machine''), ticked 2 db)
       else (ok, update_incident u (with_status s (db_now db)) (ticked 2 db)))"
    using assms(1,2)
    by (simp add: exec_all_ok with_uuid_def update_status_def status_conflict_def update_incident_def)
  have log: "exec (log_event i ''STATUS_CHANGE'' a old s n) (update_incident u (with_status s (db_now db)) (ticked 2 db)) =
      (ok, (update_incident u (with_status s (db_now db)) (ticked 3 db))
                \<lparr>db_incident_events := db_incident_events db @ [change_event db u a old s n],
                 db_next := Suc (db_next db)\<rparr>)" for old
    using assms
    by (auto simp: exec_def log_event_def with_uuid_def with_uuid_option_def update_incident_def change_event_def all_ok_def Let_def)
  show ?thesis
    unfolding transition_def run_stmt sel prod.case sum.case
    by (cases "row_of db u") (simp_all add: upd [simplified] log [simplified])
qed

text \<open>
  A status change goes through exactly when the incident exists, the lifecycle allows the move and
  no other incident is active on the machine; it then changes that incident alone and appends one
  audit event with the old and the new status. In every other case it raises and leaves the
  incidents and the audit trail as they were.
\<close>

theorem transition_correct:
  assumes "all_ok db" and "db_uuid db i = Some u" and "a = None \<or> (\<exists>w. a = Some w \<and> db_uuid db w = Some w)"
  shows "\<exists>res db'. run (transition i s a n) db = (res, db') \<and>
    (res = ok) = (\<exists>r. row_of db u = Some r \<and> is_valid_transition (ir_status r) s \<and> \<not> status_conflict db u s) \<and>
    (res = ok \<longrightarrow>
       db_incidents db' = map (\<lambda>r. if ir_id r = u then with_status s (db_now db) r else r) (db_incidents db) \<and>
       (\<exists>r. row_of db u = Some r \<and> db_incident_events db' = db_incident_events db @ [change_event db u a (ir_status r) s n])) \<and>
    (res \<noteq> ok \<longrightarrow> db_incidents db' = db_incidents db \<and> db_incident_events db' = db_incident_events db)"
  unfolding run_transition [OF assms] by (auto simp: update_incident_def split: option.split)

theorem transition_correct_witness:
  "\<exists>db'. run (transition ''1'' ''RESOLVED'' None ''done'') (demo_database [demo_incident ''OPEN'']) = (ok, db') \<and>
    map ir_status (db_incidents db') = [''RESOLVED'']"
  using transition_correct [of "demo_database [demo_incident ''OPEN'']" "''1''" "''1''" None "''RESOLVED''" "''done''"]
  by (auto simp: demo_database_def demo_incident_def row_of_def is_valid_transition_def valid_transitions_def
      status_conflict_def all_ok_def)

section \<open>What opening or attaching does\<close>

text \<open>The identifiers of an alert can be stored, and those the database generates read back as themselves.\<close>

definition linkable :: "database \<Rightarrow> alert_ref \<Rightarrow> bool" where
  "linkable db a \<longleftrightarrow>
     db_uuid db (ar_organization_id a) \<noteq> None \<and> db_uuid db (ar_id a) \<noteq> None \<and>
     (\<forall>s\<in>set [ar_factory_id a, ar_machine_id a, ar_device_id a, ar_sensor_id a]. s = [] \<or> db_uuid db s \<noteq> None) \<and>
     (\<forall>n. db_uuid db (db_ids db n) = Some (db_ids db n))"

definition attached_event :: "database \<Rightarrow> alert_ref \<Rightarrow> string \<Rightarrow> incident_event_row" where
  "attached_event db a i =
     \<lparr>ie_id = db_ids db (db_next db), ie_incident_id = i, ie_event_type = ''ALERT_ATTACHED'', ie_actor_user_id = None,
      ie_old_value = None, ie_new_value = None,
      ie_note = ''alert '' @ ar_id a @ '' ('' @ severity_name (ar_severity a) @ '') attached: '' @ ar_title a,
      ie_created_at = db_now db\<rparr>"

lemma exec_log_event:
  assumes "all_ok db" and "db_uuid db i = Some i"
  shows "exec (log_event i ty None old new n) db =
    (ok, (ticked 1 db)\<lparr>db_incident_events := db_incident_events db @
       [\<lparr>ie_id = db_ids db (db_next db), ie_incident_id = i, ie_event_type = ty, ie_actor_user_id = None,
         ie_old_value = null_if_empty old, ie_new_value = null_if_empty new, ie_note = n, ie_created_at = db_now db\<rparr>],
       db_next := Suc (db_next db)\<rparr>)"
  using assms by (simp add: exec_all_ok log_event_def with_uuid_def with_uuid_option_def Let_def)

lemma exec_select_active:
  assumes "all_ok db" and "db_uuid db mid = Some m"
  shows "exec (select_active mid) db = (Inr (map_option ir_id (find (active_on m) (db_incidents db))), ticked 1 db)"
  using assms by (simp add: select_active_def exec_uuid)

lemma exec_insert_incident:
  assumes "all_ok db" and "linkable db a" and "ar_machine_id a \<noteq> []" and "db_uuid db (ar_machine_id a) = Some m"
    and "find (active_on m) (db_incidents db) = None"
  shows "\<exists>r. exec (insert_incident a) db =
      (Inr (Some (ir_id r)), (ticked 1 db)\<lparr>db_incidents := db_incidents db @ [r], db_next := Suc (db_next db)\<rparr>) \<and>
    ir_id r = db_ids db (db_next db) \<and> ir_machine_id r = Some m \<and> ir_status r = ''OPEN'' \<and> ir_severity r = ar_severity a \<and>
    db_uuid db (ar_id a) = ir_alert_id r"
proof -
  obtain org al where u: "db_uuid db (ar_organization_id a) = Some org" "db_uuid db (ar_id a) = Some al"
    using assms(2) by (auto simp: linkable_def)
  have null: "with_uuid_option (null_if_empty s) q (ticked 1 db) = q (if s = [] then None else db_uuid db s) (ticked 1 db)"
    if "s \<in> set [ar_factory_id a, ar_machine_id a, ar_device_id a, ar_sensor_id a]" for s and q :: "string option \<Rightarrow> string option statement"
    using that assms(2) by (auto simp: linkable_def with_uuid_option_def null_if_empty_def)
  have none: "\<not> (\<exists>r\<in>set (db_incidents db). active_on m r)"
    using assms(5) by (auto simp: find_None_iff)
  let ?id = "\<lambda>s. if s = [] then None else db_uuid db s"
  show ?thesis
    by (rule exI [of _ "\<lparr>ir_id = db_ids db (db_next db), ir_organization_id = org, ir_alert_id = Some al,
          ir_factory_id = ?id (ar_factory_id a), ir_machine_id = Some m, ir_device_id = ?id (ar_device_id a),
          ir_sensor_id = ?id (ar_sensor_id a), ir_severity = ar_severity a, ir_status = ''OPEN'', ir_title = ar_title a,
          ir_description = ar_description a, ir_assigned_to = None, ir_resolution_notes = None,
          ir_opened_at = db_now db, ir_resolved_at = None, ir_closed_at = None\<rparr>"])
       (use assms(1,3,4) u none null in \<open>simp add: exec_all_ok insert_incident_def with_uuid_def Let_def\<close>)
qed

lemma open_or_attach_run:
  assumes "all_ok db" and "incidents_ok db" and "linkable db a" and "ar_machine_id a \<noteq> []"
    and "db_uuid db (ar_machine_id a) = Some m"
  shows "\<exists>i created db' e. run (open_or_attach a) db = (Inr (i, created), db') \<and>
    created = (find (active_on m) (db_incidents db) = None) \<and>
    (\<exists>r\<in>set (db_incidents db'). ir_id r = i \<and> active_on m r) \<and>
    db_incident_events db' = db_incident_events db @ [e] \<and> ie_incident_id e = i \<and>
    (if created then \<exists>r. db_incidents db' = db_incidents db @ [r] \<and> ir_status r = ''OPEN'' \<and> ir_severity r = ar_severity a
     else db_incidents db' = db_incidents db \<and> e = attached_event db a i)"
proof (cases "find (active_on m) (db_incidents db)")
  case (Some r)
  then have r: "r \<in> set (db_incidents db)" "active_on m r"
    by (auto simp: find_Some_iff)
  obtain n where "ir_id r = db_ids db n"
    using incidents_drawn [OF assms(2) r(1)] by blast
  then have "db_uuid (ticked 1 db) (ir_id r) = Some (ir_id r)"
    using assms(3) by (simp add: linkable_def)
  then show ?thesis
    using r Some assms(1) exec_log_event [of "ticked 1 db" "ir_id r"]
    by (auto simp: open_or_attach_def exec_select_active [OF assms(1,5)] attached_event_def null_if_empty_def)
next
  case None
  have "linkable (ticked 1 db) a"
    using assms(3) by (simp add: linkable_def)
  then obtain r where ins: "exec (insert_incident a) (ticked 1 db) =
      (Inr (Some (ir_id r)), (ticked 2 db)\<lparr>db_incidents := db_incidents db @ [r], db_next := Suc (db_next db)\<rparr>)"
    and r: "ir_id r = db_ids db (db_next db)" "ir_machine_id r = Some m" "ir_status r = ''OPEN''" "ir_severity r = ar_severity a"
    using exec_insert_incident [of "ticked 1 db" a m] assms None by (auto simp: all_ok_def)
  let ?db2 = "(ticked 2 db)\<lparr>db_incidents := db_incidents db @ [r], db_next := Suc (db_next db)\<rparr>"
  have "db_uuid ?db2 (ir_id r) = Some (ir_id r)" and "all_ok ?db2"
    using assms(1,3) r(1) by (simp_all add: linkable_def all_ok_def)
  then show ?thesis
    using r None ins exec_log_event [of ?db2 "ir_id r"]
    by (auto simp: open_or_attach_def exec_select_active [OF assms(1,5)] active_on_def)
qed

text \<open>
  An alert on a machine with an active incident is attached to it: the incidents stay as they are and
  one audit event records the alert. On a machine without one, exactly one open incident is created
  from the alert, and its opening recorded. Either way the identifier returned is that of the active
  incident of the machine.
\<close>

theorem open_or_attach_correct:
  assumes "all_ok db" and "incidents_ok db" and "linkable db a" and "ar_machine_id a \<noteq> []"
    and "db_uuid db (ar_machine_id a) = Some m"
  shows "\<exists>i created db' e. run (open_or_attach a) db = (Inr (i, created), db') \<and>
    created = (find (active_on m) (db_incidents db) = None) \<and>
    (\<exists>r\<in>set (db_incidents db'). ir_id r = i \<and> active_on m r) \<and>
    db_incident_events db' = db_incident_events db @ [e] \<and> ie_incident_id e = i \<and>
    (if created then \<exists>r. db_incidents db' = db_incidents db @ [r] \<and> ir_status r = ''OPEN'' \<and> ir_severity r = ar_severity a
     else db_incidents db' = db_incidents db \<and> e = attached_event db a i)"
  using assms by (rule open_or_attach_run)

theorem open_or_attach_correct_witness:
  "\<exists>i created db'. run (open_or_attach demo_alert) (demo_database []) = (Inr (i, created), db') \<and> created"
proof -
  have "linkable (demo_database []) demo_alert"
    by (simp add: linkable_def demo_database_def demo_alert_def)
  then show ?thesis
    using open_or_attach_correct [of "demo_database []" demo_alert "''m''"] demo_database_ok
    by (auto simp: demo_database_def demo_alert_def)
qed

lemma find_map_id:
  assumes "\<And>r. ir_id (f r) = ir_id r"
  shows "find (\<lambda>r. ir_id r = u) (map f xs) = map_option f (find (\<lambda>r. ir_id r = u) xs)"
  using assms by (induction xs) auto

lemma row_of_update:
  assumes "\<And>r. ir_id (f r) = ir_id r"
  shows "row_of (update_incident v f db) u = map_option (\<lambda>r. if ir_id r = v then f r else r) (row_of db u)"
  unfolding row_of_def update_incident_def using assms find_map_id [of "\<lambda>r. if ir_id r = v then f r else r" u] by simp

lemma row_of_id: "row_of db u = Some r \<Longrightarrow> ir_id r = u"
  by (auto simp: row_of_def find_Some_iff)

text \<open>
  Resolving writes the notes before it checks the move: on an incident that cannot be resolved (a closed
  one, say) the call raises, the status and the audit trail stay, but the resolution notes are overwritten.
\<close>

theorem failed_resolve_overwrites_notes:
  assumes "all_ok db" and "db_uuid db i = Some u" and "row_of db u = Some r" and "\<not> is_valid_transition (ir_status r) ''RESOLVED''"
  shows "\<exists>db'. run (resolve i n None) db =
      (Inl (ValueError (''invalid incident transition '' @ ir_status r @ '' -> '' @ ''RESOLVED'')), db') \<and>
    row_of db' u = Some (r\<lparr>ir_resolution_notes := Some n\<rparr>) \<and> db_incident_events db' = db_incident_events db"
proof -
  let ?db1 = "update_incident u (\<lambda>r. r\<lparr>ir_resolution_notes := Some n\<rparr>) (ticked 1 db)"
  have upd: "exec (update_notes i n) db = (ok, ?db1)"
    by (simp add: update_notes_def exec_uuid [OF assms(1,2)])
  have "ir_id r = u"
    using assms(3) by (auto simp: row_of_def find_Some_iff)
  then have row: "row_of ?db1 u = Some (r\<lparr>ir_resolution_notes := Some n\<rparr>)"
    using row_of_update [of "\<lambda>r. r\<lparr>ir_resolution_notes := Some n\<rparr>" u "ticked 1 db" u] assms(3) by (simp add: row_of_def)
  have db1: "all_ok ?db1" "db_uuid ?db1 i = Some u"
    using assms(1,2) by (simp_all add: update_incident_def all_ok_def)
  have "run (transition i ''RESOLVED'' None n) ?db1 =
      (Inl (ValueError (''invalid incident transition '' @ ir_status r @ '' -> '' @ ''RESOLVED'')), ticked 1 ?db1)"
    using run_transition [OF db1] row assms(4) by simp
  then show ?thesis
    using upd row by (simp add: resolve_def row_of_def update_incident_def)
qed

theorem failed_resolve_overwrites_notes_witness:
  "\<exists>db'. run (resolve ''1'' ''rewritten'' None) (demo_database [demo_incident ''CLOSED'']) =
      (Inl (ValueError ''invalid incident transition CLOSED -> RESOLVED''), db') \<and>
    row_of db' ''1'' = Some ((demo_incident ''CLOSED'')\<lparr>ir_resolution_notes := Some ''rewritten''\<rparr>)"
  using failed_resolve_overwrites_notes [of "demo_database [demo_incident ''CLOSED'']" "''1''" "''1''" "demo_incident ''CLOSED''" "''rewritten''"]
  by (auto simp: demo_database_def demo_incident_def row_of_def is_valid_transition_def valid_transitions_def all_ok_def)

section \<open>A closed incident\<close>

definition closed_in :: "(string \<Rightarrow> string option) \<Rightarrow> string \<Rightarrow> database \<Rightarrow> bool" where
  "closed_in U u db \<longleftrightarrow> db_uuid db = U \<and> (\<exists>r. row_of db u = Some r \<and> ir_status r = ''CLOSED'')"

lemma table_inv_closed [simp]: "table_inv (closed_in U u)"
  by (simp add: table_inv_def closed_in_def row_of_def)

lemma find_append_left: "find P xs = Some r \<Longrightarrow> find P (xs @ ys) = Some r"
  by (induction xs) (auto split: if_splits)

lemma closed_insert_incident: "stmt_keeps (closed_in U u) (insert_incident alert)"
  unfolding insert_incident_def
  by (intro stmt_keeps_uuid stmt_keeps_uuid_option, unfold stmt_keeps_def Let_def, intro allI impI)
     (auto simp: closed_in_def row_of_def dest: find_append_left)

lemma closed_log_event: "stmt_keeps (closed_in U u) (log_event i t a ov nv n)"
  unfolding log_event_def
  by (intro stmt_keeps_uuid stmt_keeps_uuid_option, unfold stmt_keeps_def Let_def, intro allI impI)
     (auto simp: closed_in_def row_of_def)

lemma closed_update:
  assumes "closed_in U u db" and "\<And>r. ir_id (f r) = ir_id r" and "v = u \<Longrightarrow> (\<And>r. ir_status (f r) = ir_status r)"
  shows "closed_in U u (update_incident v f db)"
proof -
  obtain r where r: "row_of db u = Some r" "ir_status r = ''CLOSED''"
    using assms(1) by (auto simp: closed_in_def)
  have "row_of (update_incident v f db) u = Some (if ir_id r = v then f r else r)"
    using row_of_update [OF assms(2)] r by simp
  moreover have "ir_status (if ir_id r = v then f r else r) = ''CLOSED''"
    using row_of_id [OF r(1)] r(2) assms(3) by auto
  ultimately show ?thesis
    using assms(1) by (auto simp: closed_in_def update_incident_def)
qed

lemma closed_update_assigned: "stmt_keeps (closed_in U u) (update_assigned i who)"
  unfolding update_assigned_def
  by (intro stmt_keeps_uuid, unfold stmt_keeps_def, intro allI impI, simp) (erule closed_update; simp)

lemma closed_update_notes: "stmt_keeps (closed_in U u) (update_notes i n)"
  unfolding update_notes_def
  by (intro stmt_keeps_uuid, unfold stmt_keeps_def, intro allI impI, simp) (erule closed_update; simp)

lemma closed_update_status:
  assumes "U i \<noteq> Some u"
  shows "stmt_keeps (closed_in U u) (update_status i s)"
  unfolding stmt_keeps_def
proof (intro allI impI)
  fix db
  assume c: "closed_in U u db"
  show "closed_in U u (snd (update_status i s db))"
  proof (cases "db_uuid db i")
    case (Some v)
    then have "v \<noteq> u"
      using c assms by (auto simp: closed_in_def)
    then have "closed_in U u (update_incident v (with_status s (db_now db)) db)"
      using closed_update [OF c, of "with_status s (db_now db)" v] by simp
    then show ?thesis
      using c Some by (simp add: update_status_def with_uuid_def)
  qed (use c in \<open>simp add: update_status_def with_uuid_def\<close>)
qed

definition write_transition :: "string \<Rightarrow> string \<Rightarrow> string option \<Rightarrow> string \<Rightarrow> string \<Rightarrow> unit op" where
  "write_transition i new_status a n old =
     stmt (update_status i new_status) (\<lambda>_.
     stmt (log_event i ''STATUS_CHANGE'' a old new_status n) (\<lambda>_. Done ok))"

lemma transition_eq:
  "transition i s a n =
     stmt (select_status i) (\<lambda>row. case row of
       None \<Rightarrow> Done (Inl (RuntimeError (''load incident '' @ i @ '': not found'')))
     | Some old \<Rightarrow>
         if \<not> is_valid_transition old s then Done (Inl (ValueError (''invalid incident transition '' @ old @ '' -> '' @ s)))
         else write_transition i s a n old)"
  unfolding transition_def write_transition_def by (rule refl)

lemma run_transition_cases:
  "snd (run (transition i s a n) db) = snd (exec (select_status i) db) \<or>
   (\<exists>old. snd (run (transition i s a n) db) = snd (run (write_transition i s a n old) (snd (exec (select_status i) db))))"
  by (auto simp: transition_eq split: prod.split sum.split option.split)

lemma closed_transition:
  assumes "closed_in U u db"
  shows "closed_in U u (snd (run (transition i s a n) db))"
proof -
  obtain x db1 where sel: "exec (select_status i) db = (x, db1)" by fastforce
  have c1: "closed_in U u db1"
    using exec_keeps [of "closed_in U u" "select_status i" db] assms sel by simp
  show ?thesis
  proof (cases "U i = Some u")
    case True
    obtain r where r: "row_of db u = Some r" "ir_status r = ''CLOSED''"
      using assms by (auto simp: closed_in_def)
    have "db_uuid db = U"
      using assms by (simp add: closed_in_def)
    then have "x = Inr (Some ''CLOSED'') \<or> raised x"
      using sel True r by (auto simp: exec_def select_status_def with_uuid_def row_of_def Let_def split: reply.splits)
    moreover have "\<not> is_valid_transition ''CLOSED'' s"
      by (simp add: is_valid_transition_def valid_transitions_def)
    ultimately show ?thesis
      using c1 sel by (auto simp: transition_def raised_iff)
  next
    case False
    have "keeps (closed_in U u) (write_transition i s a n old)" for old
      unfolding write_transition_def by (intro keeps_stmt closed_update_status closed_log_event False) auto
    then have "closed_in U u (snd (run (write_transition i s a n old) db1))" for old
      using c1 by (rule keeps_run)
    then show ?thesis
      using c1 sel run_transition_cases [of i s a n db] by auto
  qed
qed

text \<open>A sequence of store operations, one after the other.\<close>

datatype store_call =
    Open_or_attach alert_ref
  | Transition string string "string option" string
  | Assign string string "string option"
  | Resolve string string "string option"

fun run_call :: "store_call \<Rightarrow> database \<Rightarrow> database" where
  "run_call (Open_or_attach alert) db = snd (run (open_or_attach alert) db)"
| "run_call (Transition i s a n) db = snd (run (transition i s a n) db)"
| "run_call (Assign i who a) db = snd (run (assign i who a) db)"
| "run_call (Resolve i nt a) db = snd (run (resolve i nt a) db)"

lemma closed_run_call:
  assumes "closed_in U u db"
  shows "closed_in U u (run_call c db)"
proof (cases c)
  case (Open_or_attach alert)
  have "keeps (closed_in U u) (open_or_attach alert)"
    by (auto simp: open_or_attach_def intro!: keeps_stmt closed_insert_incident closed_log_event split: option.split)
  then show ?thesis
    using keeps_run assms Open_or_attach by auto
next
  case (Transition i s a n)
  then show ?thesis
    using closed_transition assms by simp
next
  case (Assign i who a)
  have "keeps (closed_in U u) (assign i who a)"
    by (auto simp: assign_def intro!: keeps_stmt closed_update_assigned closed_log_event)
  then show ?thesis
    using keeps_run assms Assign by auto
next
  case (Resolve i nt a)
  obtain x db1 where e: "exec (update_notes i nt) db = (x, db1)" by fastforce
  then have "closed_in U u db1"
    using exec_keeps [OF table_inv_closed closed_update_notes assms, of i nt] by simp
  then show ?thesis
    using Resolve e closed_transition by (auto simp: resolve_def split: sum.split)
qed

text \<open>
  C18. Closed is final for operations that run one after the other: whatever is called, with whatever
  failures, an incident that is closed stays closed.
\<close>

theorem closed_stays_closed:
  assumes "row_of db u = Some r" and "ir_status r = ''CLOSED''"
  shows "\<exists>r'. row_of (fold run_call calls db) u = Some r' \<and> ir_status r' = ''CLOSED''"
proof -
  have "closed_in (db_uuid db) u (fold run_call calls db)"
    using assms
  proof (induction calls rule: rev_induct)
    case Nil
    then show ?case by (simp add: closed_in_def)
  next
    case (snoc c calls)
    then show ?case
      using closed_run_call by simp
  qed
  then show ?thesis
    by (simp add: closed_in_def)
qed

theorem closed_stays_closed_witness:
  "\<exists>r'. row_of (fold run_call [Transition ''1'' ''OPEN'' None [], Open_or_attach demo_alert]
      (demo_database [demo_incident ''CLOSED''])) ''1'' = Some r' \<and> ir_status r' = ''CLOSED''"
  using closed_stays_closed [of "demo_database [demo_incident ''CLOSED'']" "''1''" "demo_incident ''CLOSED''"
      "[Transition ''1'' ''OPEN'' None [], Open_or_attach demo_alert]"]
  by (simp add: row_of_def demo_database_def demo_incident_def)

lemma transition_read:
  assumes "j < length ps" and "ps ! j = transition i s a n" and "is_valid_transition old s"
    and "exec (select_status i) d = (Inr (Some old), d')"
  shows "interleave (ps, d) (ps[j := write_transition i s a n old], d')"
  by (rule interleave.intros [OF assms(1) assms(2) [unfolded transition_def stmt_def [of "select_status i"]]])
     (simp add: assms(3,4) write_transition_def)

lemma transition_written:
  assumes "j < length ps" and "ps ! j = write_transition i s a n old" and "exec (update_status i s) d = (ok, d')"
  shows "interleave (ps, d) (ps[j := stmt (log_event i ''STATUS_CHANGE'' a old s n) (\<lambda>_. Done ok)], d')"
  by (rule interleave.intros [OF assms(1) assms(2) [unfolded write_transition_def stmt_def [of "update_status i s"]]])
     (simp add: assms(3))

text \<open>
  With two requests at once it is not: a resolved incident can be closed by one of them while the
  other, having read the old status, moves it back to investigating, although no valid transition
  leaves the closed status.
\<close>

theorem closed_incident_reanimated_by_race:
  assumes "all_ok db" and "db_incidents db = [r]" and "ir_id r = u" and "ir_status r = ''RESOLVED''"
    and "db_uuid db u = Some u"
  shows "\<exists>ps1 db1 ps2 db2.
    interleave\<^sup>*\<^sup>* ([transition u ''CLOSED'' None n, transition u ''INVESTIGATING'' None n], db) (ps1, db1) \<and>
    map ir_status (db_incidents db1) = [''CLOSED''] \<and>
    interleave\<^sup>*\<^sup>* (ps1, db1) (ps2, db2) \<and> map ir_status (db_incidents db2) = [''INVESTIGATING'']"
proof -
  let ?log = "\<lambda>s. stmt (log_event u ''STATUS_CHANGE'' None ''RESOLVED'' s n) (\<lambda>_. Done ok)"
  let ?body = "\<lambda>s. write_transition u s None n ''RESOLVED''"
  let ?d3 = "update_incident u (with_status ''CLOSED'' (db_now db)) (ticked 3 db)"
  let ?d4 = "update_incident u (with_status ''INVESTIGATING'' (db_now db)) (ticked 1 ?d3)"
  have valid: "is_valid_transition ''RESOLVED'' ''CLOSED''" "is_valid_transition ''RESOLVED'' ''INVESTIGATING''"
    by (simp_all add: is_valid_transition_def valid_transitions_def)
  have sel: "exec (select_status u) d = (Inr (Some ''RESOLVED''), ticked 1 d)"
    if "all_ok d" "db_incidents d = [r]" "db_uuid d u = Some u" for d
    using that assms(3,4) by (simp add: exec_all_ok select_status_def with_uuid_def)
  have upd: "exec (update_status u s) d = (ok, update_incident u (with_status s (db_now d)) (ticked 1 d))"
    if "all_ok d" "db_incidents d = [q]" "ir_id q = u" "db_uuid d u = Some u" for d s q
    using that by (simp add: exec_all_ok update_status_def with_uuid_def update_incident_def)
  have closed: "db_incidents ?d3 = [with_status ''CLOSED'' (db_now db) r]"
    using assms(2,3) by (simp add: update_incident_def)
  have s1: "interleave ([transition u ''CLOSED'' None n, transition u ''INVESTIGATING'' None n], db)
      ([?body ''CLOSED'', transition u ''INVESTIGATING'' None n], ticked 1 db)"
    using transition_read [of 0 "[transition u ''CLOSED'' None n, transition u ''INVESTIGATING'' None n]" u "''CLOSED''" None n
        "''RESOLVED''" db] sel [of db] valid assms by simp
  have s2: "interleave ([?body ''CLOSED'', transition u ''INVESTIGATING'' None n], ticked 1 db)
      ([?body ''CLOSED'', ?body ''INVESTIGATING''], ticked 2 db)"
    using transition_read [of 1 "[?body ''CLOSED'', transition u ''INVESTIGATING'' None n]" u "''INVESTIGATING''" None n
        "''RESOLVED''" "ticked 1 db"] sel [of "ticked 1 db"] valid assms by simp
  have s3: "interleave ([?body ''CLOSED'', ?body ''INVESTIGATING''], ticked 2 db)
      ([?log ''CLOSED'', ?body ''INVESTIGATING''], ?d3)"
    using transition_written [of 0 "[?body ''CLOSED'', ?body ''INVESTIGATING'']" u "''CLOSED''" None n "''RESOLVED''"
        "ticked 2 db"] upd [of "ticked 2 db" r] assms by (simp add: eval_nat_numeral)
  have s4: "interleave ([?log ''CLOSED'', ?body ''INVESTIGATING''], ?d3) ([?log ''CLOSED'', ?log ''INVESTIGATING''], ?d4)"
    using transition_written [of 1 "[?log ''CLOSED'', ?body ''INVESTIGATING'']" u "''INVESTIGATING''" None n "''RESOLVED''" ?d3]
      upd [OF _ closed] assms by (simp add: all_ok_def update_incident_def)
  have "interleave\<^sup>*\<^sup>* ([transition u ''CLOSED'' None n, transition u ''INVESTIGATING'' None n], db)
      ([?log ''CLOSED'', ?body ''INVESTIGATING''], ?d3)"
    using s1 s2 s3 by (meson converse_rtranclp_into_rtranclp r_into_rtranclp)
  moreover have "map ir_status (db_incidents ?d3) = [''CLOSED'']" "map ir_status (db_incidents ?d4) = [''INVESTIGATING'']"
    using assms(2,3) by (simp_all add: update_incident_def with_status_def)
  moreover have "interleave\<^sup>*\<^sup>* ([?log ''CLOSED'', ?body ''INVESTIGATING''], ?d3)
      ([?log ''CLOSED'', ?log ''INVESTIGATING''], ?d4)"
    using s4 by (rule r_into_rtranclp)
  ultimately show ?thesis
    by (intro exI conjI)
qed

theorem closed_incident_reanimated_by_race_witness:
  "\<exists>ps1 db1 ps2 db2.
    interleave\<^sup>*\<^sup>* ([transition ''1'' ''CLOSED'' None [], transition ''1'' ''INVESTIGATING'' None []],
      demo_database [demo_incident ''RESOLVED'']) (ps1, db1) \<and>
    map ir_status (db_incidents db1) = [''CLOSED''] \<and>
    interleave\<^sup>*\<^sup>* (ps1, db1) (ps2, db2) \<and> map ir_status (db_incidents db2) = [''INVESTIGATING'']"
  by (rule closed_incident_reanimated_by_race [of "demo_database [demo_incident ''RESOLVED'']" "demo_incident ''RESOLVED''"])
     (simp_all add: demo_database_def demo_incident_def all_ok_def)

end
