(* ===== verification/Alert_Service.thy ===== *)
theory Alert_Service
  imports Alert_Rules Alert_Store Notifications Incidents
begin

text \<open>
  \<open>services/alert-service/main.py\<close> and \<open>kafka_io.py\<close>: the consumers of anomalies and of device
  events, the link from a new alert to an incident, publication, the escalation sweep and the
  refresher of the incident gauges. Postgres is the \<open>database\<close> of the stores, whose operations a
  handler runs to their end here; their interleavings are treated with the stores.
\<close>

section \<open>State\<close>

record alert_world = notify_world +
  lw_db :: database
  lw_rules :: rule_cache
  lw_counts :: count_tracker
  lw_gauges :: "string \<Rightarrow> nat"

text \<open>Parsing and serialization (pydantic) are parameters.\<close>

record alert_codec =
  lc_anomaly :: "string \<Rightarrow> exn + anomaly_detected"
  lc_machine_event :: "string \<Rightarrow> exn + normalized_machine_event"
  lc_dump :: "alert_event \<Rightarrow> exn + string"
  lc_dead :: "string dead_letter_record \<Rightarrow> string"
  lc_decode :: "string \<Rightarrow> string"

definition MACHINE_SHUTDOWN_METRIC :: string where
  "MACHINE_SHUTDOWN_METRIC = ''machine_status''"

definition build_providers :: "alert_config \<Rightarrow> provider list" where
  "build_providers cfg =
     (if al_notification_console_enabled cfg then [Console_provider] else []) @
     (if al_notification_webhook_url cfg \<noteq> [] then [Webhook_provider (al_notification_webhook_url cfg)] else [])"

text \<open>Running a store operation to its end.\<close>

definition on_db :: "(database, exn + 'a) prog \<Rightarrow> alert_world \<Rightarrow> (exn + 'a) \<times> alert_world" where
  "on_db p w = (case run p (lw_db w) of (r, db) \<Rightarrow> (r, w\<lparr>lw_db := db\<rparr>))"

section \<open>Kafka\<close>

definition publish_alert ::
  "alert_config \<Rightarrow> alert_codec \<Rightarrow> string \<Rightarrow> alert_event \<Rightarrow> alert_world \<Rightarrow> (exn + unit) \<times> alert_world" where
  "publish_alert cfg cd key evt w =
     (case lc_dump cd evt of Inl e \<Rightarrow> (Inl e, w) | Inr payload \<Rightarrow> produce_and_wait (al_topic_alerts cfg) key payload w)"

definition al_dead_letter ::
  "alert_config \<Rightarrow> alert_codec \<Rightarrow> string \<Rightarrow> exn \<Rightarrow> string \<Rightarrow> string \<Rightarrow> string \<Rightarrow> alert_world \<Rightarrow> (exn + unit) \<times> alert_world" where
  "al_dead_letter cfg cd raw_payload cause stage correlation_id source_topic w =
     (let rec = \<lparr>dl_original_payload = lc_decode cd raw_payload, dl_error = cause, dl_error_type = TRANSIENT_ERROR,
                 dl_service = ''alert-service'', dl_processing_stage = stage, dl_retry_count = 0,
                 dl_timestamp = utc_at (clock w), dl_correlation_id = correlation_id, dl_source_topic = source_topic\<rparr>
      in produce_and_wait (al_topic_dead_letter cfg) correlation_id (lc_dead cd rec) w)"

definition dlq_or_hold ::
  "alert_config \<Rightarrow> alert_codec \<Rightarrow> string \<Rightarrow> exn \<Rightarrow> string \<Rightarrow> string \<Rightarrow> string \<Rightarrow> alert_world \<Rightarrow> (exn + bool) \<times> alert_world" where
  "dlq_or_hold cfg cd payload cause stage correlation_id source_topic w =
     (case al_dead_letter cfg cd payload cause stage correlation_id source_topic w of
        (Inl _, w') \<Rightarrow> (Inr False, w')
      | (Inr _, w') \<Rightarrow> (Inr True, inc ''dlq_messages_total'' w'))"

section \<open>After an alert is created\<close>

definition ref_of_alert :: "alert \<Rightarrow> alert_ref" where
  "ref_of_alert a =
     \<lparr>ar_id = at_id a, ar_organization_id = at_organization_id a, ar_severity = at_severity a,
      ar_factory_id = at_factory_id a, ar_machine_id = at_machine_id a, ar_device_id = at_device_id a,
      ar_sensor_id = at_sensor_id a, ar_title = at_title a, ar_description = at_description a\<rparr>"

definition open_or_attach_incident :: "alert \<Rightarrow> alert_world \<Rightarrow> alert_world" where
  "open_or_attach_incident a w =
     (case on_db (open_or_attach (ref_of_alert a)) w of
        (Inl _, w') \<Rightarrow> w'
      | (Inr (incident_id, created), w') \<Rightarrow>
          if created then inc ''incidents_created_total'' w' else inc ''alerts_attached_to_incident_total'' w')"

text \<open>A missing trigger time fails the validation of the event, before anything is published.\<close>

definition publish_and_notify ::
  "alert_config \<Rightarrow> alert_codec \<Rightarrow> provider list \<Rightarrow> alert \<Rightarrow> string \<Rightarrow> alert_event_type \<Rightarrow> bool \<Rightarrow> alert_world \<Rightarrow>
   (exn + unit) \<times> alert_world" where
  "publish_and_notify cfg cd providers a rule_id event_type is_escalation w =
     (case at_triggered_at a of
        None \<Rightarrow> (Inl (ValidationError ''triggered_at''), w)
      | Some t \<Rightarrow>
          (let evt = \<lparr>ae_alert_id = at_id a, ae_event_type = event_type, ae_organization_id = at_organization_id a,
                      ae_alert_rule_id = rule_id, ae_factory_id = at_factory_id a, ae_machine_id = at_machine_id a,
                      ae_device_id = at_device_id a, ae_sensor_id = at_sensor_id a, ae_severity = at_severity a,
                      ae_status = ''OPEN'', ae_title = at_title a, ae_description = at_description a,
                      ae_escalation_level = at_escalation_level a, ae_triggered_at = Aware t,
                      ae_timestamp = utc_at (clock w)\<rparr>;
               (_, w') = publish_alert cfg cd (at_device_id a) evt w
           in (ok, notify_all providers
                 \<lparr>no_alert_id = at_id a, no_title = at_title a, no_description = at_description a,
                  no_severity = at_severity a, no_machine_id = at_machine_id a, no_device_id = at_device_id a,
                  no_triggered_at = Aware t, no_is_escalation = is_escalation\<rparr> w')))"

text \<open>
  The part the two handlers share: create the alert if due, and on success open or attach an
  incident, publish and notify. \<open>Inl\<close> is the exception of the store, \<open>Inr (Inl e)\<close> one that escapes.
\<close>

definition raise_alert ::
  "alert_config \<Rightarrow> alert_codec \<Rightarrow> provider list \<Rightarrow> alert_rule \<Rightarrow> alert \<Rightarrow> string \<Rightarrow> alert_world \<Rightarrow>
   (exn + (exn + unit)) \<times> alert_world" where
  "raise_alert cfg cd providers rule alert dedupe_key w =
     (case on_db (create_if_due \<lfloor>clock w * 1000000\<rfloor> (rl_id rule) (rl_cooldown_seconds rule) alert dedupe_key) w of
        (Inl e, w1) \<Rightarrow> (Inl e, w1)
      | (Inr (CREATED, None), w1) \<Rightarrow> (Inr (Inl TypeError), w1)
      | (Inr (CREATED, Some a), w1) \<Rightarrow>
          (let w2 = inc (''alerts_generated_total:'' @ severity_name (at_severity a)) w1;
               w3 = open_or_attach_incident a w2;
               (r, w4) = publish_and_notify cfg cd providers a (rl_id rule) CREATED_EVENT False w3
           in (Inr r, w4))
      | (Inr (SUPPRESSED_OPEN, _), w1) \<Rightarrow> (Inr ok, inc ''alerts_suppressed_total:open'' w1)
      | (Inr (SUPPRESSED_COOLDOWN, _), w1) \<Rightarrow> (Inr ok, inc ''alerts_suppressed_total:cooldown'' w1))"

section \<open>Anomalies\<close>

definition alert_of_anomaly :: "alert_rule \<Rightarrow> anomaly_detected \<Rightarrow> alert" where
  "alert_of_anomaly rule anomaly =
     \<lparr>at_organization_id = ad_organization_id anomaly, at_severity = rl_severity rule,
      at_factory_id = ad_factory_id anomaly, at_machine_id = ad_machine_id anomaly,
      at_device_id = ad_device_id anomaly, at_sensor_id = ad_sensor_id anomaly, at_title = rl_name rule,
      at_description = ad_reason anomaly, at_id = [], at_status = [], at_triggered_at = None,
      at_escalation_level = 0\<rparr>"

definition anomaly_key :: "anomaly_detected \<Rightarrow> string" where
  "anomaly_key anomaly = ad_device_id anomaly @ '':'' @ ad_metric anomaly"

definition rule_count :: "alert_rule \<Rightarrow> anomaly_detected \<Rightarrow> alert_world \<Rightarrow> (exn + nat) \<times> alert_world" where
  "rule_count rule anomaly w =
     (if rl_condition rule = ''ANOMALY_COUNT'' then
        (case count_record (bar_key (rl_id rule) (ad_device_id anomaly)) (ad_detected_at anomaly) (rl_window_seconds rule)
                (lw_counts w) of
           (r, counts) \<Rightarrow> (r, w\<lparr>lw_counts := counts\<rparr>))
      else (Inr 0, w))"

fun apply_rules ::
  "alert_config \<Rightarrow> alert_codec \<Rightarrow> provider list \<Rightarrow> string \<Rightarrow> anomaly_detected \<Rightarrow> alert_rule list \<Rightarrow> alert_world \<Rightarrow>
   (exn + bool) \<times> alert_world" where
  "apply_rules cfg cd providers raw anomaly [] w = (Inr True, w)"
| "apply_rules cfg cd providers raw anomaly (rule # rules) w =
     (if \<not> scope_matches rule (ad_machine_id anomaly) (ad_device_id anomaly) (ad_sensor_id anomaly)
      then apply_rules cfg cd providers raw anomaly rules w
      else case rule_count rule anomaly w of
             (Inl e, w1) \<Rightarrow> (Inl e, w1)
           | (Inr n, w1) \<Rightarrow>
               if \<not> condition_matches rule (ad_reading anomaly) n
               then apply_rules cfg cd providers raw anomaly rules w1
               else (case raise_alert cfg cd providers rule (alert_of_anomaly rule anomaly) (anomaly_key anomaly) w1 of
                       (Inl e, w2) \<Rightarrow>
                         dlq_or_hold cfg cd raw e ''create_alert'' (ad_event_id anomaly) (al_topic_anomalies cfg)
                           (inc ''messages_failed_total:store_alert'' w2)
                     | (Inr (Inl e), w2) \<Rightarrow> (Inl e, w2)
                     | (Inr (Inr _), w2) \<Rightarrow> apply_rules cfg cd providers raw anomaly rules w2))"

definition process_anomaly ::
  "alert_config \<Rightarrow> alert_codec \<Rightarrow> provider list \<Rightarrow> string \<Rightarrow> alert_world \<Rightarrow> (exn + bool) \<times> alert_world" where
  "process_anomaly cfg cd providers raw w0 =
     (let w = inc ''anomalies_consumed_total'' w0
      in case lc_anomaly cd raw of
           Inl e \<Rightarrow> dlq_or_hold cfg cd raw e ''unmarshal'' [] (al_topic_anomalies cfg) (inc ''messages_failed_total:unmarshal'' w)
         | Inr anomaly \<Rightarrow>
             apply_rules cfg cd providers raw anomaly
               (rules_for (lw_rules w) (ad_organization_id anomaly) (ad_metric anomaly)) w)"

definition consume_anomalies ::
  "alert_config \<Rightarrow> alert_codec \<Rightarrow> provider list \<Rightarrow> string poll list \<Rightarrow> alert_world \<Rightarrow> string loop_result \<times> alert_world" where
  "consume_anomalies cfg cd providers polls w = consume_loop (process_anomaly cfg cd providers) polls w"

section \<open>Device events\<close>

definition shutdown_key :: "normalized_machine_event \<Rightarrow> string" where
  "shutdown_key evt = ''shutdown:'' @ me_machine_id evt"

definition alert_of_shutdown :: "alert_rule \<Rightarrow> normalized_machine_event \<Rightarrow> alert" where
  "alert_of_shutdown rule evt =
     \<lparr>at_organization_id = me_organization_id evt, at_severity = rl_severity rule, at_factory_id = me_factory_id evt,
      at_machine_id = me_machine_id evt, at_device_id = me_device_id evt, at_sensor_id = [],
      at_title = ''Unexpected machine shutdown'',
      at_description = ''machine '' @ me_machine_id evt @ '' stopped unexpectedly'', at_id = [], at_status = [],
      at_triggered_at = None, at_escalation_level = 0\<rparr>"

definition process_device_event ::
  "alert_config \<Rightarrow> alert_codec \<Rightarrow> provider list \<Rightarrow> string \<Rightarrow> alert_world \<Rightarrow> (exn + bool) \<times> alert_world" where
  "process_device_event cfg cd providers raw w =
     (case lc_machine_event cd raw of
        Inl e \<Rightarrow>
          dlq_or_hold cfg cd raw e ''unmarshal'' [] (al_topic_device_events cfg) (inc ''messages_failed_total:unmarshal'' w)
      | Inr evt \<Rightarrow>
          if me_event_type evt \<noteq> ''MACHINE_STOPPED'' then (Inr True, w)
          else case rules_for (lw_rules w) (me_organization_id evt) MACHINE_SHUTDOWN_METRIC of
                 [] \<Rightarrow> (Inr True, w)
               | rule # _ \<Rightarrow>
                   (case raise_alert cfg cd providers rule (alert_of_shutdown rule evt) (shutdown_key evt) w of
                      (Inl e, w1) \<Rightarrow>
                        dlq_or_hold cfg cd raw e ''create_alert'' (nm_correlation_id evt) (al_topic_device_events cfg)
                          (inc ''messages_failed_total:store_alert'' w1)
                    | (Inr (Inl e), w1) \<Rightarrow> (Inl e, w1)
                    | (Inr (Inr _), w1) \<Rightarrow> (Inr True, w1)))"

definition consume_device_events ::
  "alert_config \<Rightarrow> alert_codec \<Rightarrow> provider list \<Rightarrow> string poll list \<Rightarrow> alert_world \<Rightarrow> string loop_result \<times> alert_world" where
  "consume_device_events cfg cd providers polls w = consume_loop (process_device_event cfg cd providers) polls w"

section \<open>Escalation\<close>

fun sweep_candidates ::
  "alert_config \<Rightarrow> alert_codec \<Rightarrow> provider list \<Rightarrow> alert list \<Rightarrow> alert_world \<Rightarrow> (exn + unit) \<times> alert_world" where
  "sweep_candidates cfg cd providers [] w = (ok, w)"
| "sweep_candidates cfg cd providers (a # candidates) w =
     (let new_severity = next_severity (at_severity a)
      in if new_severity = at_severity a then sweep_candidates cfg cd providers candidates w
         else case on_db (escalate (at_id a) new_severity) w of
                (Inl _, w1) \<Rightarrow> sweep_candidates cfg cd providers candidates w1
              | (Inr _, w1) \<Rightarrow>
                  (let a' = a\<lparr>at_severity := new_severity, at_escalation_level := at_escalation_level a + 1\<rparr>
                   in case publish_and_notify cfg cd providers a' [] ESCALATED_EVENT True (inc ''alerts_escalated_total'' w1) of
                        (Inl e, w2) \<Rightarrow> (Inl e, w2)
                      | (Inr _, w2) \<Rightarrow> sweep_candidates cfg cd providers candidates w2))"

definition escalation_sweep ::
  "alert_config \<Rightarrow> alert_codec \<Rightarrow> provider list \<Rightarrow> alert_world \<Rightarrow> (exn + unit) \<times> alert_world" where
  "escalation_sweep cfg cd providers w =
     (case on_db (due_for_escalation (al_escalation_after_seconds cfg)) w of
        (Inl _, w1) \<Rightarrow> (ok, w1)
      | (Inr candidates, w1) \<Rightarrow> sweep_candidates cfg cd providers candidates w1)"

section \<open>Incident gauges\<close>

definition open_incident :: "incident_row \<Rightarrow> bool" where
  "open_incident r \<longleftrightarrow> ir_status r \<noteq> ''RESOLVED'' \<and> ir_status r \<noteq> ''CLOSED''"

definition count_open :: "nat statement" where
  "count_open db = (Inr (length (filter open_incident (db_incidents db))), db)"

definition count_open_by_severity :: "(severity \<times> nat) list statement" where
  "count_open_by_severity db =
     (let rows = filter open_incident (db_incidents db)
      in (Inr (map (\<lambda>s. (s, length (filter (\<lambda>r. ir_severity r = s) rows))) (remdups (map ir_severity rows))), db))"

definition set_gauge :: "string \<Rightarrow> nat \<Rightarrow> alert_world \<Rightarrow> alert_world" where
  "set_gauge name n w = w\<lparr>lw_gauges := (lw_gauges w)(name := n)\<rparr>"

definition severity_gauge :: "severity \<Rightarrow> string" where
  "severity_gauge s = ''incidents_open_by_severity:'' @ severity_name s"

definition gauge_refresher_tick :: "alert_world \<Rightarrow> alert_world" where
  "gauge_refresher_tick w =
     (case on_db (stmt count_open (\<lambda>n. Done (Inr n))) w of
        (Inl _, w1) \<Rightarrow> w1
      | (Inr n, w1) \<Rightarrow>
          (case on_db (stmt count_open_by_severity (\<lambda>rows. Done (Inr rows))) (set_gauge ''incidents_open_total'' n w1) of
             (Inl _, w2) \<Rightarrow> w2
           | (Inr rows, w2) \<Rightarrow>
               (let w3 = fold (\<lambda>(s, k). set_gauge (severity_gauge s) k) rows w2
                in fold (\<lambda>s w. if s \<in> fst ` set rows then w else set_gauge (severity_gauge s) 0 w)
                     [INFO, WARNING, HIGH, CRITICAL] w3)))"

section \<open>What the operations keep\<close>

definition alert_keys :: "database \<Rightarrow> (string \<times> string) set" where
  "alert_keys db = (\<lambda>r. (alr_rule_id r, alr_dedupe_key r)) ` set (db_alerts db)"

text \<open>The parsing of identifiers is \<open>U\<close>, and the rules and keys \<open>A\<close> have an alert.\<close>

definition alerts_stay :: "(string \<Rightarrow> string option) \<Rightarrow> (string \<times> string) set \<Rightarrow> database \<Rightarrow> bool" where
  "alerts_stay U A db \<longleftrightarrow> db_uuid db = U \<and> A \<subseteq> alert_keys db"

lemma table_inv_alerts_stay [simp]: "table_inv (alerts_stay U A)"
  by (simp add: table_inv_def alerts_stay_def alert_keys_def)

lemma alerts_stay_statements [simp]:
  "stmt_keeps (alerts_stay U A) (insert_alert rule_id a key)"
  "stmt_keeps (alerts_stay U A) (insert_incident r)"
  "stmt_keeps (alerts_stay U A) (log_event i t actor ov nv n)"
  unfolding insert_alert_def insert_incident_def log_event_def
  by (intro stmt_keeps_uuid stmt_keeps_uuid_option; unfold stmt_keeps_def Let_def;
      auto simp: alerts_stay_def alert_keys_def image_iff)+

lemma alerts_stay_create: "keeps (alerts_stay U A) (create_if_due now rule cooldown a key)"
  by (auto simp: create_if_due_def Let_def intro!: keeps_stmt split: option.split)

lemma alerts_stay_attach: "keeps (alerts_stay U A) (open_or_attach r)"
  by (auto simp: open_or_attach_def intro!: keeps_stmt split: option.split)

definition lw_extends :: "alert_world \<Rightarrow> alert_world \<Rightarrow> bool" where
  "lw_extends w w' \<longleftrightarrow>
     topics_grow w w' \<and> net w' = net w \<and> lw_rules w' = lw_rules w \<and>
     alerts_stay (db_uuid (lw_db w)) (alert_keys (lw_db w)) (lw_db w')"

lemma lw_extends_refl [simp, intro]: "lw_extends w w"
  by (simp add: lw_extends_def alerts_stay_def)

lemma lw_extends_trans [trans]: "lw_extends a b \<Longrightarrow> lw_extends b c \<Longrightarrow> lw_extends a c"
  unfolding lw_extends_def alerts_stay_def by (auto intro: topics_grow_trans)

lemma lw_fields [simp]:
  "lw_db (inc n w) = lw_db w" "lw_rules (inc n w) = lw_rules w" "lw_counts (inc n w) = lw_counts w"
  "lw_db (sleep d w) = lw_db w" "lw_rules (sleep d w) = lw_rules w"
  "lw_db (append_to t k p w) = lw_db w" "lw_rules (append_to t k p w) = lw_rules w"
  by (simp_all add: inc_def sleep_def append_to_def)

lemma lw_extends_upd [simp]:
  "lw_extends w (inc n w') = lw_extends w w'" "lw_extends w (sleep d w') = lw_extends w w'"
  "lw_extends w (w'\<lparr>nw_http_tick := k\<rparr>) = lw_extends w w'" "lw_extends w (w'\<lparr>nw_posted := ps\<rparr>) = lw_extends w w'"
  "lw_extends w (w'\<lparr>nw_webhook_breaker := b\<rparr>) = lw_extends w w'" "lw_extends w (w'\<lparr>lw_counts := c\<rparr>) = lw_extends w w'"
  by (simp_all add: lw_extends_def topics_grow_def)

lemma lw_produce [simp]:
  "lw_db (snd (produce_and_wait t k p w)) = lw_db w" "lw_rules (snd (produce_and_wait t k p w)) = lw_rules w"
  by (auto simp: produce_and_wait_def Let_def split: delivery.split)

lemma lw_extends_produce: "lw_extends w0 w \<Longrightarrow> lw_extends w0 (snd (produce_and_wait t k p w))"
  using produce_topics_grow [of w t k p] by (auto simp: lw_extends_def intro: topics_grow_trans)

lemma lw_extends_publish: "lw_extends w0 w \<Longrightarrow> lw_extends w0 (snd (publish_alert cfg cd k e w))"
  by (auto simp: publish_alert_def lw_extends_produce split: sum.split)

lemma lw_extends_on_db:
  assumes "\<And>U A. keeps (alerts_stay U A) p"
  shows "lw_extends w (snd (on_db p w))"
proof -
  have "alerts_stay (db_uuid (lw_db w)) (alert_keys (lw_db w)) (snd (run p (lw_db w)))"
    by (rule keeps_run [OF assms]) (simp add: alerts_stay_def)
  then show ?thesis
    by (auto simp: on_db_def lw_extends_def topics_grow_def split: prod.split)
qed

lemma notify_inv_extends: "notify_inv (lw_extends w)"
  by (simp add: notify_inv_def)

lemma lw_extends_publish_and_notify: "lw_extends w (snd (publish_and_notify cfg cd ps a rule_id ty esc w))"
  by (auto simp: publish_and_notify_def Let_def case_prod_beta'
      intro!: notify_all_keeps [OF notify_inv_extends] lw_extends_publish split: option.split)

lemma lw_extends_attach: "lw_extends w (open_or_attach_incident a w)"
  using lw_extends_on_db [OF alerts_stay_attach, of w "ref_of_alert a"]
  by (auto simp: open_or_attach_incident_def split: prod.split sum.split)

lemma lw_extends_raise: "lw_extends w (snd (raise_alert cfg cd ps rule a key w))"
proof -
  obtain r w1 where c: "on_db (create_if_due \<lfloor>clock w * 1000000\<rfloor> (rl_id rule) (rl_cooldown_seconds rule) a key) w = (r, w1)"
    by fastforce
  then have w1: "lw_extends w w1"
    using lw_extends_on_db [OF alerts_stay_create, of w "\<lfloor>clock w * 1000000\<rfloor>" "rl_id rule" "rl_cooldown_seconds rule" a key]
    by simp
  have "lw_extends w (snd (publish_and_notify cfg cd ps a' (rl_id rule) CREATED_EVENT False
      (open_or_attach_incident a' (inc l w1))))" for a' l
  proof -
    have "lw_extends w (inc l w1)"
      using w1 by simp
    also have "lw_extends (inc l w1) (open_or_attach_incident a' (inc l w1))"
      by (rule lw_extends_attach)
    finally show ?thesis
      using lw_extends_publish_and_notify lw_extends_trans by blast
  qed
  then show ?thesis
    using c w1
    by (auto simp: raise_alert_def Let_def case_prod_beta' split: sum.split create_result.split option.split)
qed

lemma lw_extends_dlq: "lw_extends w (snd (dlq_or_hold cfg cd raw e st i src w))"
  using lw_extends_produce [of w w]
  by (auto simp: dlq_or_hold_def al_dead_letter_def Let_def split: prod.split sum.split) (metis snd_conv)+

lemma rule_count_extends: "rule_count rule an w = (r, w') \<Longrightarrow> lw_extends w w'"
  by (auto simp: rule_count_def split: prod.splits if_splits)

lemma lw_extends_apply_rules: "lw_extends w (snd (apply_rules cfg cd ps raw an rules w))"
proof (induction rules arbitrary: w)
  case (Cons rule rules)
  obtain n w1 where n: "rule_count rule an w = (n, w1)" by fastforce
  obtain r w2 where r: "raise_alert cfg cd ps rule (alert_of_anomaly rule an) (anomaly_key an) w1 = (r, w2)"
    by fastforce
  have w1: "lw_extends w w1"
    by (rule rule_count_extends [OF n])
  then have w2: "lw_extends w w2"
    using lw_extends_raise [of w1 cfg cd ps rule "alert_of_anomaly rule an" "anomaly_key an"] r lw_extends_trans by auto
  have dlq: "lw_extends w (snd (dlq_or_hold cfg cd raw e st i src (inc l w2)))" for e st i src l
    using w2 lw_extends_dlq lw_extends_trans by (metis lw_extends_upd(1))
  show ?case
    using n r w1 w2 dlq Cons.IH lw_extends_trans
    by (auto split: sum.split)
qed simp

lemma lw_extends_process_anomaly: "lw_extends w (snd (process_anomaly cfg cd ps raw w))"
proof (cases "lc_anomaly cd raw")
  case (Inl e)
  have "lw_extends w (inc ''messages_failed_total:unmarshal'' (inc ''anomalies_consumed_total'' w))"
    by simp
  then have "lw_extends w (snd (dlq_or_hold cfg cd raw e ''unmarshal'' [] (al_topic_anomalies cfg)
      (inc ''messages_failed_total:unmarshal'' (inc ''anomalies_consumed_total'' w))))"
    using lw_extends_dlq by (rule lw_extends_trans)
  then show ?thesis
    using Inl by (simp add: process_anomaly_def)
next
  case (Inr an)
  have "lw_extends w (inc ''anomalies_consumed_total'' w)"
    by simp
  then have "lw_extends w (snd (apply_rules cfg cd ps raw an
      (rules_for (lw_rules w) (ad_organization_id an) (ad_metric an)) (inc ''anomalies_consumed_total'' w)))"
    using lw_extends_apply_rules by (rule lw_extends_trans)
  then show ?thesis
    using Inr by (simp add: process_anomaly_def)
qed

section \<open>Committed anomalies\<close>

text \<open>The condition of a rule does not depend on the counter, and it holds for the anomaly.\<close>

definition rule_applies :: "alert_rule \<Rightarrow> anomaly_detected \<Rightarrow> bool" where
  "rule_applies rule an \<longleftrightarrow>
     scope_matches rule (ad_machine_id an) (ad_device_id an) (ad_sensor_id an) \<and>
     rl_condition rule \<noteq> ''ANOMALY_COUNT'' \<and> condition_matches rule (ad_reading an) 0"

definition has_alert :: "database \<Rightarrow> string \<Rightarrow> string \<Rightarrow> bool" where
  "has_alert db rule_id key \<longleftrightarrow> (\<exists>rule. db_uuid db rule_id = Some rule \<and> (rule, key) \<in> alert_keys db)"

definition dead_lettered :: "alert_config \<Rightarrow> alert_codec \<Rightarrow> string \<Rightarrow> alert_world \<Rightarrow> bool" where
  "dead_lettered cfg cd raw w \<longleftrightarrow>
     (\<exists>rec. dl_original_payload rec = lc_decode cd raw \<and>
        (dl_correlation_id rec, lc_dead cd rec) \<in> set (topics w (al_topic_dead_letter cfg)))"

definition anomaly_handled :: "alert_config \<Rightarrow> alert_codec \<Rightarrow> string \<Rightarrow> alert_world \<Rightarrow> bool" where
  "anomaly_handled cfg cd raw w \<longleftrightarrow>
     dead_lettered cfg cd raw w \<or>
     (\<exists>an. lc_anomaly cd raw = Inr an \<and>
        (\<forall>rule\<in>set (rules_for (lw_rules w) (ad_organization_id an) (ad_metric an)).
           rule_applies rule an \<longrightarrow> has_alert (lw_db w) (rl_id rule) (anomaly_key an)))"

lemma has_alert_extends: "lw_extends w w' \<Longrightarrow> has_alert (lw_db w) r k \<Longrightarrow> has_alert (lw_db w') r k"
  by (auto simp: lw_extends_def alerts_stay_def has_alert_def)

lemma dead_lettered_extends: "lw_extends w w' \<Longrightarrow> dead_lettered cfg cd raw w \<Longrightarrow> dead_lettered cfg cd raw w'"
  by (auto simp: lw_extends_def topics_grow_def dead_lettered_def)

lemma anomaly_handled_extends: "lw_extends w w' \<Longrightarrow> anomaly_handled cfg cd raw w \<Longrightarrow> anomaly_handled cfg cd raw w'"
  unfolding anomaly_handled_def using has_alert_extends dead_lettered_extends by (fastforce simp: lw_extends_def)

lemma dlq_commits:
  assumes "dlq_or_hold cfg cd raw e st i src w = (Inr True, w')" and "net_ok w"
  shows "dead_lettered cfg cd raw w'"
proof -
  let ?rec = "\<lparr>dl_original_payload = lc_decode cd raw, dl_error = e, dl_error_type = TRANSIENT_ERROR,
                 dl_service = ''alert-service'', dl_processing_stage = st, dl_retry_count = 0,
                 dl_timestamp = utc_at (clock w), dl_correlation_id = i, dl_source_topic = src\<rparr>"
  obtain w1 where "produce_and_wait (al_topic_dead_letter cfg) i (lc_dead cd ?rec) w = (ok, w1)" and "topics w' = topics w1"
    using assms(1) by (auto simp: dlq_or_hold_def al_dead_letter_def Let_def split: prod.splits sum.splits)
  then have "(i, lc_dead cd ?rec) \<in> set (topics w' (al_topic_dead_letter cfg))"
    using produce_ok' [of "al_topic_dead_letter cfg" i "lc_dead cd ?rec" w w1] assms(2) by simp
  then show ?thesis
    unfolding dead_lettered_def by (intro exI [of _ ?rec]) simp
qed

text \<open>Whatever the answer of the store, if it does not raise, the rule and key have an alert.\<close>

lemma create_if_due_answered:
  assumes "run (create_if_due now rule_id cooldown a key) db = (Inr x, db')"
  shows "has_alert db' rule_id key"
proof -
  obtain y db1 where e: "exec (select_latest rule_id key) db = (Inr y, db1)"
    using assms by (auto simp: create_if_due_def split: prod.splits sum.splits)
  then obtain rule where u: "db_uuid db rule_id = Some rule"
    and y: "y = map_option (\<lambda>r. (alr_status r, alr_triggered_at r)) (latest_alert rule key (db_alerts db))"
    and db1: "db_alerts db1 = db_alerts db" "db_uuid db1 = db_uuid db"
    by (auto simp: exec_def select_latest_def with_uuid_def Let_def split: reply.splits option.splits if_splits)
  have known: "has_alert d rule_id key" if "r \<in> set (db_alerts d)" "alert_for rule key r" "db_uuid d = db_uuid db" for d r
    using that u by (auto simp: has_alert_def alert_keys_def alert_for_def)
  have ins: "has_alert db2 rule_id key" if "exec (insert_alert rule_id a key) db1 = (Inr z, db2)" for z db2
  proof -
    have "\<exists>r\<in>set (db_alerts db2). alert_for rule key r" and "db_uuid db2 = db_uuid db"
      using that u db1
      by (auto simp: exec_def insert_alert_def with_uuid_def with_uuid_option_def open_for_def alert_for_def Let_def
          split: reply.splits option.splits if_splits)
    then show ?thesis
      using known by blast
  qed
  have same: "has_alert db1 rule_id key" if "latest_alert rule key (db_alerts db) = Some r" for r
    using latest_alert_in [OF that] db1 known [of r db1] by simp
  show ?thesis
    using assms e y ins same
    by (auto simp: create_if_due_def Let_def split: option.splits if_splits prod.splits sum.splits)
qed

lemma raise_alert_has_alert:
  assumes "raise_alert cfg cd ps rule a key w = (Inr r, w')"
  shows "has_alert (lw_db w') (rl_id rule) key"
proof -
  let ?create = "create_if_due \<lfloor>clock w * 1000000\<rfloor> (rl_id rule) (rl_cooldown_seconds rule) a key"
  obtain x db where run: "run ?create (lw_db w) = (Inr x, db)"
    using assms by (cases "run ?create (lw_db w)") (auto simp: raise_alert_def on_db_def split: sum.splits)
  let ?w1 = "w\<lparr>lw_db := db\<rparr>"
  have h: "has_alert (lw_db ?w1) (rl_id rule) key"
    using create_if_due_answered [OF run] by simp
  have "lw_extends (inc l ?w1) (snd (publish_and_notify cfg cd ps a' (rl_id rule) CREATED_EVENT False
      (open_or_attach_incident a' (inc l ?w1))))" for a' l
    using lw_extends_attach lw_extends_publish_and_notify by (rule lw_extends_trans)
  then have "has_alert (lw_db (snd (publish_and_notify cfg cd ps a' (rl_id rule) CREATED_EVENT False
      (open_or_attach_incident a' (inc l ?w1))))) (rl_id rule) key" for a' l
    by (rule has_alert_extends) (use h in simp)
  then show ?thesis
    using assms run h
    by (auto simp: raise_alert_def on_db_def Let_def case_prod_beta' split: create_result.splits option.splits)
qed

lemma apply_rules_handled:
  assumes "apply_rules cfg cd ps raw an rules w = (Inr True, w')" and "net_ok w"
  shows "dead_lettered cfg cd raw w' \<or>
    (\<forall>rule\<in>set rules. rule_applies rule an \<longrightarrow> has_alert (lw_db w') (rl_id rule) (anomaly_key an))"
  using assms
proof (induction rules arbitrary: w)
  case (Cons rule rules)
  obtain n w1 where n: "rule_count rule an w = (n, w1)" by fastforce
  obtain r w2 where r: "raise_alert cfg cd ps rule (alert_of_anomaly rule an) (anomaly_key an) w1 = (r, w2)"
    by fastforce
  have w1: "net_ok w1"
    using rule_count_extends [OF n] Cons.prems(2) by (simp add: lw_extends_def net_ok_def)
  then have w2: "net_ok w2"
    using lw_extends_raise [of w1 cfg cd ps rule "alert_of_anomaly rule an" "anomaly_key an"] r
    by (simp add: lw_extends_def net_ok_def)
  let ?applies = "scope_matches rule (ad_machine_id an) (ad_device_id an) (ad_sensor_id an)"
  consider (skip) "\<not> ?applies" "apply_rules cfg cd ps raw an rules w = (Inr True, w')"
    | (false) k where "?applies" "n = Inr k" "\<not> condition_matches rule (ad_reading an) k"
        "apply_rules cfg cd ps raw an rules w1 = (Inr True, w')"
    | (dlq) e where "dlq_or_hold cfg cd raw e ''create_alert'' (ad_event_id an) (al_topic_anomalies cfg)
        (inc ''messages_failed_total:store_alert'' w2) = (Inr True, w')"
    | (raised) "r = Inr ok" "apply_rules cfg cd ps raw an rules w2 = (Inr True, w')"
    using Cons.prems(1) n r by (auto split: if_splits sum.splits)
  then show ?case
  proof cases
    case skip
    then show ?thesis
      using Cons.IH [OF skip(2) Cons.prems(2)] by (auto simp: rule_applies_def)
  next
    case false
    have "k = 0" if "rl_condition rule \<noteq> ''ANOMALY_COUNT''"
      using that n false(2) by (simp add: rule_count_def)
    then show ?thesis
      using Cons.IH [OF false(4) w1] false(3) by (auto simp: rule_applies_def)
  next
    case dlq
    have "net_ok (inc ''messages_failed_total:store_alert'' w2)"
      using w2 by (simp add: net_ok_def)
    then show ?thesis
      using dlq_commits [OF dlq] by blast
  next
    case raised
    have "has_alert (lw_db w2) (rl_id rule) (anomaly_key an)"
      using raise_alert_has_alert r raised(1) by blast
    then have "has_alert (lw_db w') (rl_id rule) (anomaly_key an)"
      using has_alert_extends lw_extends_apply_rules [of w2 cfg cd ps raw an rules] raised(2) by simp
    then show ?thesis
      using Cons.IH [OF raised(2) w2] by auto
  qed
qed simp

lemma process_anomaly_commits:
  assumes "process_anomaly cfg cd ps raw w = (Inr True, w')" and "net_ok w"
  shows "anomaly_handled cfg cd raw w'"
proof (cases "lc_anomaly cd raw")
  case (Inl e)
  then show ?thesis
    using dlq_commits [of cfg cd raw e] assms by (auto simp: process_anomaly_def anomaly_handled_def net_ok_def)
next
  case (Inr an)
  let ?w = "inc ''anomalies_consumed_total'' w"
  have a: "apply_rules cfg cd ps raw an (rules_for (lw_rules w) (ad_organization_id an) (ad_metric an)) ?w = (Inr True, w')"
    using assms(1) Inr by (simp add: process_anomaly_def)
  then have "lw_rules w' = lw_rules w"
    using lw_extends_apply_rules [of ?w cfg cd ps raw an "rules_for (lw_rules w) (ad_organization_id an) (ad_metric an)"]
    by (simp add: lw_extends_def)
  then show ?thesis
    using apply_rules_handled [OF a] assms(2) Inr by (auto simp: anomaly_handled_def net_ok_def)
qed

interpretation al_commits: commit_discipline "process_anomaly cfg cd ps" "anomaly_handled cfg cd" net_ok
  for cfg cd ps
proof
  fix w m r w'
  assume w: "net_ok w" and p: "process_anomaly cfg cd ps m w = (r, w')"
  have e: "lw_extends w w'"
    using lw_extends_process_anomaly [of w cfg cd ps m] p by simp
  then show "net_ok w'"
    using w by (simp add: lw_extends_def net_ok_def)
  show "anomaly_handled cfg cd m' w'" if "anomaly_handled cfg cd m' w" for m'
    using e that by (rule anomaly_handled_extends)
next
  fix w m w'
  assume "net_ok w" and "process_anomaly cfg cd ps m w = (Inr True, w')"
  then show "anomaly_handled cfg cd m w'"
    by (simp add: process_anomaly_commits)
qed


section \<open>The escalation sweep\<close>

definition climbs :: "severity \<Rightarrow> bool" where
  "climbs s \<longleftrightarrow> next_severity s \<noteq> s"

lemma climbs_iff: "climbs s \<longleftrightarrow> s = WARNING \<or> s = HIGH"
  by (cases s) (simp_all add: climbs_def next_severity_def severity_ladder_def)

text \<open>What one candidate does to the table.\<close>

definition climb_one :: "int \<Rightarrow> alert \<Rightarrow> alert_row list \<Rightarrow> alert_row list" where
  "climb_one now a rows =
     (if climbs (at_severity a)
      then map (\<lambda>r. if alr_id r = at_id a then escalated_row (next_severity (at_severity a)) now r else r) rows else rows)"

lemma lw_db_notify [simp]: "lw_db (notify_all ps n w) = lw_db w"
proof -
  have "notify_inv (\<lambda>w'. lw_db w' = lw_db w)"
    by (simp add: notify_inv_def)
  then show ?thesis
    using notify_all_keeps [of "\<lambda>w'. lw_db w' = lw_db w" w ps n] by simp
qed

lemma publish_and_notify_db [simp]: "lw_db (snd (publish_and_notify cfg cd ps a rule_id ty esc w)) = lw_db w"
  by (simp add: publish_and_notify_def publish_alert_def Let_def case_prod_beta' split: option.split sum.split)

lemma sweep_candidates_run:
  assumes "all_ok (lw_db w)" and "\<forall>a\<in>set as. db_uuid (lw_db w) (at_id a) = Some (at_id a) \<and> at_triggered_at a \<noteq> None"
  shows "\<exists>w' t. sweep_candidates cfg cd ps as w = (ok, w') \<and>
    lw_db w' = (lw_db w)\<lparr>db_alerts := fold (climb_one (db_now (lw_db w))) as (db_alerts (lw_db w)), db_tick := t\<rparr>"
  using assms
proof (induction as arbitrary: w)
  case Nil
  have "lw_db w = (lw_db w)\<lparr>db_alerts := db_alerts (lw_db w), db_tick := db_tick (lw_db w)\<rparr>"
    by simp
  then show ?case
    unfolding sweep_candidates.simps fold_Nil id_apply by blast
next
  case (Cons a as)
  let ?db = "lw_db w"
  show ?case
  proof (cases "climbs (at_severity a)")
    case False
    then show ?thesis
      using Cons by (simp add: climbs_def climb_one_def)
  next
    case True
    let ?w1 = "w\<lparr>lw_db := ?db\<lparr>db_tick := Suc (db_tick ?db), db_alerts := climb_one (db_now ?db) a (db_alerts ?db)\<rparr>\<rparr>"
    let ?a = "a\<lparr>at_severity := next_severity (at_severity a), at_escalation_level := at_escalation_level a + 1\<rparr>"
    obtain r w2 where pn: "publish_and_notify cfg cd ps ?a [] ESCALATED_EVENT True (inc ''alerts_escalated_total'' ?w1) = (r, w2)"
      by fastforce
    then have db: "lw_db w2 = ?db\<lparr>db_tick := Suc (db_tick ?db), db_alerts := climb_one (db_now ?db) a (db_alerts ?db)\<rparr>"
      using publish_and_notify_db [of cfg cd ps ?a "[]" ESCALATED_EVENT True "inc ''alerts_escalated_total'' ?w1"] by simp
    have r: "r = ok"
      using pn Cons.prems(2) by (auto simp: publish_and_notify_def Let_def split: option.splits prod.splits)
    have esc: "on_db (escalate (at_id a) (next_severity (at_severity a))) w = (ok, ?w1)"
      using Cons.prems True by (simp add: on_db_def escalate_def exec_all_ok update_escalated_def with_uuid_def climb_one_def)
    obtain w' t where "sweep_candidates cfg cd ps as w2 = (ok, w')"
      and "lw_db w' = (lw_db w2)\<lparr>db_alerts := fold (climb_one (db_now (lw_db w2))) as (db_alerts (lw_db w2)), db_tick := t\<rparr>"
      using Cons.IH [of w2] Cons.prems db by (auto simp: all_ok_def)
    then have "sweep_candidates cfg cd ps (a # as) w = (ok, w')"
      and "lw_db w' = ?db\<lparr>db_alerts := fold (climb_one (db_now ?db)) (a # as) (db_alerts ?db), db_tick := t\<rparr>"
      using True esc pn r db by (simp_all add: climbs_def)
    then show ?thesis
      by blast
  qed
qed

definition climbed :: "int \<Rightarrow> alert_row \<Rightarrow> alert_row \<Rightarrow> alert_row" where
  "climbed now q r = (if climbs (alr_severity q) then escalated_row (next_severity (alr_severity q)) now r else r)"

lemma climbed_id [simp]: "alr_id (climbed now q r) = alr_id r"
  by (simp add: climbed_def escalated_row_def)

lemma climb_candidate:
  "climb_one now (escalation_candidate q) rows = map (\<lambda>r. if alr_id r = alr_id q then climbed now q r else r) rows"
  by (auto simp: climb_one_def escalation_candidate_def climbed_def intro!: map_idI [symmetric])

lemma fold_climb:
  assumes "distinct (map alr_id qs)"
  shows "fold (climb_one now) (map escalation_candidate qs) rows =
    map (\<lambda>r. case find (\<lambda>q. alr_id q = alr_id r) qs of None \<Rightarrow> r | Some q \<Rightarrow> climbed now q r) rows"
  using assms
proof (induction qs arbitrary: rows)
  case (Cons q qs)
  have out: "find (\<lambda>p. alr_id p = alr_id q) qs = None"
    using Cons.prems by (auto simp: find_None_iff image_iff)
  have "fold (climb_one now) (map escalation_candidate (q # qs)) rows =
      map (\<lambda>r. case find (\<lambda>q. alr_id q = alr_id r) qs of None \<Rightarrow> r | Some q \<Rightarrow> climbed now q r)
        (map (\<lambda>r. if alr_id r = alr_id q then climbed now q r else r) rows)"
    using Cons by (simp add: climb_candidate)
  also have "\<dots> = map (\<lambda>r. case find (\<lambda>q. alr_id q = alr_id r) (q # qs) of None \<Rightarrow> r | Some q \<Rightarrow> climbed now q r) rows"
    using out by simp
  finally show ?case .
qed simp

definition swept_row :: "int \<Rightarrow> int \<Rightarrow> alert_row \<Rightarrow> alert_row" where
  "swept_row now after_seconds r =
     (if escalation_due now after_seconds r \<and> climbs (alr_severity r)
      then escalated_row (next_severity (alr_severity r)) now r else r)"

lemma find_due:
  assumes "distinct (map alr_id rows)" and "r \<in> set rows"
  shows "find (\<lambda>q. alr_id q = alr_id r) (filter P rows) = (if P r then Some r else None)"
  using assms
proof (induction rows)
  case (Cons q rows)
  show ?case
  proof (cases "r = q")
    case True
    have "find (\<lambda>p. alr_id p = alr_id q) (filter P rows) = None"
      using Cons.prems(1) by (auto simp: find_None_iff image_iff)
    with True show ?thesis by simp
  next
    case False
    then have "alr_id q \<noteq> alr_id r"
      using Cons.prems by auto
    with False Cons show ?thesis by auto
  qed
qed simp

definition sweepable :: "database \<Rightarrow> bool" where
  "sweepable db \<longleftrightarrow>
     all_ok db \<and> distinct (map alr_id (db_alerts db)) \<and> (\<forall>r\<in>set (db_alerts db). db_uuid db (alr_id r) = Some (alr_id r))"

lemma escalation_sweep_run:
  assumes "sweepable (lw_db w)"
  shows "\<exists>w' t. escalation_sweep cfg cd ps w = (ok, w') \<and>
    lw_db w' = (lw_db w)\<lparr>db_alerts := map (swept_row (db_now (lw_db w)) (al_escalation_after_seconds cfg)) (db_alerts (lw_db w)),
                         db_tick := t\<rparr>"
proof -
  let ?db = "lw_db w"
  let ?due = "filter (escalation_due (db_now ?db) (al_escalation_after_seconds cfg)) (db_alerts ?db)"
  let ?w1 = "w\<lparr>lw_db := ?db\<lparr>db_tick := Suc (db_tick ?db)\<rparr>\<rparr>"
  have a: "all_ok ?db" and d: "distinct (map alr_id (db_alerts ?db))"
    and u: "\<forall>r\<in>set (db_alerts ?db). db_uuid ?db (alr_id r) = Some (alr_id r)"
    using assms by (simp_all add: sweepable_def)
  have q: "on_db (due_for_escalation (al_escalation_after_seconds cfg)) w = (Inr (map escalation_candidate ?due), ?w1)"
    using a by (simp add: on_db_def due_for_escalation_def exec_all_ok select_due_def)
  obtain w' t where w': "sweep_candidates cfg cd ps (map escalation_candidate ?due) ?w1 = (ok, w')"
    and db: "lw_db w' = (lw_db ?w1)\<lparr>db_alerts := fold (climb_one (db_now ?db)) (map escalation_candidate ?due) (db_alerts ?db), db_tick := t\<rparr>"
    using sweep_candidates_run [of ?w1 "map escalation_candidate ?due" cfg cd ps] a u
    by (auto simp: escalation_candidate_def)
  have "distinct (map alr_id ?due)"
    using d by (rule distinct_map_filter)
  then have "fold (climb_one (db_now ?db)) (map escalation_candidate ?due) (db_alerts ?db) =
      map (swept_row (db_now ?db) (al_escalation_after_seconds cfg)) (db_alerts ?db)"
    using find_due [OF d] by (simp add: fold_climb swept_row_def climbed_def)
  then show ?thesis
    using q w' db by (intro exI [of _ w'] exI [of _ t]) (simp add: escalation_sweep_def)
qed


text \<open>Sweeps at the given times of the database's clock, with time passing in between.\<close>

primrec sweeps :: "alert_config \<Rightarrow> alert_codec \<Rightarrow> provider list \<Rightarrow> int list \<Rightarrow> alert_world \<Rightarrow> alert_world" where
  "sweeps cfg cd ps [] w = w"
| "sweeps cfg cd ps (t # ts) w = sweeps cfg cd ps ts (snd (escalation_sweep cfg cd ps (w\<lparr>lw_db := (lw_db w)\<lparr>db_now := t\<rparr>\<rparr>)))"

lemma swept_id [simp]: "alr_id (swept_row n s r) = alr_id r"
  by (simp add: swept_row_def escalated_row_def)

lemma sweeps_run:
  "sweepable (lw_db w) \<Longrightarrow> db_alerts (lw_db (sweeps cfg cd ps ts w)) =
   map (fold (\<lambda>t. swept_row t (al_escalation_after_seconds cfg)) ts) (db_alerts (lw_db w))"
proof (induction ts arbitrary: w)
  case (Cons t ts)
  let ?w = "w\<lparr>lw_db := (lw_db w)\<lparr>db_now := t\<rparr>\<rparr>"
  have "sweepable (lw_db ?w)"
    using Cons.prems by (simp add: sweepable_def all_ok_def)
  then obtain w' k where w': "escalation_sweep cfg cd ps ?w = (ok, w')"
    and db: "lw_db w' = (lw_db ?w)\<lparr>db_alerts := map (swept_row t (al_escalation_after_seconds cfg)) (db_alerts (lw_db w)), db_tick := k\<rparr>"
    using escalation_sweep_run [of ?w cfg cd ps] by auto
  have "sweepable (lw_db w')"
    using Cons.prems by (simp add: db sweepable_def all_ok_def comp_def)
  then show ?case
    using Cons.IH [of w'] w' db by simp
qed simp

text \<open>
  An open warning that nobody acknowledges reaches the top of the ladder: two sweeps, each more than
  the configured delay after the alert's last change of rung, make it critical at level two, and no later
  sweep changes it.
\<close>

theorem ignored_warning_becomes_critical:
  assumes "sweepable (lw_db w)" and "r \<in> set (db_alerts (lw_db w))"
    and "alr_status r = ''OPEN''" and "alr_severity r = WARNING" and "alr_escalation_level r = 0" and "alr_last_escalated_at r = None"
    and "alr_triggered_at r < t1 - al_escalation_after_seconds cfg * 1000000" and "t1 < t2 - al_escalation_after_seconds cfg * 1000000"
  shows "\<exists>r'\<in>set (db_alerts (lw_db (sweeps cfg cd ps (t1 # t2 # ts) w))).
    alr_id r' = alr_id r \<and> alr_severity r' = CRITICAL \<and> alr_escalation_level r' = 2 \<and> alr_status r' = ''OPEN''"
proof -
  let ?f = "\<lambda>t. swept_row t (al_escalation_after_seconds cfg)"
  let ?top = "\<lambda>q. alr_id q = alr_id r \<and> alr_severity q = CRITICAL \<and> alr_escalation_level q = 2 \<and> alr_status q = ''OPEN''"
  have "?f t1 r = escalated_row HIGH t1 r"
    using assms(3-7) by (simp add: swept_row_def escalation_due_def climbs_iff next_severity_def severity_ladder_def)
  then have "?top (?f t2 (?f t1 r))"
    using assms(3-8)
    by (simp add: swept_row_def escalation_due_def escalated_row_def climbs_iff next_severity_def severity_ladder_def)
  moreover have "?top (fold ?f ts q)" if "?top q" for q
    using that by (induction ts arbitrary: q) (auto simp: swept_row_def climbs_iff)
  ultimately have "?top (fold ?f (t1 # t2 # ts) r)"
    by simp
  moreover have "fold ?f (t1 # t2 # ts) r \<in> set (db_alerts (lw_db (sweeps cfg cd ps (t1 # t2 # ts) w)))"
    using assms(2) unfolding sweeps_run [OF assms(1)] set_map by (rule imageI)
  ultimately show ?thesis
    by blast
qed

section \<open>From a shutdown to an incident\<close>

text \<open>The values that the created alert and its incident store can be stored.\<close>

definition shutdown_storable :: "database \<Rightarrow> alert_rule \<Rightarrow> normalized_machine_event \<Rightarrow> string \<Rightarrow> bool" where
  "shutdown_storable db rule evt machine \<longleftrightarrow>
     db_uuid db (rl_id rule) = Some (rl_id rule) \<and> me_machine_id evt \<noteq> [] \<and> db_uuid db (me_machine_id evt) = Some machine \<and>
     db_uuid db (me_organization_id evt) \<noteq> None \<and> (me_factory_id evt = [] \<or> db_uuid db (me_factory_id evt) \<noteq> None) \<and>
     (me_device_id evt = [] \<or> db_uuid db (me_device_id evt) \<noteq> None) \<and> (\<forall>n. db_uuid db (db_ids db n) = Some (db_ids db n))"

lemma attach_keeps_alerts: "db_alerts (snd (run (open_or_attach r) db)) = db_alerts db"
proof -
  let ?I = "\<lambda>d. db_alerts d = db_alerts db"
  have t: "table_inv ?I"
    by (simp add: table_inv_def)
  have "stmt_keeps ?I (insert_incident r)" "stmt_keeps ?I (log_event i ty actor ov nv n)" for i ty actor ov nv n
    unfolding insert_incident_def log_event_def
    by (intro stmt_keeps_uuid stmt_keeps_uuid_option; simp add: stmt_keeps_def Let_def)+
  then have "keeps ?I (open_or_attach r)"
    using t by (auto simp: open_or_attach_def intro!: keeps_stmt split: option.split)
  then show ?thesis
    by (rule keeps_run) (rule refl)
qed

lemma publish_and_notify_delivers:
  assumes "net w (tick w) = Delivered" and "\<And>e. \<exists>p. lc_dump cd e = Inr p" and "at_triggered_at a \<noteq> None"
  shows "\<exists>w' e p. publish_and_notify cfg cd ps a rule_id ty esc w = (ok, w') \<and> lc_dump cd e = Inr p \<and>
    ae_event_type e = ty \<and> ae_alert_id e = at_id a \<and> ae_severity e = at_severity a \<and>
    (at_device_id a, p) \<in> set (topics w' (al_topic_alerts cfg)) \<and> lw_db w' = lw_db w"
proof -
  obtain t where t: "at_triggered_at a = Some t"
    using assms(3) by blast
  let ?e = "\<lparr>ae_alert_id = at_id a, ae_event_type = ty, ae_organization_id = at_organization_id a,
             ae_alert_rule_id = rule_id, ae_factory_id = at_factory_id a, ae_machine_id = at_machine_id a,
             ae_device_id = at_device_id a, ae_sensor_id = at_sensor_id a, ae_severity = at_severity a,
             ae_status = ''OPEN'', ae_title = at_title a, ae_description = at_description a,
             ae_escalation_level = at_escalation_level a, ae_triggered_at = Aware t, ae_timestamp = utc_at (clock w)\<rparr>"
  obtain p where p: "lc_dump cd ?e = Inr p"
    using assms(2) by blast
  let ?w1 = "snd (produce_and_wait (al_topic_alerts cfg) (at_device_id a) p w)"
  have in_topic: "(at_device_id a, p) \<in> set (topics ?w1 (al_topic_alerts cfg))"
    using assms(1) by (simp add: produce_and_wait_def Let_def)
  have "notify_inv (\<lambda>w'. topics w' = topics ?w1)"
    by (simp add: notify_inv_def)
  then have top: "topics (notify_all ps n ?w1) = topics ?w1" for n
    using notify_all_keeps [of "\<lambda>w'. topics w' = topics ?w1" ?w1] by simp
  let ?w' = "snd (publish_and_notify cfg cd ps a rule_id ty esc w)"
  have "fst (publish_and_notify cfg cd ps a rule_id ty esc w) = ok" and "topics ?w' = topics ?w1"
    using t p top by (simp_all add: publish_and_notify_def publish_alert_def Let_def case_prod_beta')
  then show ?thesis
    using p in_topic
    by (intro exI [of _ ?w'] exI [of _ ?e] exI [of _ p]) (simp add: prod_eq_iff)
qed

text \<open>A stored alert is linked to an incident on its machine and announced.\<close>

lemma linked_and_announced:
  assumes "all_ok (lw_db w)" and "incidents_ok (lw_db w)" and "net w (tick w) = Delivered" and "\<And>e. \<exists>p. lc_dump cd e = Inr p"
    and "linkable (lw_db w) (ref_of_alert a)" and "at_machine_id a \<noteq> []" and "db_uuid (lw_db w) (at_machine_id a) = Some m"
    and "at_triggered_at a \<noteq> None"
  shows "\<exists>w' e p. publish_and_notify cfg cd ps a rule_id CREATED_EVENT False (open_or_attach_incident a w) = (ok, w') \<and>
    db_alerts (lw_db w') = db_alerts (lw_db w) \<and> (\<exists>i\<in>set (db_incidents (lw_db w')). active_on m i) \<and>
    lc_dump cd e = Inr p \<and> ae_event_type e = CREATED_EVENT \<and> ae_alert_id e = at_id a \<and>
    (at_device_id a, p) \<in> set (topics w' (al_topic_alerts cfg))"
proof -
  obtain i created db' where att: "run (open_or_attach (ref_of_alert a)) (lw_db w) = (Inr (i, created), db')"
    and inc: "\<exists>r\<in>set (db_incidents db'). active_on m r"
    using open_or_attach_run [OF assms(1,2,5), of m] assms(6,7) by (auto simp: ref_of_alert_def)
  have alerts: "db_alerts db' = db_alerts (lw_db w)"
    using attach_keeps_alerts [of "ref_of_alert a" "lw_db w"] att by simp
  let ?w = "open_or_attach_incident a w"
  have w: "lw_db ?w = db'" "net ?w (tick ?w) = Delivered"
    using att assms(3) by (simp_all add: open_or_attach_incident_def on_db_def)
  obtain w' e p where "publish_and_notify cfg cd ps a rule_id CREATED_EVENT False ?w = (ok, w')" "lc_dump cd e = Inr p"
    "ae_event_type e = CREATED_EVENT" "ae_alert_id e = at_id a" "(at_device_id a, p) \<in> set (topics w' (al_topic_alerts cfg))"
    and db: "lw_db w' = lw_db ?w"
    using publish_and_notify_delivers [OF w(2) assms(4), of a cfg ps rule_id CREATED_EVENT False] assms(8) by auto
  then show ?thesis
    using alerts inc by (intro exI [of _ w'] exI [of _ e] exI [of _ p]) (simp add: db w(1))
qed


section \<open>The incident gauges\<close>

definition open_of :: "severity \<Rightarrow> database \<Rightarrow> nat" where
  "open_of s db = length (filter (\<lambda>r. open_incident r \<and> ir_severity r = s) (db_incidents db))"

lemma lw_set_gauge [simp]:
  "lw_db (set_gauge g n w) = lw_db w" "lw_gauges (set_gauge g n w) = (lw_gauges w)(g := n)"
  by (simp_all add: set_gauge_def)

lemma severity_gauge_inj [simp]: "severity_gauge s = severity_gauge t \<longleftrightarrow> s = t"
  by (cases s; cases t) (simp_all add: severity_gauge_def)

lemma severity_gauge_total [simp]: "severity_gauge s \<noteq> ''incidents_open_total''"
  by (simp add: severity_gauge_def)

lemma gauges_of_rows:
  "distinct (map fst rows) \<Longrightarrow>
   lw_gauges (fold (\<lambda>(s, k). set_gauge (severity_gauge s) k) rows w) g =
   (case find (\<lambda>(s, k). severity_gauge s = g) rows of None \<Rightarrow> lw_gauges w g | Some (s, k) \<Rightarrow> k)"
proof (induction rows arbitrary: w)
  case (Cons x rows)
  obtain s k where x: "x = (s, k)" by (cases x)
  have "find (\<lambda>(s, k). severity_gauge s = g) rows = None" if "severity_gauge s = g"
    using Cons.prems that x by (force simp: find_None_iff)
  then show ?case
    using Cons x by (auto split: option.split)
qed simp

lemma gauges_zeroed:
  "lw_gauges (fold (\<lambda>s w. if s \<in> S then w else set_gauge (severity_gauge s) 0 w) ss w) g =
   (if \<exists>s\<in>set ss. s \<notin> S \<and> severity_gauge s = g then 0 else lw_gauges w g)"
  by (induction ss arbitrary: w) auto

lemma filter_severity: "filter (\<lambda>r. ir_severity r = s) (filter open_incident rs) = filter (\<lambda>r. open_incident r \<and> ir_severity r = s) rs"
  by (simp add: conj_commute)

text \<open>
  After a refresh whose queries succeed the gauges show the incidents table: the total and, for each
  severity, present in the table or not, the number of its open incidents.
\<close>

theorem gauges_show_open_incidents:
  assumes "all_ok (lw_db w)"
  shows "lw_gauges (gauge_refresher_tick w) ''incidents_open_total'' = length (filter open_incident (db_incidents (lw_db w))) \<and>
    lw_gauges (gauge_refresher_tick w) (severity_gauge s) = open_of s (lw_db w)"
proof -
  let ?db = "lw_db w"
  let ?open = "filter open_incident (db_incidents ?db)"
  let ?rows = "map (\<lambda>s. (s, length (filter (\<lambda>r. ir_severity r = s) ?open))) (remdups (map ir_severity ?open))"
  let ?w2 = "(set_gauge ''incidents_open_total'' (length ?open) (w\<lparr>lw_db := ?db\<lparr>db_tick := Suc (db_tick ?db)\<rparr>\<rparr>))
      \<lparr>lw_db := ?db\<lparr>db_tick := Suc (Suc (db_tick ?db))\<rparr>\<rparr>"
  have tick: "gauge_refresher_tick w =
      fold (\<lambda>s w. if s \<in> fst ` set ?rows then w else set_gauge (severity_gauge s) 0 w) [INFO, WARNING, HIGH, CRITICAL]
        (fold (\<lambda>(s, k). set_gauge (severity_gauge s) k) ?rows ?w2)"
    using assms by (simp add: gauge_refresher_tick_def on_db_def exec_all_ok count_open_def count_open_by_severity_def Let_def)
  have d: "distinct (map fst ?rows)"
    by (simp add: comp_def)
  have "find (\<lambda>(s, k). severity_gauge s = ''incidents_open_total'') ?rows = None"
    by (auto simp: find_None_iff)
  then have "lw_gauges (gauge_refresher_tick w) ''incidents_open_total'' = length ?open"
    unfolding tick gauges_zeroed gauges_of_rows [OF d] by simp
  moreover have "lw_gauges (gauge_refresher_tick w) (severity_gauge s) = open_of s ?db"
  proof (cases "s \<in> fst ` set ?rows")
    case True
    then obtain x where x: "find (\<lambda>(t, k). severity_gauge t = severity_gauge s) ?rows = Some x"
      by (cases "find (\<lambda>(t, k). severity_gauge t = severity_gauge s) ?rows") (force simp: find_None_iff)+
    then have "x \<in> set ?rows" and "fst x = s"
      using find_SomeD [OF x] by (auto split: prod.splits)
    then have "x = (s, open_of s ?db)"
      by (auto simp: open_of_def filter_severity)
    then show ?thesis
      using True x unfolding tick gauges_zeroed gauges_of_rows [OF d] by auto
  next
    case False
    then have "open_of s ?db = 0"
      by (auto simp: open_of_def filter_empty_conv image_iff)
    moreover have "s \<in> set [INFO, WARNING, HIGH, CRITICAL]"
      by (cases s) simp_all
    ultimately show ?thesis
      using False unfolding tick gauges_zeroed by auto
  qed
  ultimately show ?thesis
    by blast
qed

section \<open>A run\<close>

definition demo_alert_codec :: alert_codec where
  "demo_alert_codec =
     \<lparr>lc_anomaly = (\<lambda>raw. Inr \<lparr>ad_anomaly_id = ''a'', ad_event_id = raw, ad_organization_id = ''o'', ad_factory_id = ''f'',
        ad_production_line_id = ''l'', ad_machine_id = ''m'', ad_device_id = ''d'', ad_sensor_id = ''s'', ad_metric = ''temperature'',
        ad_reading = 95, ad_severity = HIGH, ad_score = 1, ad_methods = [''RULE''], ad_reason = [], ad_detected_at = Aware 0\<rparr>),
      lc_machine_event = (\<lambda>raw. Inr \<lparr>me_organization_id = ''o'', me_factory_id = ''f'', me_machine_id = ''m'', me_device_id = ''d'',
        me_sensor_id = [], me_status = [], me_event_type = ''MACHINE_STOPPED'', me_timestamp = None, nm_correlation_id = raw,
        nm_ingested_at = Aware 0, nm_schema_version = 1\<rparr>),
      lc_dump = (\<lambda>e. Inr (ae_alert_id e)), lc_dead = dl_original_payload, lc_decode = (\<lambda>s. s)\<rparr>"

definition demo_alert_config :: alert_config where
  "demo_alert_config = load_alert_config (\<lambda>k. None)"

definition demo_alert_world :: "alert_row list \<Rightarrow> alert_world" where
  "demo_alert_world rows =
     \<lparr>topics = (\<lambda>t. []), net = (\<lambda>i. Delivered), tick = 0, clock = 1000, counters = (\<lambda>n. 0), nw_http = (\<lambda>i. Http_status 200),
      nw_http_tick = 0, nw_posted = [], nw_webhook_breaker = new_breaker 5 30, lw_db = demo_alert_database rows,
      lw_rules = rules_refresh [demo_rule, demo_rule\<lparr>rl_metric := MACHINE_SHUTDOWN_METRIC\<rparr>], lw_counts = Map.empty,
      lw_gauges = (\<lambda>g. 7)\<rparr>"

lemma demo_alert_world_ok [simp]: "all_ok (lw_db (demo_alert_world rows))" "incidents_ok (lw_db (demo_alert_world rows))"
  "net_ok (demo_alert_world rows)"
proof -
  have "inj str_nat"
    by (simp add: inj_def)
  then show "incidents_ok (lw_db (demo_alert_world rows))"
    by (simp add: incidents_ok_def demo_alert_world_def demo_alert_database_def)
qed (simp_all add: all_ok_def net_ok_def demo_alert_world_def demo_alert_database_def)

theorem gauges_show_open_incidents_witness:
  "lw_gauges (gauge_refresher_tick (demo_alert_world [])) (severity_gauge HIGH) = 0"
proof -
  have "open_of HIGH (lw_db (demo_alert_world [])) = 0"
    by (simp add: open_of_def demo_alert_world_def demo_alert_database_def)
  then show ?thesis
    using gauges_show_open_incidents [OF demo_alert_world_ok(1), of "[]" HIGH] by simp
qed


theorem ignored_warning_becomes_critical_witness:
  "\<exists>r'\<in>set (db_alerts (lw_db (sweeps demo_alert_config demo_alert_codec [] [2000000000, 4000000000]
      (demo_alert_world [(demo_alert_row ''OPEN'')\<lparr>alr_severity := WARNING\<rparr>])))). alr_severity r' = CRITICAL"
  using ignored_warning_becomes_critical [of "demo_alert_world [(demo_alert_row ''OPEN'')\<lparr>alr_severity := WARNING\<rparr>]"
      "(demo_alert_row ''OPEN'')\<lparr>alr_severity := WARNING\<rparr>" 2000000000 demo_alert_config 4000000000 demo_alert_codec "[]" "[]"]
  by (auto simp: sweepable_def demo_alert_world_def demo_alert_database_def demo_alert_row_def
      demo_alert_config_def load_alert_config_def env_int_def all_ok_def)


lemma demo_anomaly_run:
  "fst (process_anomaly demo_alert_config demo_alert_codec [Console_provider] ''e'' (demo_alert_world [])) = Inr True"
proof -
  obtain an where an: "lc_anomaly demo_alert_codec ''e'' = Inr an" "ad_organization_id an = ''o''" "ad_metric an = ''temperature''"
    "ad_reading an = 95" "ad_machine_id an = ''m''" "ad_device_id an = ''d''" "ad_factory_id an = ''f''" "ad_sensor_id an = ''s''"
    by (simp add: demo_alert_codec_def)
  let ?w = "inc ''anomalies_consumed_total'' (demo_alert_world [])"
  have rules: "rules_for (lw_rules (demo_alert_world [])) ''o'' ''temperature'' = [demo_rule]"
    by (simp add: demo_alert_world_def rules_refresh_def rules_for_def add_rule_def demo_rule_def MACHINE_SHUTDOWN_METRIC_def bar_key_def)
  let ?a = "alert_of_anomaly demo_rule an"
  have st: "storable (lw_db ?w) (rl_id demo_rule) ?a" and u: "db_uuid (lw_db ?w) (rl_id demo_rule) = Some (rl_id demo_rule)"
    using an by (simp_all add: storable_def demo_alert_world_def demo_alert_database_def demo_rule_def alert_of_anomaly_def)
  have "all_ok (lw_db ?w)" and "create_verdict now c r k (db_alerts (lw_db ?w)) = CREATED" for now c r k
    by (simp_all add: create_verdict_def latest_alert_def) (simp add: demo_alert_world_def demo_alert_database_def create_verdict_def latest_alert_def)
  then obtain row t where "run (create_if_due \<lfloor>clock ?w * 1000000\<rfloor> (rl_id demo_rule) (rl_cooldown_seconds demo_rule) ?a (anomaly_key an)) (lw_db ?w) =
      (Inr (CREATED, Some (?a\<lparr>at_id := alr_id row, at_triggered_at := Some (db_now (lw_db ?w)), at_status := ''OPEN''\<rparr>)),
       (lw_db ?w)\<lparr>db_tick := t, db_alerts := db_alerts (lw_db ?w) @ [row], db_next := Suc (db_next (lw_db ?w))\<rparr>)"
    using create_if_due_run [OF _ st u] by fastforce
  then have "fst (raise_alert demo_alert_config demo_alert_codec [Console_provider] demo_rule ?a (anomaly_key an) ?w) = Inr ok"
    by (simp add: raise_alert_def on_db_def publish_and_notify_def Let_def case_prod_beta')
  then show ?thesis
    using an rules
    by (cases "raise_alert demo_alert_config demo_alert_codec [Console_provider] demo_rule ?a (anomaly_key an) ?w")
       (simp add: process_anomaly_def scope_matches_def rule_count_def condition_matches_def demo_rule_def)
qed


end
