(* ===== verification/Auth.thy ===== *)
theory Auth
  imports Broker
begin

text \<open>
  \<open>shared/auth.py\<close> and \<open>shared/audit.py\<close>: roles and permissions, the tenancy guard, passwords,
  tokens, and the service that logs in, refreshes and logs out.

  PyJWT and bcrypt are outside the repository. A token is a value of a type \<open>'t\<close>; the record
  \<open>jwt_library\<close> holds the library's encoder and decoder, and \<open>jwt_ok\<close> what the code relies on: a
  token decodes exactly with the secret it was made with, while it has not expired. Redis keeps a
  value with the time it expires; Redis and Postgres answer each call from a sequence of replies.
  Times are microseconds since the epoch, and \<open>uuid.uuid4\<close> is the next of a sequence.
\<close>

section \<open>Roles and permissions\<close>

definition TOKEN_TYPE_ACCESS :: string where "TOKEN_TYPE_ACCESS = ''access''"
definition TOKEN_TYPE_REFRESH :: string where "TOKEN_TYPE_REFRESH = ''refresh''"

definition PERM_DEVICES_READ :: string where "PERM_DEVICES_READ = ''devices:read''"
definition PERM_DEVICES_WRITE :: string where "PERM_DEVICES_WRITE = ''devices:write''"
definition PERM_TELEMETRY_READ :: string where "PERM_TELEMETRY_READ = ''telemetry:read''"
definition PERM_ALERTS_READ :: string where "PERM_ALERTS_READ = ''alerts:read''"
definition PERM_ALERTS_MANAGE :: string where "PERM_ALERTS_MANAGE = ''alerts:manage''"
definition PERM_INCIDENTS_READ :: string where "PERM_INCIDENTS_READ = ''incidents:read''"
definition PERM_INCIDENTS_MANAGE :: string where "PERM_INCIDENTS_MANAGE = ''incidents:manage''"
definition PERM_FACTORIES_READ :: string where "PERM_FACTORIES_READ = ''factories:read''"
definition PERM_FACTORIES_MANAGE :: string where "PERM_FACTORIES_MANAGE = ''factories:manage''"
definition PERM_USERS_MANAGE :: string where "PERM_USERS_MANAGE = ''users:manage''"
definition PERM_SYSTEM_ADMIN :: string where "PERM_SYSTEM_ADMIN = ''system:admin''"

lemmas perm_defs = PERM_DEVICES_READ_def PERM_DEVICES_WRITE_def PERM_TELEMETRY_READ_def PERM_ALERTS_READ_def
  PERM_ALERTS_MANAGE_def PERM_INCIDENTS_READ_def PERM_INCIDENTS_MANAGE_def PERM_FACTORIES_READ_def
  PERM_FACTORIES_MANAGE_def PERM_USERS_MANAGE_def PERM_SYSTEM_ADMIN_def

definition ROLE_PERMISSIONS :: "(string \<times> string list) list" where
  "ROLE_PERMISSIONS =
     [(''ADMIN'',
        [PERM_DEVICES_READ, PERM_DEVICES_WRITE, PERM_TELEMETRY_READ, PERM_ALERTS_READ, PERM_ALERTS_MANAGE,
         PERM_INCIDENTS_READ, PERM_INCIDENTS_MANAGE, PERM_FACTORIES_READ, PERM_FACTORIES_MANAGE, PERM_USERS_MANAGE,
         PERM_SYSTEM_ADMIN]),
      (''FACTORY_MANAGER'',
        [PERM_DEVICES_READ, PERM_DEVICES_WRITE, PERM_TELEMETRY_READ, PERM_ALERTS_READ, PERM_ALERTS_MANAGE,
         PERM_INCIDENTS_READ, PERM_INCIDENTS_MANAGE, PERM_FACTORIES_READ, PERM_FACTORIES_MANAGE]),
      (''ENGINEER'',
        [PERM_DEVICES_READ, PERM_DEVICES_WRITE, PERM_TELEMETRY_READ, PERM_ALERTS_READ, PERM_ALERTS_MANAGE,
         PERM_INCIDENTS_READ, PERM_INCIDENTS_MANAGE, PERM_FACTORIES_READ]),
      (''TECHNICIAN'',
        [PERM_DEVICES_READ, PERM_TELEMETRY_READ, PERM_ALERTS_READ, PERM_INCIDENTS_READ, PERM_INCIDENTS_MANAGE,
         PERM_FACTORIES_READ]),
      (''VIEWER'',
        [PERM_DEVICES_READ, PERM_TELEMETRY_READ, PERM_ALERTS_READ, PERM_INCIDENTS_READ, PERM_FACTORIES_READ])]"

definition ALL_ROLES :: "string list" where
  "ALL_ROLES = [''ADMIN'', ''FACTORY_MANAGER'', ''ENGINEER'', ''TECHNICIAN'', ''VIEWER'']"

definition role_permissions :: "string \<Rightarrow> string list" where
  "role_permissions role = (case map_of ROLE_PERMISSIONS role of None \<Rightarrow> [] | Some ps \<Rightarrow> ps)"

fun add_permissions :: "string list \<Rightarrow> string list \<Rightarrow> string list" where
  "add_permissions [] out = out"
| "add_permissions (perm # perms) out = add_permissions perms (if perm \<in> set out then out else out @ [perm])"

definition permissions_for_roles :: "string list \<Rightarrow> string list" where
  "permissions_for_roles roles = fold (\<lambda>role out. add_permissions (role_permissions role) out) roles []"

definition has_permission :: "string list \<Rightarrow> string \<Rightarrow> bool" where
  "has_permission permissions required \<longleftrightarrow> required \<in> set permissions"

definition require_same_organization :: "string \<Rightarrow> string \<Rightarrow> exn + unit" where
  "require_same_organization token_org_id resource_org_id =
     (if token_org_id \<noteq> resource_org_id then Inl (CrossTenantError ''resource belongs to a different organization'') else ok)"

section \<open>Passwords\<close>

text \<open>
  A password is the list of its code points. \<open>str.encode\<close> turns it into bytes and refuses a lone
  surrogate with a \<open>UnicodeEncodeError\<close>, which is a \<open>ValueError\<close>.
\<close>

fun encode_char :: "nat \<Rightarrow> nat list" where
  "encode_char c =
     (if c < 0x80 then [c]
      else if c < 0x800 then [0xC0 + c div 0x40, 0x80 + c mod 0x40]
      else if c < 0x10000 then [0xE0 + c div 0x1000, 0x80 + c div 0x40 mod 0x40, 0x80 + c mod 0x40]
      else [0xF0 + c div 0x40000, 0x80 + c div 0x1000 mod 0x40, 0x80 + c div 0x40 mod 0x40, 0x80 + c mod 0x40])"

definition surrogate :: "nat \<Rightarrow> bool" where
  "surrogate c \<longleftrightarrow> 0xD800 \<le> c \<and> c \<le> 0xDFFF"

definition encode_utf8 :: "nat list \<Rightarrow> exn + nat list" where
  "encode_utf8 s =
     (if \<exists>c\<in>set s. surrogate c then Inl (ValueError ''surrogates not allowed'') else Inr (concat (map encode_char s)))"

definition MAX_PASSWORD_BYTES :: nat where
  "MAX_PASSWORD_BYTES = 72"

definition check_password_length :: "nat list \<Rightarrow> exn + unit" where
  "check_password_length password =
     (case encode_utf8 password of
        Inl e \<Rightarrow> Inl e
      | Inr bytes \<Rightarrow>
          if length bytes > MAX_PASSWORD_BYTES then Inl (ValueError ''password must be at most 72 bytes (UTF-8)'') else ok)"

text \<open>bcrypt, which may refuse its input with a \<open>ValueError\<close>.\<close>

record bcrypt_library =
  bc_hash :: "nat list \<Rightarrow> exn + string"
  bc_check :: "nat list \<Rightarrow> string \<Rightarrow> exn + bool"

definition hash_password :: "bcrypt_library \<Rightarrow> nat list \<Rightarrow> exn + string" where
  "hash_password bc plain =
     (case check_password_length plain of
        Inl e \<Rightarrow> Inl e
      | Inr _ \<Rightarrow> (case encode_utf8 plain of Inl e \<Rightarrow> Inl e | Inr bytes \<Rightarrow> bc_hash bc bytes))"

definition is_value_error :: "exn \<Rightarrow> bool" where
  "is_value_error e = (case e of ValueError _ \<Rightarrow> True | _ \<Rightarrow> False)"

definition verify_password :: "bcrypt_library \<Rightarrow> string \<Rightarrow> nat list \<Rightarrow> exn + bool" where
  "verify_password bc hashed plain =
     (case (case encode_utf8 plain of Inl e \<Rightarrow> Inl e | Inr bytes \<Rightarrow> bc_check bc bytes hashed) of
        Inl e \<Rightarrow> if is_value_error e then Inr False else Inl e
      | Inr b \<Rightarrow> Inr b)"

text \<open>\<open>str.isalpha\<close> and \<open>str.isdigit\<close> follow the Unicode tables, which are parameters.\<close>

definition validate_password_strength :: "(nat \<Rightarrow> bool) \<Rightarrow> (nat \<Rightarrow> bool) \<Rightarrow> nat list \<Rightarrow> exn + unit" where
  "validate_password_strength is_alpha is_dig password =
     (if length password < 8 then Inl (ValueError ''password must be at least 8 characters'')
      else case check_password_length password of
             Inl e \<Rightarrow> Inl e
           | Inr _ \<Rightarrow>
               if \<not> (\<exists>c\<in>set password. is_alpha c) \<or> \<not> (\<exists>c\<in>set password. is_dig c)
               then Inl (ValueError ''password must contain at least one letter and one digit'')
               else ok)"

section \<open>Tokens\<close>

record claims =
  cl_user_id :: string
  cl_organization_id :: string
  cl_email :: string
  cl_roles :: "string list"
  cl_permissions :: "string list"
  cl_token_type :: string
  cl_jti :: string
  cl_issued_at :: "int option"
  cl_expires_at :: "int option"

text \<open>The payload of a token; \<open>None\<close> where a key is absent. \<open>iat\<close> and \<open>exp\<close> are seconds.\<close>

record jwt_payload =
  jp_sub :: "string option"
  jp_jti :: "string option"
  jp_iat :: "int option"
  jp_exp :: "int option"
  jp_user_id :: "string option"
  jp_organization_id :: "string option"
  jp_email :: "string option"
  jp_roles :: "string list option"
  jp_permissions :: "string list option"
  jp_token_type :: "string option"

record 't jwt_library =
  jw_encode :: "jwt_payload \<Rightarrow> string \<Rightarrow> 't"
  jw_decode :: "int \<Rightarrow> 't \<Rightarrow> string \<Rightarrow> exn + jwt_payload"

definition to_seconds :: "int \<Rightarrow> int" where
  "to_seconds t = t div 1000000"

definition issue_token :: "'t jwt_library \<Rightarrow> int \<Rightarrow> claims \<Rightarrow> string \<Rightarrow> 't" where
  "issue_token jw now claims secret =
     jw_encode jw
       \<lparr>jp_sub = Some (cl_user_id claims), jp_jti = Some (cl_jti claims),
        jp_iat = Some (case cl_issued_at claims of None \<Rightarrow> to_seconds now | Some t \<Rightarrow> to_seconds t),
        jp_exp = Some (case cl_expires_at claims of None \<Rightarrow> to_seconds now | Some t \<Rightarrow> to_seconds t),
        jp_user_id = Some (cl_user_id claims), jp_organization_id = Some (cl_organization_id claims),
        jp_email = Some (cl_email claims), jp_roles = Some (cl_roles claims),
        jp_permissions = Some (cl_permissions claims), jp_token_type = Some (cl_token_type claims)\<rparr> secret"

definition claims_of :: "jwt_payload \<Rightarrow> claims" where
  "claims_of p =
     \<lparr>cl_user_id = (case jp_user_id p of None \<Rightarrow> [] | Some s \<Rightarrow> s),
      cl_organization_id = (case jp_organization_id p of None \<Rightarrow> [] | Some s \<Rightarrow> s),
      cl_email = (case jp_email p of None \<Rightarrow> [] | Some s \<Rightarrow> s),
      cl_roles = (case jp_roles p of None \<Rightarrow> [] | Some rs \<Rightarrow> rs),
      cl_permissions = (case jp_permissions p of None \<Rightarrow> [] | Some ps \<Rightarrow> ps),
      cl_token_type = (case jp_token_type p of None \<Rightarrow> [] | Some s \<Rightarrow> s),
      cl_jti = (case jp_jti p of None \<Rightarrow> [] | Some s \<Rightarrow> s),
      cl_issued_at = map_option (\<lambda>s. s * 1000000) (jp_iat p),
      cl_expires_at = map_option (\<lambda>s. s * 1000000) (jp_exp p)\<rparr>"

definition parse_and_validate :: "'t jwt_library \<Rightarrow> int \<Rightarrow> 't \<Rightarrow> string \<Rightarrow> string \<Rightarrow> exn + claims" where
  "parse_and_validate jw now token_string secret expected_type =
     (case jw_decode jw now token_string secret of
        Inl e \<Rightarrow> Inl e
      | Inr payload \<Rightarrow>
          if jp_token_type payload \<noteq> Some expected_type then Inl (ValueError (''expected token_type '' @ expected_type))
          else Inr (claims_of payload))"

definition new_base_claims ::
  "int \<Rightarrow> string \<Rightarrow> string \<Rightarrow> string \<Rightarrow> string list \<Rightarrow> string \<Rightarrow> real \<Rightarrow> string \<Rightarrow> claims" where
  "new_base_claims now user_id org_id email roles token_type ttl_seconds jti =
     \<lparr>cl_user_id = user_id, cl_organization_id = org_id, cl_email = email, cl_roles = roles,
      cl_permissions = permissions_for_roles roles, cl_token_type = token_type, cl_jti = jti,
      cl_issued_at = Some now, cl_expires_at = Some (now + timedelta ttl_seconds)\<rparr>"

section \<open>The service's state\<close>

record user_row =
  us_id :: string
  us_organization_id :: string
  us_email :: string
  us_password_hash :: string
  us_is_active :: bool

text \<open>A value of the metadata of an audit entry.\<close>

datatype audit_value = Text string | Texts "string list"

record audit_entry =
  en_action :: string
  en_resource_type :: string
  en_result :: string
  en_organization_id :: "string option"
  en_user_id :: "string option"
  en_ip_address :: "string option"
  en_metadata :: "(string \<times> audit_value) list"

record auth_world =
  au_now :: int
  au_users :: "user_row list"
  au_user_roles :: "(string \<times> string) list"
  au_audit :: "audit_entry list"
  au_pg :: "nat \<Rightarrow> reply"
  au_pg_tick :: nat
  au_redis :: "string \<Rightarrow> (string \<times> int) option"
  au_redis_net :: "nat \<Rightarrow> reply"
  au_redis_tick :: nat
  au_uuids :: "nat \<Rightarrow> string"
  au_uuid_tick :: nat

record auth_service =
  sv_access_secret :: string
  sv_refresh_secret :: string
  sv_access_ttl :: real
  sv_refresh_ttl :: real

record 't token_pair =
  tp_access_token :: 't
  tp_refresh_token :: 't
  tp_expires_at :: int

section \<open>Postgres and Redis\<close>

text \<open>A query that changes nothing.\<close>

definition pg_select :: "(auth_world \<Rightarrow> 'a) \<Rightarrow> auth_world \<Rightarrow> (exn + 'a) \<times> auth_world" where
  "pg_select q w =
     (let w' = w\<lparr>au_pg_tick := Suc (au_pg_tick w)\<rparr>
      in case au_pg w (au_pg_tick w) of Reply_ok \<Rightarrow> (Inr (q w), w') | Reply_raises e _ \<Rightarrow> (Inl e, w'))"

definition audit_log :: "audit_entry \<Rightarrow> auth_world \<Rightarrow> (exn + unit) \<times> auth_world" where
  "audit_log e w =
     (let w' = w\<lparr>au_pg_tick := Suc (au_pg_tick w)\<rparr>;
          w'' = w'\<lparr>au_audit := au_audit w @ [e]\<rparr>
      in case au_pg w (au_pg_tick w) of Reply_ok \<Rightarrow> (ok, w'') | Reply_raises e took \<Rightarrow> (Inl e, if took then w'' else w'))"

definition redis_has :: "auth_world \<Rightarrow> string \<Rightarrow> bool" where
  "redis_has w key = (case au_redis w key of None \<Rightarrow> False | Some (v, expiry) \<Rightarrow> au_now w < expiry)"

text \<open>\<open>DEL\<close>, answering the number of keys deleted.\<close>

definition redis_delete :: "string \<Rightarrow> auth_world \<Rightarrow> (exn + nat) \<times> auth_world" where
  "redis_delete key w =
     (let w' = w\<lparr>au_redis_tick := Suc (au_redis_tick w)\<rparr>;
          w'' = w'\<lparr>au_redis := (au_redis w)(key := None)\<rparr>
      in case au_redis_net w (au_redis_tick w) of
           Reply_ok \<Rightarrow> (Inr (if redis_has w key then 1 else 0), w'')
         | Reply_raises e took \<Rightarrow> (Inl e, if took then w'' else w'))"

text \<open>\<open>SET key value EX seconds\<close>; Redis refuses a lifetime that is not positive.\<close>

definition redis_set :: "string \<Rightarrow> string \<Rightarrow> int \<Rightarrow> auth_world \<Rightarrow> (exn + unit) \<times> auth_world" where
  "redis_set key v ex w =
     (let w' = w\<lparr>au_redis_tick := Suc (au_redis_tick w)\<rparr>;
          w'' = w'\<lparr>au_redis := (au_redis w)(key \<mapsto> (v, au_now w + seconds ex))\<rparr>
      in case au_redis_net w (au_redis_tick w) of
           Reply_ok \<Rightarrow> if ex \<le> 0 then (Inl (RedisError ''invalid expire time''), w') else (ok, w'')
         | Reply_raises e took \<Rightarrow> (Inl e, if took \<and> 0 < ex then w'' else w'))"

section \<open>The service's operations\<close>

definition refresh_redis_key :: "string \<Rightarrow> string" where
  "refresh_redis_key jti = ''refresh_token:'' @ jti"

text \<open>A failing audit write is printed and dropped.\<close>

definition log_auth ::
  "string option \<Rightarrow> string option \<Rightarrow> string \<Rightarrow> string \<Rightarrow> string \<Rightarrow> (string \<times> audit_value) list \<Rightarrow> auth_world \<Rightarrow> auth_world" where
  "log_auth org_id user_id action result ip_address metadata w =
     snd (audit_log
       \<lparr>en_action = action, en_resource_type = ''user'', en_result = result, en_organization_id = org_id, en_user_id = user_id,
        en_ip_address = (if ip_address = [] then None else Some ip_address), en_metadata = metadata\<rparr> w)"

definition roles_for_user :: "string \<Rightarrow> auth_world \<Rightarrow> (exn + string list) \<times> auth_world" where
  "roles_for_user user_id w = pg_select (\<lambda>w. map snd (filter (\<lambda>p. fst p = user_id) (au_user_roles w))) w"

definition draw_uuid :: "auth_world \<Rightarrow> string \<times> auth_world" where
  "draw_uuid w = (au_uuids w (au_uuid_tick w), w\<lparr>au_uuid_tick := Suc (au_uuid_tick w)\<rparr>)"

definition issue_pair ::
  "'t jwt_library \<Rightarrow> auth_service \<Rightarrow> string \<Rightarrow> string \<Rightarrow> string \<Rightarrow> string list \<Rightarrow> auth_world \<Rightarrow>
   (exn + 't token_pair) \<times> auth_world" where
  "issue_pair jw sv user_id org_id email roles w =
     (let (access_jti, w1) = draw_uuid w;
          access_claims = new_base_claims (au_now w1) user_id org_id email roles TOKEN_TYPE_ACCESS (sv_access_ttl sv) access_jti;
          access_token = issue_token jw (au_now w1) access_claims (sv_access_secret sv);
          (refresh_jti, w2) = draw_uuid w1;
          refresh_claims = new_base_claims (au_now w2) user_id org_id email roles TOKEN_TYPE_REFRESH (sv_refresh_ttl sv) refresh_jti;
          refresh_token = issue_token jw (au_now w2) refresh_claims (sv_refresh_secret sv)
      in case redis_set (refresh_redis_key refresh_jti) user_id (py_trunc (sv_refresh_ttl sv)) w2 of
           (Inl e, w3) \<Rightarrow> (Inl e, w3)
         | (Inr _, w3) \<Rightarrow>
             (Inr \<lparr>tp_access_token = access_token, tp_refresh_token = refresh_token,
                   tp_expires_at = au_now w1 + timedelta (sv_access_ttl sv)\<rparr>, w3))"

definition login ::
  "'t jwt_library \<Rightarrow> bcrypt_library \<Rightarrow> auth_service \<Rightarrow> string \<Rightarrow> nat list \<Rightarrow> string \<Rightarrow> auth_world \<Rightarrow>
   (exn + 't token_pair) \<times> auth_world" where
  "login jw bc sv email password ip_address w =
     (case pg_select (\<lambda>w. find (\<lambda>u. us_email u = email) (au_users w)) w of
        (Inl e, w1) \<Rightarrow> (Inl e, w1)
      | (Inr None, w1) \<Rightarrow>
          (Inl (InvalidCredentialsError ''invalid email or password''),
           log_auth None None ''user.login'' ''FAILURE'' ip_address [(''email'', Text email), (''reason'', Text ''no such user'')] w1)
      | (Inr (Some u), w1) \<Rightarrow>
          (case verify_password bc (us_password_hash u) password of
             Inl e \<Rightarrow> (Inl e, w1)
           | Inr False \<Rightarrow>
               (Inl (InvalidCredentialsError ''invalid email or password''),
                log_auth (Some (us_organization_id u)) (Some (us_id u)) ''user.login'' ''FAILURE'' ip_address
                  [(''reason'', Text ''bad password'')] w1)
           | Inr True \<Rightarrow>
               if \<not> us_is_active u then
                 (Inl (UserInactiveError ''user account is inactive''),
                  log_auth (Some (us_organization_id u)) (Some (us_id u)) ''user.login'' ''FAILURE'' ip_address
                    [(''reason'', Text ''inactive account'')] w1)
               else
                 (case roles_for_user (us_id u) w1 of
                    (Inl e, w2) \<Rightarrow> (Inl e, w2)
                  | (Inr roles, w2) \<Rightarrow>
                      (case issue_pair jw sv (us_id u) (us_organization_id u) email roles w2 of
                         (Inl e, w3) \<Rightarrow> (Inl e, w3)
                       | (Inr pair, w3) \<Rightarrow>
                           (Inr pair, log_auth (Some (us_organization_id u)) (Some (us_id u)) ''user.login'' ''SUCCESS'' ip_address
                              [(''roles'', Texts roles)] w3)))))"

definition refresh_access_token ::
  "'t jwt_library \<Rightarrow> auth_service \<Rightarrow> 't \<Rightarrow> string \<Rightarrow> auth_world \<Rightarrow> (exn + 't token_pair) \<times> auth_world" where
  "refresh_access_token jw sv refresh_token ip_address w =
     (case parse_and_validate jw (au_now w) refresh_token (sv_refresh_secret sv) TOKEN_TYPE_REFRESH of
        Inl e \<Rightarrow> (Inl (TokenRevokedError (str_exn e)), w)
      | Inr claims \<Rightarrow>
          (case redis_delete (refresh_redis_key (cl_jti claims)) w of
             (Inl e, w1) \<Rightarrow> (Inl e, w1)
           | (Inr deleted, w1) \<Rightarrow>
               if deleted = 0 then
                 (Inl (TokenRevokedError ''refresh token has been revoked or already used''),
                  log_auth (Some (cl_organization_id claims)) (Some (cl_user_id claims)) ''user.refresh_token_reuse'' ''FAILURE''
                    ip_address [(''jti'', Text (cl_jti claims))] w1)
               else
                 (case roles_for_user (cl_user_id claims) w1 of
                    (Inl e, w2) \<Rightarrow> (Inl e, w2)
                  | (Inr roles, w2) \<Rightarrow>
                      issue_pair jw sv (cl_user_id claims) (cl_organization_id claims) (cl_email claims) roles w2)))"

definition logout :: "'t jwt_library \<Rightarrow> auth_service \<Rightarrow> 't \<Rightarrow> string \<Rightarrow> auth_world \<Rightarrow> (exn + unit) \<times> auth_world" where
  "logout jw sv refresh_token ip_address w =
     (case parse_and_validate jw (au_now w) refresh_token (sv_refresh_secret sv) TOKEN_TYPE_REFRESH of
        Inl e \<Rightarrow> (Inl (TokenRevokedError (str_exn e)), w)
      | Inr claims \<Rightarrow>
          (case redis_delete (refresh_redis_key (cl_jti claims)) w of
             (Inl e, w1) \<Rightarrow> (Inl e, w1)
           | (Inr _, w1) \<Rightarrow>
               (ok, log_auth (Some (cl_organization_id claims)) (Some (cl_user_id claims)) ''user.logout'' ''SUCCESS'' ip_address [] w1)))"

section \<open>Roles\<close>

lemma set_add_permissions [simp]: "set (add_permissions ps out) = set ps \<union> set out"
  by (induction ps arbitrary: out) auto

lemma distinct_add_permissions: "distinct out \<Longrightarrow> distinct (add_permissions ps out)"
  by (induction ps arbitrary: out) auto

lemma fold_permissions:
  "set (fold (\<lambda>role out. add_permissions (role_permissions role) out) roles out) =
   set out \<union> (\<Union>r\<in>set roles. set (role_permissions r))"
  by (induction roles arbitrary: out) auto

lemma in_role_permissions: "p \<in> set (role_permissions r) \<longleftrightarrow> (\<exists>ps. map_of ROLE_PERMISSIONS r = Some ps \<and> p \<in> set ps)"
  by (cases "map_of ROLE_PERMISSIONS r") (simp_all add: role_permissions_def)

text \<open>
  A user's permissions are the union of those of the roles, each listed once; an unknown role gives
  none, and each role on the ladder viewer, technician, engineer, factory manager, administrator
  grants everything the one before it does.
\<close>

theorem permissions_are_union_of_roles:
  "distinct (permissions_for_roles roles) \<and>
   has_permission (permissions_for_roles roles) p = (\<exists>r ps. r \<in> set roles \<and> map_of ROLE_PERMISSIONS r = Some ps \<and> p \<in> set ps) \<and>
   sorted_wrt (\<lambda>a b. set (role_permissions a) \<subseteq> set (role_permissions b)) (rev ALL_ROLES)"
proof -
  have "distinct (fold (\<lambda>role out. add_permissions (role_permissions role) out) roles out)" if "distinct out" for out
    using that by (induction roles arbitrary: out) (auto intro: distinct_add_permissions)
  moreover have "has_permission (permissions_for_roles roles) p =
      (\<exists>r ps. r \<in> set roles \<and> map_of ROLE_PERMISSIONS r = Some ps \<and> p \<in> set ps)"
    by (auto simp: has_permission_def permissions_for_roles_def fold_permissions in_role_permissions)
  moreover have "sorted_wrt (\<lambda>a b. set (role_permissions a) \<subseteq> set (role_permissions b)) (rev ALL_ROLES)"
    by (auto simp: ALL_ROLES_def role_permissions_def ROLE_PERMISSIONS_def)
  ultimately show ?thesis
    by (simp add: permissions_for_roles_def)
qed

section \<open>Passwords\<close>

lemma length_encode_char: "1 \<le> length (encode_char c) \<and> length (encode_char c) \<le> 4"
  by simp

lemma encode_bytes: "c < 0x110000 \<Longrightarrow> b \<in> set (encode_char c) \<Longrightarrow> b < 256"
  by (auto split: if_splits)

text \<open>
  A password that passes the policy can be hashed: it encodes to at most 72 bytes, which is all bcrypt
  reads, and it has at least as many bytes as characters and so between 8 and 72 characters.
\<close>

theorem strong_password_is_hashable:
  assumes "validate_password_strength is_alpha is_dig p = ok"
  shows "\<exists>bytes. encode_utf8 p = Inr bytes \<and> length bytes \<le> 72 \<and> hash_password bc p = bc_hash bc bytes \<and>
    8 \<le> length p \<and> length p \<le> length bytes"
proof -
  have len: "8 \<le> length p" and chk: "check_password_length p = ok"
    using assms by (auto simp: validate_password_strength_def split: if_splits sum.splits)
  then obtain bytes where b: "encode_utf8 p = Inr bytes" "length bytes \<le> 72"
    by (auto simp: check_password_length_def MAX_PASSWORD_BYTES_def split: sum.splits if_splits)
  have "length s \<le> length (concat (map encode_char s))" for s
  proof (induction s)
    case (Cons c s)
    then show ?case
      using length_encode_char [of c] by (simp del: encode_char.simps)
  qed simp
  then have "length p \<le> length bytes"
    using b(1) by (auto simp: encode_utf8_def simp del: encode_char.simps split: if_splits)
  then show ?thesis
    using b len chk by (simp add: hash_password_def)
qed

definition ascii_alpha :: "nat \<Rightarrow> bool" where
  "ascii_alpha c \<longleftrightarrow> (65 \<le> c \<and> c \<le> 90) \<or> (97 \<le> c \<and> c \<le> 122)"

definition ascii_digit :: "nat \<Rightarrow> bool" where
  "ascii_digit c \<longleftrightarrow> 48 \<le> c \<and> c \<le> 57"

theorem strong_password_is_hashable_witness:
  "\<exists>bytes. encode_utf8 [97, 98, 99, 100, 101, 102, 103, 49] = Inr bytes \<and> length bytes \<le> 72"
  using strong_password_is_hashable [of ascii_alpha ascii_digit "[97, 98, 99, 100, 101, 102, 103, 49]"]
  by (simp add: validate_password_strength_def check_password_length_def encode_utf8_def surrogate_def MAX_PASSWORD_BYTES_def
      ascii_alpha_def ascii_digit_def)

section \<open>Tokens\<close>

text \<open>PyJWT checks the expiry and the time of issue where the payload has them.\<close>

definition valid_at :: "int \<Rightarrow> jwt_payload \<Rightarrow> bool" where
  "valid_at now p \<longleftrightarrow>
     (case jp_exp p of None \<Rightarrow> True | Some e \<Rightarrow> now < e * 1000000) \<and>
     (case jp_iat p of None \<Rightarrow> True | Some i \<Rightarrow> i * 1000000 \<le> now)"

definition jwt_ok :: "'t jwt_library \<Rightarrow> bool" where
  "jwt_ok jw \<longleftrightarrow>
     (\<forall>p s now. valid_at now p \<longrightarrow> jw_decode jw now (jw_encode jw p s) s = Inr p) \<and>
     (\<forall>p s now. \<not> valid_at now p \<longrightarrow> raised (jw_decode jw now (jw_encode jw p s) s)) \<and>
     (\<forall>p s s' now. s' \<noteq> s \<longrightarrow> raised (jw_decode jw now (jw_encode jw p s) s')) \<and>
     (\<forall>now now' t s p q. jw_decode jw now t s = Inr p \<longrightarrow> jw_decode jw now' t s = Inr q \<longrightarrow> p = q)"

text \<open>A library with these laws: a token is its payload with its secret.\<close>

definition demo_jwt :: "(jwt_payload \<times> string) jwt_library" where
  "demo_jwt =
     \<lparr>jw_encode = Pair,
      jw_decode = (\<lambda>now t s. if snd t = s \<and> valid_at now (fst t) then Inr (fst t) else Inl (PyJWTError ''invalid''))\<rparr>"

lemma demo_jwt_ok: "jwt_ok demo_jwt"
  by (auto simp: jwt_ok_def demo_jwt_def split: if_splits)

text \<open>The claims as they come back: the times cut to whole seconds.\<close>

definition on_seconds :: "claims \<Rightarrow> claims" where
  "on_seconds c =
     c\<lparr>cl_issued_at := map_option (\<lambda>t. to_seconds t * 1000000) (cl_issued_at c),
       cl_expires_at := map_option (\<lambda>t. to_seconds t * 1000000) (cl_expires_at c)\<rparr>"

lemma issued_token_reads:
  assumes "jwt_ok jw" and "cl_issued_at c = Some issued" and "cl_expires_at c = Some expires" and "issued \<le> now"
  shows "if secret' = secret \<and> ty = cl_token_type c \<and> now < to_seconds expires * 1000000
    then parse_and_validate jw now (issue_token jw t c secret) secret' ty = Inr (on_seconds c)
    else raised (parse_and_validate jw now (issue_token jw t c secret) secret' ty)"
proof -
  obtain p where p: "issue_token jw t c secret = jw_encode jw p secret" and cp: "claims_of p = on_seconds c"
    and ty: "jp_token_type p = Some (cl_token_type c)" and v: "valid_at now p = (now < to_seconds expires * 1000000)"
  proof
    let ?p = "\<lparr>jp_sub = Some (cl_user_id c), jp_jti = Some (cl_jti c), jp_iat = Some (to_seconds issued),
        jp_exp = Some (to_seconds expires), jp_user_id = Some (cl_user_id c), jp_organization_id = Some (cl_organization_id c),
        jp_email = Some (cl_email c), jp_roles = Some (cl_roles c), jp_permissions = Some (cl_permissions c),
        jp_token_type = Some (cl_token_type c)\<rparr>"
    show "issue_token jw t c secret = jw_encode jw ?p secret"
      by (simp add: issue_token_def assms(2,3))
    show "claims_of ?p = on_seconds c"
      by (cases c) (use assms(2,3) in \<open>simp add: claims_of_def on_seconds_def\<close>)
    have "issued div 1000000 * 1000000 \<le> now"
      using assms(4) by linarith
    then show "valid_at now ?p = (now < to_seconds expires * 1000000)"
      by (simp add: valid_at_def to_seconds_def)
  qed simp
  have "jw_decode jw now (jw_encode jw p secret) secret = Inr p" if "valid_at now p"
    using assms(1) that unfolding jwt_ok_def by blast
  moreover have "raised (jw_decode jw now (jw_encode jw p secret) secret')" if "secret' \<noteq> secret \<or> \<not> valid_at now p"
    using assms(1) that unfolding jwt_ok_def by metis
  ultimately show ?thesis
    using cp ty v
    by (cases "secret' = secret"; cases "valid_at now p") (auto simp: p parse_and_validate_def raised_iff)
qed

text \<open>
  C25. A token read back gives the claims it was issued for, to the second, exactly with the secret it was
  issued with, as the type it was issued as, and before its expiry; in every other case reading it raises.
  So an access token is never taken for a refresh token, or the reverse.
\<close>

theorem token_roundtrip:
  assumes "jwt_ok jw" and "cl_issued_at c = Some issued" and "cl_expires_at c = Some expires" and "issued \<le> now"
  shows "if secret' = secret \<and> ty = cl_token_type c \<and> now < to_seconds expires * 1000000
    then parse_and_validate jw now (issue_token jw t c secret) secret' ty = Inr (on_seconds c)
    else raised (parse_and_validate jw now (issue_token jw t c secret) secret' ty)"
  using assms by (rule issued_token_reads)

definition demo_claims :: "string \<Rightarrow> claims" where
  "demo_claims ty = new_base_claims 5000000 ''u'' ''o'' ''e'' [''VIEWER''] ty 60 ''j''"

theorem token_roundtrip_witness:
  "parse_and_validate demo_jwt 6000000 (issue_token demo_jwt 5000000 (demo_claims ''access'') ''s'') ''s'' ''access'' =
     Inr (on_seconds (demo_claims ''access'')) \<and>
   raised (parse_and_validate demo_jwt 6000000 (issue_token demo_jwt 5000000 (demo_claims ''access'') ''s'') ''s'' ''refresh'')"
proof -
  have c: "cl_issued_at (demo_claims ''access'') = Some 5000000" "cl_expires_at (demo_claims ''access'') = Some 65000000"
    "cl_token_type (demo_claims ''access'') = ''access''"
    using timedelta_of_int [of 60] by (simp_all add: demo_claims_def new_base_claims_def seconds_def)
  show ?thesis
    using token_roundtrip [OF demo_jwt_ok c(1,2), of 6000000 "''s''" "''s''" "''access''" 5000000]
      token_roundtrip [OF demo_jwt_ok c(1,2), of 6000000 "''s''" "''s''" "''refresh''" 5000000]
    by (simp add: c(3) to_seconds_def)
qed

section \<open>Refresh tokens are used once\<close>

text \<open>Every key in Redis belongs to an identifier already drawn.\<close>

definition redis_fresh :: "auth_world \<Rightarrow> bool" where
  "redis_fresh w \<longleftrightarrow>
     inj (au_uuids w) \<and> (\<forall>key. au_redis w key \<noteq> None \<longrightarrow> (\<exists>n<au_uuid_tick w. key = refresh_redis_key (au_uuids w n)))"

text \<open>What a call may do to Redis: delete keys, and set keys of identifiers it draws.\<close>

definition au_step :: "auth_world \<Rightarrow> auth_world \<Rightarrow> bool" where
  "au_step w w' \<longleftrightarrow>
     au_uuids w' = au_uuids w \<and> au_uuid_tick w \<le> au_uuid_tick w' \<and>
     (\<forall>key. au_redis w' key \<noteq> None \<longrightarrow> au_redis w key \<noteq> None \<or>
        (\<exists>n. au_uuid_tick w \<le> n \<and> n < au_uuid_tick w' \<and> key = refresh_redis_key (au_uuids w n)))"

lemma au_step_refl [simp, intro]: "au_step w w"
  by (simp add: au_step_def)

lemma au_step_trans [trans]:
  assumes "au_step a b" and "au_step b c"
  shows "au_step a c"
proof -
  have u: "au_uuids b = au_uuids a" "au_uuids c = au_uuids a" "au_uuid_tick a \<le> au_uuid_tick b" "au_uuid_tick b \<le> au_uuid_tick c"
    using assms by (simp_all add: au_step_def)
  have "au_redis a key \<noteq> None \<or> (\<exists>n. au_uuid_tick a \<le> n \<and> n < au_uuid_tick c \<and> key = refresh_redis_key (au_uuids a n))"
    if c: "au_redis c key \<noteq> None" for key
  proof (cases "au_redis b key = None")
    case True
    then obtain n where "au_uuid_tick b \<le> n" "n < au_uuid_tick c" "key = refresh_redis_key (au_uuids b n)"
      using c assms(2) unfolding au_step_def by blast
    then show ?thesis
      using u by (intro disjI2 exI [of _ n]) simp
  next
    case False
    then consider "au_redis a key \<noteq> None" | n where "au_uuid_tick a \<le> n" "n < au_uuid_tick b" "key = refresh_redis_key (au_uuids a n)"
      using assms(1) unfolding au_step_def by blast
    then show ?thesis
      using u(4) by cases (blast, use less_le_trans in blast)
  qed
  then show ?thesis
    using u by (simp add: au_step_def)
qed

text \<open>Sequencing calls, an exception ending the sequence.\<close>

lemma au_step_case:
  assumes "au_step w (snd p)" and "\<And>x w1. p = (Inr x, w1) \<Longrightarrow> au_step w1 (snd (k x w1))"
  shows "au_step w (snd (case p of (Inl e, w1) \<Rightarrow> (Inl e, w1) | (Inr x, w1) \<Rightarrow> k x w1))"
proof (cases p)
  case (Pair r w1)
  then show ?thesis
    using assms au_step_trans by (cases r) auto
qed

lemma pg_select_step: "au_step w (snd (pg_select q w))"
  by (auto simp: pg_select_def au_step_def Let_def split: reply.split)

lemma log_auth_step: "au_step w (log_auth a b c d e f w)"
  by (auto simp: log_auth_def audit_log_def au_step_def Let_def split: reply.split)

lemma redis_delete_step: "au_step w (snd (redis_delete key w))"
  by (auto simp: redis_delete_def au_step_def Let_def split: reply.split if_splits)

lemma issue_pair_step: "au_step w (snd (issue_pair jw sv u org email roles w))"
proof -
  let ?n = "Suc (au_uuid_tick w)"
  let ?w2 = "snd (draw_uuid (snd (draw_uuid w)))"
  let ?w3 = "snd (redis_set (refresh_redis_key (au_uuids w ?n)) u (py_trunc (sv_refresh_ttl sv)) ?w2)"
  have "snd (issue_pair jw sv u org email roles w) = ?w3"
    by (auto simp: issue_pair_def draw_uuid_def Let_def split: prod.split sum.split)
  moreover have "au_step w ?w3"
  proof -
    have u: "au_uuids ?w3 = au_uuids w" "au_uuid_tick ?w3 = Suc ?n"
      by (auto simp: redis_set_def draw_uuid_def Let_def split: reply.split)
    have "au_redis w key \<noteq> None \<or> key = refresh_redis_key (au_uuids w ?n)" if "au_redis ?w3 key \<noteq> None" for key
      using that by (auto simp: redis_set_def draw_uuid_def Let_def split: reply.splits if_splits)
    then have "au_redis w key \<noteq> None \<or> (\<exists>n. au_uuid_tick w \<le> n \<and> n < au_uuid_tick ?w3 \<and> key = refresh_redis_key (au_uuids w n))"
      if "au_redis ?w3 key \<noteq> None" for key
      unfolding u(2) using that by (metis le_SucI lessI order_refl)
    then show ?thesis
      unfolding au_step_def using u by simp
  qed
  ultimately show ?thesis
    by simp
qed

lemma roles_step: "au_step w (snd (roles_for_user u w))"
  by (simp add: roles_for_user_def pg_select_step)

lemma login_step: "au_step w (snd (login jw bc sv email pw ip w))"
  unfolding login_def
  by (intro au_step_case pg_select_step)
     (auto split: option.split sum.split bool.split intro!: log_auth_step au_step_case roles_step issue_pair_step)

lemma refresh_step: "au_step w (snd (refresh_access_token jw sv tok ip w))"
  unfolding refresh_access_token_def
  by (auto split: sum.split intro!: log_auth_step au_step_case roles_step issue_pair_step redis_delete_step)

lemma logout_step: "au_step w (snd (logout jw sv tok ip w))"
  unfolding logout_def
  by (auto split: sum.split intro!: log_auth_step au_step_case redis_delete_step)

text \<open>The calls of the service, with time passing between them.\<close>

datatype 't auth_call =
    Login string "nat list" string
  | Refresh 't string
  | Logout 't string
  | Wait int

fun run_auth_call :: "'t jwt_library \<Rightarrow> bcrypt_library \<Rightarrow> auth_service \<Rightarrow> 't auth_call \<Rightarrow> auth_world \<Rightarrow> auth_world" where
  "run_auth_call jw bc sv (Login email pw ip) w = snd (login jw bc sv email pw ip w)"
| "run_auth_call jw bc sv (Refresh tok ip) w = snd (refresh_access_token jw sv tok ip w)"
| "run_auth_call jw bc sv (Logout tok ip) w = snd (logout jw sv tok ip w)"
| "run_auth_call jw bc sv (Wait t) w = w\<lparr>au_now := t\<rparr>"

lemma run_auth_call_step: "au_step w (run_auth_call jw bc sv c w)"
proof (cases c)
  case (Wait t)
  then show ?thesis by (simp add: au_step_def)
qed (simp_all add: login_step refresh_step logout_step)

lemma run_auth_calls_step: "au_step w (fold (run_auth_call jw bc sv) calls w)"
proof (induction calls rule: rev_induct)
  case (snoc c calls)
  then show ?case
    using run_auth_call_step au_step_trans by fastforce
qed simp

text \<open>A key that is gone although its identifier was drawn stays gone.\<close>

lemma refresh_key_inj [simp]: "refresh_redis_key i = refresh_redis_key j \<longleftrightarrow> i = j"
  by (simp add: refresh_redis_key_def)

lemma gone_stays_gone:
  assumes "au_step w w'" and "inj (au_uuids w)" and "m < au_uuid_tick w" and "au_redis w (refresh_redis_key (au_uuids w m)) = None"
  shows "au_redis w' (refresh_redis_key (au_uuids w m)) = None"
proof (rule ccontr)
  assume "\<not> ?thesis"
  then obtain n where "au_uuid_tick w \<le> n" and "au_uuids w n = au_uuids w m"
    using assms(1,4) unfolding au_step_def by fastforce
  then show False
    using assms(2,3) by (simp add: inj_eq)
qed

lemma redis_delete_answer:
  assumes "redis_delete key w = (Inr d, w')"
  shows "au_redis w' key = None" and "0 < d \<Longrightarrow> au_redis w key \<noteq> None" and "au_step w w'"
  using assms redis_delete_step [of w key]
  by (auto simp: redis_delete_def redis_has_def Let_def split: reply.splits option.splits if_splits)

text \<open>
  C26. Once a refresh with a token has succeeded, no later sequence of calls (logins, refreshes, logouts,
  passing time, failing stores) makes the token good again: presenting it raises.
\<close>

theorem refresh_token_used_once:
  assumes "jwt_ok jw" and "redis_fresh w" and "refresh_access_token jw sv tok ip w = (Inr pair, w')"
  shows "raised (fst (refresh_access_token jw sv tok ip' (fold (run_auth_call jw bc sv) calls w')))"
proof -
  obtain c where c: "parse_and_validate jw (au_now w) tok (sv_refresh_secret sv) TOKEN_TYPE_REFRESH = Inr c"
    using assms(3) by (auto simp: refresh_access_token_def split: sum.splits)
  let ?key = "refresh_redis_key (cl_jti c)"
  obtain d w1 where d: "redis_delete ?key w = (Inr d, w1)" "0 < d"
    and rest: "\<exists>roles w2. roles_for_user (cl_user_id c) w1 = (Inr roles, w2) \<and>
      issue_pair jw sv (cl_user_id c) (cl_organization_id c) (cl_email c) roles w2 = (Inr pair, w')"
    using assms(3) c by (auto simp: refresh_access_token_def split: sum.splits if_splits prod.splits)
  note del = redis_delete_answer [OF d(1)]
  obtain n where n: "n < au_uuid_tick w" "cl_jti c = au_uuids w n"
    using del(2) [OF d(2)] assms(2) unfolding redis_fresh_def by fastforce
  have inj: "inj (au_uuids w1)" and u: "au_uuids w1 = au_uuids w" and t: "n < au_uuid_tick w1"
    using assms(2) del(3) n(1) by (auto simp: redis_fresh_def au_step_def)
  obtain roles w2 where "roles_for_user (cl_user_id c) w1 = (Inr roles, w2)"
    and "issue_pair jw sv (cl_user_id c) (cl_organization_id c) (cl_email c) roles w2 = (Inr pair, w')"
    using rest by blast
  then have "au_step w1 w2" and "au_step w2 w'"
    using roles_step [of w1 "cl_user_id c"] issue_pair_step [of w2 jw sv "cl_user_id c"] by (metis snd_conv)+
  then have s: "au_step w1 (fold (run_auth_call jw bc sv) calls w')" (is "au_step w1 ?w")
    using run_auth_calls_step au_step_trans by blast
  have gone: "au_redis ?w ?key = None"
    using gone_stays_gone [OF s inj t] del(1) n(2) u by simp
  show ?thesis
  proof (cases "parse_and_validate jw (au_now ?w) tok (sv_refresh_secret sv) TOKEN_TYPE_REFRESH")
    case (Inl e)
    then show ?thesis by (simp add: refresh_access_token_def)
  next
    case (Inr c')
    obtain p q where "jw_decode jw (au_now w) tok (sv_refresh_secret sv) = Inr p" "claims_of p = c"
      "jw_decode jw (au_now ?w) tok (sv_refresh_secret sv) = Inr q" "claims_of q = c'"
      using c Inr by (auto simp: parse_and_validate_def split: sum.splits if_splits)
    then have "c' = c"
      using assms(1) unfolding jwt_ok_def by blast
    then show ?thesis
      using Inr gone
      by (auto simp: refresh_access_token_def redis_delete_def redis_has_def Let_def split: reply.split)
  qed
qed

definition demo_auth :: auth_service where
  "demo_auth = \<lparr>sv_access_secret = ''s'', sv_refresh_secret = ''r'', sv_access_ttl = 60, sv_refresh_ttl = 600\<rparr>"

definition demo_bcrypt :: bcrypt_library where
  "demo_bcrypt = \<lparr>bc_hash = (\<lambda>bytes. Inr (replicate (length bytes) CHR ''x'')), bc_check = (\<lambda>bytes h. Inr (length h = length bytes))\<rparr>"

text \<open>One user, who has drawn one refresh token.\<close>

definition demo_auth_world :: auth_world where
  "demo_auth_world =
     \<lparr>au_now = 5000000,
      au_users = [\<lparr>us_id = ''u'', us_organization_id = ''o'', us_email = ''e'', us_password_hash = ''a'', us_is_active = True\<rparr>],
      au_user_roles = [(''u'', ''VIEWER'')], au_audit = [], au_pg = (\<lambda>_. Reply_ok), au_pg_tick = 0,
      au_redis = [''refresh_token:'' \<mapsto> (''u'', 600000000)], au_redis_net = (\<lambda>_. Reply_ok), au_redis_tick = 0,
      au_uuids = (\<lambda>n. replicate n CHR ''x''), au_uuid_tick = 1\<rparr>"

definition demo_refresh_token :: "jwt_payload \<times> string" where
  "demo_refresh_token = issue_token demo_jwt 5000000 (new_base_claims 5000000 ''u'' ''o'' ''e'' [''VIEWER''] TOKEN_TYPE_REFRESH 600 []) ''r''"

lemma demo_auth_fresh: "redis_fresh demo_auth_world"
  by (auto simp: redis_fresh_def demo_auth_world_def refresh_redis_key_def inj_def dest: arg_cong [where f = length])

lemma demo_token_reads:
  "parse_and_validate demo_jwt 5000000 demo_refresh_token ''r'' TOKEN_TYPE_REFRESH =
   Inr (on_seconds (new_base_claims 5000000 ''u'' ''o'' ''e'' [''VIEWER''] TOKEN_TYPE_REFRESH 600 []))"
  using issued_token_reads [OF demo_jwt_ok, of "new_base_claims 5000000 ''u'' ''o'' ''e'' [''VIEWER''] TOKEN_TYPE_REFRESH 600 []"
      5000000 605000000 5000000 "''r''" "''r''" TOKEN_TYPE_REFRESH 5000000] timedelta_of_int [of 600]
  by (simp add: demo_refresh_token_def new_base_claims_def to_seconds_def seconds_def)

lemma py_trunc_600: "0 < py_trunc 600"
  by (simp add: py_trunc_def)

theorem refresh_token_used_once_witness:
  "\<exists>pair w'. refresh_access_token demo_jwt demo_auth demo_refresh_token [] demo_auth_world = (Inr pair, w') \<and>
    raised (fst (refresh_access_token demo_jwt demo_auth demo_refresh_token [] (run_auth_call demo_jwt demo_bcrypt demo_auth (Wait 6000000) w')))"
proof -
  obtain pair w' where r: "refresh_access_token demo_jwt demo_auth demo_refresh_token [] demo_auth_world = (Inr pair, w')"
    using py_trunc_600 demo_token_reads
    by (simp add: refresh_access_token_def demo_auth_def demo_auth_world_def redis_delete_def redis_has_def refresh_redis_key_def
        on_seconds_def new_base_claims_def roles_for_user_def pg_select_def issue_pair_def draw_uuid_def redis_set_def Let_def)
  show ?thesis
    using refresh_token_used_once [OF demo_jwt_ok demo_auth_fresh r, of "[]" demo_bcrypt "[Wait 6000000]"] r by auto
qed

section \<open>Who gets a token\<close>

lemma roles_for_user_answer:
  "roles_for_user u w = (Inr roles, w') \<Longrightarrow>
   roles = map snd (filter (\<lambda>p. fst p = u) (au_user_roles w)) \<and> au_now w' = au_now w \<and> au_user_roles w' = au_user_roles w"
  by (auto simp: roles_for_user_def pg_select_def Let_def split: reply.splits)

lemma issue_pair_answer:
  assumes "issue_pair jw sv u org email roles w = (Inr pair, w')"
  shows "\<exists>jti t. tp_access_token pair =
    issue_token jw t (new_base_claims (au_now w) u org email roles TOKEN_TYPE_ACCESS (sv_access_ttl sv) jti) (sv_access_secret sv)"
proof -
  have "tp_access_token pair = issue_token jw (au_now w) (new_base_claims (au_now w) u org email roles TOKEN_TYPE_ACCESS
      (sv_access_ttl sv) (au_uuids w (au_uuid_tick w))) (sv_access_secret sv)"
    using assms by (auto simp: issue_pair_def draw_uuid_def Let_def split: prod.splits sum.splits)
  then show ?thesis by blast
qed

lemma login_grants:
  assumes "jwt_ok jw" and "login jw bc sv email pw ip w = (Inr pair, w')"
    and "au_now w \<le> now" and "now < to_seconds (au_now w + timedelta (sv_access_ttl sv)) * 1000000"
  shows "\<exists>u c. u \<in> set (au_users w) \<and> us_email u = email \<and> us_is_active u \<and>
    verify_password bc (us_password_hash u) pw = Inr True \<and>
    parse_and_validate jw now (tp_access_token pair) (sv_access_secret sv) TOKEN_TYPE_ACCESS = Inr c \<and>
    cl_user_id c = us_id u \<and> cl_organization_id c = us_organization_id u \<and>
    cl_permissions c = permissions_for_roles (map snd (filter (\<lambda>p. fst p = us_id u) (au_user_roles w)))"
proof -
  obtain r w1 where s: "pg_select (\<lambda>w. find (\<lambda>u. us_email u = email) (au_users w)) w = (r, w1)" by fastforce
  then obtain u where u: "find (\<lambda>u. us_email u = email) (au_users w) = Some u" "r = Inr (Some u)"
    and w1: "au_now w1 = au_now w" "au_user_roles w1 = au_user_roles w"
    using assms(2) by (auto simp: login_def pg_select_def Let_def split: reply.splits option.splits)
  then have ver: "verify_password bc (us_password_hash u) pw = Inr True" and act: "us_is_active u"
    using assms(2) by (auto simp: login_def s split: sum.splits bool.splits if_splits)
  obtain roles w2 w3 where roles: "roles_for_user (us_id u) w1 = (Inr roles, w2)"
    and pair: "issue_pair jw sv (us_id u) (us_organization_id u) email roles w2 = (Inr pair, w3)"
    using assms(2) s u(2) ver act by (auto simp: login_def split: sum.splits prod.splits)
  obtain jti t where tok: "tp_access_token pair = issue_token jw t
      (new_base_claims (au_now w) (us_id u) (us_organization_id u) email roles TOKEN_TYPE_ACCESS (sv_access_ttl sv) jti) (sv_access_secret sv)"
    using issue_pair_answer [OF pair] roles_for_user_answer [OF roles] w1(1) by auto
  let ?c = "new_base_claims (au_now w) (us_id u) (us_organization_id u) email roles TOKEN_TYPE_ACCESS (sv_access_ttl sv) jti"
  have "parse_and_validate jw now (tp_access_token pair) (sv_access_secret sv) TOKEN_TYPE_ACCESS = Inr (on_seconds ?c)"
    using issued_token_reads [OF assms(1), of ?c "au_now w" "au_now w + timedelta (sv_access_ttl sv)" now "sv_access_secret sv"
        "sv_access_secret sv" TOKEN_TYPE_ACCESS t] assms(3,4)
    by (simp add: tok new_base_claims_def)
  moreover have "cl_permissions (on_seconds ?c) = permissions_for_roles (map snd (filter (\<lambda>p. fst p = us_id u) (au_user_roles w)))"
    using roles_for_user_answer [OF roles] w1(2) by (simp add: on_seconds_def new_base_claims_def)
  ultimately show ?thesis
    using u(1) ver act
    by (intro exI [of _ u] exI [of _ "on_seconds ?c"]) (auto simp: find_Some_iff on_seconds_def new_base_claims_def)
qed

text \<open>
  C27. A login that succeeds is one of an active user whose password verifies, and the access token it
  returns, read with the access secret before its expiry, names that user and organization and carries
  exactly the permissions of the roles the user has in the database.
\<close>

theorem login_grants_own_permissions:
  assumes "jwt_ok jw" and "login jw bc sv email pw ip w = (Inr pair, w')"
    and "au_now w \<le> now" and "now < to_seconds (au_now w + timedelta (sv_access_ttl sv)) * 1000000"
  shows "\<exists>u c. u \<in> set (au_users w) \<and> us_email u = email \<and> us_is_active u \<and>
    verify_password bc (us_password_hash u) pw = Inr True \<and>
    parse_and_validate jw now (tp_access_token pair) (sv_access_secret sv) TOKEN_TYPE_ACCESS = Inr c \<and>
    cl_user_id c = us_id u \<and> cl_organization_id c = us_organization_id u \<and>
    cl_permissions c = permissions_for_roles (map snd (filter (\<lambda>p. fst p = us_id u) (au_user_roles w)))"
  using assms by (rule login_grants)

theorem login_grants_own_permissions_witness:
  "\<exists>pair w' c. login demo_jwt demo_bcrypt demo_auth ''e'' [97] [] demo_auth_world = (Inr pair, w') \<and>
    parse_and_validate demo_jwt 6000000 (tp_access_token pair) ''s'' TOKEN_TYPE_ACCESS = Inr c \<and> cl_user_id c = ''u'' \<and>
    cl_permissions c = permissions_for_roles [''VIEWER'']"
proof -
  obtain pair w' where r: "login demo_jwt demo_bcrypt demo_auth ''e'' [97] [] demo_auth_world = (Inr pair, w')"
    using py_trunc_600
    by (simp add: login_def demo_auth_def demo_bcrypt_def demo_auth_world_def verify_password_def encode_utf8_def surrogate_def
        roles_for_user_def pg_select_def issue_pair_def draw_uuid_def redis_set_def Let_def)
  have t: "au_now demo_auth_world \<le> 6000000"
    "6000000 < to_seconds (au_now demo_auth_world + timedelta (sv_access_ttl demo_auth)) * 1000000"
    using timedelta_of_int [of 60] by (simp_all add: demo_auth_world_def demo_auth_def to_seconds_def seconds_def)
  show ?thesis
    using login_grants_own_permissions [OF demo_jwt_ok r t] r by (auto simp: demo_auth_world_def demo_auth_def)
qed

lemma redis_has_users [simp]: "redis_has (w\<lparr>au_users := users\<rparr>) key = redis_has w key"
  by (simp add: redis_has_def split: option.split)

text \<open>
  A refresh does not look at the account: whatever the users table says, in particular when the account
  has been deactivated, the answer is the same, so a deactivated user goes on refreshing for as long as each
  new token is presented in time.
\<close>

theorem refresh_ignores_account_state:
  "fst (refresh_access_token jw sv tok ip (w\<lparr>au_users := users\<rparr>)) = fst (refresh_access_token jw sv tok ip w)"
proof -
  have del: "redis_delete key (w\<lparr>au_users := users\<rparr>) = apsnd (\<lambda>w'. w'\<lparr>au_users := users\<rparr>) (redis_delete key w)" for key
    by (auto simp: redis_delete_def Let_def split: reply.split)
  have roles: "roles_for_user u (v\<lparr>au_users := users\<rparr>) = apsnd (\<lambda>w'. w'\<lparr>au_users := users\<rparr>) (roles_for_user u v)" for u v
    by (auto simp: roles_for_user_def pg_select_def Let_def split: reply.split)
  have issue: "fst (issue_pair jw sv u org email rs (v\<lparr>au_users := users\<rparr>)) = fst (issue_pair jw sv u org email rs v)" for u org email rs v
    by (auto simp: issue_pair_def redis_set_def draw_uuid_def Let_def split: reply.split)
  show ?thesis
    by (auto simp: refresh_access_token_def del roles issue split: sum.split prod.split)
qed

end
