(* ===== verification/Ip_Address.thy ===== *)
theory Ip_Address
  imports Config
begin

text \<open>
  What the API uses of Python's \<open>ipaddress\<close>: the texts it reads as IPv4 and IPv6 addresses and as
  networks (with host bits allowed), and membership. An address is its integer value.
\<close>

section \<open>Addresses\<close>

datatype ip = V4 nat | V6 nat

definition parse_octet :: "string \<Rightarrow> nat option" where
  "parse_octet s =
     (if s = [] \<or> \<not> list_all is_digit s \<or> 3 < length s \<or> (s \<noteq> ''0'' \<and> hd s = CHR ''0'') then None
      else let n = digits_to_nat s in if 255 < n then None else Some n)"

definition parse_ipv4 :: "string \<Rightarrow> nat option" where
  "parse_ipv4 s =
     (if CHR ''/'' \<in> set s then None
      else case map parse_octet (split_on (CHR ''.'') s) of
             [Some a, Some b, Some c, Some d] \<Rightarrow> Some (((a * 256 + b) * 256 + c) * 256 + d)
           | _ \<Rightarrow> None)"

definition hex_digits :: string where
  "hex_digits = ''0123456789abcdef''"

definition hex_val :: "char \<Rightarrow> nat option" where
  "hex_val c = (let n = length (takeWhile (\<lambda>d. d \<noteq> lower_char c) hex_digits) in if n < 16 then Some n else None)"

fun hex_str :: "nat \<Rightarrow> string" where
  "hex_str n = (if n < 16 then [hex_digits ! n] else hex_str (n div 16) @ [hex_digits ! (n mod 16)])"

declare hex_str.simps [simp del]

definition parse_hextet :: "string \<Rightarrow> nat option" where
  "parse_hextet s =
     (if s = [] \<or> 4 < length s \<or> None \<in> set (map hex_val s) then None
      else Some (fold (\<lambda>c acc. 16 * acc + (case hex_val c of Some v \<Rightarrow> v | None \<Rightarrow> 0)) s 0))"

fun hextets :: "nat \<Rightarrow> string list \<Rightarrow> nat option" where
  "hextets acc [] = Some acc"
| "hextets acc (p # ps) = (case parse_hextet p of None \<Rightarrow> None | Some v \<Rightarrow> hextets (acc * 65536 + v) ps)"

text \<open>The parts between colons, a dotted last part written as two hextets.\<close>

definition ipv6_parts :: "string \<Rightarrow> string list option" where
  "ipv6_parts s =
     (let parts = split_on (CHR '':'') s
      in if length parts < 3 then None
         else if CHR ''.'' \<in> set (last parts)
              then map_option (\<lambda>v. butlast parts @ [hex_str (v div 65536), hex_str (v mod 65536)]) (parse_ipv4 (last parts))
              else Some parts)"

definition ipv6_value :: "string list \<Rightarrow> nat option" where
  "ipv6_value parts =
     (let n = length parts; skips = filter (\<lambda>i. parts ! i = []) [1..<n - 1]
      in if 9 < n then None
         else case skips of
                [] \<Rightarrow> if n = 8 then hextets 0 parts else None
              | [i] \<Rightarrow>
                  let hi = (if hd parts = [] then i - 1 else i);
                      lo = (if last parts = [] then n - i - 2 else n - i - 1)
                  in if hd parts = [] \<and> hi \<noteq> 0 \<or> last parts = [] \<and> lo \<noteq> 0 \<or> 8 \<le> hi + lo then None
                     else (case hextets 0 (take hi parts) of
                             None \<Rightarrow> None
                           | Some v \<Rightarrow> hextets (v * 65536 ^ (8 - (hi + lo))) (drop (n - lo) parts))
              | _ \<Rightarrow> None)"

text \<open>A scope after a percent sign is read and dropped.\<close>

definition parse_ipv6 :: "string \<Rightarrow> nat option" where
  "parse_ipv6 s =
     (if CHR ''/'' \<in> set s then None
      else let addr = takeWhile (\<lambda>c. c \<noteq> CHR ''%'') s; scope = dropWhile (\<lambda>c. c \<noteq> CHR ''%'') s
           in if scope \<noteq> [] \<and> (tl scope = [] \<or> CHR ''%'' \<in> set (tl scope)) then None
              else case ipv6_parts addr of None \<Rightarrow> None | Some parts \<Rightarrow> ipv6_value parts)"

definition ip_address :: "string \<Rightarrow> ip option" where
  "ip_address s = (case parse_ipv4 s of Some n \<Rightarrow> Some (V4 n) | None \<Rightarrow> map_option V6 (parse_ipv6 s))"

section \<open>Networks\<close>

datatype ip_net = Net4 nat nat | Net6 nat nat

definition parse_prefix :: "nat \<Rightarrow> string \<Rightarrow> nat option" where
  "parse_prefix most s =
     (if s = [] \<or> \<not> list_all is_digit s then None
      else let n = digits_to_nat s in if n \<le> most then Some n else None)"

definition mask_length :: "nat \<Rightarrow> nat option" where
  "mask_length m = find (\<lambda>p. m = 2 ^ 32 - 2 ^ (32 - p)) [0..<33]"

text \<open>A prefix length, a netmask or a host mask.\<close>

definition parse_mask4 :: "string \<Rightarrow> nat option" where
  "parse_mask4 s =
     (case parse_prefix 32 s of
        Some p \<Rightarrow> Some p
      | None \<Rightarrow>
          (case parse_ipv4 s of
             None \<Rightarrow> None
           | Some m \<Rightarrow> (case mask_length m of Some p \<Rightarrow> Some p | None \<Rightarrow> mask_length (2 ^ 32 - 1 - m))))"

definition ip_network :: "string \<Rightarrow> ip_net option" where
  "ip_network s =
     (case split_on (CHR ''/'') s of
        [a0, m0] \<Rightarrow>
          (case (parse_ipv4 a0, parse_mask4 m0) of
             (Some a, Some p) \<Rightarrow> Some (Net4 a p)
           | _ \<Rightarrow>
               (case (parse_ipv6 a0, parse_prefix 128 m0) of
                  (Some a, Some p) \<Rightarrow> Some (Net6 a p)
                | _ \<Rightarrow> None))
      | [a0] \<Rightarrow>
          (case ip_address a0 of None \<Rightarrow> None | Some (V4 a) \<Rightarrow> Some (Net4 a 32) | Some (V6 a) \<Rightarrow> Some (Net6 a 128))
      | _ \<Rightarrow> None)"

fun in_net :: "ip \<Rightarrow> ip_net \<Rightarrow> bool" where
  "in_net (V4 n) (Net4 a p) = (n div 2 ^ (32 - p) = a div 2 ^ (32 - p))"
| "in_net (V6 n) (Net6 a p) = (n div 2 ^ (128 - p) = a div 2 ^ (128 - p))"
| "in_net _ _ = False"

lemmas ip_defs = ip_address_def parse_ipv4_def parse_octet_def parse_ipv6_def ipv6_parts_def ipv6_value_def
  parse_hextet_def hex_val_def hex_digits_def digits_to_nat_def digit_val_def is_digit_def lower_char_def

lemma addresses_read:
  "ip_address ''10.0.0.1'' = Some (V4 167772161)"
  "ip_address ''10.0.0.01'' = None"
  "ip_address ''::1'' = Some (V6 1)"
  "ip_address ''1:2:3'' = None"
  by (simp_all add: ip_defs upt_conv_Cons)

section \<open>A single address as a network\<close>

lemma split_on_none: "c \<notin> set s \<Longrightarrow> split_on c s = [s]"
  by (induction s) auto

lemma split_on_append: "c \<notin> set s \<Longrightarrow> split_on c (s @ c # t) = s # split_on c t"
  by (induction s) auto

lemma parse_mask4_32 [simp]: "parse_mask4 ''32'' = Some 32"
  by (simp add: parse_mask4_def parse_prefix_def ip_defs)

lemma parse_prefix_128 [simp]: "parse_prefix 128 ''128'' = Some 128"
  by (simp add: parse_prefix_def ip_defs)

lemma split_on_prefix [simp]: "split_on (CHR ''/'') ''32'' = [''32'']" "split_on (CHR ''/'') ''128'' = [''128'']"
  by simp_all

lemma network_of_address:
  assumes "CHR ''/'' \<notin> set s"
  shows "ip_address s = Some (V4 a) \<Longrightarrow> ip_network (s @ ''/32'') = Some (Net4 a 32)"
    and "ip_address s = Some (V6 b) \<Longrightarrow> ip_network (s @ ''/128'') = Some (Net6 b 128)"
  using assms split_on_append [OF assms]
  by (auto simp: ip_network_def ip_address_def split: option.splits)

end
