(* ===== verification/Api_Access.thy ===== *)
theory Api_Access
  imports Auth Ip_Address "HOL-Library.Countable"
begin

text \<open>
  What every request of the API passes: \<open>pagination.py\<close>, \<open>response.py\<close> and the exception handlers of
  \<open>main.py\<close>, \<open>middleware.py\<close> (bearer token, permission, client address, rate limit), and the routes of
  \<open>handlers_auth.py\<close>.

  A request is the header and query lookups the code makes. A handler's answer is a value or an
  exception; \<open>error_response\<close> is what the client then sees. FastAPI, which is outside the
  repository, runs the dependencies of a route before its parameters: the rate limit first, then
  the token and the permission, then the handler. \<open>APIError\<close> carries status, code, message and
  headers. Access logging and the request metrics are left out.
\<close>

section \<open>Requests and answers\<close>

record request =
  rq_headers :: "string \<Rightarrow> string option"
  rq_query :: "string \<Rightarrow> string option"
  rq_client :: "string option"

definition query_param :: "request \<Rightarrow> string \<Rightarrow> string" where
  "query_param rq key = (case rq_query rq key of None \<Rightarrow> [] | Some v \<Rightarrow> v)"

definition DEFAULT_LIMIT :: int where "DEFAULT_LIMIT = 20"
definition MAX_LIMIT :: int where "MAX_LIMIT = 100"

definition parse_limit_offset :: "request \<Rightarrow> int \<times> int" where
  "parse_limit_offset rq =
     (let limit = (case rq_query rq ''limit'' of
                     None \<Rightarrow> DEFAULT_LIMIT
                   | Some v \<Rightarrow> (case py_int v of None \<Rightarrow> DEFAULT_LIMIT | Some n \<Rightarrow> if n > 0 then n else DEFAULT_LIMIT));
          limit = (if limit > MAX_LIMIT then MAX_LIMIT else limit);
          offset = (case rq_query rq ''offset'' of
                      None \<Rightarrow> 0
                    | Some v \<Rightarrow> (case py_int v of None \<Rightarrow> 0 | Some n \<Rightarrow> if n \<ge> 0 then n else 0))
      in (limit, offset))"

record 'a page =
  pg_items :: "'a list"
  pg_limit :: int
  pg_offset :: int
  pg_returned_count :: int

definition paginated_response :: "'a list \<Rightarrow> int \<Rightarrow> int \<Rightarrow> 'a page" where
  "paginated_response xs limit offset =
     \<lparr>pg_items = xs, pg_limit = limit, pg_offset = offset, pg_returned_count = int (length xs)\<rparr>"

definition internal_error :: "exn \<Rightarrow> exn" where
  "internal_error exc = APIError 500 ''INTERNAL_ERROR'' ''an unexpected error occurred'' []"

record error_body =
  eb_status :: int
  eb_code :: string
  eb_message :: string
  eb_request_id :: string
  eb_headers :: "(string \<times> string) list"

text \<open>The handlers for \<open>APIError\<close> and for everything else that escapes a route.\<close>

definition error_response :: "string \<Rightarrow> exn \<Rightarrow> error_body" where
  "error_response request_id e =
     (case e of
        APIError status code message headers \<Rightarrow>
          \<lparr>eb_status = status, eb_code = code, eb_message = message, eb_request_id = request_id, eb_headers = headers\<rparr>
      | _ \<Rightarrow>
          \<lparr>eb_status = 500, eb_code = ''INTERNAL_ERROR'', eb_message = ''an unexpected error occurred'',
           eb_request_id = request_id, eb_headers = []\<rparr>)"

text \<open>FastAPI's own errors: a status with its detail, and a body that does not parse.\<close>

definition http_error_response :: "string \<Rightarrow> int \<Rightarrow> string option \<Rightarrow> error_body" where
  "http_error_response request_id status detail =
     \<lparr>eb_status = status, eb_code = (if status = 404 then ''NOT_FOUND'' else ''HTTP_ERROR''),
      eb_message = (if status = 404 then ''no such route'' else case detail of Some d \<Rightarrow> d | None \<Rightarrow> ''request failed''),
      eb_request_id = request_id, eb_headers = []\<rparr>"

definition validation_error_response :: "string \<Rightarrow> error_body" where
  "validation_error_response request_id =
     \<lparr>eb_status = 400, eb_code = ''INVALID_BODY'', eb_message = ''request body must be valid JSON'',
      eb_request_id = request_id, eb_headers = []\<rparr>"

text \<open>The caller's \<open>X-Request-ID\<close> when there is one that is not empty, else a fresh one.\<close>

definition request_id_of :: "request \<Rightarrow> string \<Rightarrow> string" where
  "request_id_of rq fresh =
     (case rq_headers rq ''X-Request-ID'' of Some (c # cs) \<Rightarrow> c # cs | _ \<Rightarrow> fresh)"

section \<open>The token of a request\<close>

definition bearer_token :: "request \<Rightarrow> string" where
  "bearer_token rq =
     (let h = (case rq_headers rq ''Authorization'' of None \<Rightarrow> [] | Some v \<Rightarrow> v); prefix = ''Bearer ''
      in if length h > length prefix \<and> take (length prefix) h = prefix then drop (length prefix) h else [])"

definition require_auth :: "string jwt_library \<Rightarrow> string \<Rightarrow> int \<Rightarrow> request \<Rightarrow> exn + claims" where
  "require_auth jw access_secret now rq =
     (let token_string = bearer_token rq
      in if token_string = [] then Inl (APIError 401 ''UNAUTHENTICATED'' ''missing or malformed Authorization header'' [])
         else case parse_and_validate jw now token_string access_secret TOKEN_TYPE_ACCESS of
                Inl _ \<Rightarrow> Inl (APIError 401 ''UNAUTHENTICATED'' ''invalid or expired access token'' [])
              | Inr claims \<Rightarrow> Inr claims)"

definition require_permission ::
  "string jwt_library \<Rightarrow> string \<Rightarrow> string \<Rightarrow> int \<Rightarrow> request \<Rightarrow> exn + claims" where
  "require_permission jw access_secret permission now rq =
     (case require_auth jw access_secret now rq of
        Inl e \<Rightarrow> Inl e
      | Inr claims \<Rightarrow>
          if permission \<noteq> [] \<and> \<not> has_permission (cl_permissions claims) permission
          then Inl (APIError 403 ''FORBIDDEN'' (''requires permission '' @ [CHR 0x27] @ permission @ [CHR 0x27]) [])
          else Inr claims)"

section \<open>The address of a client\<close>

record ip_resolver =
  re_trust_proxy_headers :: bool
  re_trusted_proxies :: "ip_net list"

text \<open>One entry of the list; the text of the library's own error is dropped from the message.\<close>

definition invalid_entry :: "string \<Rightarrow> exn" where
  "invalid_entry entry = ValueError (''invalid entry '' @ [CHR 0x27] @ entry @ [CHR 0x27] @ '' in API_TRUSTED_PROXY_CIDRS'')"

definition trusted_proxy :: "string \<Rightarrow> exn + ip_net" where
  "trusted_proxy entry =
     (case (if CHR ''/'' \<in> set entry then Inr entry
            else case ip_address entry of
                   None \<Rightarrow> Inl (invalid_entry entry)
                 | Some (V4 _) \<Rightarrow> Inr (entry @ ''/32'')
                 | Some (V6 _) \<Rightarrow> Inr (entry @ ''/128'')) of
        Inl e \<Rightarrow> Inl e
      | Inr cidr \<Rightarrow> (case ip_network cidr of None \<Rightarrow> Inl (invalid_entry entry) | Some n \<Rightarrow> Inr n))"

fun trusted_proxies :: "string list \<Rightarrow> exn + ip_net list" where
  "trusted_proxies [] = Inr []"
| "trusted_proxies (entry # entries) =
     (case trusted_proxy entry of
        Inl e \<Rightarrow> Inl e
      | Inr n \<Rightarrow> (case trusted_proxies entries of Inl e \<Rightarrow> Inl e | Inr ns \<Rightarrow> Inr (n # ns)))"

definition new_ip_resolver :: "bool \<Rightarrow> string list \<Rightarrow> exn + ip_resolver" where
  "new_ip_resolver trust cidrs =
     (case trusted_proxies cidrs of
        Inl e \<Rightarrow> Inl e
      | Inr ns \<Rightarrow> Inr \<lparr>re_trust_proxy_headers = trust, re_trusted_proxies = ns\<rparr>)"

definition is_trusted_proxy :: "ip_resolver \<Rightarrow> string \<Rightarrow> bool" where
  "is_trusted_proxy r peer =
     (case ip_address peer of None \<Rightarrow> False | Some a \<Rightarrow> list_ex (in_net a) (re_trusted_proxies r))"

definition resolve_ip :: "ip_resolver \<Rightarrow> request \<Rightarrow> string" where
  "resolve_ip r rq =
     (let peer = (case rq_client rq of None \<Rightarrow> [] | Some h \<Rightarrow> h)
      in if \<not> re_trust_proxy_headers r \<or> \<not> is_trusted_proxy r peer then peer
         else let fwd = (case rq_headers rq ''X-Forwarded-For'' of None \<Rightarrow> [] | Some v \<Rightarrow> v)
              in if fwd = [] then peer
                 else let first = strip (hd (split_on (CHR '','') fwd)) in if first = [] then peer else first)"

section \<open>Rate limits\<close>

text \<open>\<open>ap_rate\<close> holds the counters in Redis with the time they expire.\<close>

record api_world =
  ap_auth :: auth_world
  ap_rate :: "string \<Rightarrow> (int \<times> int) option"

definition api_now :: "'z api_world_scheme \<Rightarrow> int" where
  "api_now w = au_now (ap_auth w)"

text \<open>The Lua script: count, and set the expiry when the count is one.\<close>

definition incr_expire :: "string \<Rightarrow> int \<Rightarrow> int \<Rightarrow> (string \<Rightarrow> (int \<times> int) option) \<Rightarrow> int \<times> (string \<Rightarrow> (int \<times> int) option)" where
  "incr_expire key ttl now m =
     (case m key of
        Some (n, expiry) \<Rightarrow>
          if now < expiry then (n + 1, m(key \<mapsto> (n + 1, if n + 1 = 1 then now + seconds ttl else expiry)))
          else (1, m(key \<mapsto> (1, now + seconds ttl)))
      | None \<Rightarrow> (1, m(key \<mapsto> (1, now + seconds ttl))))"

definition run_script :: "string \<Rightarrow> int \<Rightarrow> 'z api_world_scheme \<Rightarrow> (exn + int) \<times> 'z api_world_scheme" where
  "run_script key ttl w =
     (let a = ap_auth w;
          w0 = w\<lparr>ap_auth := a\<lparr>au_redis_tick := Suc (au_redis_tick a)\<rparr>\<rparr>;
          (hits, m) = incr_expire key ttl (au_now a) (ap_rate w);
          w1 = w0\<lparr>ap_rate := m\<rparr>
      in case au_redis_net a (au_redis_tick a) of
           Reply_ok \<Rightarrow> (Inr hits, w1)
         | Reply_raises e took \<Rightarrow> (Inl e, if took then w1 else w0))"

definition rate_key :: "string \<Rightarrow> string \<Rightarrow> int \<Rightarrow> string" where
  "rate_key bucket ip now = ''ratelimit:'' @ bucket @ '':'' @ ip @ '':'' @ str_int (to_seconds now div 60)"

text \<open>The dependency: the headers it sets on the answer, or the refusal.\<close>

definition rate_limit ::
  "ip_resolver \<Rightarrow> string \<Rightarrow> int \<Rightarrow> request \<Rightarrow> 'z api_world_scheme \<Rightarrow> (exn + (string \<times> string) list) \<times> 'z api_world_scheme" where
  "rate_limit r bucket limit rq w =
     (case run_script (rate_key bucket (resolve_ip r rq) (api_now w)) 60 w of
        (Inl _, w1) \<Rightarrow> (Inr [], w1)
      | (Inr hits, w1) \<Rightarrow>
          if hits > limit
          then (Inl (APIError 429 ''RATE_LIMITED'' ''too many requests, try again later''
                  [(''Retry-After'', ''60''), (''X-RateLimit-Limit'', str_int limit), (''X-RateLimit-Remaining'', ''0'')]), w1)
          else (Inr [(''X-RateLimit-Limit'', str_int limit), (''X-RateLimit-Remaining'', str_int (max 0 (limit - hits)))], w1))"

section \<open>Routes\<close>

text \<open>What the API is configured with.\<close>

record api =
  ai_jwt :: "string jwt_library"
  ai_access_secret :: string
  ai_resolver :: ip_resolver
  ai_default_limit :: int
  ai_auth_limit :: int

datatype limiter = Unlimited | Auth_limit | Default_limit

definition apply_limit ::
  "api \<Rightarrow> limiter \<Rightarrow> request \<Rightarrow> 'z api_world_scheme \<Rightarrow> (exn + (string \<times> string) list) \<times> 'z api_world_scheme" where
  "apply_limit ai l rq w =
     (case l of
        Unlimited \<Rightarrow> (Inr [], w)
      | Auth_limit \<Rightarrow> rate_limit (ai_resolver ai) ''auth'' (ai_auth_limit ai) rq w
      | Default_limit \<Rightarrow> rate_limit (ai_resolver ai) ''default'' (ai_default_limit ai) rq w)"

text \<open>A route: its limit, then its permission if it asks for a token, then its handler.\<close>

definition limited ::
  "api \<Rightarrow> limiter \<Rightarrow> ('z api_world_scheme \<Rightarrow> (exn + 'a) \<times> 'z api_world_scheme) \<Rightarrow>
   request \<Rightarrow> 'z api_world_scheme \<Rightarrow> (exn + 'a) \<times> 'z api_world_scheme" where
  "limited ai l handler rq w =
     (case apply_limit ai l rq w of (Inl e, w1) \<Rightarrow> (Inl e, w1) | (Inr _, w1) \<Rightarrow> handler w1)"

definition permitted ::
  "api \<Rightarrow> string \<Rightarrow> request \<Rightarrow> (claims \<Rightarrow> 'z api_world_scheme \<Rightarrow> (exn + 'a) \<times> 'z api_world_scheme) \<Rightarrow>
   'z api_world_scheme \<Rightarrow> (exn + 'a) \<times> 'z api_world_scheme" where
  "permitted ai permission rq handler w =
     (case require_permission (ai_jwt ai) (ai_access_secret ai) permission (api_now w) rq of
        Inl e \<Rightarrow> (Inl e, w)
      | Inr claims \<Rightarrow> handler claims w)"

definition route ::
  "api \<Rightarrow> limiter \<Rightarrow> string \<Rightarrow> (claims \<Rightarrow> 'z api_world_scheme \<Rightarrow> (exn + 'a) \<times> 'z api_world_scheme) \<Rightarrow>
   request \<Rightarrow> 'z api_world_scheme \<Rightarrow> (exn + 'a) \<times> 'z api_world_scheme" where
  "route ai l permission handler rq w = limited ai l (permitted ai permission rq handler) rq w"

section \<open>Logging in, refreshing, logging out\<close>

definition on_auth :: "(auth_world \<Rightarrow> 'a \<times> auth_world) \<Rightarrow> 'z api_world_scheme \<Rightarrow> 'a \<times> 'z api_world_scheme" where
  "on_auth f w = (let (r, a) = f (ap_auth w) in (r, w\<lparr>ap_auth := a\<rparr>))"

text \<open>The token pair as it is answered; \<open>expires_at\<close> stays a number here.\<close>

record token_response =
  tr_access_token :: string
  tr_refresh_token :: string
  tr_expires_at :: int
  tr_token_type :: string

definition token_response_of :: "string token_pair \<Rightarrow> token_response" where
  "token_response_of pair =
     \<lparr>tr_access_token = tp_access_token pair, tr_refresh_token = tp_refresh_token pair,
      tr_expires_at = tp_expires_at pair, tr_token_type = ''Bearer''\<rparr>"

definition login_error :: "exn \<Rightarrow> exn" where
  "login_error e =
     (case e of
        InvalidCredentialsError _ \<Rightarrow> APIError 401 ''INVALID_CREDENTIALS'' ''invalid email or password'' []
      | UserInactiveError _ \<Rightarrow> APIError 401 ''INVALID_CREDENTIALS'' ''invalid email or password'' []
      | _ \<Rightarrow> internal_error e)"

definition login_route ::
  "api \<Rightarrow> bcrypt_library \<Rightarrow> auth_service \<Rightarrow> string \<Rightarrow> nat list \<Rightarrow> request \<Rightarrow>
   'z api_world_scheme \<Rightarrow> (exn + token_response) \<times> 'z api_world_scheme" where
  "login_route ai bc sv email password rq =
     limited ai Auth_limit (\<lambda>w.
       if email = [] \<or> password = [] then (Inl (APIError 400 ''VALIDATION_ERROR'' ''email and password are required'' []), w)
       else (case on_auth (login (ai_jwt ai) bc sv email password (resolve_ip (ai_resolver ai) rq)) w of
               (Inl e, w1) \<Rightarrow> (Inl (login_error e), w1)
             | (Inr pair, w1) \<Rightarrow> (Inr (token_response_of pair), w1))) rq"

definition refresh_error :: "exn \<Rightarrow> exn" where
  "refresh_error e =
     (case e of
        TokenRevokedError _ \<Rightarrow> APIError 401 ''TOKEN_REVOKED'' ''refresh token is invalid, expired, or already used'' []
      | _ \<Rightarrow> internal_error e)"

definition refresh_route ::
  "api \<Rightarrow> auth_service \<Rightarrow> string \<Rightarrow> request \<Rightarrow> 'z api_world_scheme \<Rightarrow> (exn + token_response) \<times> 'z api_world_scheme" where
  "refresh_route ai sv refresh_token rq =
     limited ai Auth_limit (\<lambda>w.
       if refresh_token = [] then (Inl (APIError 400 ''INVALID_BODY'' ''refresh_token is required'' []), w)
       else (case on_auth (refresh_access_token (ai_jwt ai) sv refresh_token (resolve_ip (ai_resolver ai) rq)) w of
               (Inl e, w1) \<Rightarrow> (Inl (refresh_error e), w1)
             | (Inr pair, w1) \<Rightarrow> (Inr (token_response_of pair), w1))) rq"

definition logout_route ::
  "api \<Rightarrow> auth_service \<Rightarrow> string \<Rightarrow> request \<Rightarrow> 'z api_world_scheme \<Rightarrow> (exn + unit) \<times> 'z api_world_scheme" where
  "logout_route ai sv refresh_token rq =
     limited ai Auth_limit (\<lambda>w.
       if refresh_token = [] then (Inl (APIError 400 ''INVALID_BODY'' ''refresh_token is required'' []), w)
       else (case on_auth (logout (ai_jwt ai) sv refresh_token (resolve_ip (ai_resolver ai) rq)) w of
               (Inl e, w1) \<Rightarrow> (case e of TokenRevokedError _ \<Rightarrow> ok | _ \<Rightarrow> Inl (internal_error e), w1)
             | (Inr _, w1) \<Rightarrow> (ok, w1))) rq"

record me_response =
  mr_user_id :: string
  mr_organization_id :: string
  mr_email :: string
  mr_roles :: "string list"
  mr_permissions :: "string list"

definition me_route :: "api \<Rightarrow> request \<Rightarrow> 'z api_world_scheme \<Rightarrow> (exn + me_response) \<times> 'z api_world_scheme" where
  "me_route ai =
     route ai Unlimited [] (\<lambda>claims w.
       (Inr \<lparr>mr_user_id = cl_user_id claims, mr_organization_id = cl_organization_id claims, mr_email = cl_email claims,
             mr_roles = cl_roles claims, mr_permissions = cl_permissions claims\<rparr>, w))"

section \<open>Pages\<close>

lemma page_bounds: "1 \<le> fst (parse_limit_offset rq) \<and> fst (parse_limit_offset rq) \<le> 100 \<and> 0 \<le> snd (parse_limit_offset rq)"
  by (auto simp: parse_limit_offset_def DEFAULT_LIMIT_def MAX_LIMIT_def Let_def split: option.splits)

section \<open>What a request is let through with\<close>

lemma bearer_token_of:
  assumes "rq_headers rq ''Authorization'' = Some (''Bearer '' @ t)"
  shows "bearer_token rq = t"
  using assms by (simp add: bearer_token_def Let_def)

text \<open>A request carries the token: its \<open>Authorization\<close> header is the scheme and the token.\<close>

definition carries :: "request \<Rightarrow> string \<Rightarrow> bool" where
  "carries rq t \<longleftrightarrow> rq_headers rq ''Authorization'' = Some (''Bearer '' @ t)"

lemma require_permission_carried:
  assumes "carries rq t" and "t \<noteq> []" and "parse_and_validate jw now t s TOKEN_TYPE_ACCESS = Inr c"
  shows "require_permission jw s p now rq =
    (if p = [] \<or> p \<in> set (cl_permissions c) then Inr c
     else Inl (APIError 403 ''FORBIDDEN'' (''requires permission '' @ [CHR 0x27] @ p @ [CHR 0x27]) []))"
  using assms bearer_token_of [of rq t]
  by (auto simp: require_permission_def require_auth_def carries_def has_permission_def Let_def)

lemma require_permission_ok:
  assumes "require_permission jw s p now rq = Inr c"
  shows "parse_and_validate jw now (bearer_token rq) s TOKEN_TYPE_ACCESS = Inr c"
    and "p = [] \<or> p \<in> set (cl_permissions c)"
  using assms by (auto simp: require_permission_def require_auth_def has_permission_def Let_def split: if_splits sum.splits)

text \<open>A route either refuses, or runs its handler with the claims of a token that is good now; either way only the rate
  counters have changed before.\<close>

lemma apply_limit_more:
  "api_world.more (snd (apply_limit ai l rq w)) = api_world.more w \<and> api_now (snd (apply_limit ai l rq w)) = api_now w"
  by (auto simp: apply_limit_def rate_limit_def run_script_def api_now_def Let_def case_prod_beta
      split: limiter.split reply.split sum.split prod.split)

lemma route_outcome:
  obtains (refused) e w1 where "route ai l p h rq w = (Inl e, w1)" "api_world.more w1 = api_world.more w"
  | (let_in) c w1 where "route ai l p h rq w = h c w1" "api_world.more w1 = api_world.more w"
      "parse_and_validate (ai_jwt ai) (api_now w) (bearer_token rq) (ai_access_secret ai) TOKEN_TYPE_ACCESS = Inr c"
      "p = [] \<or> p \<in> set (cl_permissions c)"
proof -
  obtain res w1 where l: "apply_limit ai l rq w = (res, w1)" by fastforce
  then have w1: "api_world.more w1 = api_world.more w" "api_now w1 = api_now w"
    using apply_limit_more [of ai l rq w] by simp_all
  show thesis
  proof (cases res)
    case (Inl e)
    then show thesis
      using refused w1 l by (simp add: route_def limited_def)
  next
    case (Inr hs)
    show thesis
    proof (cases "require_permission (ai_jwt ai) (ai_access_secret ai) p (api_now w1) rq")
      case (Inl e)
      then show thesis
        using refused w1 l Inr by (simp add: route_def limited_def permitted_def)
    next
      case (Inr c)
      then show thesis
        using let_in [of c w1] w1 l \<open>res = Inr hs\<close> require_permission_ok [OF Inr]
        by (simp add: route_def limited_def permitted_def)
    qed
  qed
qed

text \<open>The token of a request, whenever it is good, is one of the organization.\<close>

definition tenant_request :: "api \<Rightarrow> string \<Rightarrow> request \<Rightarrow> bool" where
  "tenant_request ai o' rq \<longleftrightarrow>
     (\<forall>now c. parse_and_validate (ai_jwt ai) now (bearer_token rq) (ai_access_secret ai) TOKEN_TYPE_ACCESS = Inr c \<longrightarrow>
        cl_organization_id c = o')"

text \<open>
  C8. The access token of a login opens exactly the routes its user's roles allow: carried by a request within its
  lifetime, it runs the handler, with that user's identifier and organization, if the route needs no permission or
  one of the roles in the database grants it; every other route answers 403 and changes nothing.
\<close>

theorem login_token_opens_routes:
  assumes "jwt_ok (ai_jwt ai)" and "sv_access_secret sv = ai_access_secret ai"
    and "login (ai_jwt ai) bc sv email pw ip a = (Inr pair, a')"
    and "carries rq (tp_access_token pair)" and "tp_access_token pair \<noteq> []"
    and "au_now a \<le> api_now w" and "api_now w < to_seconds (au_now a + timedelta (sv_access_ttl sv)) * 1000000"
  shows "\<exists>u c. u \<in> set (au_users a) \<and> us_email u = email \<and> us_is_active u \<and>
    cl_user_id c = us_id u \<and> cl_organization_id c = us_organization_id u \<and>
    route ai Unlimited p handler rq w =
      (if p = [] \<or> (\<exists>r. (us_id u, r) \<in> set (au_user_roles a) \<and> p \<in> set (role_permissions r)) then handler c w
       else (Inl (APIError 403 ''FORBIDDEN'' (''requires permission '' @ [CHR 0x27] @ p @ [CHR 0x27]) []), w))"
proof -
  obtain u c where u: "u \<in> set (au_users a)" "us_email u = email" "us_is_active u"
      "cl_user_id c = us_id u" "cl_organization_id c = us_organization_id u"
    and c: "parse_and_validate (ai_jwt ai) (api_now w) (tp_access_token pair) (ai_access_secret ai) TOKEN_TYPE_ACCESS = Inr c"
    and ps: "cl_permissions c = permissions_for_roles (map snd (filter (\<lambda>q. fst q = us_id u) (au_user_roles a)))"
    using login_grants [OF assms(1,3,6,7)] assms(2) by auto
  have "p \<in> set (cl_permissions c) \<longleftrightarrow> (\<exists>r. (us_id u, r) \<in> set (au_user_roles a) \<and> p \<in> set (role_permissions r))"
    by (auto simp: ps permissions_for_roles_def fold_permissions)
  then show ?thesis
    using u require_permission_carried [OF assms(4,5) c, of p]
    by (intro exI [of _ u] exI [of _ c]) (auto simp: route_def limited_def apply_limit_def permitted_def)
qed

text \<open>A library whose tokens are texts: the length of the text numbers the payload and its secret.\<close>

definition payload_key :: "jwt_payload \<Rightarrow> string option \<times> string option \<times> int option \<times> int option \<times> string option \<times>
    string option \<times> string option \<times> string list option \<times> string list option \<times> string option" where
  "payload_key p = (jp_sub p, jp_jti p, jp_iat p, jp_exp p, jp_user_id p, jp_organization_id p, jp_email p, jp_roles p,
     jp_permissions p, jp_token_type p)"

definition payload_of_key :: "string option \<times> string option \<times> int option \<times> int option \<times> string option \<times>
    string option \<times> string option \<times> string list option \<times> string list option \<times> string option \<Rightarrow> jwt_payload" where
  "payload_of_key k = (case k of (a, b, c, d, e, f, g, h, i, j) \<Rightarrow>
     \<lparr>jp_sub = a, jp_jti = b, jp_iat = c, jp_exp = d, jp_user_id = e, jp_organization_id = f, jp_email = g, jp_roles = h,
      jp_permissions = i, jp_token_type = j\<rparr>)"

lemma payload_of_payload_key [simp]: "payload_of_key (payload_key p) = p"
  by (simp add: payload_of_key_def payload_key_def)

definition demo_text_jwt :: "string jwt_library" where
  "demo_text_jwt =
     \<lparr>jw_encode = (\<lambda>p s. replicate (Suc (to_nat (payload_key p, s))) CHR ''x''),
      jw_decode = (\<lambda>now t s. case from_nat (length t - 1) of (k, s') \<Rightarrow>
        if s' = s \<and> valid_at now (payload_of_key k) then Inr (payload_of_key k) else Inl (PyJWTError ''invalid''))\<rparr>"

lemma demo_text_jwt_ok: "jwt_ok demo_text_jwt"
  by (auto simp: jwt_ok_def demo_text_jwt_def split: if_splits prod.splits)

definition demo_api :: api where
  "demo_api =
     \<lparr>ai_jwt = demo_text_jwt, ai_access_secret = ''s'',
      ai_resolver = \<lparr>re_trust_proxy_headers = False, re_trusted_proxies = []\<rparr>, ai_default_limit = 2, ai_auth_limit = 1\<rparr>"

definition demo_request :: "string \<Rightarrow> string \<Rightarrow> request" where
  "demo_request client tok =
     \<lparr>rq_headers = [''Authorization'' \<mapsto> ''Bearer '' @ tok], rq_query = Map.empty, rq_client = Some client\<rparr>"

definition demo_api_world :: "int \<Rightarrow> api_world" where
  "demo_api_world now = \<lparr>ap_auth = demo_auth_world\<lparr>au_now := now\<rparr>, ap_rate = Map.empty\<rparr>"

lemma demo_text_login:
  "\<exists>pair a'. login demo_text_jwt demo_bcrypt demo_auth ''e'' [97] [] demo_auth_world = (Inr pair, a') \<and> tp_access_token pair \<noteq> []"
  using py_trunc_600
  by (simp add: login_def demo_auth_def demo_bcrypt_def demo_auth_world_def verify_password_def encode_utf8_def surrogate_def
      roles_for_user_def pg_select_def issue_pair_def draw_uuid_def redis_set_def Let_def issue_token_def demo_text_jwt_def)

text \<open>A viewer reads telemetry and does not write devices.\<close>

theorem login_token_opens_routes_witness:
  "\<exists>pair a'. login demo_text_jwt demo_bcrypt demo_auth ''e'' [97] [] demo_auth_world = (Inr pair, a') \<and>
    (\<exists>c. route demo_api Unlimited PERM_TELEMETRY_READ (\<lambda>c w. (Inr (cl_organization_id c), w))
        (demo_request ''1.2.3.4'' (tp_access_token pair)) (demo_api_world 6000000) = (Inr ''o'', demo_api_world 6000000)) \<and>
    raised (fst (route demo_api Unlimited PERM_DEVICES_WRITE (\<lambda>c w. (Inr (cl_organization_id c), w))
        (demo_request ''1.2.3.4'' (tp_access_token pair)) (demo_api_world 6000000)))"
proof -
  obtain pair a' where r: "login demo_text_jwt demo_bcrypt demo_auth ''e'' [97] [] demo_auth_world = (Inr pair, a')"
    and t: "tp_access_token pair \<noteq> []"
    using demo_text_login by blast
  have ai: "jwt_ok (ai_jwt demo_api)" "sv_access_secret demo_auth = ai_access_secret demo_api"
    "login (ai_jwt demo_api) demo_bcrypt demo_auth ''e'' [97] [] demo_auth_world = (Inr pair, a')"
    using r by (simp_all add: demo_api_def demo_auth_def demo_text_jwt_ok)
  have c: "carries (demo_request ''1.2.3.4'' (tp_access_token pair)) (tp_access_token pair)"
    by (simp add: carries_def demo_request_def)
  have now: "au_now demo_auth_world \<le> api_now (demo_api_world 6000000)"
    "api_now (demo_api_world 6000000) < to_seconds (au_now demo_auth_world + timedelta (sv_access_ttl demo_auth)) * 1000000"
    using timedelta_of_int [of 60]
    by (simp_all add: demo_api_world_def demo_auth_world_def demo_auth_def api_now_def to_seconds_def seconds_def)
  note run = login_token_opens_routes [OF ai c t now]
  have "role_permissions ''VIEWER'' = [PERM_DEVICES_READ, PERM_TELEMETRY_READ, PERM_ALERTS_READ, PERM_INCIDENTS_READ, PERM_FACTORIES_READ]"
    by (simp add: role_permissions_def ROLE_PERMISSIONS_def)
  then show ?thesis
    using r run [of PERM_TELEMETRY_READ "\<lambda>c w. (Inr (cl_organization_id c), w)"]
      run [of PERM_DEVICES_WRITE "\<lambda>c w. (Inr (cl_organization_id c), w)"]
    by (auto simp: demo_auth_world_def perm_defs)
qed

section \<open>The address of a client\<close>

lemma trusted_address:
  assumes "trusted_proxy entry = Inr n" and "CHR ''/'' \<notin> set entry" and "in_net a n"
  shows "ip_address entry = Some a"
proof (cases "ip_address entry")
  case None
  then show ?thesis
    using assms(1,2) by (simp add: trusted_proxy_def)
next
  case (Some b)
  then show ?thesis
    using assms network_of_address [OF assms(2)] by (cases b; cases a) (auto simp: trusted_proxy_def)
qed

lemma trusted_addresses:
  "trusted_proxies entries = Inr ns \<Longrightarrow> n \<in> set ns \<Longrightarrow> \<exists>entry\<in>set entries. trusted_proxy entry = Inr n"
  by (induction entries arbitrary: ns) (auto split: sum.splits)

text \<open>
  With the trusted proxies given as plain addresses, the \<open>X-Forwarded-For\<close> header decides what a client's
  address is only when it is trusted at all and the peer of the connection has one of these addresses; for every
  other peer the address is the peer's, whatever the headers say.
\<close>

theorem header_needs_trusted_peer:
  assumes "new_ip_resolver trust entries = Inr r" and "\<forall>entry\<in>set entries. CHR ''/'' \<notin> set entry"
    and "rq_client rq = Some peer" and "resolve_ip r rq \<noteq> peer"
  shows "trust \<and> ip_address peer \<noteq> None \<and> ip_address peer \<in> ip_address ` set entries"
proof -
  have t: "re_trust_proxy_headers r = trust" and ns: "trusted_proxies entries = Inr (re_trusted_proxies r)"
    using assms(1) by (auto simp: new_ip_resolver_def split: sum.splits)
  have "trust" and p: "is_trusted_proxy r peer"
    using assms(3,4) t by (auto simp: resolve_ip_def Let_def split: if_splits)
  then obtain a n where a: "ip_address peer = Some a" "n \<in> set (re_trusted_proxies r)" "in_net a n"
    by (auto simp: is_trusted_proxy_def list_ex_iff split: option.splits)
  obtain entry where "entry \<in> set entries" "trusted_proxy entry = Inr n"
    using trusted_addresses [OF ns a(2)] by blast
  then show ?thesis
    using trusted_address a assms(2) \<open>trust\<close> by (metis imageI option.distinct(1))
qed

theorem header_needs_trusted_peer_witness:
  "\<exists>r. new_ip_resolver True [''10.0.0.1''] = Inr r \<and>
    resolve_ip r \<lparr>rq_headers = [''X-Forwarded-For'' \<mapsto> ''x''], rq_query = Map.empty, rq_client = Some ''10.0.0.1''\<rparr> = ''x'' \<and>
    ip_address ''10.0.0.1'' \<in> ip_address ` set [''10.0.0.1'']"
proof -
  have n: "trusted_proxy ''10.0.0.1'' = Inr (Net4 167772161 32)"
    using network_of_address(1) [of "''10.0.0.1''" 167772161] by (simp add: trusted_proxy_def addresses_read)
  let ?r = "\<lparr>re_trust_proxy_headers = True, re_trusted_proxies = [Net4 167772161 32]\<rparr>"
  let ?rq = "\<lparr>rq_headers = [''X-Forwarded-For'' \<mapsto> ''x''], rq_query = Map.empty, rq_client = Some ''10.0.0.1''\<rparr>"
  have r: "new_ip_resolver True [''10.0.0.1''] = Inr ?r"
    by (simp add: new_ip_resolver_def n)
  have x: "resolve_ip ?r ?rq = ''x''"
    by (simp add: resolve_ip_def is_trusted_proxy_def addresses_read strip_def is_space_def)
  show ?thesis
    using header_needs_trusted_peer [OF r, of ?rq "''10.0.0.1''"] r x by (intro exI [of _ ?r]) simp
qed

section \<open>Requests per minute\<close>

text \<open>Requests at their times: which of them the limit lets through.\<close>

fun admissions :: "ip_resolver \<Rightarrow> string \<Rightarrow> int \<Rightarrow> (int \<times> request) list \<Rightarrow> 'z api_world_scheme \<Rightarrow> bool list" where
  "admissions r bucket limit [] w = []"
| "admissions r bucket limit ((t, rq) # rs) w =
     (let (res, w') = rate_limit r bucket limit rq (w\<lparr>ap_auth := (ap_auth w)\<lparr>au_now := t\<rparr>\<rparr>)
      in (\<not> raised res) # admissions r bucket limit rs w')"

definition minute_key :: "string \<Rightarrow> string \<Rightarrow> int \<Rightarrow> string" where
  "minute_key bucket ip m = ''ratelimit:'' @ bucket @ '':'' @ ip @ '':'' @ str_int m"

lemma minute_key_inj [simp]: "minute_key bucket ip m = minute_key bucket ip' m \<longleftrightarrow> ip = ip'"
  by (simp add: minute_key_def)

text \<open>In minute \<open>m\<close> each address has the count \<open>c\<close>, and no counter expires before the minute ends.\<close>

definition counted :: "string \<Rightarrow> int \<Rightarrow> (string \<Rightarrow> nat) \<Rightarrow> 'z api_world_scheme \<Rightarrow> bool" where
  "counted bucket m c w \<longleftrightarrow>
     (\<forall>ip. case ap_rate w (minute_key bucket ip m) of
        None \<Rightarrow> c ip = 0
      | Some (n, expiry) \<Rightarrow> n = int (c ip) \<and> 0 < n \<and> (m + 1) * 60000000 \<le> expiry)"

definition redis_ok :: "'z api_world_scheme \<Rightarrow> bool" where
  "redis_ok w \<longleftrightarrow> (\<forall>i. au_redis_net (ap_auth w) i = Reply_ok)"

lemma within_minute: "to_seconds t div 60 = m \<longleftrightarrow> m * 60000000 \<le> t \<and> t < (m + 1) * 60000000"
proof -
  have d: "to_seconds t div 60 = t div 60000000"
    by (simp add: to_seconds_def zdiv_zmult2_eq [symmetric])
  have "t div 60000000 = m" if "m * 60000000 \<le> t" "t < (m + 1) * 60000000"
    using that by (intro int_div_pos_eq [of _ _ _ "t - m * 60000000"]) (simp_all add: algebra_simps)
  moreover have "m * 60000000 \<le> t \<and> t < (m + 1) * 60000000" if "t div 60000000 = m"
  proof -
    have "m * 60000000 + t mod 60000000 = t" and "0 \<le> t mod 60000000" and "t mod 60000000 < 60000000"
      using that div_mult_mod_eq [of t 60000000] by simp_all
    then show ?thesis unfolding distrib_right by (intro conjI) linarith+
  qed
  ultimately show ?thesis
    using d by auto
qed

lemma rate_limit_counts:
  assumes "counted bucket m c w" and "redis_ok w" and "to_seconds (api_now w) div 60 = m"
  shows "\<exists>w'. snd (rate_limit r bucket limit rq w) = w' \<and> redis_ok w' \<and>
      counted bucket m (c(resolve_ip r rq := Suc (c (resolve_ip r rq)))) w' \<and>
      raised (fst (rate_limit r bucket limit rq w)) = (limit < int (Suc (c (resolve_ip r rq))))"
proof -
  let ?ip = "resolve_ip r rq"
  let ?key = "minute_key bucket ?ip m"
  have key: "rate_key bucket ?ip (api_now w) = ?key"
    using assms(3) by (simp add: rate_key_def minute_key_def)
  have t: "api_now w < (m + 1) * 60000000" "m * 60000000 \<le> api_now w"
    using assms(3) within_minute by blast+
  have here: "case ap_rate w ?key of None \<Rightarrow> c ?ip = 0
      | Some (n, expiry) \<Rightarrow> n = int (c ?ip) \<and> 0 < n \<and> (m + 1) * 60000000 \<le> expiry"
    using assms(1) unfolding counted_def by blast
  obtain expiry where e: "(m + 1) * 60000000 \<le> expiry"
    and inc: "incr_expire ?key 60 (api_now w) (ap_rate w) = (int (Suc (c ?ip)), (ap_rate w)(?key \<mapsto> (int (Suc (c ?ip)), expiry)))"
  proof (cases "ap_rate w ?key")
    case None
    then show ?thesis
      using that [of "api_now w + seconds 60"] here t by (simp add: incr_expire_def seconds_def)
  next
    case (Some p)
    then show ?thesis
      using that [of "snd p"] here t by (cases p) (auto simp: incr_expire_def add.commute)
  qed
  let ?w' = "w\<lparr>ap_auth := (ap_auth w)\<lparr>au_redis_tick := Suc (au_redis_tick (ap_auth w))\<rparr>,
      ap_rate := (ap_rate w)(?key \<mapsto> (int (Suc (c ?ip)), expiry))\<rparr>"
  have run: "run_script ?key 60 w = (Inr (int (Suc (c ?ip))), ?w')"
    using inc assms(2) by (simp add: run_script_def redis_ok_def api_now_def Let_def)
  have "counted bucket m (c(?ip := Suc (c ?ip))) ?w'"
    unfolding counted_def
  proof
    fix ip
    show "case ap_rate ?w' (minute_key bucket ip m) of
        None \<Rightarrow> (c(?ip := Suc (c ?ip))) ip = 0
      | Some (n, expiry) \<Rightarrow> n = int ((c(?ip := Suc (c ?ip))) ip) \<and> 0 < n \<and> (m + 1) * 60000000 \<le> expiry"
      using assms(1) [unfolded counted_def, THEN spec, of ip] e by (cases "ip = ?ip") (auto split: option.splits)
  qed
  then show ?thesis
    using run assms(2) by (auto simp: rate_limit_def key redis_ok_def)
qed

definition earlier :: "ip_resolver \<Rightarrow> (int \<times> request) list \<Rightarrow> nat \<Rightarrow> nat" where
  "earlier r rs i = length (filter (\<lambda>q. resolve_ip r (snd q) = resolve_ip r (snd (rs ! i))) (take i rs))"

lemma admissions_counted:
  assumes "counted bucket m c w" and "redis_ok w" and "\<forall>(t, rq)\<in>set rs. to_seconds t div 60 = m"
  shows "admissions r bucket limit rs w =
    map (\<lambda>i. int (c (resolve_ip r (snd (rs ! i))) + earlier r rs i) < limit) [0..<length rs]"
  using assms
proof (induction rs arbitrary: c w)
  case (Cons q rs)
  obtain t rq where q: "q = (t, rq)" by fastforce
  let ?w = "w\<lparr>ap_auth := (ap_auth w)\<lparr>au_now := t\<rparr>\<rparr>"
  let ?c = "c(resolve_ip r rq := Suc (c (resolve_ip r rq)))"
  have "counted bucket m c ?w" "redis_ok ?w" "to_seconds (api_now ?w) div 60 = m"
    using Cons.prems q by (simp_all add: counted_def redis_ok_def api_now_def)
  from rate_limit_counts [OF this, of r limit rq] obtain w' where w': "snd (rate_limit r bucket limit rq ?w) = w'" "redis_ok w'"
    "counted bucket m ?c w'" and first: "raised (fst (rate_limit r bucket limit rq ?w)) = (limit < int (Suc (c (resolve_ip r rq))))"
    by blast
  have "admissions r bucket limit rs w' = map (\<lambda>i. int (?c (resolve_ip r (snd (rs ! i))) + earlier r rs i) < limit) [0..<length rs]"
    using Cons.IH [OF w'(3,2)] Cons.prems(3) by simp
  moreover have "?c (resolve_ip r (snd (rs ! i))) + earlier r rs i = c (resolve_ip r (snd (rs ! i))) + earlier r (q # rs) (Suc i)" for i
    by (simp add: earlier_def q)
  ultimately have rest: "admissions r bucket limit rs w' =
      map (\<lambda>i. int (c (resolve_ip r (snd (rs ! i))) + earlier r (q # rs) (Suc i)) < limit) [0..<length rs]"
    by (simp only:)
  have zero: "earlier r (q # rs) 0 = 0"
    by (simp add: earlier_def)
  have "admissions r bucket limit (q # rs) w = (int (c (resolve_ip r rq)) < limit) # admissions r bucket limit rs w'"
    using w'(1) first q by (simp add: case_prod_beta Let_def) linarith
  then show ?case
    using rest zero q by (simp add: upt_conv_Cons map_Suc_upt [symmetric] comp_def del: upt_Suc)
qed simp

text \<open>
  C28. While Redis answers, of the requests that reach one limited route group within one minute by the clock,
  exactly the first \<open>limit\<close> of every client address are let through, however the clients interleave and whatever
  the order of their clock readings within the minute.
\<close>

theorem minute_limit_per_client:
  assumes "redis_ok w" and "\<forall>ip. ap_rate w (minute_key bucket ip m) = None" and "\<forall>(t, rq)\<in>set rs. to_seconds t div 60 = m"
  shows "admissions r bucket limit rs w = map (\<lambda>i. int (earlier r rs i) < limit) [0..<length rs]"
proof -
  have "counted bucket m (\<lambda>_. 0) w"
    using assms(2) by (simp add: counted_def)
  then show ?thesis
    using admissions_counted [OF _ assms(1,3), of bucket "\<lambda>_. 0"] by simp
qed

theorem minute_limit_per_client_witness:
  "admissions (ai_resolver demo_api) ''auth'' 2
     [(0, demo_request ''a'' []), (1000000, demo_request ''a'' []), (2000000, demo_request ''b'' []), (59000000, demo_request ''a'' [])]
     (demo_api_world 0) = [True, True, True, False]"
proof -
  let ?rs = "[(0, demo_request ''a'' []), (1000000, demo_request ''a'' []), (2000000, demo_request ''b'' []), (59000000, demo_request ''a'' [])]"
  have "redis_ok (demo_api_world 0)" and "\<forall>ip. ap_rate (demo_api_world 0) (minute_key ''auth'' ip 0) = None"
    and "\<forall>(t, rq)\<in>set ?rs. to_seconds t div 60 = 0"
    by (simp_all add: redis_ok_def demo_api_world_def demo_auth_world_def to_seconds_def)
  from minute_limit_per_client [OF this, of "ai_resolver demo_api" 2] show ?thesis
    by (simp add: earlier_def demo_request_def demo_api_def resolve_ip_def upt_conv_Cons)
qed

text \<open>
  Behind a trusted proxy that appends to \<open>X-Forwarded-For\<close>, the client itself writes the entry that is taken for
  its address: whatever text it sends first becomes its address, so with a text not used in this minute it passes
  the limit, however many requests it has made before.
\<close>

theorem proxied_client_chooses_bucket:
  assumes "re_trust_proxy_headers r" and "rq_client rq = Some peer" and "is_trusted_proxy r peer"
    and "rq_headers rq ''X-Forwarded-For'' = Some (claimed @ CHR '','' # appended)"
    and "CHR '','' \<notin> set claimed" and "strip claimed = claimed" and "claimed \<noteq> []"
    and "redis_ok w" and "ap_rate w (rate_key bucket claimed (api_now w)) = None" and "1 \<le> limit"
  shows "resolve_ip r rq = claimed \<and> \<not> raised (fst (rate_limit r bucket limit rq w))"
proof -
  have ip: "resolve_ip r rq = claimed"
    using assms(1-7) split_on_append [of "CHR '',''" claimed appended] by (simp add: resolve_ip_def)
  then show ?thesis
    using assms(8,9,10) by (simp add: rate_limit_def run_script_def incr_expire_def redis_ok_def api_now_def Let_def)
qed

definition demo_proxied :: request where
  "demo_proxied =
     \<lparr>rq_headers = [''X-Forwarded-For'' \<mapsto> ''q, 1.2.3.4''], rq_query = Map.empty, rq_client = Some ''10.0.0.1''\<rparr>"

theorem proxied_client_chooses_bucket_witness:
  "\<not> raised (fst (rate_limit \<lparr>re_trust_proxy_headers = True, re_trusted_proxies = [Net4 167772160 8]\<rparr> ''auth'' 1 demo_proxied
      (demo_api_world 0)))"
proof -
  let ?r = "\<lparr>re_trust_proxy_headers = True, re_trusted_proxies = [Net4 167772160 8]\<rparr>"
  have p: "is_trusted_proxy ?r ''10.0.0.1''"
    by (simp add: is_trusted_proxy_def addresses_read)
  have "redis_ok (demo_api_world 0)" and "ap_rate (demo_api_world 0) (rate_key ''auth'' ''q'' (api_now (demo_api_world 0))) = None"
    by (simp_all add: redis_ok_def demo_api_world_def demo_auth_world_def)
  then show ?thesis
    using proxied_client_chooses_bucket [of ?r demo_proxied "''10.0.0.1''" "''q''" "'' 1.2.3.4''" "demo_api_world 0" "''auth''" 1] p
    by (simp add: demo_proxied_def strip_def is_space_def)
qed

section \<open>A library with one good token\<close>

definition demo_payload :: jwt_payload where
  "demo_payload =
     \<lparr>jp_sub = Some ''u'', jp_jti = Some ''j'', jp_iat = None, jp_exp = None, jp_user_id = Some ''u'',
      jp_organization_id = Some ''org'', jp_email = Some ''e'', jp_roles = Some [''TECHNICIAN''],
      jp_permissions = Some [PERM_INCIDENTS_READ, PERM_INCIDENTS_MANAGE, PERM_DEVICES_WRITE, PERM_FACTORIES_READ],
      jp_token_type = Some TOKEN_TYPE_ACCESS\<rparr>"

definition demo_fixed_jwt :: "string jwt_library" where
  "demo_fixed_jwt =
     \<lparr>jw_encode = (\<lambda>p s. ''t''), jw_decode = (\<lambda>now t s. if t = ''t'' then Inr demo_payload else Inl (PyJWTError ''invalid''))\<rparr>"

lemma demo_fixed_jwt_reads:
  "parse_and_validate demo_fixed_jwt now t s TOKEN_TYPE_ACCESS = (if t = ''t'' then Inr (claims_of demo_payload) else Inl (PyJWTError ''invalid''))"
  by (simp add: demo_fixed_jwt_def parse_and_validate_def demo_payload_def)

lemma demo_claims_fields [simp]:
  "cl_organization_id (claims_of demo_payload) = ''org''" "cl_user_id (claims_of demo_payload) = ''u''"
  by (simp_all add: claims_of_def demo_payload_def)

end
