(* ===== verification/Api_Incidents.thy ===== *)
theory Api_Incidents
  imports Api_Access Incidents Alert_Store
begin

text \<open>
  \<open>handlers_incidents.py\<close> and \<open>handlers_alerts.py\<close>: the routes over the incident store and the alerts
  table. A route's answer is a value or an exception; an exception that is not an \<open>APIError\<close> is answered
  with status 500 by the API's last handler (\<open>error_response\<close>). Times stay numbers; \<open>resolved_at\<close> of an
  alert is left out of its answer, no statement of the program ever sets that column.
\<close>

section \<open>Answers\<close>

text \<open>A key that the code leaves out when its value is empty is \<open>None\<close>.\<close>

record incident_dto =
  io_id :: string
  io_severity :: severity
  io_status :: string
  io_title :: string
  io_description :: string
  io_opened_at :: int
  io_alert_id :: "string option"
  io_factory_id :: "string option"
  io_machine_id :: "string option"
  io_device_id :: "string option"
  io_sensor_id :: "string option"
  io_assigned_to :: "string option"
  io_resolution_notes :: "string option"
  io_resolved_at :: "int option"
  io_closed_at :: "int option"

definition incident_dto_of :: "incident \<Rightarrow> incident_dto" where
  "incident_dto_of i =
     \<lparr>io_id = ic_id i, io_severity = ic_severity i, io_status = ic_status i, io_title = ic_title i,
      io_description = ic_description i, io_opened_at = ic_opened_at i, io_alert_id = null_if_empty (ic_alert_id i),
      io_factory_id = null_if_empty (ic_factory_id i), io_machine_id = null_if_empty (ic_machine_id i),
      io_device_id = null_if_empty (ic_device_id i), io_sensor_id = null_if_empty (ic_sensor_id i),
      io_assigned_to = null_if_empty (ic_assigned_to i), io_resolution_notes = null_if_empty (ic_resolution_notes i),
      io_resolved_at = ic_resolved_at i, io_closed_at = ic_closed_at i\<rparr>"

record incident_event_dto =
  eo_event_type :: string
  eo_created_at :: int
  eo_old_value :: "string option"
  eo_new_value :: "string option"
  eo_note :: "string option"

definition incident_event_dto_of :: "incident_event \<Rightarrow> incident_event_dto" where
  "incident_event_dto_of e =
     \<lparr>eo_event_type = iv_event_type e, eo_created_at = iv_created_at e, eo_old_value = null_if_empty (iv_old_value e),
      eo_new_value = null_if_empty (iv_new_value e), eo_note = null_if_empty (iv_note e)\<rparr>"

section \<open>The routes on incidents\<close>

record case_world = api_world +
  cw_db :: database

definition on_store :: "(database, exn + 'a) prog \<Rightarrow> case_world \<Rightarrow> (exn + 'a) \<times> case_world" where
  "on_store p w = (case run p (cw_db w) of (r, db) \<Rightarrow> (r, w\<lparr>cw_db := db\<rparr>))"

definition list_incidents_route :: "api \<Rightarrow> request \<Rightarrow> case_world \<Rightarrow> (exn + incident_dto page) \<times> case_world" where
  "list_incidents_route ai rq =
     route ai Unlimited PERM_INCIDENTS_READ (\<lambda>claims w.
       let (limit, offset) = parse_limit_offset rq
       in case on_store (list_incidents (cl_organization_id claims) (query_param rq ''status'') (nat limit) (nat offset)) w of
            (Inl e, w1) \<Rightarrow> (Inl (internal_error e), w1)
          | (Inr listing, w1) \<Rightarrow> (Inr (paginated_response (map incident_dto_of listing) limit offset), w1)) rq"

definition incident_not_found :: exn where
  "incident_not_found = APIError 404 ''NOT_FOUND'' ''incident does not exist'' []"

definition get_incident_route ::
  "api \<Rightarrow> string \<Rightarrow> request \<Rightarrow> case_world \<Rightarrow> (exn + (incident_dto \<times> incident_event_dto list)) \<times> case_world" where
  "get_incident_route ai incident_id =
     route ai Unlimited PERM_INCIDENTS_READ (\<lambda>claims w.
       case on_store (get_incident (cl_organization_id claims) incident_id) w of
         (Inl e, w1) \<Rightarrow> (Inl (internal_error e), w1)
       | (Inr None, w1) \<Rightarrow> (Inl incident_not_found, w1)
       | (Inr (Some found), w1) \<Rightarrow>
           (case on_store (list_events incident_id) w1 of
              (Inl e, w2) \<Rightarrow> (Inl (internal_error e), w2)
            | (Inr events, w2) \<Rightarrow> (Inr (incident_dto_of found, map incident_event_dto_of events), w2)))"

text \<open>
  The three routes that change an incident first look it up in the caller's organization. This lookup is
  outside their \<open>try\<close>.
\<close>

definition if_own_incident ::
  "string \<Rightarrow> claims \<Rightarrow> (case_world \<Rightarrow> (exn + unit) \<times> case_world) \<Rightarrow> case_world \<Rightarrow> (exn + unit) \<times> case_world" where
  "if_own_incident incident_id claims act w =
     (case on_store (get_incident (cl_organization_id claims) incident_id) w of
        (Inl e, w1) \<Rightarrow> (Inl e, w1)
      | (Inr None, w1) \<Rightarrow> (Inl incident_not_found, w1)
      | (Inr (Some _), w1) \<Rightarrow> act w1)"

text \<open>\<open>except (ValueError, RuntimeError)\<close>; every other exception goes through.\<close>

definition lifecycle_error :: "exn \<Rightarrow> exn" where
  "lifecycle_error e =
     (case e of
        ValueError _ \<Rightarrow> APIError 409 ''INVALID_TRANSITION'' (str_exn e) []
      | RuntimeError _ \<Rightarrow> APIError 409 ''INVALID_TRANSITION'' (str_exn e) []
      | _ \<Rightarrow> e)"

definition map_error :: "(exn \<Rightarrow> exn) \<Rightarrow> (exn + 'a) \<times> 'w \<Rightarrow> (exn + 'a) \<times> 'w" where
  "map_error f p = (case p of (Inl e, w) \<Rightarrow> (Inl (f e), w) | (Inr x, w) \<Rightarrow> (Inr x, w))"

definition transition_route :: "api \<Rightarrow> string \<Rightarrow> string \<Rightarrow> string \<Rightarrow> request \<Rightarrow> case_world \<Rightarrow> (exn + unit) \<times> case_world" where
  "transition_route ai incident_id status note =
     route ai Unlimited PERM_INCIDENTS_MANAGE (\<lambda>claims w.
       if status = [] then (Inl (APIError 400 ''INVALID_BODY'' ''status is required'' []), w)
       else if_own_incident incident_id claims
              (\<lambda>w1. map_error lifecycle_error (on_store (transition incident_id status (Some (cl_user_id claims)) note) w1)) w)"

definition assign_route :: "api \<Rightarrow> string \<Rightarrow> string \<Rightarrow> request \<Rightarrow> case_world \<Rightarrow> (exn + unit) \<times> case_world" where
  "assign_route ai incident_id user_id =
     route ai Unlimited PERM_INCIDENTS_MANAGE (\<lambda>claims w.
       if user_id = [] then (Inl (APIError 400 ''INVALID_BODY'' ''user_id is required'' []), w)
       else if_own_incident incident_id claims
              (\<lambda>w1. map_error internal_error (on_store (assign incident_id user_id (Some (cl_user_id claims))) w1)) w)"

definition resolve_route :: "api \<Rightarrow> string \<Rightarrow> string \<Rightarrow> request \<Rightarrow> case_world \<Rightarrow> (exn + unit) \<times> case_world" where
  "resolve_route ai incident_id notes =
     route ai Unlimited PERM_INCIDENTS_MANAGE (\<lambda>claims.
       if_own_incident incident_id claims
         (\<lambda>w1. map_error lifecycle_error (on_store (resolve incident_id notes (Some (cl_user_id claims))) w1)))"

section \<open>The routes on alerts\<close>

record alert_dto =
  ao_id :: string
  ao_severity :: severity
  ao_status :: string
  ao_title :: string
  ao_description :: string
  ao_triggered_at :: int
  ao_machine_id :: "string option"
  ao_device_id :: "string option"

definition alert_dto_of :: "alert_row \<Rightarrow> alert_dto" where
  "alert_dto_of r =
     \<lparr>ao_id = alr_id r, ao_severity = alr_severity r, ao_status = alr_status r, ao_title = alr_title r,
      ao_description = alr_description r, ao_triggered_at = alr_triggered_at r,
      ao_machine_id = null_if_empty (coalesce (alr_machine_id r)), ao_device_id = null_if_empty (coalesce (alr_device_id r))\<rparr>"

definition alert_listed :: "string \<Rightarrow> string \<Rightarrow> string \<Rightarrow> alert_row \<Rightarrow> bool" where
  "alert_listed org status_filter severity_filter r \<longleftrightarrow>
     alr_organization_id r = org \<and> (status_filter = [] \<or> alr_status r = status_filter) \<and>
     (severity_filter = [] \<or> severity_name (alr_severity r) = severity_filter)"

definition select_alerts :: "string \<Rightarrow> string \<Rightarrow> string \<Rightarrow> nat \<Rightarrow> nat \<Rightarrow> alert_row list statement" where
  "select_alerts org_id status_filter severity_filter limit offset =
     with_uuid org_id (\<lambda>org db.
       (Inr (take limit (drop offset (sort_key (\<lambda>r. - alr_triggered_at r)
          (filter (alert_listed org status_filter severity_filter) (db_alerts db))))), db))"

definition select_alert :: "string \<Rightarrow> string \<Rightarrow> alert_row option statement" where
  "select_alert alert_id org_id =
     with_uuid alert_id (\<lambda>u. with_uuid org_id (\<lambda>org db.
       (Inr (find (\<lambda>r. alr_id r = u \<and> alr_organization_id r = org) (db_alerts db)), db)))"

definition list_alerts_route :: "api \<Rightarrow> request \<Rightarrow> case_world \<Rightarrow> (exn + alert_dto page) \<times> case_world" where
  "list_alerts_route ai rq =
     route ai Default_limit PERM_ALERTS_READ (\<lambda>claims w.
       let (limit, offset) = parse_limit_offset rq
       in case on_store (stmt (select_alerts (cl_organization_id claims) (query_param rq ''status'') (query_param rq ''severity'')
                 (nat limit) (nat offset)) (\<lambda>x. Done (Inr x))) w of
            (Inl e, w1) \<Rightarrow> (Inl (internal_error e), w1)
          | (Inr rows, w1) \<Rightarrow> (Inr (paginated_response (map alert_dto_of rows) limit offset), w1)) rq"

definition get_alert_route :: "api \<Rightarrow> string \<Rightarrow> request \<Rightarrow> case_world \<Rightarrow> (exn + alert_dto) \<times> case_world" where
  "get_alert_route ai alert_id =
     route ai Unlimited PERM_ALERTS_READ (\<lambda>claims w.
       case on_store (stmt (select_alert alert_id (cl_organization_id claims)) (\<lambda>x. Done (Inr x))) w of
         (Inl e, w1) \<Rightarrow> (Inl e, w1)
       | (Inr None, w1) \<Rightarrow> (Inl (APIError 404 ''NOT_FOUND'' ''alert does not exist'' []), w1)
       | (Inr (Some row), w1) \<Rightarrow> (Inr (alert_dto_of row), w1))"

definition acknowledge_route :: "api \<Rightarrow> string \<Rightarrow> request \<Rightarrow> case_world \<Rightarrow> (exn + unit) \<times> case_world" where
  "acknowledge_route ai alert_id =
     route ai Default_limit PERM_ALERTS_MANAGE (\<lambda>claims w.
       case on_store (acknowledge (cl_organization_id claims) alert_id) w of
         (Inl e, w1) \<Rightarrow> (Inl e, w1)
       | (Inr n, w1) \<Rightarrow>
           if n = 0
           then (Inl (APIError 409 ''CONFLICT'' ''alert does not exist, belongs to another organization, or is not OPEN'' []), w1)
           else (ok, w1))"

section \<open>A tenant's requests and the other tenants' rows\<close>

datatype case_call =
    List_incidents
  | Get_incident string
  | Transition_incident string string string
  | Assign_incident string string
  | Resolve_incident string string
  | List_alerts
  | Get_alert string
  | Acknowledge_alert string

datatype case_answer =
    Incident_page "incident_dto page"
  | Incident_history "incident_dto \<times> incident_event_dto list"
  | Alert_page "alert_dto page"
  | Alert_found alert_dto
  | No_content

definition answered :: "('a \<Rightarrow> case_answer) \<Rightarrow> (exn + 'a) \<times> case_world \<Rightarrow> (exn + case_answer) \<times> case_world" where
  "answered f p = map_prod (map_sum id f) id p"

fun run_case_call :: "api \<Rightarrow> case_call \<Rightarrow> request \<Rightarrow> case_world \<Rightarrow> (exn + case_answer) \<times> case_world" where
  "run_case_call ai List_incidents rq w = answered Incident_page (list_incidents_route ai rq w)"
| "run_case_call ai (Get_incident i) rq w = answered Incident_history (get_incident_route ai i rq w)"
| "run_case_call ai (Transition_incident i s n) rq w = answered (\<lambda>_. No_content) (transition_route ai i s n rq w)"
| "run_case_call ai (Assign_incident i u) rq w = answered (\<lambda>_. No_content) (assign_route ai i u rq w)"
| "run_case_call ai (Resolve_incident i n) rq w = answered (\<lambda>_. No_content) (resolve_route ai i n rq w)"
| "run_case_call ai List_alerts rq w = answered Alert_page (list_alerts_route ai rq w)"
| "run_case_call ai (Get_alert i) rq w = answered Alert_found (get_alert_route ai i rq w)"
| "run_case_call ai (Acknowledge_alert i) rq w = answered (\<lambda>_. No_content) (acknowledge_route ai i rq w)"

text \<open>What belongs to other organizations: incidents, their audit events, alerts.\<close>

definition foreign :: "string \<Rightarrow> database \<Rightarrow> incident_row list \<times> incident_event_row list \<times> alert_row list" where
  "foreign org db =
     (filter (\<lambda>r. ir_organization_id r \<noteq> org) (db_incidents db),
      filter (\<lambda>e. \<exists>r\<in>set (db_incidents db). ir_id r = ie_incident_id e \<and> ir_organization_id r \<noteq> org) (db_incident_events db),
      filter (\<lambda>r. alr_organization_id r \<noteq> org) (db_alerts db))"

definition owned :: "string \<Rightarrow> string \<Rightarrow> database \<Rightarrow> bool" where
  "owned org u db \<longleftrightarrow> (\<forall>r\<in>set (db_incidents db). ir_id r = u \<longrightarrow> ir_organization_id r = org)"

text \<open>The others' rows are \<open>x\<close>, and incident \<open>u\<close>, if it exists, is the tenant's own.\<close>

definition spares ::
  "string \<Rightarrow> (string \<Rightarrow> string option) \<Rightarrow> string \<Rightarrow> incident_row list \<times> incident_event_row list \<times> alert_row list \<Rightarrow>
   database \<Rightarrow> bool" where
  "spares org U u x db \<longleftrightarrow> db_uuid db = U \<and> foreign org db = x \<and> owned org u db"

lemma table_inv_spares [simp]: "table_inv (spares org U u x)"
  by (simp add: table_inv_def spares_def foreign_def owned_def)

lemma spares_uuid: "spares org U u x db \<Longrightarrow> db_uuid db = U"
  by (simp add: spares_def)

lemma filter_unchanged:
  assumes "\<And>x. x \<in> set xs \<Longrightarrow> P (g x) = P x" and "\<And>x. x \<in> set xs \<Longrightarrow> P x \<Longrightarrow> g x = x"
  shows "filter P (map g xs) = filter P xs"
  using assms by (induction xs) auto

lemma spares_update:
  assumes "spares org U u x db" and "\<And>r. ir_id (f r) = ir_id r \<and> ir_organization_id (f r) = ir_organization_id r"
  shows "spares org U u x (update_incident u f db)"
proof -
  let ?g = "\<lambda>r. if ir_id r = u then f r else r"
  have own: "owned org u db"
    using assms(1) by (simp add: spares_def)
  have g: "ir_id (?g r) = ir_id r \<and> ir_organization_id (?g r) = ir_organization_id r" for r
    using assms(2) by simp
  have "filter (\<lambda>r. ir_organization_id r \<noteq> org) (map ?g (db_incidents db)) =
      filter (\<lambda>r. ir_organization_id r \<noteq> org) (db_incidents db)"
    using own g by (intro filter_unchanged) (auto simp: owned_def)
  moreover have "(\<exists>r\<in>set (map ?g (db_incidents db)). ir_id r = i \<and> ir_organization_id r \<noteq> org) =
      (\<exists>r\<in>set (db_incidents db). ir_id r = i \<and> ir_organization_id r \<noteq> org)" for i
    by (simp only: set_map bex_simps g [THEN conjunct1] g [THEN conjunct2])
  ultimately show ?thesis
    using assms(1) own g by (auto simp: spares_def foreign_def owned_def update_incident_def)
qed

lemma spares_log:
  assumes "U i = Some u"
  shows "stmt_keeps (spares org U u x) (log_event i ty actor old new nt)"
  unfolding log_event_def
  by (intro stmt_keeps_known_uuid [OF spares_uuid] stmt_keeps_uuid_option, assumption)
     (use assms in \<open>auto simp: stmt_keeps_def spares_def foreign_def owned_def Let_def\<close>)

lemma spares_status:
  assumes "U i = Some u"
  shows "stmt_keeps (spares org U u x) (update_status i s)"
  unfolding update_status_def
  by (intro stmt_keeps_known_uuid [OF spares_uuid], assumption)
     (use assms in \<open>auto simp: stmt_keeps_def intro: spares_update\<close>)

lemma spares_notes:
  assumes "U i = Some u"
  shows "stmt_keeps (spares org U u x) (update_notes i n)"
  unfolding update_notes_def
  by (intro stmt_keeps_known_uuid [OF spares_uuid], assumption)
     (use assms in \<open>auto simp: stmt_keeps_def intro: spares_update\<close>)

lemma spares_assigned:
  assumes "U i = Some u"
  shows "stmt_keeps (spares org U u x) (update_assigned i who)"
  unfolding update_assigned_def
  by (intro stmt_keeps_uuid stmt_keeps_known_uuid [OF spares_uuid], assumption)
     (use assms in \<open>auto simp: stmt_keeps_def intro: spares_update\<close>)

lemma spares_transition: "U i = Some u \<Longrightarrow> keeps (spares org U u x) (transition i s a n)"
  unfolding transition_def by (auto intro!: keeps_stmt spares_status spares_log split: option.split)

lemma spares_resolve: "U i = Some u \<Longrightarrow> keeps (spares org U u x) (resolve i n a)"
  unfolding resolve_def by (intro keeps_stmt spares_notes spares_transition) auto

lemma spares_assign: "U i = Some u \<Longrightarrow> keeps (spares org U u x) (assign i who a)"
  unfolding assign_def by (intro keeps_stmt spares_assigned spares_log) auto

lemma foreign_acknowledge:
  assumes "U org_id = Some org"
  shows "stmt_keeps (\<lambda>db. db_uuid db = U \<and> foreign org db = x) (update_acknowledged i org_id)"
  unfolding update_acknowledged_def
proof (rule stmt_keeps_uuid, rule stmt_keeps_known_uuid [where U = U])
  fix u org'
  assume "U org_id = Some org'"
  then have "filter (\<lambda>r. alr_organization_id r \<noteq> org) (map (\<lambda>r. if acknowledgeable u org' r then r\<lparr>alr_status := ''ACKNOWLEDGED''\<rparr> else r) rows) =
      filter (\<lambda>r. alr_organization_id r \<noteq> org) rows" for rows
    using assms by (intro filter_unchanged) (auto simp: acknowledgeable_def)
  then show "stmt_keeps (\<lambda>db. db_uuid db = U \<and> foreign org db = x) (\<lambda>db.
       (Inr (length (filter (acknowledgeable u org') (db_alerts db))),
        db\<lparr>db_alerts := map (\<lambda>r. if acknowledgeable u org' r then r\<lparr>alr_status := ''ACKNOWLEDGED''\<rparr> else r) (db_alerts db)\<rparr>))"
    by (auto simp: stmt_keeps_def foreign_def)
qed simp_all

text \<open>The state of the database as another tenant sees it.\<close>

definition others_see ::
  "string \<Rightarrow> (string \<Rightarrow> string option) \<Rightarrow> incident_row list \<times> incident_event_row list \<times> alert_row list \<Rightarrow> database \<Rightarrow> bool" where
  "others_see org U x db \<longleftrightarrow> incidents_ok db \<and> db_uuid db = U \<and> foreign org db = x"

lemma table_inv_others [simp]: "table_inv (others_see org U x)"
  by (simp add: table_inv_def others_see_def foreign_def incidents_ok_def)

lemma on_store_keeps: "keeps I p \<Longrightarrow> I (cw_db w) \<Longrightarrow> I (cw_db (snd (on_store p w)))"
  using keeps_run [of I p "cw_db w"] by (cases "run p (cw_db w)") (simp add: on_store_def)

lemma others_see_spares: "spares org U u x db \<Longrightarrow> incidents_ok db \<Longrightarrow> others_see org U x db"
  by (simp add: spares_def others_see_def)

lemma keeps_alert_routes [simp]:
  "stmt_keeps I (select_alerts o' f g l k)" "stmt_keeps I (select_alert i o')"
  unfolding select_alerts_def select_alert_def
  by (intro stmt_keeps_uuid; simp add: stmt_keeps_def)+

lemma keeps_reads [simp]:
  "table_inv I \<Longrightarrow> keeps I (get_incident o' i)" "table_inv I \<Longrightarrow> keeps I (list_incidents o' f l k)" "table_inv I \<Longrightarrow> keeps I (list_events i)"
  by (auto simp: get_incident_def list_incidents_def list_events_def intro!: keeps_stmt)

lemma incidents_acknowledge: "stmt_keeps incidents_ok (update_acknowledged i o')"
  unfolding update_acknowledged_def
  by (intro stmt_keeps_uuid) (simp add: stmt_keeps_def, intro allI impI, erule incidents_ok_same; simp)

lemma others_acknowledge:
  assumes "U o' = Some org"
  shows "keeps (others_see org U x) (acknowledge o' i)"
  unfolding acknowledge_def
proof (intro keeps_stmt keeps_Done)
  show "stmt_keeps (others_see org U x) (update_acknowledged i o')"
    using foreign_acknowledge [where U = U and org_id = o' and org = org and x = x and i = i, OF assms] incidents_acknowledge [of i o']
    by (auto simp: stmt_keeps_def others_see_def)
qed simp

lemma found_is_own:
  assumes "on_store (get_incident o' i) w = (Inr (Some y), w1)" and "others_see org U x (cw_db w)" and "U o' = Some org"
  shows "\<exists>u. U i = Some u \<and> spares org U u x (cw_db w1) \<and> incidents_ok (cw_db w1) \<and>
    (\<exists>r\<in>set (db_incidents (cw_db w)). ir_organization_id r = org \<and> y = row_to_incident r)"
proof -
  let ?db = "cw_db w"
  obtain db1 where run: "run (get_incident o' i) ?db = (Inr (Some y), db1)" and w1: "w1 = w\<lparr>cw_db := db1\<rparr>"
    using assms(1) by (auto simp: on_store_def split: prod.splits)
  have ex: "exec (select_incident o' i) ?db = (Inr (Some y), db1)"
    using run by (auto simp: get_incident_def split: prod.splits sum.splits)
  let ?d = "?db\<lparr>db_tick := Suc (db_tick ?db)\<rparr>"
  have sel: "select_incident o' i ?d = (Inr (Some y), db1)"
    using ex by (rule exec_answered)
  have org: "db_uuid ?db o' = Some org" and U: "db_uuid ?db = U"
    using assms(2,3) by (simp_all add: others_see_def)
  obtain u r where i: "db_uuid ?db i = Some u" and find: "find (\<lambda>r. ir_id r = u \<and> ir_organization_id r = org) (db_incidents ?db) = Some r"
    and y: "y = row_to_incident r" and db1: "db1 = ?d"
    using sel org by (auto simp: select_incident_def with_uuid_def split: option.splits)
  have u: "U i = Some u" and r: "r \<in> set (db_incidents ?db)" "ir_id r = u" "ir_organization_id r = org"
    using i U find_SomeD [OF find] by simp_all
  have "owned org u ?db"
    unfolding owned_def
  proof (intro ballI impI)
    fix q
    assume q: "q \<in> set (db_incidents ?db)" "ir_id q = u"
    have "distinct (map ir_id (db_incidents ?db))"
      using assms(2) incidents_distinct by (simp add: others_see_def)
    then have "q = r"
      using q r(1,2) by (metis distinct_map inj_onD)
    then show "ir_organization_id q = org"
      using r(3) by simp
  qed
  then have "spares org U u x ?db \<and> incidents_ok ?db"
    using assms(2) by (simp add: spares_def others_see_def)
  then show ?thesis
    using u r y table_inv_spares [of org U u x, unfolded table_inv_def] table_inv_incidents [unfolded table_inv_def]
    by (intro exI [of _ u] conjI bexI [of _ r]) (simp_all add: w1 db1)
qed

text \<open>What a program does to an incident of the tenant's own.\<close>

definition stays_inside :: "string \<Rightarrow> (string \<Rightarrow> string option) \<Rightarrow> string \<Rightarrow> (database, exn + unit) prog \<Rightarrow> bool" where
  "stays_inside org U i p \<longleftrightarrow>
     keeps incidents_ok p \<and> (\<forall>u x. U i = Some u \<longrightarrow> keeps (spares org U u x) p)"

lemma stays_inside_ops:
  "stays_inside org U i (transition i s a n)" "stays_inside org U i (assign i who a)" "stays_inside org U i (resolve i n a)"
  by (simp_all add: stays_inside_def keeps_transition keeps_assign keeps_resolve spares_transition spares_assign spares_resolve)

lemma map_error_snd [simp]: "snd (map_error f p) = snd p"
  by (cases p; cases "fst p") (simp_all add: map_error_def)

lemma own_incident_keeps:
  assumes "stays_inside org U i p" and "others_see org U x (cw_db w)" and "U (cl_organization_id c) = Some org"
  shows "others_see org U x (cw_db (snd (if_own_incident i c (\<lambda>w1. map_error f (on_store p w1)) w)))"
proof -
  obtain r w1 where g: "on_store (get_incident (cl_organization_id c) i) w = (r, w1)" by fastforce
  have w1: "others_see org U x (cw_db w1)"
    using on_store_keeps [of "others_see org U x" "get_incident (cl_organization_id c) i" w] assms(2) g by simp
  show ?thesis
  proof (cases "\<exists>y. r = Inr (Some y)")
    case True
    then obtain y u where y: "r = Inr (Some y)" "U i = Some u" "spares org U u x (cw_db w1)" "incidents_ok (cw_db w1)"
      using found_is_own [of "cl_organization_id c" i w _ w1 org U x] g assms(2,3) by blast
    then have "spares org U u x (cw_db (snd (on_store p w1)))" "incidents_ok (cw_db (snd (on_store p w1)))"
      using assms(1) y(2) on_store_keeps [where I = "spares org U u x" and p = p and w = w1, OF _ y(3)]
        on_store_keeps [where I = incidents_ok and p = p and w = w1, OF _ y(4)] unfolding stays_inside_def by blast+
    then show ?thesis
      using g y(1) others_see_spares by (simp add: if_own_incident_def)
  next
    case False
    then show ?thesis
      using g w1 by (auto simp: if_own_incident_def split: sum.split option.split)
  qed
qed

lemma route_cases:
  fixes w :: case_world
  obtains (refused) e w1 where "route ai l p h rq w = (Inl e, w1)" "cw_db w1 = cw_db w"
  | (let_in) c w1 where "route ai l p h rq w = h c w1" "cw_db w1 = cw_db w"
      "parse_and_validate (ai_jwt ai) (api_now w) (bearer_token rq) (ai_access_secret ai) TOKEN_TYPE_ACCESS = Inr c"
      "p = [] \<or> p \<in> set (cl_permissions c)"
proof -
  have more: "cw_db w1 = cw_db w" if "api_world.more w1 = api_world.more w" for w1
    using that by (cases w; cases w1) simp
  show thesis
    by (rule route_outcome [of ai l p h rq w]) (use refused let_in more in blast)+
qed

lemma route_keeps:
  fixes w :: case_world
  assumes "tenant_request ai o' rq" and "I (cw_db w)"
    and "\<And>c w1. cl_organization_id c = o' \<Longrightarrow> I (cw_db w1) \<Longrightarrow> I (cw_db (snd (h c w1)))"
  shows "I (cw_db (snd (route ai l p h rq w)))"
proof (cases rule: route_cases [of ai l p h rq w])
  case (refused e w1)
  then show ?thesis using assms(2) by simp
next
  case (let_in c w1)
  moreover have "cl_organization_id c = o'"
    using assms(1) let_in(3) unfolding tenant_request_def by blast
  ultimately show ?thesis
    using assms(2,3) by simp
qed

lemma read_keeps:
  assumes "keeps I p" and "I (cw_db w)" and "\<And>x w1. on_store p w = (x, w1) \<Longrightarrow> I (cw_db w1) \<Longrightarrow> I (cw_db (snd (k x w1)))"
  shows "I (cw_db (snd (case on_store p w of (x, w1) \<Rightarrow> k x w1)))"
  using on_store_keeps [OF assms(1,2)] assms(3) by (cases "on_store p w") simp

lemma answer_snd:
  "snd (case p of (Inl e, w) \<Rightarrow> (f e, w) | (Inr y, w) \<Rightarrow> (g y, w)) = snd p"
  "snd (case q of (Inl e, w) \<Rightarrow> (f e, w) | (Inr None, w) \<Rightarrow> (n, w) | (Inr (Some z), w) \<Rightarrow> (h z, w)) = snd q"
  "snd (case p of (Inl e, w) \<Rightarrow> (f e, w) | (Inr y, w) \<Rightarrow> if P y then (g y, w) else (g' y, w)) = snd p"
  by (auto split: prod.split sum.split option.split)

lemma answered_snd [simp]: "snd (answered f p) = snd p"
  by (simp add: answered_def)

lemma run_case_call_keeps:
  assumes "tenant_request ai o' rq" and "U o' = Some org" and "others_see org U x (cw_db w)"
  shows "others_see org U x (cw_db (snd (run_case_call ai call rq w)))"
proof -
  note keep = route_keeps [where I = "others_see org U x", OF assms(1,3)]
  note store = on_store_keeps [where I = "others_see org U x"]
  have ro: "others_see org U x (cw_db (snd (on_store (stmt q (\<lambda>y. Done (Inr y))) v)))"
    if "stmt_keeps (others_see org U x) q" "others_see org U x (cw_db v)" for q :: "'q statement" and v
    by (intro store keeps_stmt table_inv_others that keeps_Done)
  show ?thesis
  proof (cases call)
    case List_incidents
    show ?thesis
      unfolding List_incidents run_case_call.simps answered_snd list_incidents_route_def
      by (rule keep) (simp add: Let_def case_prod_beta [of _ "parse_limit_offset rq"] answer_snd store)
  next
    case (Get_incident i)
    show ?thesis
      unfolding Get_incident run_case_call.simps answered_snd get_incident_route_def
    proof (rule keep)
      fix c and w1 :: case_world
      assume w1: "others_see org U x (cw_db w1)"
      obtain r w2 where g: "on_store (get_incident (cl_organization_id c) i) w1 = (r, w2)" by fastforce
      obtain es w3 where e: "on_store (list_events i) w2 = (es, w3)" by fastforce
      have "others_see org U x (cw_db w2)"
        using store [OF keeps_reads(1) [OF table_inv_others] w1] g by (metis snd_conv)
      moreover from this have "others_see org U x (cw_db w3)"
        using store [OF keeps_reads(3) [OF table_inv_others]] e by (metis snd_conv)
      ultimately show "others_see org U x (cw_db (snd (case on_store (get_incident (cl_organization_id c) i) w1 of
             (Inl e, w1) \<Rightarrow> (Inl (internal_error e), w1)
           | (Inr None, w1) \<Rightarrow> (Inl incident_not_found, w1)
           | (Inr (Some found), w1) \<Rightarrow>
               (case on_store (list_events i) w1 of
                  (Inl e, w2) \<Rightarrow> (Inl (internal_error e), w2)
                | (Inr events, w2) \<Rightarrow> (Inr (incident_dto_of found, map incident_event_dto_of events), w2)))))"
        using g e by (simp split: sum.split option.split)
    qed
  next
    case (Transition_incident i s n)
    show ?thesis
      unfolding Transition_incident run_case_call.simps answered_snd transition_route_def
      by (rule keep) (simp add: own_incident_keeps stays_inside_ops assms(2))
  next
    case (Assign_incident i u)
    show ?thesis
      unfolding Assign_incident run_case_call.simps answered_snd assign_route_def
      by (rule keep) (simp add: own_incident_keeps stays_inside_ops assms(2))
  next
    case (Resolve_incident i n)
    show ?thesis
      unfolding Resolve_incident run_case_call.simps answered_snd resolve_route_def
      by (rule keep) (simp add: own_incident_keeps stays_inside_ops assms(2))
  next
    case List_alerts
    show ?thesis
      unfolding List_alerts run_case_call.simps answered_snd list_alerts_route_def
      by (rule keep) (simp add: Let_def case_prod_beta [of _ "parse_limit_offset rq"] answer_snd ro)
  next
    case (Get_alert i)
    show ?thesis
      unfolding Get_alert run_case_call.simps answered_snd get_alert_route_def
      by (rule keep) (simp add: answer_snd ro)
  next
    case (Acknowledge_alert i)
    show ?thesis
      unfolding Acknowledge_alert run_case_call.simps answered_snd acknowledge_route_def
      by (rule keep) (simp add: answer_snd store others_acknowledge assms(2))
  qed
qed

text \<open>
  C2. Whatever sequence of requests a tenant's users send to the incident and alert routes, with statements failing
  at any point, the incidents, the audit events and the alerts of every other organization stay as they were.
\<close>

theorem tenant_cannot_touch_others:
  assumes "\<forall>(call, rq)\<in>set calls. tenant_request ai o' rq" and "incidents_ok (cw_db w)" and "db_uuid (cw_db w) o' = Some org"
  shows "foreign org (cw_db (fold (\<lambda>(call, rq) v. snd (run_case_call ai call rq v)) calls w)) = foreign org (cw_db w)"
proof -
  let ?U = "db_uuid (cw_db w)" and ?x = "foreign org (cw_db w)"
  have "others_see org ?U ?x (cw_db (fold (\<lambda>(call, rq) v. snd (run_case_call ai call rq v)) calls v))"
    if "others_see org ?U ?x (cw_db v)" for v
    using assms(1) that
    by (induction calls arbitrary: v) (auto intro: run_case_call_keeps [where U = ?U, OF _ assms(3)])
  then show ?thesis
    using assms(2) by (simp add: others_see_def)
qed

lemma listed_rows:
  assumes "on_store (list_incidents o' f (nat limit) k) w = (Inr xs, w')" and "db_uuid (cw_db w) o' = Some org"
  shows "length xs \<le> nat limit \<and> (\<forall>i\<in>set xs. \<exists>r\<in>set (db_incidents (cw_db w)). ir_organization_id r = org \<and> i = row_to_incident r)"
proof -
  obtain db where "exec (select_incidents o' f (nat limit) k) (cw_db w) = (Inr xs, db)"
    using assms(1) by (auto simp: on_store_def list_incidents_def split: prod.splits sum.splits)
  from exec_answered [OF this] have xs: "xs = map row_to_incident (take (nat limit) (drop k (sort_key (\<lambda>r. - ir_opened_at r)
      (filter (\<lambda>r. ir_organization_id r = org \<and> (f = [] \<or> ir_status r = f)) (db_incidents (cw_db w))))))" (is "_ = map _ ?rows")
    using assms(2) by (simp add: select_incidents_def with_uuid_def)
  have "set ?rows \<subseteq> {r \<in> set (db_incidents (cw_db w)). ir_organization_id r = org}"
    by (auto dest!: in_set_takeD in_set_dropD)
  then show ?thesis
    unfolding xs by auto
qed

lemma listed_alerts:
  assumes "on_store (stmt (select_alerts o' f g (nat limit) k) (\<lambda>x. Done (Inr x))) w = (Inr xs, w')" and "db_uuid (cw_db w) o' = Some org"
  shows "length xs \<le> nat limit \<and> (\<forall>r\<in>set xs. r \<in> set (db_alerts (cw_db w)) \<and> alr_organization_id r = org)"
proof -
  obtain db where "exec (select_alerts o' f g (nat limit) k) (cw_db w) = (Inr xs, db)"
    using assms(1) by (auto simp: on_store_def split: prod.splits sum.splits)
  from exec_answered [OF this] show ?thesis
    using assms(2) by (auto simp: select_alerts_def with_uuid_def alert_listed_def dest!: in_set_takeD in_set_dropD)
qed

lemma found_alert:
  assumes "on_store (stmt (select_alert i o') (\<lambda>x. Done (Inr x))) w = (Inr (Some r), w')" and "db_uuid (cw_db w) o' = Some org"
  shows "r \<in> set (db_alerts (cw_db w)) \<and> alr_organization_id r = org"
proof -
  obtain db where "exec (select_alert i o') (cw_db w) = (Inr (Some r), db)"
    using assms(1) by (auto simp: on_store_def split: prod.splits sum.splits)
  from exec_answered [OF this] show ?thesis
    using assms(2) by (auto simp: select_alert_def with_uuid_def dest!: find_SomeD split: option.splits)
qed

text \<open>An answer shows rows of one organization only.\<close>

fun shows_only :: "string \<Rightarrow> database \<Rightarrow> case_answer \<Rightarrow> bool" where
  "shows_only org db (Incident_page p) =
     (length (pg_items p) \<le> 100 \<and>
      (\<forall>d\<in>set (pg_items p). \<exists>r\<in>set (db_incidents db). ir_organization_id r = org \<and> d = incident_dto_of (row_to_incident r)))"
| "shows_only org db (Incident_history (d, es)) =
     (\<exists>r\<in>set (db_incidents db). ir_organization_id r = org \<and> d = incident_dto_of (row_to_incident r))"
| "shows_only org db (Alert_page p) =
     (length (pg_items p) \<le> 100 \<and>
      (\<forall>d\<in>set (pg_items p). \<exists>r\<in>set (db_alerts db). alr_organization_id r = org \<and> d = alert_dto_of r))"
| "shows_only org db (Alert_found d) = (\<exists>r\<in>set (db_alerts db). alr_organization_id r = org \<and> d = alert_dto_of r)"
| "shows_only org db No_content = True"

text \<open>The handler that answered.\<close>

lemma route_answered:
  fixes w :: case_world
  assumes "route ai l p h rq w = (Inr x, w')" and "tenant_request ai o' rq"
  obtains c w1 where "h c w1 = (Inr x, w')" "cw_db w1 = cw_db w" "cl_organization_id c = o'"
  using assms by (cases rule: route_cases [of ai l p h rq w]) (auto simp: tenant_request_def)

lemma answered_Inr: "answered f p = (Inr a, w') \<longleftrightarrow> (\<exists>x. p = (Inr x, w') \<and> a = f x)"
  by (cases p; cases "fst p") (auto simp: answered_def)

lemma incident_page_own:
  assumes "tenant_request ai o' rq" and "db_uuid (cw_db w) o' = Some org" and "list_incidents_route ai rq w = (Inr p, w')"
  shows "shows_only org (cw_db w) (Incident_page p)"
proof -
  obtain limit offset where lo: "parse_limit_offset rq = (limit, offset)" by fastforce
  have "limit \<le> 100"
    using page_bounds [of rq] lo by simp
  obtain c w1 xs w2 where "on_store (list_incidents o' (query_param rq ''status'') (nat limit) (nat offset)) w1 = (Inr xs, w2)"
    and w1: "cw_db w1 = cw_db w" and "pg_items p = map incident_dto_of xs"
    by (rule route_answered [OF assms(3) [unfolded list_incidents_route_def] assms(1)])
       (auto simp: lo paginated_response_def split: prod.splits sum.splits)
  then show ?thesis
    using listed_rows [of o' _ limit _ w1 xs w2 org] assms(2) \<open>limit \<le> 100\<close> by fastforce
qed

lemma alert_page_own:
  assumes "tenant_request ai o' rq" and "db_uuid (cw_db w) o' = Some org" and "list_alerts_route ai rq w = (Inr p, w')"
  shows "shows_only org (cw_db w) (Alert_page p)"
proof -
  obtain limit offset where lo: "parse_limit_offset rq = (limit, offset)" by fastforce
  have "limit \<le> 100"
    using page_bounds [of rq] lo by simp
  obtain w1 xs w2 where "on_store (stmt (select_alerts o' (query_param rq ''status'') (query_param rq ''severity'')
        (nat limit) (nat offset)) (\<lambda>x. Done (Inr x))) w1 = (Inr xs, w2)"
    and w1: "cw_db w1 = cw_db w" and "pg_items p = map alert_dto_of xs"
    by (rule route_answered [OF assms(3) [unfolded list_alerts_route_def] assms(1)])
       (auto simp: lo paginated_response_def split: prod.splits sum.splits)
  then show ?thesis
    using listed_alerts [of o' _ _ limit _ w1 xs w2 org] assms(2) \<open>limit \<le> 100\<close> by fastforce
qed

text \<open>
  C29. Whatever a tenant asks for, the incidents and alerts in the answer are rows of its own organization, and a
  page has at most a hundred of them.
\<close>

theorem answers_show_own_rows:
  assumes "tenant_request ai o' rq" and "incidents_ok (cw_db w)" and "db_uuid (cw_db w) o' = Some org"
    and "run_case_call ai call rq w = (Inr ans, w')"
  shows "shows_only org (cw_db w) ans"
proof (cases call)
  case List_incidents
  then show ?thesis
    using assms(4) incident_page_own [OF assms(1,3)] by (auto simp: answered_Inr)
next
  case (Get_incident i)
  then obtain d es where p: "get_incident_route ai i rq w = (Inr (d, es), w')" "ans = Incident_history (d, es)"
    using assms(4) by (auto simp: answered_Inr)
  obtain w1 y w2 where g: "on_store (get_incident o' i) w1 = (Inr (Some y), w2)"
    and w1: "cw_db w1 = cw_db w" and d: "d = incident_dto_of y"
    by (rule route_answered [OF p(1) [unfolded get_incident_route_def] assms(1)])
       (auto split: prod.splits sum.splits option.splits)
  have "others_see org (db_uuid (cw_db w)) (foreign org (cw_db w)) (cw_db w1)"
    using assms(2) w1 by (simp add: others_see_def)
  from found_is_own [OF g this assms(3)] show ?thesis
    using p(2) d w1 by auto
next
  case List_alerts
  then show ?thesis
    using assms(4) alert_page_own [OF assms(1,3)] by (auto simp: answered_Inr)
next
  case (Get_alert i)
  then obtain d where p: "get_alert_route ai i rq w = (Inr d, w')" "ans = Alert_found d"
    using assms(4) by (auto simp: answered_Inr)
  obtain w1 r w2 where g: "on_store (stmt (select_alert i o') (\<lambda>x. Done (Inr x))) w1 = (Inr (Some r), w2)"
    and w1: "cw_db w1 = cw_db w" and d: "d = alert_dto_of r"
    by (rule route_answered [OF p(1) [unfolded get_alert_route_def] assms(1)])
       (auto split: prod.splits sum.splits option.splits)
  then show ?thesis
    using found_alert [OF g] assms(3) p(2) by auto
qed (use assms(4) in \<open>auto simp: answered_Inr\<close>)

section \<open>What a status change is answered with\<close>

definition transition_answer :: "database \<Rightarrow> string \<Rightarrow> string \<Rightarrow> string \<Rightarrow> exn + unit" where
  "transition_answer db org u s =
     (case row_of db u of
        None \<Rightarrow> Inl incident_not_found
      | Some r \<Rightarrow>
          if ir_organization_id r \<noteq> org then Inl incident_not_found
          else if \<not> is_valid_transition (ir_status r) s
          then Inl (APIError 409 ''INVALID_TRANSITION'' (''invalid incident transition '' @ ir_status r @ '' -> '' @ s) [])
          else if status_conflict db u s then Inl (UniqueViolation ''idx_incidents_one_active_per_machine'')
          else ok)"

lemma find_own_row:
  assumes "distinct (map ir_id rows)"
  shows "find (\<lambda>r. ir_id r = u \<and> ir_organization_id r = org) rows =
    (case find (\<lambda>r. ir_id r = u) rows of None \<Rightarrow> None | Some r \<Rightarrow> if ir_organization_id r = org then Some r else None)"
  using assms
proof (induction rows)
  case (Cons r rows)
  have "find (\<lambda>q. ir_id q = u \<and> ir_organization_id q = org) rows = None" if "ir_id r = u"
    using Cons.prems that unfolding find_None_iff by (metis distinct.simps(2) image_eqI list.simps(9) set_map)
  with Cons show ?case by auto
qed simp

lemma get_incident_run:
  assumes "all_ok db" and "incidents_ok db" and "db_uuid db o' = Some org" and "db_uuid db i = Some u"
  shows "run (get_incident o' i) db =
    (Inr (case row_of db u of None \<Rightarrow> None | Some r \<Rightarrow> if ir_organization_id r = org then Some (row_to_incident r) else None),
     ticked 1 db)"
  using assms find_own_row [OF incidents_distinct [OF assms(2)], of u org]
  by (simp add: get_incident_def exec_all_ok select_incident_def with_uuid_def row_of_def split: option.split)

text \<open>
  C30. With a working database, a request to change the status of an incident is answered with 404 when there is no
  such incident in the caller's organization, with 409 when the lifecycle forbids the change, and carried out
  otherwise, unless another incident is active on the machine: then the unique index raises an error that the
  route does not catch, which the client sees as an internal error. Nothing is written unless it is carried out.
\<close>

theorem transition_route_answers:
  assumes "parse_and_validate (ai_jwt ai) (api_now w) (bearer_token rq) (ai_access_secret ai) TOKEN_TYPE_ACCESS = Inr c"
    and "bearer_token rq \<noteq> []" and "PERM_INCIDENTS_MANAGE \<in> set (cl_permissions c)" and "s \<noteq> []"
    and "all_ok (cw_db w)" and "incidents_ok (cw_db w)" and "db_uuid (cw_db w) (cl_organization_id c) = Some org"
    and "db_uuid (cw_db w) i = Some u" and "db_uuid (cw_db w) (cl_user_id c) = Some (cl_user_id c)"
  shows "\<exists>res w'. transition_route ai i s n rq w = (res, w') \<and> res = transition_answer (cw_db w) org u s \<and>
    db_incidents (cw_db w') =
      (if res = ok then map (\<lambda>r. if ir_id r = u then with_status s (db_now (cw_db w)) r else r) (db_incidents (cw_db w))
       else db_incidents (cw_db w)) \<and>
    length (db_incident_events (cw_db w')) = length (db_incident_events (cw_db w)) + (if res = ok then 1 else 0)"
proof -
  let ?db = "cw_db w" and ?db1 = "ticked 1 (cw_db w)"
  have perm: "require_permission (ai_jwt ai) (ai_access_secret ai) PERM_INCIDENTS_MANAGE (api_now w) rq = Inr c"
    using assms(1,2,3) by (simp add: require_permission_def require_auth_def has_permission_def)
  have get: "on_store (get_incident (cl_organization_id c) i) w =
      (Inr (case row_of ?db u of None \<Rightarrow> None | Some r \<Rightarrow> if ir_organization_id r = org then Some (row_to_incident r) else None),
       w\<lparr>cw_db := ?db1\<rparr>)"
    by (simp add: on_store_def get_incident_run [OF assms(5-8)])
  have same: "row_of ?db1 u = row_of ?db u" "status_conflict ?db1 u s = status_conflict ?db u s" "db_now ?db1 = db_now ?db"
    by (simp_all add: row_of_def status_conflict_def)
  have run: "run (transition i s (Some (cl_user_id c)) n) ?db1 =
    (case row_of ?db u of
       None \<Rightarrow> (Inl (RuntimeError (''load incident '' @ i @ '': not found'')), ticked 1 ?db1)
     | Some r \<Rightarrow>
         if \<not> is_valid_transition (ir_status r) s
         then (Inl (ValueError (''invalid incident transition '' @ ir_status r @ '' -> '' @ s)), ticked 1 ?db1)
         else if status_conflict ?db u s
         then (Inl (UniqueViolation ''idx_incidents_one_active_per_machine''), ticked 2 ?db1)
         else (ok, (update_incident u (with_status s (db_now ?db)) (ticked 3 ?db1))
                \<lparr>db_incident_events := db_incident_events ?db1 @ [change_event ?db1 u (Some (cl_user_id c)) (ir_status r) s n],
                 db_next := Suc (db_next ?db1)\<rparr>))"
    using run_transition [of ?db1 i u "Some (cl_user_id c)" s n] assms(5,8,9) unfolding same by simp
  have "transition_route ai i s n rq w =
      if_own_incident i c (\<lambda>w1. map_error lifecycle_error (on_store (transition i s (Some (cl_user_id c)) n) w1)) w"
    using perm assms(4) by (simp add: transition_route_def route_def limited_def apply_limit_def permitted_def)
  moreover have "on_store (transition i s (Some (cl_user_id c)) n) (w\<lparr>cw_db := ?db1\<rparr>) =
      (case run (transition i s (Some (cl_user_id c)) n) ?db1 of (r, db) \<Rightarrow> (r, w\<lparr>cw_db := db\<rparr>))"
    by (simp add: on_store_def)
  ultimately show ?thesis
    by (auto simp: if_own_incident_def get run [simplified] map_error_def lifecycle_error_def transition_answer_def
        update_incident_def split: option.split)
qed

section \<open>A concrete tenant\<close>

definition demo_case_api :: api where
  "demo_case_api = demo_api\<lparr>ai_jwt := demo_fixed_jwt\<rparr>"

definition demo_case_world :: "incident_row list \<Rightarrow> case_world" where
  "demo_case_world rows = \<lparr>ap_auth = demo_auth_world, ap_rate = Map.empty, cw_db = demo_database rows\<rparr>"

definition demo_foreign :: incident_row where
  "demo_foreign = (demo_incident ''OPEN'')\<lparr>ir_id := ''0'', ir_organization_id := ''other'', ir_machine_id := None\<rparr>"

lemma demo_claims_good:
  "parse_and_validate (ai_jwt demo_case_api) now (bearer_token (demo_request ''1.2.3.4'' ''t'')) (ai_access_secret demo_case_api)
     TOKEN_TYPE_ACCESS = Inr (claims_of demo_payload)"
  by (simp add: demo_case_api_def demo_request_def bearer_token_def demo_fixed_jwt_reads)

lemma demo_claims_manage [simp]: "PERM_INCIDENTS_MANAGE \<in> set (cl_permissions (claims_of demo_payload))"
  by (simp add: claims_of_def demo_payload_def)

lemma demo_tenant: "tenant_request demo_case_api ''org'' (demo_request ''1.2.3.4'' ''t'')"
  by (simp add: tenant_request_def demo_claims_good)

lemma inj_str_nat: "inj str_nat"
  using demo_database_ok(1) incidents_inj [of "demo_database []"] by (simp add: demo_database_def)

lemma demo_rows_ok: "incidents_ok (demo_database [demo_incident st, demo_foreign])"
proof (rule incidents_okI)
  show "inj (db_ids (demo_database [demo_incident st, demo_foreign]))"
    using inj_str_nat by (simp add: demo_database_def)
next
  fix r
  assume "r \<in> set (db_incidents (demo_database [demo_incident st, demo_foreign]))"
  moreover have "str_nat 0 = ''0''" and "str_nat 1 = ''1''"
    by code_simp+
  ultimately show "\<exists>n<db_next (demo_database [demo_incident st, demo_foreign]).
      ir_id r = db_ids (demo_database [demo_incident st, demo_foreign]) n"
    by (auto simp: demo_database_def demo_incident_def demo_foreign_def intro: exI [of _ 0] exI [of _ 1])
qed (auto simp: demo_database_def demo_incident_def demo_foreign_def active_on_def)

theorem tenant_cannot_touch_others_witness:
  "foreign ''org'' (cw_db (fold (\<lambda>(call, rq) v. snd (run_case_call demo_case_api call rq v))
      [(Resolve_incident ''0'' ''gone'', demo_request ''1.2.3.4'' ''t''), (List_incidents, demo_request ''1.2.3.4'' ''t'')]
      (demo_case_world [demo_incident ''OPEN'', demo_foreign]))) = ([demo_foreign], [], [])"
proof -
  let ?w = "demo_case_world [demo_incident ''OPEN'', demo_foreign]"
  let ?calls = "[(Resolve_incident ''0'' ''gone'', demo_request ''1.2.3.4'' ''t''), (List_incidents, demo_request ''1.2.3.4'' ''t'')]"
  have "\<forall>(call, rq)\<in>set ?calls. tenant_request demo_case_api ''org'' rq"
    using demo_tenant by simp
  moreover have "incidents_ok (cw_db ?w)" and "db_uuid (cw_db ?w) ''org'' = Some ''org''"
    by (simp_all add: demo_case_world_def demo_rows_ok) (simp add: demo_database_def)
  ultimately have "foreign ''org'' (cw_db (fold (\<lambda>(call, rq) v. snd (run_case_call demo_case_api call rq v)) ?calls ?w)) =
      foreign ''org'' (cw_db ?w)"
    by (rule tenant_cannot_touch_others)
  also have "foreign ''org'' (cw_db ?w) = ([demo_foreign], [], [])"
    by (simp add: foreign_def demo_case_world_def demo_database_def demo_incident_def demo_foreign_def)
  finally show ?thesis .
qed

theorem transition_route_answers_witness:
  "fst (transition_route demo_case_api ''1'' ''RESOLVED'' ''done'' (demo_request ''1.2.3.4'' ''t'')
     (demo_case_world [demo_incident ''OPEN'', demo_foreign])) = ok \<and>
   fst (transition_route demo_case_api ''0'' ''RESOLVED'' ''done'' (demo_request ''1.2.3.4'' ''t'')
     (demo_case_world [demo_incident ''OPEN'', demo_foreign])) = Inl incident_not_found"
proof -
  let ?w = "demo_case_world [demo_incident ''OPEN'', demo_foreign]" and ?rq = "demo_request ''1.2.3.4'' ''t''"
  have tok: "bearer_token ?rq \<noteq> []"
    by (simp add: demo_request_def bearer_token_def)
  have db: "all_ok (cw_db ?w)" "incidents_ok (cw_db ?w)" "\<And>s. s \<noteq> [] \<Longrightarrow> db_uuid (cw_db ?w) s = Some s"
    by (simp_all add: demo_case_world_def demo_rows_ok) (simp add: demo_database_def)
  have run: "\<exists>res w'. transition_route demo_case_api i ''RESOLVED'' ''done'' ?rq ?w = (res, w') \<and>
      res = transition_answer (cw_db ?w) ''org'' i ''RESOLVED''" if "i \<noteq> []" for i
    using transition_route_answers [OF demo_claims_good tok _ _ db(1,2), of "''RESOLVED''" "''org''" i i "''done''"] db(3) that by auto
  have "transition_answer (cw_db ?w) ''org'' ''1'' ''RESOLVED'' = ok"
    "transition_answer (cw_db ?w) ''org'' ''0'' ''RESOLVED'' = Inl incident_not_found"
    by (simp_all add: transition_answer_def row_of_def demo_case_world_def demo_database_def demo_incident_def demo_foreign_def
        is_valid_transition_def valid_transitions_def status_conflict_def)
  then show ?thesis
    using run [of "''1''"] run [of "''0''"] by auto
qed

theorem answers_show_own_rows_witness:
  "\<exists>ans w'. run_case_call demo_case_api List_incidents (demo_request ''1.2.3.4'' ''t'')
      (demo_case_world [demo_incident ''OPEN'', demo_foreign]) = (Inr ans, w') \<and>
    shows_only ''org'' (demo_database [demo_incident ''OPEN'', demo_foreign]) ans"
proof -
  let ?w = "demo_case_world [demo_incident ''OPEN'', demo_foreign]" and ?rq = "demo_request ''1.2.3.4'' ''t''"
  have perm: "require_permission (ai_jwt demo_case_api) (ai_access_secret demo_case_api) PERM_INCIDENTS_READ (api_now ?w) ?rq =
      Inr (claims_of demo_payload)"
    using demo_claims_good by (simp add: require_permission_def require_auth_def demo_request_def bearer_token_def has_permission_def
        claims_of_def demo_payload_def)
  have db: "all_ok (cw_db ?w)" "incidents_ok (cw_db ?w)" "db_uuid (cw_db ?w) ''org'' = Some ''org''"
    by (simp_all add: demo_case_world_def demo_rows_ok) (simp add: demo_database_def)
  obtain limit offset where lo: "parse_limit_offset ?rq = (limit, offset)" by fastforce
  obtain ans w' where r: "run_case_call demo_case_api List_incidents ?rq ?w = (Inr ans, w')"
    using perm db(1,3)
    by (auto simp: lo list_incidents_route_def route_def limited_def apply_limit_def permitted_def on_store_def list_incidents_def
        exec_all_ok select_incidents_def with_uuid_def answered_def split: prod.splits)
  then show ?thesis
    using answers_show_own_rows [OF demo_tenant db(2,3) r] by (simp add: demo_case_world_def)
qed

end
