(* ===== verification/Api_Fleet.thy ===== *)
theory Api_Fleet
  imports Api_Access Database
begin

text \<open>
  \<open>handlers_factories.py\<close>, \<open>handlers_devices.py\<close> and the device gauge of the API's \<open>main.py\<close>: the tables of
  factories, production lines, machines, devices, sensors and device credentials, and the routes
  over them. Each statement takes the next reply of a sequence; a transaction that raises anywhere,
  its commit included, leaves the tables as they were. Where a statement orders by a text, the
  collation is the rank \<open>fl_rank\<close>. \<open>secrets.token_hex\<close> is the next of a sequence.
\<close>

section \<open>Tables\<close>

record factory_row =
  fy_id :: string
  fy_organization_id :: string
  fy_name :: string
  fy_city :: "string option"
  fy_country :: string

record line_row =
  ln_id :: string
  ln_factory_id :: string
  ln_name :: string

record machine_row =
  mc_id :: string
  mc_production_line_id :: string
  mc_name :: string
  mc_machine_type :: string
  mc_status :: string

record device_row =
  dv_id :: string
  dv_machine_id :: string
  dv_organization_id :: string
  dv_serial_number :: string
  dv_status :: string
  dv_firmware_version :: "string option"

record sensor_row =
  se_id :: string
  se_device_id :: string
  se_metric :: string
  se_unit :: string
  se_min :: "real option"
  se_max :: "real option"

record credential_row =
  ce_device_id :: string
  ce_hash :: string
  ce_active :: bool

record fleet =
  fl_factories :: "factory_row list"
  fl_lines :: "line_row list"
  fl_machines :: "machine_row list"
  fl_devices :: "device_row list"
  fl_sensors :: "sensor_row list"
  fl_credentials :: "credential_row list"
  fl_ids :: "nat \<Rightarrow> string"
  fl_next :: nat
  fl_uuid :: "string \<Rightarrow> string option"
  fl_rank :: "string \<Rightarrow> int"
  fl_replies :: "nat \<Rightarrow> reply"
  fl_tick :: nat

section \<open>Statements and transactions\<close>

type_synonym ('z, 'a) on_tables = "'z fleet_scheme \<Rightarrow> (exn + 'a) \<times> 'z fleet_scheme"
type_synonym 'a query = "(unit, 'a) on_tables"

definition execute :: "('z, 'a) on_tables \<Rightarrow> ('z, 'a) on_tables" where
  "execute q db =
     (let db0 = db\<lparr>fl_tick := Suc (fl_tick db)\<rparr>; (r, db') = q db0
      in case fl_replies db (fl_tick db) of Reply_ok \<Rightarrow> (r, db') | Reply_raises e took \<Rightarrow> (Inl e, if took then db' else db0))"

text \<open>Sequencing: an exception ends the sequence.\<close>

definition andthen :: "('z, 'a) on_tables \<Rightarrow> ('a \<Rightarrow> ('z, 'b) on_tables) \<Rightarrow> ('z, 'b) on_tables" where
  "andthen q k db = (case q db of (Inl e, db') \<Rightarrow> (Inl e, db') | (Inr x, db') \<Rightarrow> k x db')"

definition roll_back :: "'z fleet_scheme \<Rightarrow> 'z fleet_scheme \<Rightarrow> 'z fleet_scheme" where
  "roll_back before after = before\<lparr>fl_tick := fl_tick after, fl_next := fl_next after\<rparr>"

text \<open>\<open>with conn.transaction()\<close>: the body, then the commit. A commit that raises may still have taken effect.\<close>

definition transaction :: "('z, 'a) on_tables \<Rightarrow> ('z, 'a) on_tables" where
  "transaction body db =
     (case body db of
        (Inl e, db') \<Rightarrow> (Inl e, roll_back db db')
      | (Inr x, db') \<Rightarrow>
          (let db'' = db'\<lparr>fl_tick := Suc (fl_tick db')\<rparr>
           in case fl_replies db' (fl_tick db') of
                Reply_ok \<Rightarrow> (Inr x, db'')
              | Reply_raises e took \<Rightarrow> (Inl e, if took then db'' else roll_back db db'')))"

definition uuid_arg :: "string \<Rightarrow> (string \<Rightarrow> ('z, 'a) on_tables) \<Rightarrow> ('z, 'a) on_tables" where
  "uuid_arg s q db = (case fl_uuid db s of None \<Rightarrow> (Inl DataError, db) | Some u \<Rightarrow> q u db)"

definition answer :: "(fleet \<Rightarrow> 'a) \<Rightarrow> 'a query" where
  "answer f db = (Inr (f db), db)"

section \<open>Who owns what\<close>

definition factory_of_org :: "string \<Rightarrow> string \<Rightarrow> fleet \<Rightarrow> bool" where
  "factory_of_org f org db \<longleftrightarrow> (\<exists>r\<in>set (fl_factories db). fy_id r = f \<and> fy_organization_id r = org)"

definition line_of_org :: "string \<Rightarrow> string \<Rightarrow> fleet \<Rightarrow> bool" where
  "line_of_org l org db \<longleftrightarrow> (\<exists>r\<in>set (fl_lines db). ln_id r = l \<and> factory_of_org (ln_factory_id r) org db)"

definition machine_of_org :: "string \<Rightarrow> string \<Rightarrow> fleet \<Rightarrow> bool" where
  "machine_of_org m org db \<longleftrightarrow> (\<exists>r\<in>set (fl_machines db). mc_id r = m \<and> line_of_org (mc_production_line_id r) org db)"

definition device_of_org :: "string \<Rightarrow> string \<Rightarrow> fleet \<Rightarrow> bool" where
  "device_of_org d org db \<longleftrightarrow> (\<exists>r\<in>set (fl_devices db). dv_id r = d \<and> dv_organization_id r = org)"

text \<open>A predicate on an identifier and an organization, both texts of the request.\<close>

definition owned_by :: "(string \<Rightarrow> string \<Rightarrow> fleet \<Rightarrow> bool) \<Rightarrow> string \<Rightarrow> string \<Rightarrow> bool query" where
  "owned_by P i org_id = execute (uuid_arg i (\<lambda>u. uuid_arg org_id (\<lambda>org. answer (P u org))))"

section \<open>Answers\<close>

record factory_dto =
  fo_id :: string
  fo_name :: string
  fo_city :: "string option"
  fo_country :: string

record line_dto =
  lo_id :: string
  lo_name :: string

record machine_dto =
  mo_id :: string
  mo_name :: string
  mo_machine_type :: string
  mo_status :: string

record device_dto =
  do_id :: string
  do_serial_number :: string
  do_status :: string
  do_firmware_version :: "string option"

record sensor_dto =
  so_id :: string
  so_metric :: string
  so_unit :: string
  so_min_operating_value :: real
  so_max_operating_value :: real

definition factory_dto_of :: "factory_row \<Rightarrow> factory_dto" where
  "factory_dto_of r = \<lparr>fo_id = fy_id r, fo_name = fy_name r, fo_city = fy_city r, fo_country = fy_country r\<rparr>"

definition line_dto_of :: "line_row \<Rightarrow> line_dto" where
  "line_dto_of r = \<lparr>lo_id = ln_id r, lo_name = ln_name r\<rparr>"

definition machine_dto_of :: "machine_row \<Rightarrow> machine_dto" where
  "machine_dto_of r = \<lparr>mo_id = mc_id r, mo_name = mc_name r, mo_machine_type = mc_machine_type r, mo_status = mc_status r\<rparr>"

definition device_dto_of :: "device_row \<Rightarrow> device_dto" where
  "device_dto_of r =
     \<lparr>do_id = dv_id r, do_serial_number = dv_serial_number r, do_status = dv_status r, do_firmware_version = dv_firmware_version r\<rparr>"

definition sensor_dto_of :: "sensor_row \<Rightarrow> sensor_dto" where
  "sensor_dto_of r =
     \<lparr>so_id = se_id r, so_metric = se_metric r, so_unit = se_unit r,
      so_min_operating_value = (case se_min r of None \<Rightarrow> 0 | Some x \<Rightarrow> x),
      so_max_operating_value = (case se_max r of None \<Rightarrow> 0 | Some x \<Rightarrow> x)\<rparr>"

section \<open>The routes on factories, lines and machines\<close>

record fleet_world = api_world +
  fw_db :: fleet
  fw_secrets :: "nat \<Rightarrow> nat list"
  fw_secret_tick :: nat

definition on_fleet :: "'a query \<Rightarrow> 'z fleet_world_scheme \<Rightarrow> (exn + 'a) \<times> 'z fleet_world_scheme" where
  "on_fleet q w = (case q (fw_db w) of (r, db) \<Rightarrow> (r, w\<lparr>fw_db := db\<rparr>))"

definition not_found :: "string \<Rightarrow> exn" where
  "not_found what = APIError 404 ''NOT_FOUND'' (what @ '' does not exist'') []"

text \<open>\<open>fetchone\<close>, with 404 for no row.\<close>

definition found_or :: "exn \<Rightarrow> ('r \<Rightarrow> 'a) \<Rightarrow> 'r option query \<Rightarrow> 'a query" where
  "found_or e dto q = andthen q (\<lambda>row. case row of None \<Rightarrow> (\<lambda>db. (Inl e, db)) | Some r \<Rightarrow> answer (\<lambda>_. dto r))"

text \<open>A listing below a parent that has to be the tenant's own; its answer is not paged.\<close>

definition children :: "bool query \<Rightarrow> exn \<Rightarrow> ('r \<Rightarrow> 'a) \<Rightarrow> 'r list query \<Rightarrow> 'a page query" where
  "children own missing dto rows =
     andthen own (\<lambda>yes. if \<not> yes then (\<lambda>db. (Inl missing, db))
       else andthen rows (\<lambda>xs. answer (\<lambda>_. paginated_response (map dto xs) (int (length xs)) 0)))"

definition select_factories :: "string \<Rightarrow> nat \<Rightarrow> nat \<Rightarrow> factory_row list query" where
  "select_factories org_id limit offset =
     execute (uuid_arg org_id (\<lambda>org. answer (\<lambda>db. take limit (drop offset
       (sort_key (\<lambda>r. fl_rank db (fy_name r)) (filter (\<lambda>r. fy_organization_id r = org) (fl_factories db)))))))"

definition or_internal :: "(exn + 'a) \<times> 'w \<Rightarrow> (exn + 'a) \<times> 'w" where
  "or_internal p = (case p of (Inl e, w) \<Rightarrow> (Inl (internal_error e), w) | (Inr x, w) \<Rightarrow> (Inr x, w))"

definition list_factories_route :: "api \<Rightarrow> request \<Rightarrow> fleet_world \<Rightarrow> (exn + factory_dto page) \<times> fleet_world" where
  "list_factories_route ai rq =
     route ai Default_limit PERM_FACTORIES_READ (\<lambda>claims w.
       let (limit, offset) = parse_limit_offset rq
       in case or_internal (on_fleet (select_factories (cl_organization_id claims) (nat limit) (nat offset)) w) of
            (Inl e, w1) \<Rightarrow> (Inl e, w1)
          | (Inr rows, w1) \<Rightarrow> (Inr (paginated_response (map factory_dto_of rows) limit offset), w1)) rq"

definition get_factory_route :: "api \<Rightarrow> string \<Rightarrow> request \<Rightarrow> fleet_world \<Rightarrow> (exn + factory_dto) \<times> fleet_world" where
  "get_factory_route ai i =
     route ai Unlimited PERM_FACTORIES_READ (\<lambda>claims.
       on_fleet (found_or (not_found ''factory'') factory_dto_of
         (execute (uuid_arg i (\<lambda>u. uuid_arg (cl_organization_id claims) (\<lambda>org. answer (\<lambda>db.
            find (\<lambda>r. fy_id r = u \<and> fy_organization_id r = org) (fl_factories db))))))))"

definition select_lines :: "string \<Rightarrow> line_row list query" where
  "select_lines i = execute (uuid_arg i (\<lambda>u. answer (\<lambda>db.
     sort_key (\<lambda>r. fl_rank db (ln_name r)) (filter (\<lambda>r. ln_factory_id r = u) (fl_lines db)))))"

definition list_production_lines_route :: "api \<Rightarrow> string \<Rightarrow> request \<Rightarrow> fleet_world \<Rightarrow> (exn + line_dto page) \<times> fleet_world" where
  "list_production_lines_route ai i =
     route ai Unlimited PERM_FACTORIES_READ (\<lambda>claims.
       on_fleet (children (owned_by factory_of_org i (cl_organization_id claims)) (not_found ''factory'') line_dto_of (select_lines i)))"

definition get_machine_route :: "api \<Rightarrow> string \<Rightarrow> request \<Rightarrow> fleet_world \<Rightarrow> (exn + machine_dto) \<times> fleet_world" where
  "get_machine_route ai i =
     route ai Unlimited PERM_FACTORIES_READ (\<lambda>claims.
       on_fleet (found_or (not_found ''machine'') machine_dto_of
         (execute (uuid_arg i (\<lambda>u. uuid_arg (cl_organization_id claims) (\<lambda>org. answer (\<lambda>db.
            find (\<lambda>r. mc_id r = u \<and> line_of_org (mc_production_line_id r) org db) (fl_machines db))))))))"

definition select_machines :: "string \<Rightarrow> machine_row list query" where
  "select_machines i = execute (uuid_arg i (\<lambda>u. answer (\<lambda>db.
     sort_key (\<lambda>r. fl_rank db (mc_name r)) (filter (\<lambda>r. mc_production_line_id r = u) (fl_machines db)))))"

definition list_line_machines_route :: "api \<Rightarrow> string \<Rightarrow> request \<Rightarrow> fleet_world \<Rightarrow> (exn + machine_dto page) \<times> fleet_world" where
  "list_line_machines_route ai i =
     route ai Unlimited PERM_FACTORIES_READ (\<lambda>claims.
       on_fleet (children (owned_by line_of_org i (cl_organization_id claims)) (not_found ''production line'') machine_dto_of (select_machines i)))"

text \<open>No check of the machine first: one that is not the tenant's own has no devices to show.\<close>

definition list_machine_devices_route :: "api \<Rightarrow> string \<Rightarrow> request \<Rightarrow> fleet_world \<Rightarrow> (exn + device_dto page) \<times> fleet_world" where
  "list_machine_devices_route ai i =
     route ai Unlimited PERM_DEVICES_READ (\<lambda>claims.
       on_fleet (andthen (execute (uuid_arg i (\<lambda>u. uuid_arg (cl_organization_id claims) (\<lambda>org. answer (\<lambda>db.
           sort_key (\<lambda>r. fl_rank db (dv_serial_number r))
             (filter (\<lambda>r. dv_machine_id r = u \<and> machine_of_org u org db) (fl_devices db)))))))
         (\<lambda>xs. answer (\<lambda>_. paginated_response (map device_dto_of xs) (int (length xs)) 0))))"

section \<open>The routes on devices\<close>

definition select_devices :: "string \<Rightarrow> string \<Rightarrow> nat \<Rightarrow> nat \<Rightarrow> device_row list query" where
  "select_devices org_id status_filter limit offset =
     execute (uuid_arg org_id (\<lambda>org. answer (\<lambda>db. take limit (drop offset
       (sort_key (\<lambda>r. fl_rank db (dv_serial_number r))
          (filter (\<lambda>r. dv_organization_id r = org \<and> (status_filter = [] \<or> dv_status r = status_filter)) (fl_devices db)))))))"

definition list_devices_route :: "api \<Rightarrow> request \<Rightarrow> fleet_world \<Rightarrow> (exn + device_dto page) \<times> fleet_world" where
  "list_devices_route ai rq =
     route ai Default_limit PERM_DEVICES_READ (\<lambda>claims w.
       let (limit, offset) = parse_limit_offset rq
       in case or_internal (on_fleet (select_devices (cl_organization_id claims) (query_param rq ''status'') (nat limit) (nat offset)) w) of
            (Inl e, w1) \<Rightarrow> (Inl e, w1)
          | (Inr rows, w1) \<Rightarrow> (Inr (paginated_response (map device_dto_of rows) limit offset), w1)) rq"

definition get_device_route :: "api \<Rightarrow> string \<Rightarrow> request \<Rightarrow> fleet_world \<Rightarrow> (exn + device_dto) \<times> fleet_world" where
  "get_device_route ai i =
     route ai Unlimited PERM_DEVICES_READ (\<lambda>claims.
       on_fleet (found_or (not_found ''device'') device_dto_of
         (execute (uuid_arg i (\<lambda>u. uuid_arg (cl_organization_id claims) (\<lambda>org. answer (\<lambda>db.
            find (\<lambda>r. dv_id r = u \<and> dv_organization_id r = org) (fl_devices db))))))))"

definition select_sensors :: "string \<Rightarrow> sensor_row list query" where
  "select_sensors i = execute (uuid_arg i (\<lambda>u. answer (\<lambda>db.
     sort_key (\<lambda>r. fl_rank db (se_metric r)) (filter (\<lambda>r. se_device_id r = u) (fl_sensors db)))))"

definition list_device_sensors_route :: "api \<Rightarrow> string \<Rightarrow> request \<Rightarrow> fleet_world \<Rightarrow> (exn + sensor_dto page) \<times> fleet_world" where
  "list_device_sensors_route ai i =
     route ai Unlimited PERM_DEVICES_READ (\<lambda>claims.
       on_fleet (children (owned_by device_of_org i (cl_organization_id claims)) (not_found ''device'') sensor_dto_of (select_sensors i)))"

definition insert_device :: "string \<Rightarrow> string \<Rightarrow> string \<Rightarrow> string \<Rightarrow> device_row query" where
  "insert_device machine_id org_id serial_number firmware =
     execute (uuid_arg machine_id (\<lambda>m. uuid_arg org_id (\<lambda>org db.
       if \<exists>r\<in>set (fl_devices db). dv_serial_number r = serial_number then (Inl (UniqueViolation ''devices_serial_number_key''), db)
       else if \<not> (\<exists>r\<in>set (fl_machines db). mc_id r = m) then (Inl (ForeignKeyViolation ''devices_machine_id_fkey''), db)
       else let row = \<lparr>dv_id = fl_ids db (fl_next db), dv_machine_id = m, dv_organization_id = org,
                       dv_serial_number = serial_number, dv_status = ''PROVISIONED'', dv_firmware_version = Some firmware\<rparr>
            in (Inr row, db\<lparr>fl_devices := fl_devices db @ [row], fl_next := Suc (fl_next db)\<rparr>))))"

definition active_for :: "string \<Rightarrow> credential_row \<Rightarrow> bool" where
  "active_for d c \<longleftrightarrow> ce_device_id c = d \<and> ce_active c"

definition insert_credential :: "string \<Rightarrow> string \<Rightarrow> ('z, unit) on_tables" where
  "insert_credential device_id hash =
     execute (uuid_arg device_id (\<lambda>d db.
       if \<not> (\<exists>r\<in>set (fl_devices db). dv_id r = d) then (Inl (ForeignKeyViolation ''device_credentials_device_id_fkey''), db)
       else if \<exists>c\<in>set (fl_credentials db). active_for d c then (Inl (UniqueViolation ''idx_device_credentials_one_active''), db)
       else (ok, db\<lparr>fl_credentials := fl_credentials db @ [\<lparr>ce_device_id = d, ce_hash = hash, ce_active = True\<rparr>]\<rparr>)))"

definition deactivate :: "string \<Rightarrow> credential_row list \<Rightarrow> credential_row list" where
  "deactivate d cs = map (\<lambda>c. if active_for d c then c\<lparr>ce_active := False\<rparr> else c) cs"

definition deactivate_credentials :: "string \<Rightarrow> unit query" where
  "deactivate_credentials device_id =
     execute (uuid_arg device_id (\<lambda>d db. (ok, db\<lparr>fl_credentials := deactivate d (fl_credentials db)\<rparr>)))"

definition draw_secret :: "fleet_world \<Rightarrow> nat list \<times> fleet_world" where
  "draw_secret w = (fw_secrets w (fw_secret_tick w), w\<lparr>fw_secret_tick := Suc (fw_secret_tick w)\<rparr>)"

definition store_device :: "string \<Rightarrow> string \<Rightarrow> string \<Rightarrow> string \<Rightarrow> string \<Rightarrow> device_row query" where
  "store_device machine_id org_id serial_number firmware hash =
     transaction (andthen (insert_device machine_id org_id serial_number firmware) (\<lambda>row.
       andthen (insert_credential (dv_id row) hash) (\<lambda>_. answer (\<lambda>_. row))))"

definition provision_error :: "exn \<Rightarrow> exn" where
  "provision_error e =
     (case e of
        UniqueViolation _ \<Rightarrow> APIError 409 ''CONFLICT'' ''a device with this serial_number already exists'' []
      | _ \<Rightarrow> internal_error e)"

definition provision_device ::
  "bcrypt_library \<Rightarrow> string \<Rightarrow> string \<Rightarrow> string \<Rightarrow> claims \<Rightarrow> fleet_world \<Rightarrow> (exn + (device_dto \<times> nat list)) \<times> fleet_world" where
  "provision_device bc machine_id serial_number firmware_version claims w =
     (if machine_id = [] \<or> serial_number = []
      then (Inl (APIError 400 ''VALIDATION_ERROR'' ''machine_id and serial_number are required'' []), w)
      else case on_fleet (owned_by machine_of_org machine_id (cl_organization_id claims)) w of
             (Inl e, w1) \<Rightarrow> (Inl e, w1)
           | (Inr machine_exists, w1) \<Rightarrow>
               if \<not> machine_exists
               then (Inl (APIError 400 ''VALIDATION_ERROR'' ''machine_id does not belong to your organization'' []), w1)
               else let (secret, w2) = draw_secret w1
                    in case hash_password bc secret of
                         Inl e \<Rightarrow> (Inl e, w2)
                       | Inr password_hash \<Rightarrow>
                           (let firmware = (if firmware_version = [] then ''unknown'' else firmware_version)
                            in case on_fleet (store_device machine_id (cl_organization_id claims) serial_number firmware password_hash) w2 of
                                 (Inl e, w3) \<Rightarrow> (Inl (provision_error e), w3)
                               | (Inr row, w3) \<Rightarrow> (Inr (device_dto_of row, secret), w3)))"

definition provision_device_route ::
  "api \<Rightarrow> bcrypt_library \<Rightarrow> string \<Rightarrow> string \<Rightarrow> string \<Rightarrow> request \<Rightarrow> fleet_world \<Rightarrow> (exn + (device_dto \<times> nat list)) \<times> fleet_world" where
  "provision_device_route ai bc machine_id serial_number firmware_version =
     route ai Default_limit PERM_DEVICES_WRITE (provision_device bc machine_id serial_number firmware_version)"

definition replace_credential :: "string \<Rightarrow> string \<Rightarrow> unit query" where
  "replace_credential device_id hash =
     transaction (andthen (deactivate_credentials device_id) (\<lambda>_. insert_credential device_id hash))"

definition rotate_credentials :: "bcrypt_library \<Rightarrow> string \<Rightarrow> claims \<Rightarrow> fleet_world \<Rightarrow> (exn + nat list) \<times> fleet_world" where
  "rotate_credentials bc i claims w =
     (case on_fleet (owned_by device_of_org i (cl_organization_id claims)) w of
        (Inl e, w1) \<Rightarrow> (Inl e, w1)
      | (Inr yes, w1) \<Rightarrow>
          if \<not> yes then (Inl (not_found ''device''), w1)
          else let (secret, w2) = draw_secret w1
               in case hash_password bc secret of
                    Inl e \<Rightarrow> (Inl e, w2)
                  | Inr password_hash \<Rightarrow>
                      (case on_fleet (replace_credential i password_hash) w2 of
                         (Inl e, w3) \<Rightarrow> (Inl (internal_error e), w3)
                       | (Inr _, w3) \<Rightarrow> (Inr secret, w3)))"

definition rotate_credentials_route :: "api \<Rightarrow> bcrypt_library \<Rightarrow> string \<Rightarrow> request \<Rightarrow> fleet_world \<Rightarrow> (exn + nat list) \<times> fleet_world" where
  "rotate_credentials_route ai bc i = route ai Default_limit PERM_DEVICES_WRITE (rotate_credentials bc i)"

definition own_device_row :: "string \<Rightarrow> string \<Rightarrow> device_row \<Rightarrow> bool" where
  "own_device_row d org r \<longleftrightarrow> dv_id r = d \<and> dv_organization_id r = org"

definition retire :: "string \<Rightarrow> string \<Rightarrow> device_row list \<Rightarrow> device_row list" where
  "retire d org rs = map (\<lambda>r. if own_device_row d org r then r\<lparr>dv_status := ''DECOMMISSIONED''\<rparr> else r) rs"

definition update_decommissioned :: "string \<Rightarrow> string \<Rightarrow> nat query" where
  "update_decommissioned i org_id =
     execute (uuid_arg i (\<lambda>d. uuid_arg org_id (\<lambda>org db.
       (Inr (length (filter (own_device_row d org) (fl_devices db))),
        db\<lparr>fl_devices := retire d org (fl_devices db)\<rparr>))))"

definition decommission_device :: "string \<Rightarrow> claims \<Rightarrow> fleet_world \<Rightarrow> (exn + unit) \<times> fleet_world" where
  "decommission_device i claims w =
     (case on_fleet (update_decommissioned i (cl_organization_id claims)) w of
        (Inl e, w1) \<Rightarrow> (Inl e, w1)
      | (Inr n, w1) \<Rightarrow> if n = 0 then (Inl (not_found ''device''), w1) else (ok, w1))"

definition decommission_device_route :: "api \<Rightarrow> string \<Rightarrow> request \<Rightarrow> fleet_world \<Rightarrow> (exn + unit) \<times> fleet_world" where
  "decommission_device_route ai i = route ai Default_limit PERM_DEVICES_WRITE (decommission_device i)"

section \<open>The device gauge\<close>

definition device_statuses :: "string list" where
  "device_statuses = [''PROVISIONED'', ''ACTIVE'', ''OFFLINE'', ''MAINTENANCE'', ''DECOMMISSIONED'']"

text \<open>\<open>SELECT status, count(*) ... GROUP BY status\<close>\<close>

definition count_by_status :: "(string \<times> nat) list query" where
  "count_by_status =
     execute (answer (\<lambda>db. let ss = map dv_status (fl_devices db) in map (\<lambda>s. (s, count_list ss s)) (remdups ss)))"

text \<open>One round of the refresher; a failing query leaves the gauge as it is.\<close>

definition device_gauge_tick :: "fleet \<times> (string \<Rightarrow> nat) \<Rightarrow> fleet \<times> (string \<Rightarrow> nat)" where
  "device_gauge_tick p =
     (case p of (db, g) \<Rightarrow>
        (case count_by_status db of
           (Inl e, db') \<Rightarrow> (db', g)
         | (Inr rows, db') \<Rightarrow>
             (let g1 = fold (\<lambda>(status, n) g. g(status := n)) rows g;
                  seen = map fst rows
              in (db', fold (\<lambda>s g. if s \<notin> set seen then g(s := 0) else g) device_statuses g1))))"

section \<open>What statements and transactions leave\<close>

text \<open>The tables are as they were; the sequences may have moved on.\<close>

definition same_tables :: "fleet \<Rightarrow> fleet \<Rightarrow> bool" where
  "same_tables db db' \<longleftrightarrow> (\<exists>n t. fl_next db \<le> n \<and> db' = db\<lparr>fl_next := n, fl_tick := t\<rparr>)"

lemma same_tables_refl [simp]: "same_tables db db"
  unfolding same_tables_def by (intro exI [of _ "fl_next db"] exI [of _ "fl_tick db"]) simp

lemma same_tables_tick [simp]: "same_tables db (db\<lparr>fl_tick := t\<rparr>)"
  unfolding same_tables_def by (intro exI [of _ "fl_next db"] exI [of _ t]) simp

lemma same_tables_trans: "same_tables a b \<Longrightarrow> same_tables b c \<Longrightarrow> same_tables a c"
  unfolding same_tables_def
proof (elim exE conjE)
  fix n t n' t'
  assume "fl_next a \<le> n" "b = a\<lparr>fl_next := n, fl_tick := t\<rparr>" "fl_next b \<le> n'" "c = b\<lparr>fl_next := n', fl_tick := t'\<rparr>"
  then show "\<exists>n t. fl_next a \<le> n \<and> c = a\<lparr>fl_next := n, fl_tick := t\<rparr>"
    by (intro exI [of _ n'] exI [of _ t']) simp
qed

lemma same_tables_fields:
  "same_tables db db' \<Longrightarrow> fl_devices db' = fl_devices db \<and> fl_credentials db' = fl_credentials db \<and> fl_machines db' = fl_machines db \<and>
   fl_lines db' = fl_lines db \<and> fl_factories db' = fl_factories db \<and> fl_uuid db' = fl_uuid db \<and> fl_ids db' = fl_ids db \<and>
   fl_next db \<le> fl_next db'"
  by (auto simp: same_tables_def)

text \<open>A statement that answered was executed.\<close>

lemma executed: "execute q db = (Inr x, db') \<Longrightarrow> q (db\<lparr>fl_tick := Suc (fl_tick db)\<rparr>) = (Inr x, db')"
  by (auto simp: execute_def Let_def split: reply.splits prod.splits)

text \<open>The queries only draw identifiers.\<close>

definition draws :: "'a query \<Rightarrow> bool" where
  "draws q \<longleftrightarrow> (\<forall>db. fl_next db \<le> fl_next (snd (q db)))"

lemma draws_execute:
  assumes "draws q"
  shows "draws (execute q)"
  unfolding draws_def
proof
  fix db :: fleet
  let ?db0 = "db\<lparr>fl_tick := Suc (fl_tick db)\<rparr>"
  have "fl_next ?db0 \<le> fl_next (snd (q ?db0))"
    using assms unfolding draws_def by blast
  then show "fl_next db \<le> fl_next (snd (execute q db))"
    by (auto simp: execute_def Let_def case_prod_beta split: reply.split)
qed

lemma draws_andthen:
  assumes "draws q" and "\<And>x. draws (k x)"
  shows "draws (andthen q k)"
  unfolding draws_def
proof
  fix db :: fleet
  obtain r db1 where q: "q db = (r, db1)" by fastforce
  have "fl_next db \<le> fl_next db1"
    using assms(1) q unfolding draws_def by (metis snd_conv)
  moreover have "fl_next db1 \<le> fl_next (snd (k x db1))" for x
    using assms(2) unfolding draws_def by blast
  ultimately show "fl_next db \<le> fl_next (snd (andthen q k db))"
    using q by (cases r) (auto simp: andthen_def intro: order_trans)
qed

lemma draws_uuid: "(\<And>u. draws (q u)) \<Longrightarrow> draws (uuid_arg s q)"
  by (auto simp: draws_def uuid_arg_def split: option.split)

lemma draws_statements [simp]:
  "draws (insert_device m o' n fw)" "draws (insert_credential d h)" "draws (deactivate_credentials d)" "draws (answer f)"
  unfolding insert_device_def insert_credential_def deactivate_credentials_def
  by (intro draws_execute draws_uuid; simp add: draws_def Let_def)+ (simp add: draws_def answer_def)

lemma transaction_outcome:
  assumes "transaction body db = (r, db')" and "draws body"
  obtains (nothing) "same_tables db db'" "raised r"
  | (committed) x db1 t where "body db = (Inr x, db1)" "db' = db1\<lparr>fl_tick := t\<rparr>" "r = Inr x \<or> raised r"
proof -
  obtain y db1 where b: "body db = (y, db1)" by fastforce
  then have grow: "fl_next db \<le> fl_next db1"
    using assms(2) unfolding draws_def by (metis snd_conv)
  let ?db2 = "db1\<lparr>fl_tick := Suc (fl_tick db1)\<rparr>"
  have rb: "same_tables db (roll_back db d)" if "fl_next d = fl_next db1" for d
    using that grow unfolding same_tables_def roll_back_def by (intro exI [of _ "fl_next d"] exI [of _ "fl_tick d"]) simp
  show thesis
  proof (cases y)
    case (Inl e)
    then have "same_tables db db'" and "raised r"
      using assms(1) rb [of db1] b by (auto simp: transaction_def)
    then show thesis by (rule nothing)
  next
    case (Inr x)
    then consider "r = Inr x" "db' = ?db2" | e where "r = Inl e" "db' = ?db2" | e where "r = Inl e" "db' = roll_back db ?db2"
      using assms(1) b by (auto simp: transaction_def Let_def split: reply.splits if_splits)
    then show thesis
    proof cases
      case 3
      then have "same_tables db db'" and "raised r"
        using rb [of ?db2] by simp_all
      then show thesis by (rule nothing)
    qed (use committed [of x db1 "Suc (fl_tick db1)"] b Inr in auto)
  qed
qed

lemma owned_by_outcome:
  assumes "owned_by P i o' db = (r, db')"
  shows "same_tables db db'" and "r = Inr True \<Longrightarrow> \<exists>u org. fl_uuid db i = Some u \<and> fl_uuid db o' = Some org \<and> P u org (db\<lparr>fl_tick := Suc (fl_tick db)\<rparr>)"
  using assms by (auto simp: owned_by_def execute_def uuid_arg_def answer_def Let_def split: reply.splits option.splits if_splits)

section \<open>Rotation and provisioning\<close>

text \<open>The credentials after the device's credential is replaced.\<close>

definition replaced :: "string \<Rightarrow> string \<Rightarrow> fleet \<Rightarrow> fleet \<Rightarrow> bool" where
  "replaced u h db db' \<longleftrightarrow>
     (\<exists>t. db' = db\<lparr>fl_credentials := deactivate u (fl_credentials db) @ [\<lparr>ce_device_id = u, ce_hash = h, ce_active = True\<rparr>], fl_tick := t\<rparr>)"

lemma replace_credential_outcome:
  assumes "replace_credential i h db = (r, db')"
  obtains (nothing) "same_tables db db'" "raised r"
  | (finished) u where "fl_uuid db i = Some u" "\<exists>d\<in>set (fl_devices db). dv_id d = u" "replaced u h db db'" "r = ok \<or> raised r"
proof -
  have "draws (andthen (deactivate_credentials i) (\<lambda>_. insert_credential i h))"
    by (intro draws_andthen) simp_all
  with assms [unfolded replace_credential_def] show thesis
  proof (cases rule: transaction_outcome)
    case nothing
    then show thesis by (rule that(1))
  next
    case (committed x db2 t)
    then obtain db1 where d: "deactivate_credentials i db = (ok, db1)" and ins: "insert_credential i h db1 = (Inr x, db2)"
      by (auto simp: andthen_def split: prod.splits sum.splits)
    from executed [OF d [unfolded deactivate_credentials_def]] obtain u where u: "fl_uuid db i = Some u"
      and db1: "db1 = db\<lparr>fl_tick := Suc (fl_tick db), fl_credentials := deactivate u (fl_credentials db)\<rparr>"
      by (auto simp: uuid_arg_def split: option.splits)
    from executed [OF ins [unfolded insert_credential_def]] have dev: "\<exists>d\<in>set (fl_devices db). dv_id d = u"
      and db2: "db2 = db1\<lparr>fl_tick := Suc (fl_tick db1), fl_credentials := fl_credentials db1 @ [\<lparr>ce_device_id = u, ce_hash = h, ce_active = True\<rparr>]\<rparr>"
      using u by (auto simp: uuid_arg_def db1 split: if_splits)
    have "replaced u h db db'"
      unfolding replaced_def committed(2) db2 db1 by (intro exI [of _ t]) simp
    then show thesis
      using that(2) u dev committed(3) by auto
  qed
qed

text \<open>The tables after a device is stored with its credential.\<close>

definition stored :: "string \<Rightarrow> string \<Rightarrow> device_row \<Rightarrow> fleet \<Rightarrow> fleet \<Rightarrow> bool" where
  "stored org h row db db' \<longleftrightarrow>
     dv_id row = fl_ids db (fl_next db) \<and> dv_organization_id row = org \<and> dv_status row = ''PROVISIONED'' \<and>
     (\<exists>m\<in>set (fl_machines db). mc_id m = dv_machine_id row) \<and>
     dv_serial_number row \<notin> dv_serial_number ` set (fl_devices db) \<and>
     (\<exists>t. db' = db\<lparr>fl_devices := fl_devices db @ [row], fl_next := Suc (fl_next db),
            fl_credentials := fl_credentials db @ [\<lparr>ce_device_id = dv_id row, ce_hash = h, ce_active = True\<rparr>], fl_tick := t\<rparr>)"

lemma store_device_outcome:
  assumes "store_device m o' serial fw h db = (r, db')" and "\<And>n. fl_uuid db (fl_ids db n) = Some (fl_ids db n)"
  obtains (nothing) "same_tables db db'" "raised r"
  | (finished) org row where "fl_uuid db o' = Some org" "stored org h row db db'" "r = Inr row \<or> raised r"
proof -
  let ?cont = "\<lambda>row. andthen (insert_credential (dv_id row) h) (\<lambda>_. answer (\<lambda>_. row))"
  have "draws (andthen (insert_device m o' serial fw) ?cont)"
    by (intro draws_andthen) simp_all
  with assms(1) [unfolded store_device_def] show thesis
  proof (cases rule: transaction_outcome)
    case nothing
    then show thesis by (rule that(1))
  next
    case (committed x db2 t)
    then obtain row db1 where d: "insert_device m o' serial fw db = (Inr row, db1)" and k: "?cont row db1 = (Inr x, db2)"
      by (auto simp: andthen_def [of "insert_device m o' serial fw"] split: prod.splits sum.splits)
    from executed [OF d [unfolded insert_device_def]] obtain mid org where org: "fl_uuid db o' = Some org"
      and mc: "\<exists>r\<in>set (fl_machines db). mc_id r = mid" and fresh: "serial \<notin> dv_serial_number ` set (fl_devices db)"
      and row: "row = \<lparr>dv_id = fl_ids db (fl_next db), dv_machine_id = mid, dv_organization_id = org, dv_serial_number = serial,
          dv_status = ''PROVISIONED'', dv_firmware_version = Some fw\<rparr>"
      and db1: "db1 = db\<lparr>fl_tick := Suc (fl_tick db), fl_devices := fl_devices db @ [row], fl_next := Suc (fl_next db)\<rparr>"
      by (auto simp: uuid_arg_def Let_def split: option.splits if_splits)
    from k have ins: "insert_credential (dv_id row) h db1 = (ok, db2)" and x: "x = row"
      by (auto simp: andthen_def answer_def split: prod.splits sum.splits)
    have "db2 = db1\<lparr>fl_tick := Suc (fl_tick db1), fl_credentials := fl_credentials db1 @ [\<lparr>ce_device_id = dv_id row, ce_hash = h, ce_active = True\<rparr>]\<rparr>"
      using executed [OF ins [unfolded insert_credential_def]] assms(2) by (auto simp: uuid_arg_def db1 row split: if_splits)
    then have "stored org h row db db'"
      using mc fresh unfolding stored_def committed(2) db1 by (auto simp: row)
    then show thesis
      using that(2) org committed(3) x by auto
  qed
qed

lemma on_fleet_db: "fw_db (snd (on_fleet q w)) = snd (q (fw_db w))" "fst (on_fleet q w) = fst (q (fw_db w))"
  by (simp_all add: on_fleet_def case_prod_beta)

end
