(* ===== verification/Fleet_Calls.thy ===== *)
theory Fleet_Calls
  imports Api_Fleet
begin

text \<open>
  What sequences of requests to the device and factory routes do to the tables. Every call is a run of steps of a
  relation \<open>fleet_step\<close>: nothing but sequences moved, a credential was replaced, a device was stored, a device was
  decommissioned. The invariants of the tables are inductive over it, whatever statements fail.
\<close>

section \<open>Steps\<close>

definition decommissioned :: "string \<Rightarrow> string \<Rightarrow> fleet \<Rightarrow> fleet \<Rightarrow> bool" where
  "decommissioned d org db db' \<longleftrightarrow>
     (\<exists>t. db' = db\<lparr>fl_devices := retire d org (fl_devices db),
            fl_tick := t\<rparr>)"

inductive fleet_step :: "string \<Rightarrow> fleet \<Rightarrow> fleet \<Rightarrow> bool" for o' where
  nothing: "same_tables db db' \<Longrightarrow> fleet_step o' db db'"
| rotate: "fl_uuid db o' = Some org \<Longrightarrow> device_of_org u org db \<Longrightarrow> replaced u h db db' \<Longrightarrow> fleet_step o' db db'"
| provision: "fl_uuid db o' = Some org \<Longrightarrow> stored org h row db db' \<Longrightarrow> fleet_step o' db db'"
| decommission: "fl_uuid db o' = Some org \<Longrightarrow> decommissioned d org db db' \<Longrightarrow> fleet_step o' db db'"

text \<open>The identifiers the database draws are distinct and are identifiers as it writes them.\<close>

definition drawn_ids :: "fleet \<Rightarrow> bool" where
  "drawn_ids db \<longleftrightarrow> inj (fl_ids db) \<and> (\<forall>n. fl_uuid db (fl_ids db n) = Some (fl_ids db n))"

lemma step_fixed:
  assumes "fleet_step o' db db'"
  shows "fl_uuid db' = fl_uuid db" "fl_ids db' = fl_ids db" "fl_machines db' = fl_machines db" "fl_next db \<le> fl_next db'"
  using assms by (cases; auto simp: replaced_def stored_def decommissioned_def dest: same_tables_fields)+

lemma step_drawn: "fleet_step o' db db' \<Longrightarrow> drawn_ids db \<Longrightarrow> drawn_ids db'"
  by (simp add: drawn_ids_def step_fixed)

section \<open>Calls\<close>

datatype fleet_call =
    List_factories
  | Get_factory string
  | List_production_lines string
  | Get_machine string
  | List_line_machines string
  | List_machine_devices string
  | List_devices
  | Get_device string
  | List_device_sensors string
  | Provision_device string string string
  | Rotate_credentials string
  | Decommission_device string

fun run_fleet_call :: "api \<Rightarrow> bcrypt_library \<Rightarrow> fleet_call \<Rightarrow> request \<Rightarrow> fleet_world \<Rightarrow> fleet_world" where
  "run_fleet_call ai bc List_factories rq w = snd (list_factories_route ai rq w)"
| "run_fleet_call ai bc (Get_factory i) rq w = snd (get_factory_route ai i rq w)"
| "run_fleet_call ai bc (List_production_lines i) rq w = snd (list_production_lines_route ai i rq w)"
| "run_fleet_call ai bc (Get_machine i) rq w = snd (get_machine_route ai i rq w)"
| "run_fleet_call ai bc (List_line_machines i) rq w = snd (list_line_machines_route ai i rq w)"
| "run_fleet_call ai bc (List_machine_devices i) rq w = snd (list_machine_devices_route ai i rq w)"
| "run_fleet_call ai bc List_devices rq w = snd (list_devices_route ai rq w)"
| "run_fleet_call ai bc (Get_device i) rq w = snd (get_device_route ai i rq w)"
| "run_fleet_call ai bc (List_device_sensors i) rq w = snd (list_device_sensors_route ai i rq w)"
| "run_fleet_call ai bc (Provision_device m s f) rq w = snd (provision_device_route ai bc m s f rq w)"
| "run_fleet_call ai bc (Rotate_credentials i) rq w = snd (rotate_credentials_route ai bc i rq w)"
| "run_fleet_call ai bc (Decommission_device i) rq w = snd (decommission_device_route ai i rq w)"

text \<open>Requests as they come, of any tenants.\<close>

definition run_fleet_calls :: "api \<Rightarrow> bcrypt_library \<Rightarrow> (fleet_call \<times> request) list \<Rightarrow> fleet_world \<Rightarrow> fleet_world" where
  "run_fleet_calls ai bc calls w = fold (\<lambda>(call, rq). run_fleet_call ai bc call rq) calls w"

section \<open>Reads\<close>

definition reads :: "'a query \<Rightarrow> bool" where
  "reads q \<longleftrightarrow> (\<forall>db. same_tables db (snd (q db)))"

lemma reads_answer [intro!, simp]: "reads (answer f)"
  by (simp add: reads_def answer_def)

lemma reads_failed [intro!, simp]: "reads (\<lambda>db. (Inl e, db))"
  by (simp add: reads_def)

lemma reads_uuid [intro!]: "(\<And>u. reads (q u)) \<Longrightarrow> reads (uuid_arg s q)"
  by (simp add: reads_def uuid_arg_def split: option.split)

lemma reads_execute [intro!]:
  assumes "reads q"
  shows "reads (execute q)"
  unfolding reads_def
proof
  fix db :: fleet
  let ?db0 = "db\<lparr>fl_tick := Suc (fl_tick db)\<rparr>"
  have "same_tables ?db0 (snd (q ?db0))"
    using assms unfolding reads_def by blast
  then have "same_tables db (snd (q ?db0))"
    by (rule same_tables_trans [OF same_tables_tick])
  then show "same_tables db (snd (execute q db))"
    by (auto simp: execute_def Let_def case_prod_beta split: reply.split)
qed

lemma reads_andthen [intro!]:
  assumes "reads q" and "\<And>x. reads (k x)"
  shows "reads (andthen q k)"
  unfolding reads_def
proof
  fix db :: fleet
  obtain r db1 where q: "q db = (r, db1)" by fastforce
  have "same_tables db db1"
    using assms(1) q unfolding reads_def by (metis snd_conv)
  moreover have "same_tables db1 (snd (k x db1))" for x
    using assms(2) unfolding reads_def by blast
  ultimately show "same_tables db (snd (andthen q k db))"
    using q by (cases r) (auto simp: andthen_def intro: same_tables_trans)
qed

lemma reads_found [intro!]: "reads q \<Longrightarrow> reads (found_or e dto q)"
  unfolding found_or_def by (rule reads_andthen) (auto split: option.split)

lemma reads_children [intro!]: "reads own \<Longrightarrow> reads rows \<Longrightarrow> reads (children own e dto rows)"
  unfolding children_def by (rule reads_andthen) auto

lemma reads_statements [intro!]:
  "reads (owned_by P i o')" "reads (select_factories o' l n)" "reads (select_lines i)" "reads (select_machines i)"
  "reads (select_devices o' s l n)" "reads (select_sensors i)" "reads count_by_status"
  unfolding owned_by_def select_factories_def select_lines_def select_machines_def select_devices_def select_sensors_def count_by_status_def
  by auto

section \<open>Calls are runs of steps\<close>

definition steps_to :: "string \<Rightarrow> fleet_world \<Rightarrow> fleet_world \<Rightarrow> bool" where
  "steps_to o' w w' \<longleftrightarrow> (fleet_step o')\<^sup>*\<^sup>* (fw_db w) (fw_db w')"

lemma steps_refl [simp]: "steps_to o' w w"
  by (simp add: steps_to_def)

lemma steps_same: "same_tables (fw_db w) (fw_db w') \<Longrightarrow> steps_to o' w w'"
  unfolding steps_to_def by (intro r_into_rtranclp fleet_step.nothing)

lemma steps_trans: "steps_to o' w w1 \<Longrightarrow> steps_to o' w1 w2 \<Longrightarrow> steps_to o' w w2"
  unfolding steps_to_def by (rule rtranclp_trans)

lemma read_steps: "reads q \<Longrightarrow> steps_to o' w (snd (on_fleet q w))"
  unfolding reads_def by (intro steps_same) (simp add: on_fleet_db)

lemma fleet_more: "api_world.more w1 = api_world.more w \<Longrightarrow> fw_db w1 = fw_db w"
  for w w1 :: fleet_world
  by (cases w; cases w1) simp

lemma route_steps:
  fixes w :: fleet_world
  assumes "tenant_request ai o' rq" and "\<And>c w1. cl_organization_id c = o' \<Longrightarrow> fw_db w1 = fw_db w \<Longrightarrow> steps_to o' w1 (snd (h c w1))"
  shows "steps_to o' w (snd (route ai l p h rq w))"
proof -
  show ?thesis
  proof (rule route_outcome [of ai l p h rq w])
    fix e w1
    assume "route ai l p h rq w = (Inl e, w1)" "api_world.more w1 = api_world.more w"
    then show ?thesis
      using fleet_more [of w1 w] by (simp add: steps_to_def)
  next
    fix c w1
    assume r: "route ai l p h rq w = h c w1" "api_world.more w1 = api_world.more w"
      and c: "parse_and_validate (ai_jwt ai) (api_now w) (bearer_token rq) (ai_access_secret ai) TOKEN_TYPE_ACCESS = Inr c"
    have "cl_organization_id c = o'"
      using assms(1) c unfolding tenant_request_def by blast
    then show ?thesis
      using assms(2) [of c w1] r fleet_more [of w1 w] by (simp add: steps_to_def)
  qed
qed

lemma same_tables_device: "same_tables db db' \<Longrightarrow> device_of_org d org db' = device_of_org d org db"
  using same_tables_fields [of db db'] by (simp add: device_of_org_def)

lemma draw_secret_db [simp]: "fw_db (snd (draw_secret w)) = fw_db w"
  by (simp add: draw_secret_def)


lemma one_step: "fleet_step o' (fw_db w) (fw_db w') \<Longrightarrow> steps_to o' w w'"
  unfolding steps_to_def by (rule r_into_rtranclp)

lemma device_of_org_tick [simp]: "device_of_org d org (db\<lparr>fl_tick := t\<rparr>) = device_of_org d org db"
  by (simp add: device_of_org_def)

lemma owned_device:
  assumes "on_fleet (owned_by device_of_org i o') w = (Inr True, w1)"
  obtains u org where "same_tables (fw_db w) (fw_db w1)" "fl_uuid (fw_db w) i = Some u" "fl_uuid (fw_db w) o' = Some org"
    "device_of_org u org (fw_db w)"
proof -
  have "owned_by device_of_org i o' (fw_db w) = (Inr True, fw_db w1)"
    using assms by (auto simp: on_fleet_def split: prod.splits)
  note o = owned_by_outcome [OF this]
  from o(2) [OF refl] obtain u org where "fl_uuid (fw_db w) i = Some u" "fl_uuid (fw_db w) o' = Some org"
    "device_of_org u org (fw_db w)" by auto
  with o(1) show thesis by (rule that)
qed

lemma rotate_outcome:
  assumes "rotate_credentials bc i c w = (r, w')"
  obtains (nothing) "same_tables (fw_db w) (fw_db w')" "raised r"
  | (rotated) u org h and secret :: "nat list" where "fl_uuid (fw_db w) i = Some u" "fl_uuid (fw_db w) (cl_organization_id c) = Some org"
      "device_of_org u org (fw_db w)" "hash_password bc secret = Inr h" "r = Inr secret \<or> raised r"
      "\<exists>db1. same_tables (fw_db w) db1 \<and> replaced u h db1 (fw_db w')"
proof -
  let ?own = "on_fleet (owned_by device_of_org i (cl_organization_id c)) w"
  have same: "same_tables (fw_db w) (fw_db (snd ?own))"
    by (simp add: on_fleet_db) (metis owned_by_outcome(1) prod.collapse)
  show thesis
  proof (cases "fst ?own = Inr True \<and> \<not> raised (hash_password bc (fw_secrets (snd ?own) (fw_secret_tick (snd ?own))))")
    case False
    then have "same_tables (fw_db w) (fw_db w')" and "raised r"
      using assms same by (auto simp: rotate_credentials_def draw_secret_def raised_iff split: prod.splits sum.splits if_splits)
    then show thesis by (rule nothing)
  next
    case True
    define w1 where "w1 = snd ?own"
    define secret where "secret = fw_secrets w1 (fw_secret_tick w1)"
    obtain h where h: "hash_password bc secret = Inr h"
      using True unfolding secret_def w1_def by (auto simp: raised_iff) (metis Inr_Inl_False sum.exhaust)
    have own: "?own = (Inr True, w1)"
      using True unfolding w1_def by (metis prod.collapse)
    from owned_device [OF own] obtain u org where w1: "same_tables (fw_db w) (fw_db w1)" and u: "fl_uuid (fw_db w) i = Some u"
      and org: "fl_uuid (fw_db w) (cl_organization_id c) = Some org" and dev: "device_of_org u org (fw_db w)" by blast
    obtain y db2 where q: "replace_credential i h (fw_db w1) = (y, db2)" by fastforce
    have r: "fw_db w' = db2" "(raised y \<and> raised r) \<or> (y = ok \<and> r = Inr secret)"
      using assms own h q by (auto simp: rotate_credentials_def draw_secret_def secret_def on_fleet_def split: sum.splits)
    from q show thesis
    proof (cases rule: replace_credential_outcome)
      case nothing
      then show thesis
        using that(1) r same_tables_trans [OF w1] by auto
    next
      case (finished v)
      moreover have "v = u"
        using finished(1) u same_tables_fields [OF w1] by simp
      ultimately show thesis
        using that(2) [of u org secret h] u org dev h r w1 by auto
    qed
  qed
qed

lemma rotate_steps: "steps_to (cl_organization_id c) w (snd (rotate_credentials bc i c w))"
proof (cases "rotate_credentials bc i c w")
  case (Pair r w')
  then show ?thesis
  proof (cases rule: rotate_outcome)
    case nothing
    then show ?thesis
      using Pair by (simp add: steps_same)
  next
    case (rotated u org h secret)
    then obtain db1 where db1: "same_tables (fw_db w) db1" and rep: "replaced u h db1 (fw_db w')" by blast
    have "fleet_step (cl_organization_id c) db1 (fw_db w')"
      using rotated(2,3) same_tables_fields [OF db1] same_tables_device [OF db1] rep by (intro fleet_step.rotate) simp_all
    then show ?thesis
      using Pair fleet_step.nothing [OF db1, of "cl_organization_id c"] unfolding steps_to_def by auto
  qed
qed

lemma provision_steps:
  assumes "drawn_ids (fw_db w)"
  shows "steps_to (cl_organization_id c) w (snd (provision_device bc m s f c w))"
proof -
  let ?o = "cl_organization_id c"
  define p where "p = on_fleet (owned_by machine_of_org m ?o) w"
  have w1: "steps_to ?o w (snd p)"
    unfolding p_def by (rule read_steps) (rule reads_statements)
  have drawn: "drawn_ids (fw_db (snd p))"
    using assms unfolding p_def on_fleet_db
    by (metis fleet_step.nothing owned_by_outcome(1) prod.collapse step_drawn)
  have store: "steps_to ?o w2 (snd (on_fleet (store_device m ?o s fw h) w2))" if "fw_db w2 = fw_db (snd p)" for w2 fw h
  proof (cases "store_device m ?o s fw h (fw_db w2)")
    case (Pair y db')
    have "fl_uuid (fw_db w2) (fl_ids (fw_db w2) n) = Some (fl_ids (fw_db w2) n)" for n
      using drawn that by (simp add: drawn_ids_def)
    from Pair this have "fleet_step ?o (fw_db w2) db'"
      by (cases rule: store_device_outcome) (auto intro: fleet_step.intros)
    then show ?thesis
      using Pair by (intro one_step) (simp add: on_fleet_db)
  qed
  have "steps_to ?o (snd p) (snd (provision_device bc m s f c w))" if "m \<noteq> []" "s \<noteq> []"
  proof (cases "fst p = Inr True")
    case False
    then show ?thesis
      using that by (auto simp: provision_device_def p_def split: prod.split sum.split)
  next
    case True
    define w2 where "w2 = snd (draw_secret (snd p))"
    have db2: "fw_db w2 = fw_db (snd p)"
      by (simp add: w2_def)
    have p: "on_fleet (owned_by machine_of_org m ?o) w = (Inr True, snd p)"
      using True unfolding p_def by (metis prod.collapse)
    have to_w2: "steps_to ?o (snd p) w2"
      using db2 by (simp add: steps_to_def)
    have "snd (provision_device bc m s f c w) \<in> {w2} \<union> {snd (on_fleet (store_device m ?o s fw h) w2) | fw h. True}"
      using that p by (auto simp: provision_device_def w2_def Let_def case_prod_beta split: sum.split)
    then show ?thesis
      using to_w2 steps_trans [OF to_w2 store [OF db2]] by auto
  qed
  moreover have "snd (provision_device bc m s f c w) = w" if "m = [] \<or> s = []"
    using that by (auto simp: provision_device_def)
  ultimately show ?thesis
    using steps_trans [OF w1] by (cases "m = [] \<or> s = []") auto
qed

lemma decommission_steps: "steps_to (cl_organization_id c) w (snd (decommission_device i c w))"
proof -
  let ?o = "cl_organization_id c" and ?db = "fw_db w"
  obtain r db' where q: "update_decommissioned i ?o ?db = (r, db')" by fastforce
  have dec: "decommissioned d org ?db (?db\<lparr>fl_tick := Suc (fl_tick ?db), fl_devices := retire d org (fl_devices ?db)\<rparr>)"
    for d org
    unfolding decommissioned_def by (intro exI [of _ "Suc (fl_tick ?db)"]) simp
  have "same_tables ?db db' \<or> (\<exists>d org. fl_uuid ?db ?o = Some org \<and> decommissioned d org ?db db')"
    using q dec by (auto simp: update_decommissioned_def execute_def uuid_arg_def Let_def split: reply.splits option.splits if_splits)
  then have "fleet_step ?o ?db db'"
    by (auto intro: fleet_step.intros)
  moreover have "fw_db (snd (decommission_device i c w)) = db'"
    using q by (auto simp: decommission_device_def on_fleet_def split: sum.split)
  ultimately show ?thesis
    by (intro one_step) simp
qed

lemma snd_sum_case [simp]: "snd (case r of Inl e \<Rightarrow> (f e, v) | Inr x \<Rightarrow> (g x, v)) = v"
  by (cases r) simp_all

lemma or_internal_snd [simp]: "snd (or_internal p) = snd p"
  by (auto simp: or_internal_def split: prod.split sum.split)

text \<open>A call, whatever it answers, is a run of steps of its tenant.\<close>

lemma call_steps:
  assumes "tenant_request ai o' rq" and "drawn_ids (fw_db w)"
  shows "steps_to o' w (run_fleet_call ai bc call rq w)"
proof -
  show ?thesis
  proof (cases call)
    case List_factories
    then show ?thesis
      by (auto simp: list_factories_route_def case_prod_beta Let_def intro!: route_steps [OF assms(1)] read_steps)
  next
    case List_devices
    then show ?thesis
      by (auto simp: list_devices_route_def case_prod_beta Let_def intro!: route_steps [OF assms(1)] read_steps)
  next
    case (Provision_device m s f)
    then show ?thesis
      using assms(2) by (auto simp: provision_device_route_def intro!: route_steps [OF assms(1)] provision_steps)
  next
    case (Rotate_credentials i)
    then show ?thesis
      by (auto simp: rotate_credentials_route_def intro!: route_steps [OF assms(1)] rotate_steps)
  next
    case (Decommission_device i)
    then show ?thesis
      by (auto simp: decommission_device_route_def intro!: route_steps [OF assms(1)] decommission_steps)
  qed (auto simp: get_factory_route_def list_production_lines_route_def get_machine_route_def list_line_machines_route_def
      list_machine_devices_route_def get_device_route_def list_device_sensors_route_def
      intro!: route_steps [OF assms(1)] read_steps)
qed

text \<open>An invariant of the steps holds after any requests whose tokens, when good, are of some tenant.\<close>

definition tenants :: "api \<Rightarrow> (fleet_call \<times> request) list \<Rightarrow> bool" where
  "tenants ai calls \<longleftrightarrow> (\<forall>(call, rq)\<in>set calls. \<exists>o'. tenant_request ai o' rq)"

lemma steps_invariant:
  assumes "\<And>db db'. fleet_step o' db db' \<Longrightarrow> I db \<Longrightarrow> I db'" and "(fleet_step o')\<^sup>*\<^sup>* db db'" and "I db"
  shows "I db'"
  using assms(2,3) by induction (use assms(1) in blast)+

lemma calls_invariant:
  assumes "tenants ai calls" and "\<And>o' db db'. fleet_step o' db db' \<Longrightarrow> I db \<Longrightarrow> I db'" and "\<And>db. I db \<Longrightarrow> drawn_ids db"
    and "I (fw_db w)"
  shows "I (fw_db (run_fleet_calls ai bc calls w))"
  using assms(1,4)
proof (induction calls arbitrary: w)
  case Nil
  then show ?case by (simp add: run_fleet_calls_def)
next
  case (Cons x calls)
  obtain call rq where x: "x = (call, rq)" by fastforce
  then obtain o' where o': "tenant_request ai o' rq"
    using Cons.prems(1) by (auto simp: tenants_def)
  have "I (fw_db (run_fleet_call ai bc call rq w))"
    using call_steps [OF o' assms(3) [OF Cons.prems(2)]] assms(2) Cons.prems(2) unfolding steps_to_def
    by (blast intro: steps_invariant)
  then show ?case
    using Cons.IH Cons.prems(1) by (simp add: x run_fleet_calls_def tenants_def)
qed

section \<open>Well-formed tables\<close>

definition device_ok :: "fleet \<Rightarrow> device_row \<Rightarrow> bool" where
  "device_ok db r \<longleftrightarrow> dv_status r \<in> set device_statuses \<and> dv_machine_id r \<in> mc_id ` set (fl_machines db)"

definition fleet_typed :: "fleet \<Rightarrow> bool" where
  "fleet_typed db \<longleftrightarrow>
     (\<forall>r\<in>set (fl_devices db). device_ok db r) \<and> distinct (map dv_serial_number (fl_devices db)) \<and>
     (\<forall>c\<in>set (fl_credentials db). ce_device_id c \<in> dv_id ` set (fl_devices db))"

lemma retire_map [simp]:
  "map dv_id (retire d org rs) = map dv_id rs"
  "map dv_serial_number (retire d org rs) = map dv_serial_number rs"
  by (simp_all add: retire_def)

lemma retire_set: "r \<in> set (retire d org rs) \<Longrightarrow> \<exists>r0\<in>set rs. r = r0 \<or> (own_device_row d org r0 \<and> r = r0\<lparr>dv_status := ''DECOMMISSIONED''\<rparr>)"
  by (auto simp: retire_def)

lemma retire_ids [simp]: "dv_id ` set (retire d org rs) = dv_id ` set rs"
  by (simp flip: set_map)

lemma deactivate_owner: "c \<in> set (deactivate u cs) \<Longrightarrow> ce_device_id c \<in> ce_device_id ` set cs"
  by (auto simp: deactivate_def)

lemma replaced_fields:
  assumes "replaced u h db db'"
  shows "fl_devices db' = fl_devices db" "fl_machines db' = fl_machines db" "fl_next db' = fl_next db"
    "fl_credentials db' = deactivate u (fl_credentials db) @ [\<lparr>ce_device_id = u, ce_hash = h, ce_active = True\<rparr>]"
  using assms by (auto simp: replaced_def)

lemma stored_fields:
  assumes "stored org h row db db'"
  shows "fl_devices db' = fl_devices db @ [row]" "fl_machines db' = fl_machines db" "fl_next db' = Suc (fl_next db)"
    "fl_credentials db' = fl_credentials db @ [\<lparr>ce_device_id = dv_id row, ce_hash = h, ce_active = True\<rparr>]"
    "dv_id row = fl_ids db (fl_next db)" "dv_organization_id row = org" "device_ok db row"
    "dv_serial_number row \<notin> dv_serial_number ` set (fl_devices db)"
  using assms by (auto simp: stored_def device_ok_def device_statuses_def intro: rev_image_eqI)

lemma decommissioned_fields:
  assumes "decommissioned d org db db'"
  shows "fl_devices db' = retire d org (fl_devices db)"
    "fl_machines db' = fl_machines db" "fl_next db' = fl_next db" "fl_credentials db' = fl_credentials db"
  using assms by (auto simp: decommissioned_def)

lemmas changed_fields = replaced_fields stored_fields decommissioned_fields

lemma typed_step:
  assumes "fleet_step o' db db'" and "fleet_typed db"
  shows "fleet_typed db'"
  using assms(1)
proof cases
  case nothing
  then show ?thesis
    using assms(2) same_tables_fields [of db db'] by (simp add: fleet_typed_def device_ok_def)
next
  case (rotate org u h)
  then have "u \<in> dv_id ` set (fl_devices db)"
    by (auto simp: device_of_org_def)
  then show ?thesis
    using assms(2) replaced_fields [OF rotate(3)] by (auto simp: fleet_typed_def device_ok_def dest!: deactivate_owner)
next
  case (provision org h row)
  then show ?thesis
    using assms(2) stored_fields [OF provision(2)] by (auto simp: fleet_typed_def device_ok_def)
next
  case (decommission org d)
  then show ?thesis
    using assms(2) decommissioned_fields [OF decommission(2)]
    by (auto simp: fleet_typed_def device_ok_def device_statuses_def dest!: retire_set)
qed

section \<open>One active credential\<close>

definition active_count :: "fleet \<Rightarrow> string \<Rightarrow> nat" where
  "active_count db d = length (filter (active_for d) (fl_credentials db))"

text \<open>Device ids are among those drawn, and distinct; each device has exactly one active credential.\<close>

definition fleet_ok :: "fleet \<Rightarrow> bool" where
  "fleet_ok db \<longleftrightarrow>
     drawn_ids db \<and> fleet_typed db \<and> distinct (map dv_id (fl_devices db)) \<and>
     (\<forall>r\<in>set (fl_devices db). (\<exists>n<fl_next db. dv_id r = fl_ids db n) \<and> active_count db (dv_id r) = 1)"

lemma active_for_simps [simp]:
  "\<not> active_for d (c\<lparr>ce_active := False\<rparr>)" "active_for d \<lparr>ce_device_id = u, ce_hash = h, ce_active = True\<rparr> \<longleftrightarrow> d = u"
  by (auto simp: active_for_def)

lemma deactivated_count:
  "length (filter (active_for d) (deactivate u cs)) = (if d = u then 0 else length (filter (active_for d) cs))"
proof (induction cs)
  case (Cons c cs)
  have "active_for u c \<Longrightarrow> active_for d c \<Longrightarrow> d = u"
    by (simp add: active_for_def)
  moreover have "deactivate u (c # cs) = (if active_for u c then c\<lparr>ce_active := False\<rparr> else c) # deactivate u cs"
    by (simp add: deactivate_def)
  ultimately show ?case
    using Cons by auto
qed (simp add: deactivate_def)

lemma fresh_device_id:
  assumes "fleet_ok db"
  shows "fl_ids db (fl_next db) \<notin> dv_id ` set (fl_devices db)"
    and "c \<in> set (fl_credentials db) \<Longrightarrow> ce_device_id c \<noteq> fl_ids db (fl_next db)"
proof -
  have "inj (fl_ids db)"
    using assms by (simp add: fleet_ok_def drawn_ids_def)
  then show new: "fl_ids db (fl_next db) \<notin> dv_id ` set (fl_devices db)"
    using assms by (fastforce simp: fleet_ok_def dest: injD)
  assume "c \<in> set (fl_credentials db)"
  then have "ce_device_id c \<in> dv_id ` set (fl_devices db)"
    using assms by (simp add: fleet_ok_def fleet_typed_def)
  then show "ce_device_id c \<noteq> fl_ids db (fl_next db)"
    using new by force
qed

lemma counted_step:
  assumes "fleet_step o' db db'" and "fleet_ok db"
  shows "distinct (map dv_id (fl_devices db')) \<and>
    (\<forall>r\<in>set (fl_devices db'). (\<exists>n<fl_next db'. dv_id r = fl_ids db n) \<and> active_count db' (dv_id r) = 1)"
  using assms(1)
proof cases
  case nothing
  then show ?thesis
    using assms(2) same_tables_fields [of db db'] by (force simp: fleet_ok_def active_count_def)
next
  case (rotate org u h)
  then show ?thesis
    using assms(2) replaced_fields [OF rotate(3)]
    by (auto simp: fleet_ok_def active_count_def deactivated_count active_for_def)
next
  case (provision org h row)
  note f = stored_fields [OF provision(2)]
  have "filter (active_for (dv_id row)) (fl_credentials db) = []"
    using fresh_device_id(2) [OF assms(2)] f(5) by (auto simp: filter_empty_conv active_for_def)
  moreover have "dv_id r \<noteq> dv_id row" if "r \<in> set (fl_devices db)" for r
    using fresh_device_id(1) [OF assms(2)] f(5) that by force
  ultimately show ?thesis
    using assms(2) f by (force simp: fleet_ok_def active_count_def active_for_def less_Suc_eq)
next
  case (decommission org d)
  then show ?thesis
    using assms(2) decommissioned_fields [OF decommission(2)]
    by (auto simp: fleet_ok_def active_count_def dest!: retire_set)
qed

lemma fleet_ok_step: "fleet_step o' db db' \<Longrightarrow> fleet_ok db \<Longrightarrow> fleet_ok db'"
  using counted_step typed_step step_drawn step_fixed(2) unfolding fleet_ok_def by (metis (no_types, lifting))

section \<open>Properties\<close>


text \<open>
  C7. However requests to provision, rotate and decommission are ordered, and whichever statement or commit fails, every
  device has exactly one active credential: none is locked out half-way through a rotation, and none keeps two.
\<close>
theorem one_active_credential:
  assumes "tenants ai calls" and "fleet_ok (fw_db w)"
  shows "\<forall>r\<in>set (fl_devices (fw_db (run_fleet_calls ai bc calls w))). active_count (fw_db (run_fleet_calls ai bc calls w)) (dv_id r) = 1"
proof -
  have "fleet_ok (fw_db (run_fleet_calls ai bc calls w))"
    using assms(1,2) by (intro calls_invariant [where I = fleet_ok]) (auto dest: fleet_ok_step simp: fleet_ok_def)
  then show ?thesis
    by (simp add: fleet_ok_def)
qed

text \<open>
  C13. Rotating a credential is all or nothing: either the request fails and no credential has changed, or the device's
  active credential has been deactivated and one for a new secret is in its place; if the request succeeds, the secret it
  answers is one the stored hash verifies.
\<close>
theorem rotation_is_atomic:
  assumes "rotate_credentials_route ai bc i rq w = (r, w')" and "\<And>bytes h. bc_hash bc bytes = Inr h \<Longrightarrow> bc_check bc bytes h = Inr True"
  shows "(raised r \<and> fl_credentials (fw_db w') = fl_credentials (fw_db w)) \<or>
    (\<exists>u h. fl_uuid (fw_db w) i = Some u \<and>
       fl_credentials (fw_db w') = deactivate u (fl_credentials (fw_db w)) @ [\<lparr>ce_device_id = u, ce_hash = h, ce_active = True\<rparr>] \<and>
       (raised r \<or> (\<exists>secret. r = Inr secret \<and> verify_password bc h secret = Inr True)))"
proof -
  have good: "verify_password bc h secret = Inr True" if "hash_password bc secret = Inr h" for h secret
    using that assms(2) by (auto simp: hash_password_def verify_password_def split: sum.splits)
  show ?thesis
  proof (rule route_outcome [of ai Default_limit PERM_DEVICES_WRITE "rotate_credentials bc i" rq w])
    fix e w1
    assume "route ai Default_limit PERM_DEVICES_WRITE (rotate_credentials bc i) rq w = (Inl e, w1)"
      "api_world.more w1 = api_world.more w"
    then show ?thesis
      using assms(1) fleet_more [of w1 w] by (auto simp: rotate_credentials_route_def)
  next
    fix c w1
    assume "route ai Default_limit PERM_DEVICES_WRITE (rotate_credentials bc i) rq w = rotate_credentials bc i c w1"
      "api_world.more w1 = api_world.more w"
    then have "rotate_credentials bc i c w1 = (r, w')" and w1: "fw_db w1 = fw_db w"
      using assms(1) fleet_more [of w1 w] by (simp_all add: rotate_credentials_route_def)
    from this(1) show ?thesis
    proof (cases rule: rotate_outcome)
      case nothing
      then show ?thesis
        using same_tables_fields [of "fw_db w1" "fw_db w'"] w1 by simp
    next
      case (rotated u org h secret)
      then obtain db1 where db1: "same_tables (fw_db w) db1" "replaced u h db1 (fw_db w')"
        using w1 by auto
      then have "fl_credentials (fw_db w') = deactivate u (fl_credentials (fw_db w)) @ [\<lparr>ce_device_id = u, ce_hash = h, ce_active = True\<rparr>]"
        using same_tables_fields [OF db1(1)] replaced_fields(4) [OF db1(2)] by simp
      then show ?thesis
        using rotated(1,5) good [OF rotated(4)] w1 by auto
    qed
  qed
qed

section \<open>Tenants apart\<close>

text \<open>The devices of other organizations, and the credentials of those devices.\<close>

definition foreign_device :: "string \<Rightarrow> device_row list \<Rightarrow> string \<Rightarrow> bool" where
  "foreign_device org rs d \<longleftrightarrow> (\<exists>r\<in>set rs. dv_id r = d \<and> dv_organization_id r \<noteq> org)"

definition foreign_fleet :: "string \<Rightarrow> fleet \<Rightarrow> device_row list \<times> credential_row list" where
  "foreign_fleet org db =
     (filter (\<lambda>r. dv_organization_id r \<noteq> org) (fl_devices db),
      filter (\<lambda>c. foreign_device org (fl_devices db) (ce_device_id c)) (fl_credentials db))"

lemma retire_foreign [simp]:
  "filter (\<lambda>r. dv_organization_id r \<noteq> org) (retire d org rs) = filter (\<lambda>r. dv_organization_id r \<noteq> org) rs"
  "foreign_device org (retire d org rs) = foreign_device org rs"
proof -
  show "filter (\<lambda>r. dv_organization_id r \<noteq> org) (retire d org rs) = filter (\<lambda>r. dv_organization_id r \<noteq> org) rs"
    by (induction rs) (auto simp: retire_def own_device_row_def)
  show "foreign_device org (retire d org rs) = foreign_device org rs"
    by (rule ext) (force simp: foreign_device_def retire_def own_device_row_def)
qed

lemma deactivate_foreign:
  "\<not> P u \<Longrightarrow> filter (\<lambda>c. P (ce_device_id c)) (deactivate u cs) = filter (\<lambda>c. P (ce_device_id c)) cs"
  by (induction cs) (auto simp: deactivate_def active_for_def)

lemma foreign_step:
  assumes "fleet_step o' db db'" and "fleet_ok db" and "fl_uuid db o' = Some org"
  shows "foreign_fleet org db' = foreign_fleet org db"
  using assms(1)
proof cases
  case nothing
  then show ?thesis
    using same_tables_fields [of db db'] by (simp add: foreign_fleet_def)
next
  case (rotate org' u h)
  have "distinct (map dv_id (fl_devices db))"
    using assms(2) by (simp add: fleet_ok_def)
  then have "\<not> foreign_device org (fl_devices db) u"
    using rotate(1,2) assms(3) by (auto simp: foreign_device_def device_of_org_def distinct_map dest: inj_onD)
  then show ?thesis
    using replaced_fields [OF rotate(3)] by (simp add: foreign_fleet_def deactivate_foreign)
next
  case (provision org' h row)
  note f = stored_fields [OF provision(2)]
  have own: "dv_organization_id row = org"
    using f(6) provision(1) assms(3) by simp
  then have same: "foreign_device org (fl_devices db') = foreign_device org (fl_devices db)"
    by (auto simp: foreign_device_def f(1) fun_eq_iff)
  have "\<not> foreign_device org (fl_devices db) (dv_id row)"
    using fresh_device_id(1) [OF assms(2)] f(5) by (force simp: foreign_device_def)
  then show ?thesis
    using own f unfolding foreign_fleet_def same by simp
next
  case (decommission org' d)
  then show ?thesis
    using decommissioned_fields [OF decommission(2)] assms(3) by (simp add: foreign_fleet_def)
qed

text \<open>
  C14. A tenant's requests to the device and factory routes, in any number and order and with whatever statements failing,
  leave every device of every other organization and every credential of those devices as they were.
\<close>
theorem fleet_calls_spare_others:
  assumes "\<forall>(call, rq)\<in>set calls. tenant_request ai o' rq" and "fleet_ok (fw_db w)" and "fl_uuid (fw_db w) o' = Some org"
  shows "foreign_fleet org (fw_db (run_fleet_calls ai bc calls w)) = foreign_fleet org (fw_db w)"
  using assms
proof (induction calls arbitrary: w)
  case Nil
  then show ?case by (simp add: run_fleet_calls_def)
next
  case (Cons x calls)
  obtain call rq where x: "x = (call, rq)" by fastforce
  let ?w1 = "run_fleet_call ai bc call rq w"
  define I where "I db \<longleftrightarrow> fleet_ok db \<and> fl_uuid db o' = Some org \<and> foreign_fleet org db = foreign_fleet org (fw_db w)" for db
  have "(fleet_step o')\<^sup>*\<^sup>* (fw_db w) (fw_db ?w1)"
    using Cons.prems call_steps [of ai o' rq w bc call] by (simp add: x steps_to_def fleet_ok_def)
  moreover have "I (fw_db w)"
    using Cons.prems by (simp add: I_def)
  moreover have "fleet_step o' db db' \<Longrightarrow> I db \<Longrightarrow> I db'" for db db'
    using fleet_ok_step foreign_step step_fixed(1) unfolding I_def by metis
  ultimately have "I (fw_db ?w1)"
    by (blast intro: steps_invariant)
  then show ?case
    using Cons.IH [of ?w1] Cons.prems(1) by (simp add: I_def x run_fleet_calls_def)
qed

section \<open>What provisioning answers\<close>

definition fleet_up :: "fleet \<Rightarrow> bool" where
  "fleet_up db \<longleftrightarrow> (\<forall>n. fl_replies db n = Reply_ok)"

lemma execute_up: "fleet_up db \<Longrightarrow> execute q db = q (db\<lparr>fl_tick := Suc (fl_tick db)\<rparr>)"
  by (simp add: fleet_up_def execute_def Let_def case_prod_beta)

text \<open>The answer by the tables before: 400, 409, 500 or the new device.\<close>

definition provision_answer ::
  "bcrypt_library \<Rightarrow> fleet \<Rightarrow> string \<Rightarrow> string \<Rightarrow> string \<Rightarrow> string \<Rightarrow> string \<Rightarrow> nat list \<Rightarrow> exn + (device_dto \<times> nat list)" where
  "provision_answer bc db org mid m serial fw secret =
     (if m = [] \<or> serial = [] then Inl (APIError 400 ''VALIDATION_ERROR'' ''machine_id and serial_number are required'' [])
      else if \<not> machine_of_org mid org db then Inl (APIError 400 ''VALIDATION_ERROR'' ''machine_id does not belong to your organization'' [])
      else case hash_password bc secret of
        Inl e \<Rightarrow> Inl e
      | Inr _ \<Rightarrow>
          if serial \<in> dv_serial_number ` set (fl_devices db)
          then Inl (APIError 409 ''CONFLICT'' ''a device with this serial_number already exists'' [])
          else Inr (\<lparr>do_id = fl_ids db (fl_next db), do_serial_number = serial, do_status = ''PROVISIONED'',
                 do_firmware_version = Some (if fw = [] then ''unknown'' else fw)\<rparr>, secret))"

lemma owned_by_up:
  assumes "fleet_up db" and "fl_uuid db i = Some u" and "fl_uuid db o' = Some org"
  shows "owned_by P i o' db = (Inr (P u org (db\<lparr>fl_tick := Suc (fl_tick db)\<rparr>)), db\<lparr>fl_tick := Suc (fl_tick db)\<rparr>)"
  using assms by (simp add: owned_by_def execute_up uuid_arg_def answer_def)

lemma machine_of_org_tick [simp]: "machine_of_org m org (db\<lparr>fl_tick := t\<rparr>) = machine_of_org m org db"
  by (simp add: machine_of_org_def line_of_org_def factory_of_org_def)

lemma fleet_up_tick [simp]: "fleet_up (db\<lparr>fl_tick := t\<rparr>) = fleet_up db"
  by (simp add: fleet_up_def)

lemma store_device_up:
  assumes "fleet_up db" and "fleet_ok db" and "fl_uuid db m = Some mid" and "fl_uuid db o' = Some org" and "machine_of_org mid org db"
  shows "fst (store_device m o' serial fw h db) =
    (if serial \<in> dv_serial_number ` set (fl_devices db) then Inl (UniqueViolation ''devices_serial_number_key'')
     else Inr \<lparr>dv_id = fl_ids db (fl_next db), dv_machine_id = mid, dv_organization_id = org,
            dv_serial_number = serial, dv_status = ''PROVISIONED'', dv_firmware_version = Some fw\<rparr>)"
proof -
  have mc: "\<exists>r\<in>set (fl_machines db). mc_id r = mid"
    using assms(5) by (auto simp: machine_of_org_def)
  have id: "fl_uuid db (fl_ids db (fl_next db)) = Some (fl_ids db (fl_next db))"
    using assms(2) by (simp add: fleet_ok_def drawn_ids_def)
  have none: "\<not> active_for (fl_ids db (fl_next db)) c" if "c \<in> set (fl_credentials db)" for c
    using fresh_device_id(2) [OF assms(2) that] by (auto simp: active_for_def)
  have up: "fl_replies db n = Reply_ok" for n
    using assms(1) by (simp add: fleet_up_def)
  show ?thesis
    using mc id none assms(3,4)
    by (auto simp: store_device_def transaction_def andthen_def insert_device_def insert_credential_def execute_def up answer_def uuid_arg_def
        Let_def)
qed

lemma provision_run:
  assumes "fleet_up (fw_db w)" and "fleet_ok (fw_db w)"
    and "m \<noteq> [] \<Longrightarrow> fl_uuid (fw_db w) m = Some mid" and "fl_uuid (fw_db w) (cl_organization_id c) = Some org"
  shows "fst (provision_device bc m serial fw c w) = provision_answer bc (fw_db w) org mid m serial fw (fw_secrets w (fw_secret_tick w))"
proof -
  let ?db1 = "(fw_db w)\<lparr>fl_tick := Suc (fl_tick (fw_db w))\<rparr>"
  have ok1: "fleet_ok ?db1"
    using assms(2) by (simp add: fleet_ok_def drawn_ids_def fleet_typed_def device_ok_def active_count_def)
  have own: "on_fleet (owned_by machine_of_org m (cl_organization_id c)) w = (Inr (machine_of_org mid org (fw_db w)), w\<lparr>fw_db := ?db1\<rparr>)"
    if "m \<noteq> []"
    using owned_by_up [OF assms(1) assms(3) [OF that] assms(4)] by (simp add: on_fleet_def)
  have store: "fst (store_device m (cl_organization_id c) serial f h ?db1) =
    (if serial \<in> dv_serial_number ` set (fl_devices (fw_db w)) then Inl (UniqueViolation ''devices_serial_number_key'')
     else Inr \<lparr>dv_id = fl_ids (fw_db w) (fl_next (fw_db w)), dv_machine_id = mid, dv_organization_id = org,
            dv_serial_number = serial, dv_status = ''PROVISIONED'', dv_firmware_version = Some f\<rparr>)"
    if "machine_of_org mid org (fw_db w)" "m \<noteq> []" for f h
    using store_device_up [of ?db1 m mid "cl_organization_id c" org serial f h] assms(1,3,4) ok1 that by simp
  show ?thesis
  proof (cases "m = [] \<or> serial = [] \<or> \<not> machine_of_org mid org (fw_db w)")
    case True
    then show ?thesis
      using own by (auto simp: provision_device_def provision_answer_def)
  next
    case False
    define secret where "secret = fw_secrets w (fw_secret_tick w)"
    define f where "f = (if fw = [] then ''unknown'' else fw)"
    show ?thesis
    proof (cases "hash_password bc secret")
      case (Inl e)
      then show ?thesis
        using False own by (simp add: provision_device_def provision_answer_def draw_secret_def secret_def)
    next
      case (Inr h)
      obtain y db3 where st: "store_device m (cl_organization_id c) serial f h ?db1 = (y, db3)" by fastforce
      then have y: "y = fst (store_device m (cl_organization_id c) serial f h ?db1)" by simp
      have "fst (provision_device bc m serial fw c w) =
          (case y of Inl e \<Rightarrow> Inl (provision_error e) | Inr row \<Rightarrow> Inr (device_dto_of row, secret))"
        using False own Inr st
        by (simp add: provision_device_def draw_secret_def secret_def on_fleet_def Let_def f_def [symmetric] split: sum.split)
      then show ?thesis
        using False store [of f h] Inr unfolding y
        by (simp add: provision_answer_def provision_error_def device_dto_of_def secret_def [symmetric] f_def [symmetric])
    qed
  qed
qed

text \<open>
  What provisioning answers while the database is up: 400 for a missing field and for a machine that is not the
  tenant's own; for one of its own machines whatever hashing the secret raised, then 409 if any device, of whichever
  organization, has the serial number, and otherwise the new device, PROVISIONED, under the next identifier.
\<close>
theorem provision_answers:
  assumes "require_permission (ai_jwt ai) (ai_access_secret ai) PERM_DEVICES_WRITE (api_now w) rq = Inr c"
    and "apply_limit ai Default_limit rq w = (Inr hs, w1)"
    and "fleet_up (fw_db w)" and "fleet_ok (fw_db w)"
    and "m \<noteq> [] \<Longrightarrow> fl_uuid (fw_db w) m = Some mid" and "fl_uuid (fw_db w) (cl_organization_id c) = Some org"
  shows "fst (provision_device_route ai bc m serial fw rq w) =
    provision_answer bc (fw_db w) org mid m serial fw (fw_secrets w (fw_secret_tick w))"
proof -
  have "api_world.more w1 = api_world.more w" "api_now w1 = api_now w"
    using apply_limit_more [of ai Default_limit rq w] assms(2) by simp_all
  moreover from this(1) have w1: "fw_db w1 = fw_db w" "fw_secrets w1 = fw_secrets w" "fw_secret_tick w1 = fw_secret_tick w"
    by (cases w; cases w1; simp)+
  ultimately have route: "provision_device_route ai bc m serial fw rq w = provision_device bc m serial fw c w1"
    using assms(1,2) by (simp add: provision_device_route_def route_def limited_def permitted_def)
  then show ?thesis
    using provision_run [of w1 m mid c org bc serial fw] assms(3-6) w1 by simp
qed

section \<open>The device gauge\<close>

lemma fold_set_all: "fold (\<lambda>s g. if P s then g(s := v) else g) ss g x = (if x \<in> set ss \<and> P x then v else g x)"
  by (induction ss arbitrary: g) auto

lemma fold_set_rows: "fold (\<lambda>(s, n) g. g(s := n)) (map (\<lambda>s. (s, c s)) ss) g x = (if x \<in> set ss then c x else g x)"
  by (induction ss arbitrary: g) auto

lemma count_list_map: "count_list (map f xs) y = length (filter (\<lambda>x. f x = y) xs)"
  by (induction xs) auto

text \<open>
  One round of the gauge refresher against a database that answers: every status the gauge knows, and every status a
  device has, then shows the number of devices in it, of all organizations; other labels keep what they showed.
\<close>
theorem gauge_shows_counts:
  assumes "fl_replies db (fl_tick db) = Reply_ok"
  shows "snd (device_gauge_tick (db, g)) s =
    (if s \<in> set device_statuses \<or> s \<in> dv_status ` set (fl_devices db)
     then length (filter (\<lambda>r. dv_status r = s) (fl_devices db)) else g s)"
proof -
  let ?ss = "map dv_status (fl_devices db)"
  let ?g1 = "fold (\<lambda>(status, n) g. g(status := n)) (map (\<lambda>s. (s, count_list ?ss s)) (remdups ?ss)) g"
  have "snd (device_gauge_tick (db, g)) =
      fold (\<lambda>s g. if s \<notin> set ?ss then g(s := 0) else g) device_statuses ?g1"
    using assms by (simp add: device_gauge_tick_def count_by_status_def execute_def answer_def Let_def comp_def)
  moreover have "length (filter (\<lambda>r. dv_status r = s) (fl_devices db)) = 0" if "s \<notin> set ?ss"
    using that by (auto simp: filter_empty_conv)
  ultimately show ?thesis
    by (auto simp: fold_set_all fold_set_rows count_list_map)
qed

section \<open>A concrete fleet\<close>

definition demo_device :: "string \<Rightarrow> string \<Rightarrow> string \<Rightarrow> device_row" where
  "demo_device i org serial =
     \<lparr>dv_id = i, dv_machine_id = ''m'', dv_organization_id = org, dv_serial_number = serial, dv_status = ''ACTIVE'',
      dv_firmware_version = None\<rparr>"

definition demo_credential :: "string \<Rightarrow> credential_row" where
  "demo_credential d = \<lparr>ce_device_id = d, ce_hash = ''h'', ce_active = True\<rparr>"

definition demo_fleet :: fleet where
  "demo_fleet =
     \<lparr>fl_factories = [\<lparr>fy_id = ''f'', fy_organization_id = ''org'', fy_name = ''F'', fy_city = None, fy_country = ''DE''\<rparr>],
      fl_lines = [\<lparr>ln_id = ''l'', ln_factory_id = ''f'', ln_name = ''L''\<rparr>],
      fl_machines = [\<lparr>mc_id = ''m'', mc_production_line_id = ''l'', mc_name = ''M'', mc_machine_type = ''PUMP'', mc_status = ''UP''\<rparr>],
      fl_devices = [demo_device ''d'' ''org'' ''s1'', demo_device ''dd'' ''other'' ''s2''], fl_sensors = [],
      fl_credentials = [demo_credential ''d'', demo_credential ''dd''],
      fl_ids = (\<lambda>n. replicate (Suc n) CHR ''d''), fl_next = 2, fl_uuid = Some, fl_rank = (\<lambda>s. 0), fl_replies = (\<lambda>n. Reply_ok), fl_tick = 0\<rparr>"

definition demo_fleet_world :: fleet_world where
  "demo_fleet_world =
     \<lparr>ap_auth = demo_auth_world, ap_rate = Map.empty, fw_db = demo_fleet, fw_secrets = (\<lambda>n. [97, 98]), fw_secret_tick = 0\<rparr>"

definition demo_fleet_api :: api where
  "demo_fleet_api = demo_api\<lparr>ai_jwt := demo_fixed_jwt\<rparr>"

definition demo_fleet_calls :: "(fleet_call \<times> request) list" where
  "demo_fleet_calls =
     (let rq = demo_request ''1.2.3.4'' ''t''
      in [(Rotate_credentials ''d'', rq), (Provision_device ''m'' ''s3'' [], rq), (Decommission_device ''dd'', rq)])"

lemma demo_fleet_claims:
  "parse_and_validate (ai_jwt demo_fleet_api) now (bearer_token (demo_request ''1.2.3.4'' ''t'')) (ai_access_secret demo_fleet_api)
     TOKEN_TYPE_ACCESS = Inr (claims_of demo_payload)"
  by (simp add: demo_fleet_api_def demo_request_def bearer_token_def demo_fixed_jwt_reads)

lemma demo_fleet_tenant: "tenant_request demo_fleet_api ''org'' (demo_request ''1.2.3.4'' ''t'')"
  by (simp add: tenant_request_def demo_fleet_claims)

lemma demo_fleet_tenants: "tenants demo_fleet_api demo_fleet_calls"
  using demo_fleet_tenant by (auto simp: tenants_def demo_fleet_calls_def Let_def)

lemma demo_fleet_drawn: "drawn_ids demo_fleet"
  by (auto simp: drawn_ids_def demo_fleet_def inj_def dest: arg_cong [where f = length])

lemma demo_fleet_ok: "fleet_ok demo_fleet"
proof -
  have "replicate (Suc 0) CHR ''d'' = ''d''" and "replicate (Suc 1) CHR ''d'' = ''dd''"
    by simp_all
  then show ?thesis
    using demo_fleet_drawn
    by (auto simp: fleet_ok_def fleet_typed_def device_ok_def device_statuses_def active_count_def active_for_def demo_fleet_def
        demo_device_def demo_credential_def intro: exI [of _ 0] exI [of _ 1])
qed


theorem one_active_credential_witness:
  "list_all (\<lambda>r. active_count (fw_db (run_fleet_calls demo_fleet_api demo_bcrypt demo_fleet_calls demo_fleet_world)) (dv_id r) = 1)
     (fl_devices (fw_db (run_fleet_calls demo_fleet_api demo_bcrypt demo_fleet_calls demo_fleet_world)))"
  using one_active_credential [OF demo_fleet_tenants, of demo_fleet_world demo_bcrypt] demo_fleet_ok
  by (simp add: demo_fleet_world_def list_all_iff)

theorem fleet_calls_spare_others_witness:
  "foreign_fleet ''org'' (fw_db (run_fleet_calls demo_fleet_api demo_bcrypt demo_fleet_calls demo_fleet_world)) =
     ([demo_device ''dd'' ''other'' ''s2''], [demo_credential ''dd''])"
proof -
  have "foreign_fleet ''org'' (fw_db (run_fleet_calls demo_fleet_api demo_bcrypt demo_fleet_calls demo_fleet_world)) =
      foreign_fleet ''org'' (fw_db demo_fleet_world)"
    by (rule fleet_calls_spare_others [where o' = "''org''"])
      (use demo_fleet_tenant demo_fleet_ok in \<open>auto simp: demo_fleet_calls_def Let_def demo_fleet_world_def demo_fleet_def\<close>)
  then show ?thesis
    by (simp add: foreign_fleet_def foreign_device_def demo_fleet_world_def demo_fleet_def demo_device_def demo_credential_def)
qed

theorem gauge_shows_counts_witness:
  "snd (device_gauge_tick (demo_fleet, \<lambda>s. 9)) ''ACTIVE'' = 2 \<and> snd (device_gauge_tick (demo_fleet, \<lambda>s. 9)) ''OFFLINE'' = 0"
  using gauge_shows_counts [of demo_fleet "\<lambda>s. 9" "''ACTIVE''"] gauge_shows_counts [of demo_fleet "\<lambda>s. 9" "''OFFLINE''"]
  by (simp add: demo_fleet_def demo_device_def device_statuses_def)

lemma demo_fleet_admitted:
  "require_permission (ai_jwt demo_fleet_api) (ai_access_secret demo_fleet_api) PERM_DEVICES_WRITE now (demo_request ''1.2.3.4'' ''t'') =
     Inr (claims_of demo_payload)"
  using demo_fleet_claims [of now]
  by (simp add: require_permission_def require_auth_def has_permission_def demo_request_def bearer_token_def claims_of_def demo_payload_def)

lemma demo_fleet_limit:
  "\<exists>hs w1. apply_limit demo_fleet_api Default_limit (demo_request ''1.2.3.4'' ''t'') demo_fleet_world = (Inr hs, w1)"
  by (simp add: apply_limit_def demo_fleet_api_def demo_api_def rate_limit_def run_script_def incr_expire_def demo_fleet_world_def
      demo_auth_world_def Let_def)

theorem provision_answers_witness:
  "fst (provision_device_route demo_fleet_api demo_bcrypt ''m'' ''s3'' [] (demo_request ''1.2.3.4'' ''t'') demo_fleet_world) =
     Inr (\<lparr>do_id = ''ddd'', do_serial_number = ''s3'', do_status = ''PROVISIONED'', do_firmware_version = Some ''unknown''\<rparr>, [97, 98]) \<and>
   fst (provision_device_route demo_fleet_api demo_bcrypt ''m'' ''s2'' [] (demo_request ''1.2.3.4'' ''t'') demo_fleet_world) =
     Inl (APIError 409 ''CONFLICT'' ''a device with this serial_number already exists'' [])"
proof -
  obtain hs w1 where limit: "apply_limit demo_fleet_api Default_limit (demo_request ''1.2.3.4'' ''t'') demo_fleet_world = (Inr hs, w1)"
    using demo_fleet_limit by blast
  have db: "fw_db demo_fleet_world = demo_fleet" "fleet_up demo_fleet" "\<And>i. fl_uuid demo_fleet i = Some i"
    by (simp_all add: demo_fleet_world_def fleet_up_def demo_fleet_def)
  have "fst (provision_device_route demo_fleet_api demo_bcrypt ''m'' serial [] (demo_request ''1.2.3.4'' ''t'') demo_fleet_world) =
      provision_answer demo_bcrypt demo_fleet ''org'' ''m'' ''m'' serial [] (fw_secrets demo_fleet_world (fw_secret_tick demo_fleet_world))"
    for serial
    using provision_answers [OF demo_fleet_admitted limit, of "''m''" "''m''" "''org''"] db demo_fleet_ok by simp
  moreover have "hash_password demo_bcrypt [97, 98] = Inr ''xx''"
    by (simp add: hash_password_def check_password_length_def encode_utf8_def surrogate_def MAX_PASSWORD_BYTES_def demo_bcrypt_def)
  ultimately show ?thesis
    by (simp add: provision_answer_def demo_fleet_world_def demo_fleet_def demo_device_def machine_of_org_def line_of_org_def
        factory_of_org_def numeral_2_eq_2)
qed

lemma demo_rotation:
  "fst (rotate_credentials_route demo_fleet_api demo_bcrypt ''d'' (demo_request ''1.2.3.4'' ''t'') demo_fleet_world) = Inr [97, 98]"
proof -
  have "hash_password demo_bcrypt [97, 98] = Inr ''xx''"
    by (simp add: hash_password_def check_password_length_def encode_utf8_def surrogate_def MAX_PASSWORD_BYTES_def demo_bcrypt_def)
  moreover obtain hs w1 where limit: "apply_limit demo_fleet_api Default_limit (demo_request ''1.2.3.4'' ''t'') demo_fleet_world = (Inr hs, w1)"
    using demo_fleet_limit by blast
  moreover have "api_world.more w1 = api_world.more demo_fleet_world"
    using apply_limit_more [of demo_fleet_api Default_limit "demo_request ''1.2.3.4'' ''t''" demo_fleet_world] limit by simp
  moreover have "fw_db w1 = demo_fleet" "fw_secrets w1 = (\<lambda>n. [97, 98])"
    using calculation(3) by (cases w1; simp add: demo_fleet_world_def)+
  ultimately show ?thesis
    by (simp add: rotate_credentials_route_def route_def limited_def permitted_def demo_fleet_admitted rotate_credentials_def
        on_fleet_def owned_by_def execute_def uuid_arg_def answer_def device_of_org_def demo_fleet_def draw_secret_def
        replace_credential_def transaction_def andthen_def deactivate_credentials_def insert_credential_def deactivate_def
        active_for_def demo_device_def demo_credential_def Let_def)
qed

theorem rotation_is_atomic_witness:
  "\<exists>h. fl_credentials (fw_db (snd (rotate_credentials_route demo_fleet_api demo_bcrypt ''d'' (demo_request ''1.2.3.4'' ''t'') demo_fleet_world))) =
     [(demo_credential ''d'')\<lparr>ce_active := False\<rparr>, demo_credential ''dd'', \<lparr>ce_device_id = ''d'', ce_hash = h, ce_active = True\<rparr>] \<and>
     verify_password demo_bcrypt h [97, 98] = Inr True"
proof -
  let ?p = "rotate_credentials_route demo_fleet_api demo_bcrypt ''d'' (demo_request ''1.2.3.4'' ''t'') demo_fleet_world"
  have law: "bc_hash demo_bcrypt bytes = Inr h \<Longrightarrow> bc_check demo_bcrypt bytes h = Inr True" for bytes h
    by (auto simp: demo_bcrypt_def)
  have "?p = (fst ?p, snd ?p)" by simp
  from rotation_is_atomic [OF this law] show ?thesis
    using demo_rotation by (auto simp: demo_fleet_world_def demo_fleet_def deactivate_def demo_credential_def active_for_def)
qed

end
