(* ===== verification/Ws_Alerts.thy ===== *)
theory Ws_Alerts
  imports Api_Access "HOL-Library.AList"
begin

text \<open>
  \<open>ws_alerts.py\<close>: the hub of connected WebSocket clients, the fan-out of the alerts topic to them and the
  life of one connection. A client is a number, one per connection object. Whether a send succeeds is the
  next of a sequence. A broadcast takes its targets under the lock and sends to them one after the
  other; it is one step here. Parsing an alert event is pydantic's, a parameter.
\<close>

section \<open>The hub\<close>

record hub =
  hb_clients :: "(nat \<times> string) list"
  hb_gauge :: nat
  hb_loop :: bool
  hb_frames :: "(nat \<times> string) list"
  hb_closed :: "(nat \<times> int) list"
  hb_committed :: "string list"
  hb_sends :: "nat \<Rightarrow> bool"
  hb_tick :: nat

definition new_hub :: "(nat \<Rightarrow> bool) \<Rightarrow> hub" where
  "new_hub sends =
     \<lparr>hb_clients = [], hb_gauge = 0, hb_loop = False, hb_frames = [], hb_closed = [], hb_committed = [],
      hb_sends = sends, hb_tick = 0\<rparr>"

definition bind_loop :: "hub \<Rightarrow> hub" where
  "bind_loop h = h\<lparr>hb_loop := True\<rparr>"

definition register :: "nat \<Rightarrow> string \<Rightarrow> hub \<Rightarrow> hub" where
  "register ws org_id h =
     (let cs = AList.update ws org_id (hb_clients h) in h\<lparr>hb_clients := cs, hb_gauge := length cs\<rparr>)"

definition unregister :: "nat \<Rightarrow> hub \<Rightarrow> hub" where
  "unregister ws h =
     (let cs = AList.delete ws (hb_clients h)
      in h\<lparr>hb_clients := cs, hb_gauge := length cs, hb_closed := hb_closed h @ [(ws, 1000)]\<rparr>)"

text \<open>A failing send drops the client.\<close>

fun send_all :: "nat list \<Rightarrow> string \<Rightarrow> hub \<Rightarrow> hub" where
  "send_all [] text h = h"
| "send_all (ws # targets) text h =
     (let h1 = h\<lparr>hb_tick := Suc (hb_tick h)\<rparr>
      in send_all targets text
           (if hb_sends h (hb_tick h) then h1\<lparr>hb_frames := hb_frames h @ [(ws, text)]\<rparr> else unregister ws h1))"

definition broadcast_async :: "string \<Rightarrow> string \<Rightarrow> hub \<Rightarrow> hub" where
  "broadcast_async org_id payload h = send_all (map fst (filter (\<lambda>p. snd p = org_id) (hb_clients h))) payload h"

definition broadcast_threadsafe :: "string \<Rightarrow> string \<Rightarrow> hub \<Rightarrow> hub" where
  "broadcast_threadsafe org_id payload h = (if \<not> hb_loop h then h else broadcast_async org_id payload h)"

section \<open>The fan-out loop\<close>

text \<open>
  One poll. The commit, whose outcome is given, comes before the parse and its failure is ignored.
\<close>

definition fan_out_step :: "(string \<Rightarrow> exn + alert_event) \<Rightarrow> string poll \<times> bool \<Rightarrow> hub \<Rightarrow> hub" where
  "fan_out_step parse p h =
     (case p of
        (Poll_msg raw, committed) \<Rightarrow>
          (let h1 = (if committed then h\<lparr>hb_committed := hb_committed h @ [raw]\<rparr> else h)
           in case parse raw of
                Inl _ \<Rightarrow> h1
              | Inr evt \<Rightarrow> broadcast_threadsafe (ae_organization_id evt) raw h1)
      | _ \<Rightarrow> h)"

definition run_alerts_fan_out :: "(string \<Rightarrow> exn + alert_event) \<Rightarrow> (string poll \<times> bool) list \<Rightarrow> hub \<Rightarrow> hub" where
  "run_alerts_fan_out parse polls h = fold (fan_out_step parse) polls h"

section \<open>A connection\<close>

definition ws_open :: "string jwt_library \<Rightarrow> string \<Rightarrow> int \<Rightarrow> request \<Rightarrow> nat \<Rightarrow> hub \<Rightarrow> claims option \<times> hub" where
  "ws_open jw access_secret now rq ws h =
     (case parse_and_validate jw now (query_param rq ''token'') access_secret TOKEN_TYPE_ACCESS of
        Inl _ \<Rightarrow> (None, h\<lparr>hb_closed := hb_closed h @ [(ws, 1008)]\<rparr>)
      | Inr claims \<Rightarrow> (Some claims, register ws (cl_organization_id claims) h))"

text \<open>The frames of a client are dropped; a disconnect, as a message or as an exception, ends the loop.\<close>

datatype ws_message = Ws_frame | Ws_disconnect | Ws_raises_disconnect

fun ws_drain :: "nat \<Rightarrow> ws_message list \<Rightarrow> hub \<Rightarrow> hub" where
  "ws_drain ws [] h = h"
| "ws_drain ws (Ws_frame # ms) h = ws_drain ws ms h"
| "ws_drain ws (Ws_disconnect # ms) h = unregister ws h"
| "ws_drain ws (Ws_raises_disconnect # ms) h = unregister ws h"

section \<open>What a broadcast does\<close>

text \<open>Of the targets, in order, those whose send succeeds, the first send being number \<open>t\<close>.\<close>

fun sent_to :: "(nat \<Rightarrow> bool) \<Rightarrow> nat \<Rightarrow> nat list \<Rightarrow> nat list" where
  "sent_to sends t [] = []"
| "sent_to sends t (ws # targets) = (if sends t then [ws] else []) @ sent_to sends (Suc t) targets"

lemma sent_to_subset: "set (sent_to sends t targets) \<subseteq> set targets"
  by (induction targets arbitrary: t) auto

lemma send_all_effect:
  "distinct targets \<Longrightarrow>
   hb_frames (send_all targets text h) = hb_frames h @ map (\<lambda>ws. (ws, text)) (sent_to (hb_sends h) (hb_tick h) targets) \<and>
   hb_clients (send_all targets text h) =
     filter (\<lambda>p. fst p \<in> set targets \<longrightarrow> fst p \<in> set (sent_to (hb_sends h) (hb_tick h) targets)) (hb_clients h) \<and>
   hb_loop (send_all targets text h) = hb_loop h \<and> hb_sends (send_all targets text h) = hb_sends h"
proof (induction targets arbitrary: h)
  case (Cons ws targets)
  have d: "distinct targets" and out: "ws \<notin> set targets" "ws \<notin> set (sent_to sends t targets)" for sends t
    using Cons.prems sent_to_subset by (auto dest: subsetD)
  show ?case
    using Cons.IH [OF d] out by (auto simp: unregister_def Let_def AList.delete_eq intro!: filter_cong)
qed simp

lemma send_all_gauge:
  "hb_gauge h = length (hb_clients h) \<Longrightarrow> hb_gauge (send_all targets text h) = length (hb_clients (send_all targets text h))"
  by (induction targets arbitrary: h) (auto simp: unregister_def Let_def)

section \<open>Alerts stay in their organization\<close>

text \<open>The hub with every connection it ever accepted, one event at a time.\<close>

inductive hub_step ::
  "string jwt_library \<Rightarrow> string \<Rightarrow> (string \<Rightarrow> exn + alert_event) \<Rightarrow> hub \<times> (nat \<times> claims) list \<Rightarrow> hub \<times> (nat \<times> claims) list \<Rightarrow> bool"
  for jw secret parse where
  hub_bind: "hub_step jw secret parse (h, cs) (bind_loop h, cs)"
| hub_open: "ws \<notin> set (map fst cs) \<Longrightarrow> ws_open jw secret now rq ws h = (Some c, h') \<Longrightarrow>
    hub_step jw secret parse (h, cs) (h', cs @ [(ws, c)])"
| hub_refuse: "ws_open jw secret now rq ws h = (None, h') \<Longrightarrow> hub_step jw secret parse (h, cs) (h', cs)"
| hub_drain: "hub_step jw secret parse (h, cs) (ws_drain ws ms h, cs)"
| hub_fan_out: "hub_step jw secret parse (h, cs) (fan_out_step parse p h, cs)"

definition hub_reaches where
  "hub_reaches jw secret parse sends h cs \<longleftrightarrow> (hub_step jw secret parse)\<^sup>*\<^sup>* (new_hub sends, []) (h, cs)"

text \<open>Clients are accepted connections, each with the organization of its token.\<close>

definition hub_ok :: "(string \<Rightarrow> exn + alert_event) \<Rightarrow> hub \<Rightarrow> (nat \<times> claims) list \<Rightarrow> bool" where
  "hub_ok parse h cs \<longleftrightarrow>
     distinct (map fst (hb_clients h)) \<and> hb_gauge h = length (hb_clients h) \<and>
     (\<forall>(ws, org)\<in>set (hb_clients h). \<exists>c. (ws, c) \<in> set cs \<and> cl_organization_id c = org) \<and>
     (\<forall>(ws, raw)\<in>set (hb_frames h). \<exists>c evt. (ws, c) \<in> set cs \<and> parse raw = Inr evt \<and> cl_organization_id c = ae_organization_id evt)"

lemma hub_ok_new: "hub_ok parse (new_hub sends) []"
  by (simp add: hub_ok_def new_hub_def)

lemma hub_ok_unregister: "hub_ok parse h cs \<Longrightarrow> hub_ok parse (unregister ws h) cs"
  by (auto simp: hub_ok_def unregister_def Let_def AList.delete_eq distinct_map_filter)

lemma hub_ok_drain: "hub_ok parse h cs \<Longrightarrow> hub_ok parse (ws_drain ws ms h) cs"
  by (induction ws ms h rule: ws_drain.induct) (simp_all add: hub_ok_unregister)

lemma update_new: "k \<notin> fst ` set xs \<Longrightarrow> AList.update k v xs = xs @ [(k, v)]"
  by (induction xs) auto

lemma hub_ok_open:
  assumes "hub_ok parse h cs" and "ws \<notin> set (map fst cs)" and "ws_open jw secret now rq ws h = (Some c, h')"
  shows "hub_ok parse h' (cs @ [(ws, c)])"
proof -
  have "ws \<notin> fst ` set (hb_clients h)"
  proof
    assume "ws \<in> fst ` set (hb_clients h)"
    then obtain org where "(ws, org) \<in> set (hb_clients h)" by auto
    then obtain c' where "(ws, c') \<in> set cs"
      using assms(1) unfolding hub_ok_def by blast
    then show False
      using assms(2) by force
  qed
  then have "AList.update ws org (hb_clients h) = hb_clients h @ [(ws, org)]" for org
    by (rule update_new)
  moreover have "h' = register ws (cl_organization_id c) h"
    using assms(3) by (auto simp: ws_open_def split: sum.splits)
  ultimately show ?thesis
    using assms(1) \<open>ws \<notin> fst ` set (hb_clients h)\<close> by (fastforce simp: hub_ok_def register_def Let_def)
qed

lemma hub_ok_broadcast:
  assumes "hub_ok parse h cs" and "parse raw = Inr evt"
  shows "hub_ok parse (broadcast_async (ae_organization_id evt) raw h) cs"
proof -
  let ?ts = "map fst (filter (\<lambda>p. snd p = ae_organization_id evt) (hb_clients h))"
  let ?sent = "sent_to (hb_sends h) (hb_tick h) ?ts"
  have d: "distinct ?ts" and g: "hb_gauge h = length (hb_clients h)"
    using assms(1) by (simp_all add: hub_ok_def distinct_map_filter)
  note eff = send_all_effect [OF d, of raw h] send_all_gauge [OF g, of ?ts raw]
  have "\<exists>c. (ws, c) \<in> set cs \<and> cl_organization_id c = ae_organization_id evt" if "ws \<in> set ?sent" for ws
    using that subsetD [OF sent_to_subset that] assms(1) by (fastforce simp: hub_ok_def)
  then show ?thesis
    using assms eff by (auto simp: hub_ok_def broadcast_async_def distinct_map_filter)
qed

lemma hub_ok_fan_out:
  assumes "hub_ok parse h cs"
  shows "hub_ok parse (fan_out_step parse p h) cs"
proof -
  have c: "hub_ok parse (h\<lparr>hb_committed := x\<rparr>) cs" for x
    using assms by (simp add: hub_ok_def)
  show ?thesis
    using assms c hub_ok_broadcast
    by (auto simp: fan_out_step_def broadcast_threadsafe_def Let_def split: prod.split poll.split sum.split)
qed

lemma hub_ok_closed: "hub_ok parse (h\<lparr>hb_closed := x\<rparr>) cs = hub_ok parse h cs" "hub_ok parse (bind_loop h) cs = hub_ok parse h cs"
  by (simp_all add: hub_ok_def bind_loop_def)

lemma hub_ok_step:
  assumes "hub_step jw secret parse (h, cs) (h', cs')" and "hub_ok parse h cs"
  shows "hub_ok parse h' cs'"
  using assms(1)
proof (cases rule: hub_step.cases)
  case (hub_open ws now rq c)
  then show ?thesis
    using hub_ok_open [OF assms(2)] by blast
qed (use assms(2) in \<open>auto simp: hub_ok_closed hub_ok_drain hub_ok_fan_out ws_open_def split: sum.splits\<close>)

lemma hub_ok_reaches: "hub_reaches jw secret parse sends h cs \<Longrightarrow> hub_ok parse h cs"
  unfolding hub_reaches_def
  by (induction "(h, cs)" arbitrary: h cs rule: rtranclp_induct) (auto intro: hub_ok_new hub_ok_step)

text \<open>
  C31. In every state the hub can reach, by connections opening with good and bad tokens, closing, sends failing and
  messages good and malformed arriving, each frame ever sent went to a connection whose token is of the
  organization the alert belongs to, no connection is listed twice, and the gauge is the number of clients.
\<close>

theorem alerts_stay_in_organization:
  assumes "hub_reaches jw secret parse sends h cs"
  shows "(\<forall>(ws, raw)\<in>set (hb_frames h). \<exists>c evt. (ws, c) \<in> set cs \<and> parse raw = Inr evt \<and>
      cl_organization_id c = ae_organization_id evt) \<and>
    distinct (map fst (hb_clients h)) \<and> hb_gauge h = length (hb_clients h)"
  using hub_ok_reaches [OF assms] by (simp add: hub_ok_def)

text \<open>
  C10. An alert that arrives is sent, once and in the order they connected, to every client of its organization
  whose connection takes it; a client whose send fails is dropped, and every other client stays.
\<close>

theorem alert_reaches_its_clients:
  assumes "hub_reaches jw secret parse sends h cs" and "hb_loop h" and "parse raw = Inr evt"
    and "fan_out_step parse (Poll_msg raw, b) h = h'"
  shows "let targets = map fst (filter (\<lambda>p. snd p = ae_organization_id evt) (hb_clients h));
             sent = sent_to (hb_sends h) (hb_tick h) targets
         in hb_frames h' = hb_frames h @ map (\<lambda>ws. (ws, raw)) sent \<and>
            hb_clients h' = filter (\<lambda>p. fst p \<in> set targets \<longrightarrow> fst p \<in> set sent) (hb_clients h)"
proof -
  let ?ts = "map fst (filter (\<lambda>p. snd p = ae_organization_id evt) (hb_clients h))"
  have "distinct ?ts"
    using hub_ok_reaches [OF assms(1)] by (simp add: hub_ok_def distinct_map_filter)
  note eff = send_all_effect [OF this, of raw "h\<lparr>hb_committed := hb_committed h @ [raw]\<rparr>"]
    send_all_effect [OF this, of raw h]
  show ?thesis
    using eff assms(2,3,4) by (cases b) (auto simp: fan_out_step_def broadcast_threadsafe_def broadcast_async_def Let_def)
qed

section \<open>A concrete run\<close>

text \<open>A message is the name of the organization of its event; an empty one is malformed.\<close>

definition demo_event :: "string \<Rightarrow> alert_event" where
  "demo_event org =
     \<lparr>ae_alert_id = ''a'', ae_event_type = CREATED_EVENT, ae_organization_id = org, ae_alert_rule_id = [], ae_factory_id = [],
      ae_machine_id = [], ae_device_id = [], ae_sensor_id = [], ae_severity = HIGH, ae_status = ''OPEN'', ae_title = [],
      ae_description = [], ae_escalation_level = 0, ae_triggered_at = Aware 0, ae_timestamp = Aware 0\<rparr>"

definition demo_alert_parse :: "string \<Rightarrow> exn + alert_event" where
  "demo_alert_parse raw = (if raw = [] then Inl (ValidationError []) else Inr (demo_event raw))"

definition ws_request :: "string \<Rightarrow> request" where
  "ws_request tok = \<lparr>rq_headers = Map.empty, rq_query = [''token'' \<mapsto> tok], rq_client = None\<rparr>"

definition demo_hub :: hub where
  "demo_hub = register 7 ''org'' (bind_loop (new_hub (\<lambda>i. True)))"

lemma demo_hub_reached: "hub_reaches demo_fixed_jwt ''s'' demo_alert_parse (\<lambda>i. True) demo_hub [(7, claims_of demo_payload)]"
proof -
  let ?step = "hub_step demo_fixed_jwt ''s'' demo_alert_parse"
  let ?h = "bind_loop (new_hub (\<lambda>i. True))"
  have "?step (new_hub (\<lambda>i. True), []) (?h, [])"
    by (rule hub_bind)
  moreover have "?step (?h, []) (demo_hub, [] @ [(7, claims_of demo_payload)])"
    by (rule hub_open [where now = 0 and rq = "ws_request ''t''"])
       (simp_all add: ws_open_def demo_fixed_jwt_reads ws_request_def query_param_def demo_hub_def)
  ultimately show ?thesis
    unfolding hub_reaches_def by (metis append_Nil converse_rtranclp_into_rtranclp r_into_rtranclp)
qed

theorem alert_reaches_its_clients_witness:
  "hb_frames (fan_out_step demo_alert_parse (Poll_msg ''org'', True) demo_hub) = [(7, ''org'')]"
  using alert_reaches_its_clients [OF demo_hub_reached, of "''org''" "demo_event ''org''" True, OF _ _ refl]
  by (simp add: demo_alert_parse_def demo_event_def demo_hub_def bind_loop_def register_def new_hub_def)

theorem alerts_stay_in_organization_witness:
  "set (hb_frames (fan_out_step demo_alert_parse (Poll_msg ''other'', True)
      (fan_out_step demo_alert_parse (Poll_msg ''org'', True) demo_hub))) \<subseteq> {(7, ''org'')}"
proof -
  let ?h1 = "fan_out_step demo_alert_parse (Poll_msg ''org'', True) demo_hub"
  let ?h = "fan_out_step demo_alert_parse (Poll_msg ''other'', True) ?h1"
  have "hub_reaches demo_fixed_jwt ''s'' demo_alert_parse (\<lambda>i. True) ?h [(7, claims_of demo_payload)]"
    using demo_hub_reached unfolding hub_reaches_def by (meson hub_fan_out rtranclp.rtrancl_into_rtrancl)
  from alerts_stay_in_organization [OF this] have "\<forall>(ws, raw)\<in>set (hb_frames ?h). ws = 7 \<and> raw = ''org''"
    by (fastforce simp: demo_alert_parse_def demo_event_def split: if_splits)
  then show ?thesis by auto
qed

end
