(* ===== verification/Iso_Text.thy ===== *)
theory Iso_Text
  imports Auth
begin

text \<open>
  \<open>datetime.fromisoformat(text)\<close>, which the telemetry routes use as their test of a timestamp, as a predicate: whether
  it returns or raises \<open>ValueError\<close>. The model follows CPython's implementation in C (\<open>_datetimemodule.c\<close>, as of
  release 3.11), function by function, on the UTF-8 bytes of the text. That implementation does not look at what is
  left between the sixth digit of the seconds' fraction and the sign of the time zone.
\<close>

section \<open>Bytes and digits\<close>

definition utf8_bytes :: "string \<Rightarrow> nat list" where
  "utf8_bytes s = concat (map (\<lambda>c. encode_char (of_char c)) s)"

definition digit_byte :: "nat \<Rightarrow> bool" where
  "digit_byte b \<longleftrightarrow> 48 \<le> b \<and> b \<le> 57"

text \<open>\<open>parse_digits\<close>: exactly \<open>n\<close> digits; the number and the rest.\<close>

fun parse_digits :: "nat \<Rightarrow> nat \<Rightarrow> nat list \<Rightarrow> (nat \<times> nat list) option" where
  "parse_digits acc 0 p = Some (acc, p)"
| "parse_digits acc (Suc n) [] = None"
| "parse_digits acc (Suc n) (b # p) = (if digit_byte b then parse_digits (10 * acc + (b - 48)) n p else None)"

section \<open>Dates\<close>

definition is_leap :: "nat \<Rightarrow> bool" where
  "is_leap y \<longleftrightarrow> y mod 4 = 0 \<and> (y mod 100 \<noteq> 0 \<or> y mod 400 = 0)"

definition days_in_month :: "nat \<Rightarrow> nat \<Rightarrow> nat" where
  "days_in_month y m = (if m = 2 \<and> is_leap y then 29 else [31, 28, 31, 30, 31, 30, 31, 31, 30, 31, 30, 31] ! (m - 1))"

text \<open>The ordinal of the first of January; of the Monday of week 1.\<close>

definition new_year :: "nat \<Rightarrow> nat" where
  "new_year y = 365 * (y - 1) + (y - 1) div 4 - (y - 1) div 100 + (y - 1) div 400 + 1"

definition week1_monday :: "nat \<Rightarrow> nat" where
  "week1_monday y =
     (let first_day = new_year y; first_weekday = (first_day + 6) mod 7; monday = first_day - first_weekday
      in if first_weekday > 3 then monday + 7 else monday)"

definition week_date_ok :: "nat \<Rightarrow> nat \<Rightarrow> nat \<Rightarrow> bool" where
  "week_date_ok y w d \<longleftrightarrow>
     1 \<le> y \<and> y \<le> 9999 \<and>
     (1 \<le> w \<and> w \<le> 52 \<or> w = 53 \<and> (let first_weekday = new_year y mod 7 in first_weekday = 4 \<or> first_weekday = 3 \<and> is_leap y)) \<and>
     1 \<le> d \<and> d \<le> 7 \<and> week1_monday y + (w - 1) * 7 + (d - 1) \<le> 3652059"

text \<open>\<open>_find_isoformat_datetime_separator\<close>, for a text of at least seven bytes; 45 is a hyphen, 87 a W.\<close>

definition separator_location :: "nat list \<Rightarrow> nat option" where
  "separator_location s =
     (let n = length s
      in if n = 7 then Some 7
         else if s ! 4 = 45 then
           (if s ! 5 = 87 then
              (if n < 8 then None
               else if n > 8 \<and> s ! 8 = 45 then
                 (if n = 9 then None else if n > 10 \<and> digit_byte (s ! 10) then Some 8 else Some 10)
               else Some 8)
            else Some 10)
         else if s ! 4 = 87 then
           (let pos = 7 + length (takeWhile digit_byte (drop 7 s))
            in if pos < 9 then Some pos else if even pos then Some 7 else Some 8)
         else Some 8)"

text \<open>Steps over the byte \<open>b\<close> if \<open>sep\<close>, which must then be there.\<close>

definition skip_sep :: "bool \<Rightarrow> nat list \<Rightarrow> nat list option" where
  "skip_sep sep p = (if \<not> sep then Some p else case p of b # q \<Rightarrow> if b = 45 then Some q else None | [] \<Rightarrow> None)"

text \<open>\<open>parse_isoformat_date\<close> on the whole text, the date being its first \<open>len\<close> bytes.\<close>

definition date_ok :: "nat list \<Rightarrow> nat \<Rightarrow> bool" where
  "date_ok s len =
     (case parse_digits 0 4 s of
        None \<Rightarrow> False
      | Some (year, p) \<Rightarrow>
          let sep = (take 1 p = [45]); p = (if sep then drop 1 p else p)
          in if take 1 p = [87] then
               (case parse_digits 0 2 (drop 1 p) of
                  None \<Rightarrow> False
                | Some (week, p) \<Rightarrow>
                    if length s - length p < len
                    then (case skip_sep sep p of
                            None \<Rightarrow> False
                          | Some q \<Rightarrow> (case parse_digits 0 1 q of None \<Rightarrow> False | Some (day, _) \<Rightarrow> week_date_ok year week day))
                    else week_date_ok year week 1)
             else
               (case parse_digits 0 2 p of
                  None \<Rightarrow> False
                | Some (month, p) \<Rightarrow>
                    (case skip_sep sep p of
                       None \<Rightarrow> False
                     | Some q \<Rightarrow>
                         (case parse_digits 0 2 q of
                            None \<Rightarrow> False
                          | Some (day, r) \<Rightarrow>
                              length s - length r = len \<and> 1 \<le> year \<and> year \<le> 9999 \<and> 1 \<le> month \<and> month \<le> 12 \<and>
                              1 \<le> day \<and> day \<le> days_in_month year month))))"

section \<open>Times\<close>

text \<open>How a part of the text ended: exactly, or with bytes left that were not looked at.\<close>

datatype part_end = Exact | Leftover

text \<open>\<open>parse_hh_mm_ss_ff\<close>: the numbers read, the microseconds and how the part ended.\<close>

definition parse_fraction :: "nat list \<Rightarrow> (nat \<times> part_end) option" where
  "parse_fraction p =
     (let k = min 6 (length p)
      in case parse_digits 0 k p of
           None \<Rightarrow> None
         | Some (n, q) \<Rightarrow>
             (case dropWhile digit_byte q of
                [] \<Rightarrow> Some (n * 10 ^ (6 - k), Exact)
              | b # _ \<Rightarrow> Some (n * 10 ^ (6 - k), if b = 0 then Exact else Leftover)))"

definition with_fraction :: "nat list \<Rightarrow> nat list \<Rightarrow> (nat list \<times> nat \<times> part_end) option" where
  "with_fraction vals p = (case parse_fraction p of None \<Rightarrow> None | Some (us, e) \<Rightarrow> Some (vals, us, e))"

text \<open>58 is a colon, 46 a point, 44 a comma; \<open>k\<close> numbers are still to come.\<close>

fun parse_hms :: "nat \<Rightarrow> bool option \<Rightarrow> nat list \<Rightarrow> nat list \<Rightarrow> (nat list \<times> nat \<times> part_end) option" where
  "parse_hms 0 sep vals p = with_fraction vals p"
| "parse_hms (Suc k) sep vals p =
     (case parse_digits 0 2 p of
        None \<Rightarrow> None
      | Some (v, []) \<Rightarrow> Some (vals @ [v], 0, Exact)
      | Some (v, c # q) \<Rightarrow>
          let has_sep = (case sep of None \<Rightarrow> c = 58 | Some b \<Rightarrow> b)
          in if q = [] then Some (vals @ [v], 0, if c = 0 then Exact else Leftover)
             else if has_sep \<and> c = 58 then parse_hms k (Some has_sep) (vals @ [v]) q
             else if c = 46 \<or> c = 44 then with_fraction (vals @ [v]) q
             else if \<not> has_sep then parse_hms k (Some has_sep) (vals @ [v]) (c # q)
             else None)"

definition number_at :: "nat list \<Rightarrow> nat \<Rightarrow> nat" where
  "number_at vals i = (if i < length vals then vals ! i else 0)"

text \<open>The sign of a time zone or a Z.\<close>

definition zone_mark :: "nat \<Rightarrow> bool" where
  "zone_mark b \<longleftrightarrow> b = 43 \<or> b = 45 \<or> b = 90"

definition zone_ok :: "nat list \<Rightarrow> bool" where
  "zone_ok p =
     (case parse_hms 3 None [] p of
        None \<Rightarrow> False
      | Some (vals, us, e) \<Rightarrow>
          e = Exact \<and> (number_at vals 0 * 3600 + number_at vals 1 * 60 + number_at vals 2) * 10 ^ 6 + us < 86400 * 10 ^ 6)"

definition time_ok :: "nat list \<Rightarrow> bool" where
  "time_ok s =
     (case parse_hms 3 None [] (takeWhile (\<lambda>b. \<not> zone_mark b) s) of
        None \<Rightarrow> False
      | Some (vals, us, e) \<Rightarrow>
          number_at vals 0 < 24 \<and> number_at vals 1 < 60 \<and> number_at vals 2 < 60 \<and>
          (case dropWhile (\<lambda>b. \<not> zone_mark b) s of
             [] \<Rightarrow> e = Exact
           | b # p \<Rightarrow> if b = 90 then p = [] \<or> hd p = 0 else zone_ok p))"

definition separator_width :: "nat \<Rightarrow> nat" where
  "separator_width b = (if b < 128 then 1 else if b div 16 = 14 then 3 else if b div 16 = 15 then 4 else 2)"

definition datetime_fromisoformat_ok :: "string \<Rightarrow> bool" where
  "datetime_fromisoformat_ok txt =
     (let s = utf8_bytes txt
      in if length s < 7 then False
         else case separator_location s of
                None \<Rightarrow> False
              | Some n \<Rightarrow>
                  date_ok s n \<and> (n < length s \<longrightarrow> time_ok (drop (n + separator_width (s ! n)) s)))"

section \<open>What is not looked at\<close>

lemma utf8_bytes_append [simp]: "utf8_bytes (a @ b) = utf8_bytes a @ utf8_bytes b"
  by (simp add: utf8_bytes_def)

lemma unmarked_bytes:
  assumes "CHR ''+'' \<notin> set x" and "CHR ''-'' \<notin> set x" and "CHR ''Z'' \<notin> set x"
  shows "list_all (\<lambda>b. \<not> zone_mark b) (utf8_bytes x)"
proof -
  have "\<not> zone_mark b" if "c \<in> set x" "b \<in> set (encode_char (of_char c))" for c b
  proof -
    have other: "(of_char c :: nat) \<noteq> of_char d" if "d \<notin> set x" for d
      using that \<open>c \<in> set x\<close> by auto
    have "(of_char c :: nat) \<noteq> 43" "(of_char c :: nat) \<noteq> 45" "(of_char c :: nat) \<noteq> 90"
      using other [OF assms(1)] other [OF assms(2)] other [OF assms(3)] by simp_all
    then show ?thesis
      using that(2) by (auto simp: zone_mark_def split: if_splits)
  qed
  then show ?thesis
    by (auto simp: utf8_bytes_def list_all_iff)
qed

text \<open>\<open>T00:00:00.000000\<close>, then anything without a zone mark, then a zone: accepted.\<close>

definition midnight :: "nat list" where
  "midnight = utf8_bytes ''00:00:00.000000''"

lemma midnight_reads: "\<exists>e. parse_hms 3 None [] (midnight @ junk) = Some ([0, 0, 0], 0, e)"
proof -
  have m: "midnight = [48, 48, 58, 48, 48, 58, 48, 48, 46, 48, 48, 48, 48, 48, 48]"
    by (simp add: midnight_def utf8_bytes_def)
  have "\<exists>e. parse_fraction ([48, 48, 48, 48, 48, 48] @ junk) = Some (0, e)"
    by (auto simp: parse_fraction_def digit_byte_def numeral_eq_Suc split: list.split)
  then show ?thesis
    by (auto simp: m numeral_3_eq_3 numeral_2_eq_2 digit_byte_def with_fraction_def)
qed

lemma junk_accepted:
  assumes "list_all (\<lambda>b. \<not> zone_mark b) junk"
  shows "time_ok (midnight @ junk @ utf8_bytes ''+00:00'')"
proof -
  have m: "list_all (\<lambda>b. \<not> zone_mark b) midnight"
    by (simp add: midnight_def utf8_bytes_def zone_mark_def)
  have z: "utf8_bytes ''+00:00'' = 43 # [48, 48, 58, 48, 48]"
    by (simp add: utf8_bytes_def)
  have all: "\<forall>b\<in>set (midnight @ junk). \<not> zone_mark b"
    using assms m by (auto simp: list_all_iff)
  then have "takeWhile (\<lambda>b. \<not> zone_mark b) ((midnight @ junk) @ 43 # [48, 48, 58, 48, 48]) = midnight @ junk"
    and "dropWhile (\<lambda>b. \<not> zone_mark b) ((midnight @ junk) @ 43 # [48, 48, 58, 48, 48]) = 43 # [48, 48, 58, 48, 48]"
    by (simp_all add: takeWhile_append2 dropWhile_append2 zone_mark_def)
  moreover have "zone_ok [48, 48, 58, 48, 48]"
    by (simp add: zone_ok_def numeral_3_eq_3 numeral_2_eq_2 digit_byte_def number_at_def)
  moreover obtain e where "parse_hms 3 None [] (midnight @ junk) = Some ([0, 0, 0], 0, e)"
    using midnight_reads by blast
  ultimately show ?thesis
    unfolding z by (simp add: time_ok_def number_at_def)
qed

lemma loose_text_accepted:
  assumes "CHR ''+'' \<notin> set x" and "CHR ''-'' \<notin> set x" and "CHR ''Z'' \<notin> set x"
  shows "datetime_fromisoformat_ok (''2024-01-01T00:00:00.000000'' @ x @ ''+00:00'')"
proof -
  let ?d = "[50, 48, 50, 52, 45, 48, 49, 45, 48, 49]" and ?rest = "midnight @ utf8_bytes x @ utf8_bytes ''+00:00''"
  have s: "utf8_bytes (''2024-01-01T00:00:00.000000'' @ x @ ''+00:00'') = ?d @ 84 # ?rest"
    by (simp add: midnight_def utf8_bytes_def)
  have "separator_location (?d @ 84 # ?rest) = Some 10"
    by (simp add: separator_location_def)
  moreover have "date_ok (?d @ 84 # ?rest) 10"
    by (simp add: date_ok_def skip_sep_def numeral_eq_Suc digit_byte_def days_in_month_def)
  moreover have "drop (10 + separator_width ((?d @ 84 # ?rest) ! 10)) (?d @ 84 # ?rest) = ?rest"
    by (simp add: separator_width_def)
  ultimately show ?thesis
    using junk_accepted [OF unmarked_bytes [OF assms]] unfolding datetime_fromisoformat_ok_def s by simp
qed

end
