(* ===== verification/Api_Telemetry.thy ===== *)
theory Api_Telemetry
  imports Api_Fleet Uuid_Text Iso_Text Events
begin

text \<open>
  \<open>handlers_telemetry.py\<close>: the two routes that read sensor values from the time-series database. The Flux texts are
  built as the code builds them and recorded in \<open>tw_queries\<close>; what the database answers to the n-th of them is
  \<open>tw_answers n\<close>. A time is kept as the number it is, where the answer prints it.
\<close>

section \<open>The routes\<close>

type_synonym flux_table = "(int \<times> real) list"

record telemetry_world = fleet_world +
  tw_answers :: "nat \<Rightarrow> exn + flux_table list"
  tw_tick :: nat
  tw_queries :: "string list"

definition bad_request :: "string \<Rightarrow> exn" where
  "bad_request m = APIError 400 ''VALIDATION_ERROR'' m []"

definition require_device_and_metric ::
  "request \<Rightarrow> claims \<Rightarrow> 'z fleet_world_scheme \<Rightarrow> (exn + string \<times> string) \<times> 'z fleet_world_scheme" where
  "require_device_and_metric rq claims w =
     (let device_id = query_param rq ''device_id''; metric = query_param rq ''metric''
      in if device_id = [] \<or> metric = [] then (Inl (bad_request ''device_id and metric query parameters are required''), w)
         else if raised (uuid_UUID device_id) then (Inl (bad_request ''device_id must be a valid UUID''), w)
         else if metric \<notin> set VALID_METRICS then (Inl (bad_request ''metric is not a recognized sensor metric''), w)
         else case on_fleet (owned_by device_of_org device_id (cl_organization_id claims)) w of
                (Inl e, w1) \<Rightarrow> (Inl e, w1)
              | (Inr exists, w1) \<Rightarrow>
                  if \<not> exists then (Inl (not_found ''device''), w1) else (Inr (device_id, metric), w1))"

text \<open>\<open>value.replace("Z", "+00:00")\<close>\<close>

definition replace_zulu :: "string \<Rightarrow> string" where
  "replace_zulu s = concat (map (\<lambda>c. if c = CHR ''Z'' then ''+00:00'' else [c]) s)"

definition is_rfc3339 :: "string \<Rightarrow> bool" where
  "is_rfc3339 s \<longleftrightarrow> datetime_fromisoformat_ok (replace_zulu s)"

definition build_range_clause :: "request \<Rightarrow> exn + string" where
  "build_range_clause rq =
     (let start = query_param rq ''start''
      in if start \<noteq> [] then
           (let stop = query_param rq ''end''
            in if \<not> is_rfc3339 start then Inl (ValueError ''start must be RFC3339'')
               else if stop = [] then Inr (''start: '' @ start)
               else if \<not> is_rfc3339 stop then Inl (ValueError ''end must be RFC3339'')
               else Inr (''start: '' @ start @ '', stop: '' @ stop))
         else
           (let range_param = query_param rq ''range''
            in if range_param = ''5m'' \<or> range_param = [] then Inr ''start: -5m''
               else if range_param = ''1h'' then Inr ''start: -1h''
               else if range_param = ''24h'' then Inr ''start: -24h''
               else Inl (ValueError ''range must be one of 5m, 1h, 24h, or provide start (and optionally end) as RFC3339 timestamps'')))"

definition quoted :: "string \<Rightarrow> string" where
  "quoted s = CHR 0x22 # s @ [CHR 0x22]"

definition new_line :: "nat \<Rightarrow> string" where
  "new_line n = CHR 0x0A # replicate n CHR '' ''"

text \<open>The four lines of both queries; only the range and the last stage differ.\<close>

definition flux_text :: "string \<Rightarrow> string \<Rightarrow> string \<Rightarrow> string \<Rightarrow> string \<Rightarrow> string" where
  "flux_text bucket clause device_id metric stage =
     new_line 12 @ ''from(bucket: '' @ quoted bucket @ '')'' @
     new_line 14 @ ''|> range('' @ clause @ '')'' @
     new_line 14 @ ''|> filter(fn: (r) => r._measurement == '' @ quoted ''sensor_telemetry'' @ '' and r.device_id == '' @ quoted device_id @
       '' and r.metric == '' @ quoted metric @ '' and r._field == '' @ quoted ''value'' @ '')'' @
     new_line 14 @ ''|> '' @ stage @ new_line 8"

definition latest_flux :: "string \<Rightarrow> string \<Rightarrow> string \<Rightarrow> string" where
  "latest_flux bucket device_id metric = flux_text bucket ''start: -24h'' device_id metric ''last()''"

definition range_flux :: "string \<Rightarrow> string \<Rightarrow> string \<Rightarrow> string \<Rightarrow> string" where
  "range_flux bucket clause device_id metric =
     flux_text bucket clause device_id metric (''sort(columns: ['' @ quoted ''_time'' @ ''])'')"

definition query_influx :: "string \<Rightarrow> telemetry_world \<Rightarrow> (exn + flux_table list) \<times> telemetry_world" where
  "query_influx flux w = (tw_answers w (tw_tick w), w\<lparr>tw_tick := Suc (tw_tick w), tw_queries := tw_queries w @ [flux]\<rparr>)"

definition telemetry_latest :: "string \<Rightarrow> request \<Rightarrow> claims \<Rightarrow> telemetry_world \<Rightarrow> (exn + int \<times> real) \<times> telemetry_world" where
  "telemetry_latest bucket rq claims w =
     (case require_device_and_metric rq claims w of
        (Inl e, w1) \<Rightarrow> (Inl e, w1)
      | (Inr (device_id, metric), w1) \<Rightarrow>
          (case or_internal (query_influx (latest_flux bucket device_id metric) w1) of
             (Inl e, w2) \<Rightarrow> (Inl e, w2)
           | (Inr tables, w2) \<Rightarrow>
               (case concat tables of
                  reading # _ \<Rightarrow> (Inr reading, w2)
                | [] \<Rightarrow> (Inl (APIError 404 ''NOT_FOUND'' ''no telemetry found for this device/metric in the last 24h'' []), w2))))"

definition telemetry_range :: "string \<Rightarrow> request \<Rightarrow> claims \<Rightarrow> telemetry_world \<Rightarrow> (exn + (int \<times> real) page) \<times> telemetry_world" where
  "telemetry_range bucket rq claims w =
     (case require_device_and_metric rq claims w of
        (Inl e, w1) \<Rightarrow> (Inl e, w1)
      | (Inr (device_id, metric), w1) \<Rightarrow>
          (case build_range_clause rq of
             Inl e \<Rightarrow> (Inl (bad_request (str_exn e)), w1)
           | Inr clause \<Rightarrow>
               (case or_internal (query_influx (range_flux bucket clause device_id metric) w1) of
                  (Inl e, w2) \<Rightarrow> (Inl e, w2)
                | (Inr tables, w2) \<Rightarrow> (let out = concat tables in (Inr (paginated_response out (int (length out)) 0), w2)))))"

definition telemetry_latest_route :: "api \<Rightarrow> string \<Rightarrow> request \<Rightarrow> telemetry_world \<Rightarrow> (exn + int \<times> real) \<times> telemetry_world" where
  "telemetry_latest_route ai bucket rq = route ai Default_limit PERM_TELEMETRY_READ (telemetry_latest bucket rq) rq"

definition telemetry_range_route :: "api \<Rightarrow> string \<Rightarrow> request \<Rightarrow> telemetry_world \<Rightarrow> (exn + (int \<times> real) page) \<times> telemetry_world" where
  "telemetry_range_route ai bucket rq = route ai Default_limit PERM_TELEMETRY_READ (telemetry_range bucket rq) rq"

section \<open>Devices of the caller only\<close>

lemma own_device_required:
  fixes w :: "'z fleet_world_scheme"
  assumes "require_device_and_metric rq c w = (r, w1)"
  shows "fleet_world.more w1 = fleet_world.more w"
    and "r = Inr (d, m) \<Longrightarrow> is_uuid d \<and> m \<in> set VALID_METRICS"
    and "r = Inr (d, m) \<Longrightarrow>
      \<exists>u org. fl_uuid (fw_db w) d = Some u \<and> fl_uuid (fw_db w) (cl_organization_id c) = Some org \<and> device_of_org u org (fw_db w)"
  using assms
  by (auto simp: require_device_and_metric_def on_fleet_def owned_by_def execute_def uuid_arg_def answer_def device_of_org_def
      is_uuid_def Let_def split: if_splits option.splits sum.splits prod.splits reply.splits)

text \<open>What may appear in a query of this request: a device of the caller's organization and a metric, spelled with harmless characters.\<close>

definition may_be_read :: "api \<Rightarrow> request \<Rightarrow> 'z fleet_world_scheme \<Rightarrow> string \<Rightarrow> string \<Rightarrow> bool" where
  "may_be_read ai rq w d m \<longleftrightarrow>
     m \<in> set VALID_METRICS \<and> list_all uuid_char d \<and>
     (\<exists>c u org. parse_and_validate (ai_jwt ai) (api_now w) (bearer_token rq) (ai_access_secret ai) TOKEN_TYPE_ACCESS = Inr c \<and>
        PERM_TELEMETRY_READ \<in> set (cl_permissions c) \<and>
        fl_uuid (fw_db w) d = Some u \<and> fl_uuid (fw_db w) (cl_organization_id c) = Some org \<and> device_of_org u org (fw_db w))"

lemma harmless_text: "list_all uuid_char d \<Longrightarrow> c \<in> {CHR 0x22, CHR 0x5C, CHR ''$''} \<Longrightarrow> c \<notin> set d"
  by (auto simp: list_all_iff uuid_char_def is_hex_def is_space_def)

lemma same_world:
  fixes w :: "'z fleet_world_scheme"
  assumes "api_world.more w1 = api_world.more w"
  shows "fw_db w1 = fw_db w" "fleet_world.more w1 = fleet_world.more w"
  using assms by (cases w; cases w1; simp)+

lemma queries_of:
  fixes w :: telemetry_world
  assumes "fleet_world.more w1 = fleet_world.more w"
  shows "tw_queries w1 = tw_queries w" "tw_answers w1 = tw_answers w" "tw_tick w1 = tw_tick w"
  using assms by (cases w; cases w1; simp)+

lemma let_in_reads:
  fixes w :: telemetry_world
  assumes "require_device_and_metric rq c w1 = (Inr (d, m), w2)" and "api_world.more w1 = api_world.more w"
    and "parse_and_validate (ai_jwt ai) (api_now w) (bearer_token rq) (ai_access_secret ai) TOKEN_TYPE_ACCESS = Inr c"
    and "PERM_TELEMETRY_READ = [] \<or> PERM_TELEMETRY_READ \<in> set (cl_permissions c)"
  shows "may_be_read ai rq w d m" and "tw_queries w2 = tw_queries w"
proof -
  have ok: "is_uuid d" "m \<in> set VALID_METRICS"
    using own_device_required(2) [OF assms(1)] by simp_all
  have "list_all uuid_char d"
    unfolding list_all_iff using accepted_chars [OF ok(1)] by blast
  moreover obtain u org where "fl_uuid (fw_db w) d = Some u" "fl_uuid (fw_db w) (cl_organization_id c) = Some org"
    "device_of_org u org (fw_db w)"
    using own_device_required(3) [OF assms(1) refl] unfolding same_world(1) [OF assms(2)] by blast
  moreover have "PERM_TELEMETRY_READ \<in> set (cl_permissions c)"
    using assms(4) unfolding PERM_TELEMETRY_READ_def by simp
  ultimately show "may_be_read ai rq w d m"
    unfolding may_be_read_def using ok(2) assms(3) by blast
  have "fleet_world.more w2 = fleet_world.more w"
    using own_device_required(1) [OF assms(1)] same_world(2) [OF assms(2)] by simp
  then show "tw_queries w2 = tw_queries w"
    by (rule queries_of)
qed

text \<open>A route whose handler adds no query, or one for the device and metric it was let in with.\<close>

lemma queries_of_route:
  fixes w :: telemetry_world
  assumes "\<And>c w1. fleet_world.more (snd (h c w1)) = fleet_world.more w1 \<or>
      (\<exists>d m w2 q. require_device_and_metric rq c w1 = (Inr (d, m), w2) \<and> Q d m q \<and> tw_queries (snd (h c w1)) = tw_queries w2 @ [q])"
  shows "tw_queries (snd (route ai l PERM_TELEMETRY_READ h rq w)) = tw_queries w \<or>
    (\<exists>d m q. may_be_read ai rq w d m \<and> Q d m q \<and>
       tw_queries (snd (route ai l PERM_TELEMETRY_READ h rq w)) = tw_queries w @ [q])"
proof (rule route_outcome [of ai l PERM_TELEMETRY_READ h rq w])
  fix e w1
  assume out: "route ai l PERM_TELEMETRY_READ h rq w = (Inl e, w1)" and more: "api_world.more w1 = api_world.more w"
  show ?thesis
    unfolding out using queries_of(1) [OF same_world(2) [OF more]] by simp
next
  fix c w1
  assume run: "route ai l PERM_TELEMETRY_READ h rq w = h c w1" and more: "api_world.more w1 = api_world.more w"
    and token: "parse_and_validate (ai_jwt ai) (api_now w) (bearer_token rq) (ai_access_secret ai) TOKEN_TYPE_ACCESS = Inr c"
      "PERM_TELEMETRY_READ = [] \<or> PERM_TELEMETRY_READ \<in> set (cl_permissions c)"
  from assms [of c w1] show ?thesis
  proof (elim disjE exE conjE)
    assume "fleet_world.more (snd (h c w1)) = fleet_world.more w1"
    then have "tw_queries (snd (h c w1)) = tw_queries w"
      using same_world(2) [OF more] by (intro queries_of(1)) simp
    then show ?thesis
      unfolding run by simp
  next
    fix d m w2 q
    assume req: "require_device_and_metric rq c w1 = (Inr (d, m), w2)" and q: "Q d m q"
      and qs: "tw_queries (snd (h c w1)) = tw_queries w2 @ [q]"
    then have "tw_queries (snd (h c w1)) = tw_queries w @ [q]"
      using let_in_reads(2) [OF req more token] by simp
    then show ?thesis
      unfolding run using let_in_reads(1) [OF req more token] q by blast
  qed
qed

lemma queries_of_latest:
  "fleet_world.more (snd (telemetry_latest bucket rq c w1)) = fleet_world.more w1 \<or>
   (\<exists>d m w2 q. require_device_and_metric rq c w1 = (Inr (d, m), w2) \<and> q = latest_flux bucket d m \<and>
      tw_queries (snd (telemetry_latest bucket rq c w1)) = tw_queries w2 @ [q])"
proof -
  obtain r w2 where req: "require_device_and_metric rq c w1 = (r, w2)"
    by fastforce
  show ?thesis
    using own_device_required(1) [OF req]
    by (auto simp: telemetry_latest_def req or_internal_def query_influx_def split: sum.split list.split)
qed

lemma queries_of_range:
  "fleet_world.more (snd (telemetry_range bucket rq c w1)) = fleet_world.more w1 \<or>
   (\<exists>d m w2 q. require_device_and_metric rq c w1 = (Inr (d, m), w2) \<and>
      (\<exists>clause. build_range_clause rq = Inr clause \<and> q = range_flux bucket clause d m) \<and>
      tw_queries (snd (telemetry_range bucket rq c w1)) = tw_queries w2 @ [q])"
proof -
  obtain r w2 where req: "require_device_and_metric rq c w1 = (r, w2)"
    by fastforce
  show ?thesis
    using own_device_required(1) [OF req]
    by (auto simp: telemetry_range_def req or_internal_def query_influx_def Let_def split: sum.split)
qed

text \<open>
  C36. Whatever a request asks for, the queries it makes the telemetry routes send are at most one, and its texts for
  the device and the metric are a device of the organization its token names, spelled without a quote, a
  backslash or a dollar, and one of the known metrics; the caller has the permission to read telemetry.
\<close>
theorem telemetry_queries_confined:
  "(tw_queries (snd (telemetry_latest_route ai bucket rq w)) = tw_queries w \<or>
    (\<exists>d m. may_be_read ai rq w d m \<and> set d \<inter> {CHR 0x22, CHR 0x5C, CHR ''$''} = {} \<and>
       tw_queries (snd (telemetry_latest_route ai bucket rq w)) = tw_queries w @ [latest_flux bucket d m])) \<and>
   (tw_queries (snd (telemetry_range_route ai bucket rq w)) = tw_queries w \<or>
    (\<exists>d m clause. may_be_read ai rq w d m \<and> set d \<inter> {CHR 0x22, CHR 0x5C, CHR ''$''} = {} \<and> build_range_clause rq = Inr clause \<and>
       tw_queries (snd (telemetry_range_route ai bucket rq w)) = tw_queries w @ [range_flux bucket clause d m]))"
proof -
  have safe: "set d \<inter> {CHR 0x22, CHR 0x5C, CHR ''$''} = {}" if "may_be_read ai rq w d m" for d m
    using that harmless_text [of d] unfolding may_be_read_def by blast
  let ?l = "telemetry_latest_route ai bucket rq w" and ?r = "telemetry_range_route ai bucket rq w"
  have "tw_queries (snd ?l) = tw_queries w \<or>
      (\<exists>d m q. may_be_read ai rq w d m \<and> q = latest_flux bucket d m \<and> tw_queries (snd ?l) = tw_queries w @ [q])"
    unfolding telemetry_latest_route_def by (rule queries_of_route) (rule queries_of_latest)
  moreover have "tw_queries (snd ?r) = tw_queries w \<or>
      (\<exists>d m q. may_be_read ai rq w d m \<and> (\<exists>clause. build_range_clause rq = Inr clause \<and> q = range_flux bucket clause d m) \<and>
         tw_queries (snd ?r) = tw_queries w @ [q])"
    unfolding telemetry_range_route_def by (rule queries_of_route) (rule queries_of_range)
  ultimately show ?thesis
    using safe by (intro conjI; elim disjE exE conjE; simp; blast)
qed

section \<open>What the checks let through\<close>

lemma fields_after_limit:
  fixes w :: telemetry_world
  assumes "apply_limit ai l rq w = (Inr hs, w1)"
  shows "fw_db w1 = fw_db w" "tw_queries w1 = tw_queries w" "api_now w1 = api_now w"
proof -
  have "api_world.more w1 = api_world.more w" and now: "api_now w1 = api_now w"
    using apply_limit_more [of ai l rq w] assms by simp_all
  then show "fw_db w1 = fw_db w" "tw_queries w1 = tw_queries w" "api_now w1 = api_now w"
    using same_world [of w1 w] queries_of(1) [of w1 w] by simp_all
qed

text \<open>
  What the texts of a request for a device are answered while the database is up, for a caller who may read
  telemetry and names a known metric: 400 for a text Python does not take for a UUID; for one that Python does
  but PostgreSQL does not, as with \<open>urn:uuid:\<close> before it, the database's own error, which no handler turns into an answer;
  404 for a device that is not of the caller's organization.
\<close>
theorem device_text_answers:
  assumes "require_permission (ai_jwt ai) (ai_access_secret ai) PERM_TELEMETRY_READ (api_now w) rq = Inr c"
    and "apply_limit ai Default_limit rq w = (Inr hs, w1)"
    and "query_param rq ''device_id'' = d" "d \<noteq> []" and "query_param rq ''metric'' \<in> set VALID_METRICS"
    and "fl_replies (fw_db w) (fl_tick (fw_db w)) = Reply_ok" and "fl_uuid (fw_db w) (cl_organization_id c) = Some org"
  shows "fst (telemetry_latest_route ai bucket rq w) =
    (if \<not> is_uuid d then Inl (bad_request ''device_id must be a valid UUID'')
     else case fl_uuid (fw_db w) d of
            None \<Rightarrow> Inl DataError
          | Some u \<Rightarrow>
              if \<not> device_of_org u org (fw_db w) then Inl (not_found ''device'')
              else fst (telemetry_latest bucket rq c w1))"
proof -
  have metric: "query_param rq ''metric'' \<noteq> []"
    using assms(5) by (auto simp: VALID_METRICS_def)
  have "telemetry_latest_route ai bucket rq w = telemetry_latest bucket rq c w1"
    using assms(1,2) fields_after_limit(3) [OF assms(2)] by (simp add: telemetry_latest_route_def route_def limited_def permitted_def)
  moreover have "fst (telemetry_latest bucket rq c w1) = Inl e" if "fst (require_device_and_metric rq c w1) = Inl e" for e
    using that by (auto simp: telemetry_latest_def split: prod.split sum.split)
  ultimately show ?thesis
    using assms(3-7) metric fields_after_limit(1) [OF assms(2)]
    by (auto simp: require_device_and_metric_def is_uuid_def on_fleet_def owned_by_def execute_def uuid_arg_def answer_def
        device_of_org_def Let_def split: option.split)
qed

lemma zulu_free: "CHR ''Z'' \<notin> set s \<Longrightarrow> replace_zulu s = s"
  by (induction s) (auto simp: replace_zulu_def)


section \<open>A concrete caller\<close>

definition demo_reader :: jwt_payload where
  "demo_reader = demo_payload\<lparr>jp_permissions := Some [PERM_TELEMETRY_READ]\<rparr>"

definition demo_reading_api :: api where
  "demo_reading_api = demo_api\<lparr>ai_jwt := \<lparr>jw_encode = (\<lambda>p s. ''t''), jw_decode = (\<lambda>now t s. Inr demo_reader)\<rparr>\<rparr>"

definition demo_device_text :: string where
  "demo_device_text = ''00000000-0000-0000-0000-00000000000d''"

definition demo_reading_request :: "string \<Rightarrow> string \<Rightarrow> request" where
  "demo_reading_request d start =
     (demo_request ''1.2.3.4'' ''t'')\<lparr>rq_query := [''device_id'' \<mapsto> d, ''metric'' \<mapsto> ''rpm'', ''start'' \<mapsto> start]\<rparr>"

definition demo_readings :: telemetry_world where
  "demo_readings =
     \<lparr>ap_auth = demo_auth_world, ap_rate = Map.empty,
      fw_db = \<lparr>fl_factories = [], fl_lines = [], fl_machines = [],
        fl_devices = [\<lparr>dv_id = demo_device_text, dv_machine_id = ''m'', dv_organization_id = ''org'', dv_serial_number = ''s'',
                       dv_status = ''ACTIVE'', dv_firmware_version = None\<rparr>],
        fl_sensors = [], fl_credentials = [], fl_ids = (\<lambda>n. []), fl_next = 0,
        fl_uuid = (\<lambda>s. if take 4 s = ''urn:'' then None else Some s), fl_rank = (\<lambda>s. 0), fl_replies = (\<lambda>n. Reply_ok), fl_tick = 0\<rparr>,
      fw_secrets = (\<lambda>n. []), fw_secret_tick = 0,
      tw_answers = (\<lambda>n. Inr [[], [(5, 7)]]), tw_tick = 0, tw_queries = []\<rparr>"

lemma demo_usual: "is_uuid demo_device_text"
proof (rule usual_uuid_accepted)
  let ?z = "\<lambda>n. replicate n CHR ''0''"
  have "demo_device_text = ?z 8 @ ''-'' @ ?z 4 @ ''-'' @ ?z 4 @ ''-'' @ ?z 4 @ ''-'' @ (?z 11 @ ''d'')"
    by (simp add: demo_device_text_def numeral_eq_Suc)
  moreover have "list_all is_hex (?z 8 @ ?z 4 @ ?z 4 @ ?z 4 @ (?z 11 @ ''d''))"
    by (simp add: is_hex_def list_all_iff)
  ultimately show "usual_uuid demo_device_text"
    unfolding usual_uuid_def
    by (intro exI [of _ "?z 8"] exI [of _ "?z 4"] exI [of _ "?z 11 @ ''d''"]) simp
qed

lemma demo_reader_admitted:
  "require_permission (ai_jwt demo_reading_api) (ai_access_secret demo_reading_api) PERM_TELEMETRY_READ now (demo_reading_request d start) =
     Inr (claims_of demo_reader)"
  by (simp add: require_permission_def require_auth_def has_permission_def parse_and_validate_def demo_reading_request_def demo_request_def
      bearer_token_def claims_of_def demo_reader_def demo_payload_def demo_reading_api_def)

lemma demo_reader_organization: "cl_organization_id (claims_of demo_reader) = ''org''"
  by (simp add: claims_of_def demo_reader_def demo_payload_def)

lemma demo_reading_limit: "\<exists>hs w1. apply_limit demo_reading_api Default_limit (demo_reading_request d start) demo_readings = (Inr hs, w1)"
  by (simp add: apply_limit_def demo_reading_api_def demo_api_def rate_limit_def run_script_def incr_expire_def demo_readings_def
      demo_auth_world_def Let_def)

lemma demo_reading_params:
  "query_param (demo_reading_request d start) ''device_id'' = d" "query_param (demo_reading_request d start) ''metric'' = ''rpm''"
  "query_param (demo_reading_request d start) ''start'' = start" "query_param (demo_reading_request d start) ''end'' = []"
  by (simp_all add: demo_reading_request_def demo_request_def query_param_def)

lemma demo_readings_db:
  "fl_replies (fw_db demo_readings) k = Reply_ok" "fl_uuid (fw_db demo_readings) ''org'' = Some ''org''"
  "fl_uuid (fw_db demo_readings) (''urn:'' @ s) = None" "fl_uuid (fw_db demo_readings) demo_device_text = Some demo_device_text"
  "device_of_org demo_device_text ''org'' (fw_db demo_readings)"
  by (simp_all add: demo_readings_def device_of_org_def demo_device_text_def)

lemma demo_urn_accepted: "is_uuid (''urn:uuid:'' @ demo_device_text)"
  by code_simp

theorem device_text_answers_witness:
  "fst (telemetry_latest_route demo_reading_api ''b'' (demo_reading_request ''nonsense'' []) demo_readings) =
     Inl (bad_request ''device_id must be a valid UUID'') \<and>
   fst (telemetry_latest_route demo_reading_api ''b'' (demo_reading_request (''urn:'' @ ''uuid:'' @ demo_device_text) []) demo_readings) = Inl DataError"
proof -
  have run: "fst (telemetry_latest_route demo_reading_api ''b'' (demo_reading_request d []) demo_readings) =
      (if \<not> is_uuid d then Inl (bad_request ''device_id must be a valid UUID'') else Inl DataError)"
    if "d \<noteq> []" and "is_uuid d \<Longrightarrow> fl_uuid (fw_db demo_readings) d = None" for d
  proof -
    obtain hs w1 where limit: "apply_limit demo_reading_api Default_limit (demo_reading_request d []) demo_readings = (Inr hs, w1)"
      using demo_reading_limit by blast
    show ?thesis
      using device_text_answers [OF demo_reader_admitted limit, where d = d and org = "''org''" and bucket = "''b''"] that
      by (simp add: demo_reading_params demo_reader_organization demo_readings_db VALID_METRICS_def)
  qed
  have "\<not> is_uuid ''nonsense''"
    by code_simp
  then show ?thesis
    using run [of "''nonsense''"] run [of "''urn:'' @ ''uuid:'' @ demo_device_text"] demo_urn_accepted demo_readings_db(3)
    by simp
qed


end
