(* ===== verification/Api_Start.thy ===== *)
theory Api_Start
  imports Api_Access Config
begin

text \<open>
  The start of the API in \<open>main.py\<close>: the configuration, the refusal of the published token secrets in production, the
  address of Redis, the resolver of client addresses and the limits the routes get. Opening pools and clients is left out.
  The properties say what the refusal achieves and what it lets through.
\<close>

section \<open>Starting\<close>

definition check_secrets :: "api_config \<Rightarrow> exn + unit" where
  "check_secrets cfg =
     (if jwt_secrets_are_default cfg \<and> ap_environment cfg = ''production''
      then Inl (RuntimeError ''refusing to start with API_ENVIRONMENT=production and a default JWT_ACCESS_SECRET/JWT_REFRESH_SECRET'')
      else ok)"

text \<open>\<open>addr.rsplit(":", 1)\<close>, and the port read with \<open>int\<close>.\<close>

definition redis_address :: "string \<Rightarrow> exn + string \<times> int" where
  "redis_address addr =
     (let after = rev (takeWhile (\<lambda>c. c \<noteq> CHR '':'') (rev addr)); before = rev (drop 1 (dropWhile (\<lambda>c. c \<noteq> CHR '':'') (rev addr)))
      in if CHR '':'' \<notin> set addr then Inl IndexError
         else case py_int after of
                None \<Rightarrow> Inl (ValueError ''invalid literal for int() with base 10'')
              | Some port \<Rightarrow> Inr (before, port))"

definition start_api :: "string jwt_library \<Rightarrow> environ \<Rightarrow> exn + api" where
  "start_api jw env =
     (let cfg = load_api_config env
      in case check_secrets cfg of
           Inl e \<Rightarrow> Inl e
         | Inr _ \<Rightarrow>
             (case redis_address (ap_redis_addr cfg) of
                Inl e \<Rightarrow> Inl e
              | Inr _ \<Rightarrow>
                  (case new_ip_resolver (ap_trust_proxy_headers cfg) (ap_trusted_proxy_cidrs cfg) of
                     Inl e \<Rightarrow> Inl e
                   | Inr resolver \<Rightarrow>
                       Inr \<lparr>ai_jwt = jw, ai_access_secret = ap_jwt_access_secret cfg, ai_resolver = resolver,
                            ai_default_limit = ap_rate_limit_default_per_min cfg, ai_auth_limit = ap_rate_limit_auth_per_minute cfg\<rparr>)))"

section \<open>What a started API has\<close>

lemma started_fields:
  assumes "start_api jw env = Inr ai"
  shows "ai_jwt ai = jw" "ai_access_secret ai = env_str env ''JWT_ACCESS_SECRET'' DEFAULT_JWT_ACCESS_SECRET"
    "ai_default_limit ai = env_int env ''API_RATE_LIMIT_DEFAULT_PER_MIN'' 120" "ai_auth_limit ai = env_int env ''API_RATE_LIMIT_AUTH_PER_MIN'' 10"
    "check_secrets (load_api_config env) = ok"
  using assms
  by (auto simp: start_api_def load_api_config_def DEFAULT_JWT_ACCESS_SECRET_def Let_def split: sum.splits)

lemma production_secrets:
  assumes "start_api jw env = Inr ai" and "env ''API_ENVIRONMENT'' = Some ''production''"
  shows "ai_access_secret ai \<noteq> DEFAULT_JWT_ACCESS_SECRET"
    and "env_str env ''JWT_REFRESH_SECRET'' DEFAULT_JWT_REFRESH_SECRET \<noteq> DEFAULT_JWT_REFRESH_SECRET"
proof -
  have "ap_environment (load_api_config env) = ''production''"
    using assms(2) by (simp add: load_api_config_def env_str_def)
  then have "\<not> jwt_secrets_are_default (load_api_config env)"
    using started_fields(5) [OF assms(1)] by (auto simp: check_secrets_def)
  then show "ai_access_secret ai \<noteq> DEFAULT_JWT_ACCESS_SECRET"
    and "env_str env ''JWT_REFRESH_SECRET'' DEFAULT_JWT_REFRESH_SECRET \<noteq> DEFAULT_JWT_REFRESH_SECRET"
    using started_fields(2) [OF assms(1)]
    by (auto simp: jwt_secrets_are_default_def load_api_config_def DEFAULT_JWT_ACCESS_SECRET_def DEFAULT_JWT_REFRESH_SECRET_def)
qed

text \<open>
  C39. A token forged with the published access secret opens no route of an API that has started in production: whatever it
  claims, it is answered with 401, for any permission and at any time.
\<close>
theorem published_secret_forges_nothing:
  assumes "start_api jw env = Inr ai" and "env ''API_ENVIRONMENT'' = Some ''production''" and "jwt_ok jw"
    and "bearer_token rq = jw_encode jw p DEFAULT_JWT_ACCESS_SECRET"
  shows "\<exists>m. require_permission (ai_jwt ai) (ai_access_secret ai) permission now rq = Inl (APIError 401 ''UNAUTHENTICATED'' m [])"
proof -
  have "raised (jw_decode jw now (bearer_token rq) (ai_access_secret ai))"
    using assms(3,4) production_secrets(1) [OF assms(1,2)] by (simp add: jwt_ok_def)
  then obtain e where "jw_decode jw now (bearer_token rq) (ai_access_secret ai) = Inl e"
    by (auto simp: raised_def split: sum.splits)
  then show ?thesis
    using started_fields(1) [OF assms(1)]
    by (simp add: require_permission_def require_auth_def parse_and_validate_def Let_def)
qed

text \<open>
  Each secret is compared with its own default only: with the two published values exchanged the API starts in production, and
  anyone who has read them can sign access tokens.
\<close>

definition demo_environ :: "string \<Rightarrow> string \<Rightarrow> environ" where
  "demo_environ access refresh =
     [''API_ENVIRONMENT'' \<mapsto> ''production'', ''JWT_ACCESS_SECRET'' \<mapsto> access, ''JWT_REFRESH_SECRET'' \<mapsto> refresh]"

lemma demo_start:
  assumes "access \<noteq> []" "refresh \<noteq> []" "access \<noteq> DEFAULT_JWT_ACCESS_SECRET" "refresh \<noteq> DEFAULT_JWT_REFRESH_SECRET"
  shows "\<exists>ai. start_api jw (demo_environ access refresh) = Inr ai \<and> ai_access_secret ai = access"
proof -
  have "redis_address ''localhost:6379'' = Inr (''localhost'', 6379)"
    by code_simp
  then show ?thesis
    using assms
    by (auto simp: start_api_def load_api_config_def demo_environ_def env_str_def env_int_def env_bool_def env_string_list_def
        check_secrets_def jwt_secrets_are_default_def new_ip_resolver_def Let_def split: list.split)
qed

lemma exchanged_secrets_start:
  "\<exists>ai. start_api jw (demo_environ DEFAULT_JWT_REFRESH_SECRET DEFAULT_JWT_ACCESS_SECRET) = Inr ai \<and>
     ai_access_secret ai = DEFAULT_JWT_REFRESH_SECRET"
  by (rule demo_start) (simp_all add: DEFAULT_JWT_ACCESS_SECRET_def DEFAULT_JWT_REFRESH_SECRET_def)

theorem published_secret_forges_nothing_witness:
  "\<exists>ai m. start_api demo_text_jwt (demo_environ ''a'' ''b'') = Inr ai \<and>
     require_permission (ai_jwt ai) (ai_access_secret ai) PERM_SYSTEM_ADMIN 0
       (demo_request ''1.2.3.4'' (jw_encode demo_text_jwt demo_payload DEFAULT_JWT_ACCESS_SECRET)) = Inl (APIError 401 ''UNAUTHENTICATED'' m [])"
proof -
  obtain ai where ai: "start_api demo_text_jwt (demo_environ ''a'' ''b'') = Inr ai"
    using demo_start [of "''a''" "''b''" demo_text_jwt] by (auto simp: DEFAULT_JWT_ACCESS_SECRET_def DEFAULT_JWT_REFRESH_SECRET_def)
  have "\<exists>m. require_permission (ai_jwt ai) (ai_access_secret ai) PERM_SYSTEM_ADMIN 0
      (demo_request ''1.2.3.4'' (jw_encode demo_text_jwt demo_payload DEFAULT_JWT_ACCESS_SECRET)) = Inl (APIError 401 ''UNAUTHENTICATED'' m [])"
    by (rule published_secret_forges_nothing [OF ai _ demo_text_jwt_ok])
      (simp_all add: demo_environ_def bearer_token_of demo_request_def)
  then show ?thesis
    using ai by blast
qed

end
