(* ===== verification/Health.thy ===== *)
theory Health
  imports Reliability Isolation_Forest
begin

text \<open>
  The HTTP endpoints \<open>/live\<close>, \<open>/ready\<close>, \<open>/health\<close>, \<open>/forests\<close> and \<open>/metrics\<close>: \<open>health.py\<close> of the four workers and
  \<open>handlers_health.py\<close> of the API. What a dependency answers to its probe is an argument; the state of a breaker is read
  from the breaker. The lemmas say when a service is ready, and what that says of its dependencies.
\<close>

section \<open>Answers\<close>

datatype json_value = JBool bool | JText string | JTexts "string list"

datatype health_body = Plain string | Json "(string \<times> json_value) list" | Scrape | No_body

type_synonym health_answer = "int \<times> health_body"

definition ready_answer :: "bool \<Rightarrow> (string \<times> json_value) list \<Rightarrow> health_answer" where
  "ready_answer r fs = (if r then 200 else 503, Json ((''ready'', JBool r) # fs))"

section \<open>The workers\<close>

definition ingestion_get :: "bool \<Rightarrow> circuit_breaker \<Rightarrow> string \<Rightarrow> health_answer" where
  "ingestion_get mqtt_connected cb path =
     (if path = ''/live'' then (200, Plain ''ok'')
      else if path = ''/ready'' then
        (let state = breaker_state_value cb
         in ready_answer (mqtt_connected \<and> state \<noteq> ''OPEN'')
              [(''mqtt_connected'', JBool mqtt_connected), (''kafka_circuit_breaker'', JText state)])
      else if path = ''/health'' then
        (200, Json [(''mqtt_connected'', JBool mqtt_connected), (''kafka_circuit_breaker'', JText (breaker_state_value cb))])
      else if path = ''/metrics'' then (200, Scrape)
      else (404, No_body))"

definition stream_processor_get :: "bool \<Rightarrow> circuit_breaker \<Rightarrow> circuit_breaker \<Rightarrow> string \<Rightarrow> health_answer" where
  "stream_processor_get redis_ok influx kafka path =
     (if path = ''/live'' then (200, Plain ''ok'')
      else if path = ''/ready'' then
        (let influx_state = breaker_state_value influx; kafka_state = breaker_state_value kafka
         in ready_answer (redis_ok \<and> influx_state \<noteq> ''OPEN'' \<and> kafka_state \<noteq> ''OPEN'')
              [(''redis_connected'', JBool redis_ok), (''influxdb_circuit_breaker'', JText influx_state),
               (''kafka_circuit_breaker'', JText kafka_state)])
      else if path = ''/metrics'' then (200, Scrape)
      else (404, No_body))"

definition anomaly_detector_get :: "bool \<Rightarrow> circuit_breaker \<Rightarrow> forest_registry \<Rightarrow> string \<Rightarrow> health_answer" where
  "anomaly_detector_get postgres_ok kafka forests path =
     (if path = ''/live'' then (200, Plain ''ok'')
      else if path = ''/ready'' then
        (let state = breaker_state_value kafka
         in ready_answer (postgres_ok \<and> state \<noteq> ''OPEN'')
              [(''postgres_connected'', JBool postgres_ok), (''kafka_circuit_breaker'', JText state)])
      else if path = ''/forests'' then (200, Json [(''trained_machine_types'', JTexts (trained_machine_types forests))])
      else if path = ''/metrics'' then (200, Scrape)
      else (404, No_body))"

text \<open>A pool that was never opened, or what its connection answered.\<close>

definition ping :: "(exn + unit) option \<Rightarrow> bool" where
  "ping pool = (case pool of None \<Rightarrow> False | Some r \<Rightarrow> \<not> raised r)"

definition alert_service_get :: "(exn + unit) option \<Rightarrow> string \<Rightarrow> health_answer" where
  "alert_service_get pool path =
     (if path = ''/live'' then (200, Plain ''ok'')
      else if path = ''/ready'' then
        (let postgres_ok = ping pool in ready_answer postgres_ok [(''postgres_connected'', JBool postgres_ok)])
      else if path = ''/metrics'' then (200, Scrape)
      else (404, No_body))"

section \<open>The API\<close>

record dep_status =
  dp_postgres :: string
  dp_redis :: string
  dp_kafka :: string
  dp_mqtt :: string
  dp_influxdb :: string

text \<open>
  What the five probes did: raised or not; the last two also say whether the client then counts as connected, and whether the
  ping was answered. \<open>cfg.kafka_brokers[0]\<close> raises for an empty list, inside the same handler.
\<close>

record probes =
  pb_postgres :: "exn + unit"
  pb_redis :: "exn + unit"
  pb_kafka :: "exn + unit"
  pb_mqtt :: "exn + bool"
  pb_influxdb :: "exn + bool"

definition unreachable :: "exn \<Rightarrow> string" where
  "unreachable e = ''unreachable: '' @ str_exn e"

definition probed :: "exn + unit \<Rightarrow> string" where
  "probed r = (case r of Inl e \<Rightarrow> unreachable e | Inr _ \<Rightarrow> ''ok'')"

definition check_dependencies :: "string list \<Rightarrow> probes \<Rightarrow> dep_status" where
  "check_dependencies kafka_brokers p =
     \<lparr>dp_postgres = probed (pb_postgres p), dp_redis = probed (pb_redis p),
      dp_kafka = (if kafka_brokers = [] then unreachable IndexError else probed (pb_kafka p)),
      dp_mqtt = (case pb_mqtt p of Inl _ \<Rightarrow> ''unreachable'' | Inr up \<Rightarrow> if up then ''ok'' else ''unreachable''),
      dp_influxdb = (case pb_influxdb p of Inl e \<Rightarrow> unreachable e | Inr answered \<Rightarrow> if answered then ''ok'' else ''unreachable'')\<rparr>"

definition dep_fields :: "dep_status \<Rightarrow> (string \<times> string) list" where
  "dep_fields d =
     [(''postgres'', dp_postgres d), (''redis'', dp_redis d), (''kafka'', dp_kafka d), (''mqtt'', dp_mqtt d), (''influxdb'', dp_influxdb d)]"

definition api_ready :: "string list \<Rightarrow> probes \<Rightarrow> int \<times> bool \<times> (string \<times> string) list" where
  "api_ready kafka_brokers p =
     (let status = check_dependencies kafka_brokers p;
          all_up = (dp_postgres status = ''ok'' \<and> dp_redis status = ''ok'' \<and> dp_kafka status = ''ok'' \<and> dp_influxdb status = ''ok'')
      in (if all_up then 200 else 503, all_up, dep_fields status))"

section \<open>When a service is ready\<close>

lemma not_open [simp]: "breaker_state_value cb \<noteq> ''OPEN'' \<longleftrightarrow> cb_state cb \<noteq> OPEN"
  by (cases "cb_state cb") (simp_all add: breaker_state_value_def)

lemma unreachable_not_ok [simp]: "unreachable e \<noteq> ''ok''"
  by (simp add: unreachable_def)

lemma ready_status [simp]: "fst (ready_answer r fs) = 200 \<longleftrightarrow> r"
  by (simp add: ready_answer_def)

text \<open>
  A worker is ready exactly when its own probe is answered and no breaker in front of a dependency is open; the API exactly when
  all its dependencies but MQTT answer. Being alive depends on nothing.
\<close>

lemma ready_iff:
  "fst (ingestion_get mqtt cb ''/ready'') = 200 \<longleftrightarrow> mqtt \<and> cb_state cb \<noteq> OPEN"
  "fst (stream_processor_get redis influx kafka ''/ready'') = 200 \<longleftrightarrow> redis \<and> cb_state influx \<noteq> OPEN \<and> cb_state kafka \<noteq> OPEN"
  "fst (anomaly_detector_get postgres kafka forests ''/ready'') = 200 \<longleftrightarrow> postgres \<and> cb_state kafka \<noteq> OPEN"
  "fst (alert_service_get pool ''/ready'') = 200 \<longleftrightarrow> pool = Some (Inr ())"
  "fst (api_ready brokers p) = 200 \<longleftrightarrow>
     brokers \<noteq> [] \<and> \<not> raised (pb_postgres p) \<and> \<not> raised (pb_redis p) \<and> \<not> raised (pb_kafka p) \<and> pb_influxdb p = Inr True"
  by (auto simp: ingestion_get_def stream_processor_get_def anomaly_detector_get_def alert_service_get_def ping_def Let_def
      api_ready_def check_dependencies_def probed_def raised_def split: option.split sum.split)

lemma always_alive:
  "ingestion_get mqtt cb ''/live'' = (200, Plain ''ok'')" "stream_processor_get redis influx kafka ''/live'' = (200, Plain ''ok'')"
  "anomaly_detector_get postgres kafka forests ''/live'' = (200, Plain ''ok'')" "alert_service_get pool ''/live'' = (200, Plain ''ok'')"
  by (simp_all add: ingestion_get_def stream_processor_get_def anomaly_detector_get_def alert_service_get_def)

text \<open>
  After enough failed publishes in a row ingestion is not ready, and no time that passes and no recovery of Kafka changes
  that: the breaker leaves its open state only when it is asked for permission. The first permission after the cool-down
  makes the service ready while the trial call is still running.
\<close>

lemma failures_open:
  assumes "0 < threshold"
  shows "cb_fails ((record_failure t ^^ n) (new_breaker threshold cooldown)) = int n \<and>
    cb_threshold ((record_failure t ^^ n) (new_breaker threshold cooldown)) = threshold \<and>
    cb_cooldown ((record_failure t ^^ n) (new_breaker threshold cooldown)) = cooldown \<and>
    cb_state ((record_failure t ^^ n) (new_breaker threshold cooldown)) = (if threshold \<le> int n then OPEN else CLOSED) \<and>
    (threshold \<le> int n \<longrightarrow> cb_opened_at ((record_failure t ^^ n) (new_breaker threshold cooldown)) = t)"
proof (induction n)
  case 0
  then show ?case
    using assms by (simp add: new_breaker_def)
next
  case (Suc n)
  then show ?case
    by (auto simp: record_failure_def Let_def)
qed

lemma unready_until_next_publish:
  fixes t cooldown :: real and n :: nat
  assumes "0 < threshold" and "threshold \<le> int n"
  defines "cb \<equiv> (record_failure t ^^ n) (new_breaker threshold cooldown)"
  shows "fst (ingestion_get mqtt cb ''/ready'') = 503"
    and "t + cooldown \<le> now \<Longrightarrow> fst (ingestion_get True (snd (allow now cb)) ''/ready'') = 200"
proof -
  have cb: "cb_state cb = OPEN" "cb_opened_at cb = t" "cb_cooldown cb = cooldown"
    using failures_open [OF assms(1), where t = t and n = n and cooldown = cooldown] assms(2) by (simp_all add: cb_def)
  then show "fst (ingestion_get mqtt cb ''/ready'') = 503"
    by (simp add: ingestion_get_def ready_answer_def Let_def breaker_state_value_def)
  show "fst (ingestion_get True (snd (allow now cb)) ''/ready'') = 200" if "t + cooldown \<le> now"
    using cb that unfolding ready_iff by (simp add: allow_def)
qed

end
