(* ===== verification/Sim_Catalog.thy ===== *)
theory Sim_Catalog
  imports Simulator Api_Fleet
begin

text \<open>
  \<open>simulator/loader.py\<close>, the query for the sensors to simulate, over the tables of the fleet; the organization is the one
  the factory refers to, which its foreign key guarantees to exist, and the order of identifiers is a parameter. Also
  \<open>_parse_broker_url\<close>, which the simulator and ingestion share word for word.
\<close>

section \<open>The catalogue\<close>

definition joined_row :: "sensor_row \<Rightarrow> device_row \<Rightarrow> machine_row \<Rightarrow> line_row \<Rightarrow> factory_row \<Rightarrow> catalog_entry" where
  "joined_row s d m l f =
     \<lparr>sc_organization_id = fy_organization_id f, sc_factory_id = fy_id f, sc_production_line_id = ln_id l, sc_machine_id = mc_id m,
      sc_device_id = dv_id d, sc_sensor_id = se_id s, sc_metric = se_metric s, sc_unit = se_unit s,
      sc_min_value = (case se_min s of None \<Rightarrow> 0 | Some x \<Rightarrow> x), sc_max_value = (case se_max s of None \<Rightarrow> 100 | Some x \<Rightarrow> x)\<rparr>"

definition joined_sensors :: "fleet \<Rightarrow> catalog_entry list" where
  "joined_sensors db =
     concat (map (\<lambda>s. concat (map (\<lambda>d. concat (map (\<lambda>m. concat (map (\<lambda>l. map (joined_row s d m l)
       (filter (\<lambda>f. fy_id f = ln_factory_id l) (fl_factories db)))
       (filter (\<lambda>l. ln_id l = mc_production_line_id m) (fl_lines db))))
       (filter (\<lambda>m. mc_id m = dv_machine_id d) (fl_machines db))))
       (filter (\<lambda>d. dv_id d = se_device_id s) (fl_devices db)))) (fl_sensors db))"

definition load_sensor_catalog :: "(string \<Rightarrow> int) \<Rightarrow> nat \<Rightarrow> fleet \<Rightarrow> catalog_entry list" where
  "load_sensor_catalog order limit db = take limit (sort_key (\<lambda>e. order (sc_sensor_id e)) (joined_sensors db))"

section \<open>One entry for a sensor\<close>

text \<open>Every table has its identifier as the primary key.\<close>

definition keys_unique :: "fleet \<Rightarrow> bool" where
  "keys_unique db \<longleftrightarrow>
     distinct (map se_id (fl_sensors db)) \<and> distinct (map dv_id (fl_devices db)) \<and> distinct (map mc_id (fl_machines db)) \<and>
     distinct (map ln_id (fl_lines db)) \<and> distinct (map fy_id (fl_factories db))"

lemma key_selects_one:
  assumes "distinct (map key xs)"
  shows "filter (\<lambda>x. key x = k) xs = [] \<or> (\<exists>x. filter (\<lambda>x. key x = k) xs = [x])"
  using assms
proof (induction xs)
  case (Cons y ys)
  have "filter (\<lambda>x. key x = k) ys = []" if "key y = k"
    using that Cons.prems by (fastforce simp: filter_empty_conv image_iff)
  then show ?case
    using Cons by auto
qed simp

text \<open>A join over a unique key adds at most one row.\<close>

lemma joined_one:
  assumes "distinct (map key xs)" and "\<And>x. length (g x) \<le> 1"
  shows "length (concat (map g (filter (\<lambda>x. key x = k) xs))) \<le> 1"
  using key_selects_one [OF assms(1), of k] assms(2) by auto

lemma short_list: "length xs \<le> 1 \<Longrightarrow> xs = [] \<or> (\<exists>x. xs = [x])"
  by (cases xs) auto

lemma distinct_joined:
  assumes "distinct (map key xs)" and "\<And>x. length (g x) \<le> 1" and "\<And>x e. e \<in> set (g x) \<Longrightarrow> sc_sensor_id e = key x"
  shows "distinct (map sc_sensor_id (concat (map g xs)))"
  using assms(1)
proof (induction xs)
  case (Cons x xs)
  have "distinct (map sc_sensor_id (g x))"
    using short_list [OF assms(2) [of x]] by auto
  moreover have "sc_sensor_id ` set (g x) \<inter> sc_sensor_id ` set (concat (map g xs)) = {}"
  proof -
    have sub: "sc_sensor_id ` set (g x) \<subseteq> {key x}" "sc_sensor_id ` set (concat (map g xs)) \<subseteq> key ` set xs"
      using assms(3) by auto
    have "{key x} \<inter> key ` set xs = {}"
      using Cons.prems by simp
    then show ?thesis
      using Int_mono [OF sub] by simp
  qed
  moreover have "distinct (map sc_sensor_id (concat (map g xs)))"
    using Cons by simp
  ultimately show ?case
    by (simp only: list.map concat.simps map_append distinct_append set_map simp_thms)
qed simp

lemma catalog_sensors_distinct:
  assumes "keys_unique db"
  shows "distinct (map sc_sensor_id (load_sensor_catalog order limit db))"
proof -
  have one: "length (map (joined_row s d m l) (filter (\<lambda>f. fy_id f = ln_factory_id l) (fl_factories db))) \<le> 1" for s d m l
    using key_selects_one [of fy_id "fl_factories db" "ln_factory_id l"] assms by (auto simp: keys_unique_def)
  have "distinct (map sc_sensor_id (joined_sensors db))"
    unfolding joined_sensors_def
  proof (rule distinct_joined [of se_id])
    fix s :: sensor_row
    have "length (concat (map (\<lambda>l. map (joined_row s d m l) (filter (\<lambda>f. fy_id f = ln_factory_id l) (fl_factories db)))
        (filter (\<lambda>l. ln_id l = k) (fl_lines db)))) \<le> 1" for d m k
      by (rule joined_one) (use assms one in \<open>simp_all add: keys_unique_def\<close>)
    note lines = this
    have "length (concat (map (\<lambda>m. concat (map (\<lambda>l. map (joined_row s d m l) (filter (\<lambda>f. fy_id f = ln_factory_id l) (fl_factories db)))
        (filter (\<lambda>l. ln_id l = mc_production_line_id m) (fl_lines db)))) (filter (\<lambda>m. mc_id m = k) (fl_machines db)))) \<le> 1" for d k
      by (rule joined_one [OF _ lines]) (use assms in \<open>simp add: keys_unique_def\<close>)
    note machines = this
    show "length (concat (map (\<lambda>d. concat (map (\<lambda>m. concat (map (\<lambda>l. map (joined_row s d m l) (filter (\<lambda>f. fy_id f = ln_factory_id l) (fl_factories db)))
        (filter (\<lambda>l. ln_id l = mc_production_line_id m) (fl_lines db)))) (filter (\<lambda>m. mc_id m = dv_machine_id d) (fl_machines db))))
        (filter (\<lambda>d. dv_id d = se_device_id s) (fl_devices db)))) \<le> 1"
      by (rule joined_one [OF _ machines]) (use assms in \<open>simp add: keys_unique_def\<close>)
  qed (use assms in \<open>auto simp: keys_unique_def joined_row_def\<close>)
  moreover have "mset (map sc_sensor_id (sort_key (\<lambda>e. order (sc_sensor_id e)) (joined_sensors db))) = mset (map sc_sensor_id (joined_sensors db))"
    by simp
  ultimately have "distinct (map sc_sensor_id (sort_key (\<lambda>e. order (sc_sensor_id e)) (joined_sensors db)))"
    using mset_eq_imp_distinct_iff by blast
  then show ?thesis
    unfolding load_sensor_catalog_def take_map [symmetric] by (rule distinct_take)
qed

section \<open>Broker addresses\<close>

text \<open>\<open>s.split(sep, 1)[-1]\<close> and \<open>s.partition(":")\<close>\<close>

fun after_scheme :: "string \<Rightarrow> string option" where
  "after_scheme [] = None"
| "after_scheme (c # cs) = (if take 3 (c # cs) = ''://'' then Some (drop 3 (c # cs)) else after_scheme cs)"

definition parse_broker_url :: "string \<Rightarrow> exn + string \<times> int" where
  "parse_broker_url url =
     (let without_scheme = (case after_scheme url of None \<Rightarrow> url | Some rest \<Rightarrow> rest);
          host = takeWhile (\<lambda>c. c \<noteq> CHR '':'') without_scheme;
          port = drop 1 (dropWhile (\<lambda>c. c \<noteq> CHR '':'') without_scheme)
      in if port = [] then Inr (host, 1883)
         else case py_int port of None \<Rightarrow> Inl (ValueError ''invalid literal for int() with base 10'') | Some n \<Rightarrow> Inr (host, n))"

lemma after_scheme_found: "CHR '':'' \<notin> set scheme \<Longrightarrow> after_scheme (scheme @ ''://'' @ rest) = Some rest"
proof (induction scheme)
  case (Cons c cs)
  then show ?case
    by (cases cs rule: remdups_adj.cases) auto
qed simp

lemma broker_url_parsed:
  assumes "CHR '':'' \<notin> set scheme" and "CHR '':'' \<notin> set host"
  shows "parse_broker_url (scheme @ ''://'' @ host) = Inr (host, 1883)"
    and "port \<noteq> [] \<Longrightarrow> py_int port = Some n \<Longrightarrow> parse_broker_url (scheme @ ''://'' @ host @ CHR '':'' # port) = Inr (host, n)"
proof -
  have "\<forall>c\<in>set host. c \<noteq> CHR '':''"
    using assms(2) by auto
  then have "takeWhile (\<lambda>c. c \<noteq> CHR '':'') host = host" "dropWhile (\<lambda>c. c \<noteq> CHR '':'') host = []"
    "takeWhile (\<lambda>c. c \<noteq> CHR '':'') (host @ CHR '':'' # port) = host" "dropWhile (\<lambda>c. c \<noteq> CHR '':'') (host @ CHR '':'' # port) = CHR '':'' # port"
    by (simp_all add: takeWhile_eq_all_conv dropWhile_eq_Nil_conv takeWhile_append2 dropWhile_append2)
  then show "parse_broker_url (scheme @ ''://'' @ host) = Inr (host, 1883)"
    and "port \<noteq> [] \<Longrightarrow> py_int port = Some n \<Longrightarrow> parse_broker_url (scheme @ ''://'' @ host @ CHR '':'' # port) = Inr (host, n)"
    using after_scheme_found [OF assms(1)] unfolding parse_broker_url_def by (simp_all add: Let_def del: dropWhile_eq_Nil_conv drop_Suc)
qed

end
