(* ===== verification/Seed.thy ===== *)
theory Seed
  imports Sim_Catalog Alert_Rules Config
begin

text \<open>
  \<open>scripts/seed/main.py\<close>: the script that fills an empty database with a demonstration fleet, alert rules, roles, users and
  a second organization. Its tables extend those of the fleet. What is drawn for a machine (two rolls, a secret and the
  time) is an argument, by the machine's place; bcrypt and the Unicode tables are arguments, too. The column
  \<open>activated_at\<close>, which nothing else reads, is kept beside the device rows.
\<close>

section \<open>Tables\<close>

record organization_row =
  og_id :: string
  og_name :: string
  og_slug :: string

record role_row =
  ro_id :: string
  ro_name :: string
  ro_description :: string

record permission_row =
  pm_id :: string
  pm_code :: string
  pm_description :: string

record seeded_user = user_row +
  us_full_name :: string

record seed_tables = fleet +
  sd_organizations :: "organization_row list"
  sd_activated :: "(string \<times> datetime option) list"
  sd_rules :: "rule_row list"
  sd_roles :: "role_row list"
  sd_permissions :: "permission_row list"
  sd_role_permissions :: "(string \<times> string) list"
  sd_users :: "seeded_user list"
  sd_user_roles :: "(string \<times> string) list"

section \<open>What is seeded\<close>

record metric_spec =
  ms_unit :: string
  ms_min_value :: real
  ms_max_value :: real

definition METRIC_SPECS :: "(string \<times> metric_spec) list" where
  "METRIC_SPECS =
     [(''temperature'', \<lparr>ms_unit = ''celsius'', ms_min_value = 20, ms_max_value = 90\<rparr>),
      (''vibration'', \<lparr>ms_unit = ''mm_s'', ms_min_value = 0, ms_max_value = 10\<rparr>),
      (''pressure'', \<lparr>ms_unit = ''bar'', ms_min_value = 0, ms_max_value = 250\<rparr>),
      (''rpm'', \<lparr>ms_unit = ''rpm'', ms_min_value = 0, ms_max_value = 3000\<rparr>),
      (''current'', \<lparr>ms_unit = ''ampere'', ms_min_value = 0, ms_max_value = 100\<rparr>),
      (''voltage'', \<lparr>ms_unit = ''volt'', ms_min_value = 200, ms_max_value = 400\<rparr>),
      (''power'', \<lparr>ms_unit = ''kilowatt'', ms_min_value = 0, ms_max_value = 50\<rparr>),
      (''humidity'', \<lparr>ms_unit = ''percent'', ms_min_value = 10, ms_max_value = 80\<rparr>),
      (''acoustic_level'', \<lparr>ms_unit = ''decibel'', ms_min_value = 40, ms_max_value = 110\<rparr>)]"

record machine_profile =
  mp_machine_type :: string
  mp_metrics :: "string list"

definition MACHINE_PROFILES :: "machine_profile list" where
  "MACHINE_PROFILES =
     [\<lparr>mp_machine_type = ''CNC_MILLING_MACHINE'', mp_metrics = [''temperature'', ''vibration'', ''rpm'', ''current'', ''power'']\<rparr>,
      \<lparr>mp_machine_type = ''HYDRAULIC_PRESS'', mp_metrics = [''temperature'', ''pressure'', ''vibration'', ''current'', ''power'']\<rparr>,
      \<lparr>mp_machine_type = ''CONVEYOR_BELT'', mp_metrics = [''temperature'', ''current'', ''vibration'', ''power'', ''rpm'']\<rparr>,
      \<lparr>mp_machine_type = ''WELDING_ROBOT'', mp_metrics = [''temperature'', ''current'', ''voltage'', ''power'', ''vibration'']\<rparr>,
      \<lparr>mp_machine_type = ''AIR_COMPRESSOR'', mp_metrics = [''temperature'', ''pressure'', ''vibration'', ''current'', ''power'']\<rparr>]"

definition GERMAN_FACTORIES :: "(string \<times> string) list" where
  "GERMAN_FACTORIES =
     [(''Berlin Plant'', ''Berlin''), (''Dresden Plant'', ''Dresden''), (''Munich Plant'', ''Munich''), (''Hamburg Plant'', ''Hamburg'')]"

text \<open>The code points of \<open>ChangeMe123!\<close>.\<close>

definition DEMO_PASSWORD :: "nat list" where
  "DEMO_PASSWORD = [67, 104, 97, 110, 103, 101, 77, 101, 49, 50, 51, 33]"

lemma DEMO_PASSWORD_text: "DEMO_PASSWORD = map of_char ''ChangeMe123!''"
  by (simp add: DEMO_PASSWORD_def)

record alert_rule_seed =
  as_name :: string
  as_metric :: string
  as_condition :: string
  as_threshold_value :: "real option"
  as_severity :: severity
  as_cooldown_secs :: int
  as_window_secs :: int

definition rule_seeds :: "alert_rule_seed list" where
  "rule_seeds =
     [\<lparr>as_name = ''High temperature'', as_metric = ''temperature'', as_condition = ''GREATER_THAN'', as_threshold_value = Some 90,
       as_severity = CRITICAL, as_cooldown_secs = 300, as_window_secs = 300\<rparr>,
      \<lparr>as_name = ''Excessive vibration'', as_metric = ''vibration'', as_condition = ''GREATER_THAN'', as_threshold_value = Some 8,
       as_severity = HIGH, as_cooldown_secs = 180, as_window_secs = 300\<rparr>,
      \<lparr>as_name = ''Power spike'', as_metric = ''power'', as_condition = ''GREATER_THAN'', as_threshold_value = Some 45,
       as_severity = WARNING, as_cooldown_secs = 180, as_window_secs = 300\<rparr>,
      \<lparr>as_name = ''Repeated temperature anomalies'', as_metric = ''temperature'', as_condition = ''ANOMALY_COUNT'',
       as_threshold_value = Some 3, as_severity = HIGH, as_cooldown_secs = 300, as_window_secs = 300\<rparr>,
      \<lparr>as_name = ''Unexpected machine shutdown'', as_metric = ''machine_status'', as_condition = ''ANOMALY_COUNT'',
       as_threshold_value = Some 1, as_severity = WARNING, as_cooldown_secs = 300, as_window_secs = 300\<rparr>]"

definition PERMISSION_DESCRIPTIONS :: "(string \<times> string) list" where
  "PERMISSION_DESCRIPTIONS =
     [(PERM_DEVICES_READ, ''View device inventory and status''),
      (PERM_DEVICES_WRITE, ''Provision, update, and decommission devices''),
      (PERM_TELEMETRY_READ, ''View sensor telemetry and historical readings''),
      (PERM_ALERTS_READ, ''View alerts''),
      (PERM_ALERTS_MANAGE, ''Acknowledge, suppress, and configure alert rules''),
      (PERM_INCIDENTS_READ, ''View incidents''),
      (PERM_INCIDENTS_MANAGE, ''Assign, transition, and resolve incidents''),
      (PERM_FACTORIES_READ, ''View factories, production lines, and machines''),
      (PERM_FACTORIES_MANAGE, ''Create and modify factories, production lines, and machines''),
      (PERM_USERS_MANAGE, ''Create users and modify role assignments''),
      (PERM_SYSTEM_ADMIN, ''Full administrative access, including platform configuration'')]"

text \<open>\<open>for status, w in weights.items(): if roll < w: return status; roll -= w\<close>, with \<open>next(iter(weights))\<close> after it.\<close>

fun pick_status :: "(string \<times> nat) list \<Rightarrow> nat \<Rightarrow> string option" where
  "pick_status [] roll = None"
| "pick_status ((status, w) # weights) roll = (if roll < w then Some status else pick_status weights (roll - w))"

text \<open>\<open>secrets.randbelow(total)\<close> is below \<open>total\<close>.\<close>

definition random_status :: "(string \<times> nat) list \<Rightarrow> nat \<Rightarrow> string" where
  "random_status weights draw =
     (case pick_status weights (draw mod sum_list (map snd weights)) of None \<Rightarrow> fst (hd weights) | Some status \<Rightarrow> status)"

section \<open>Statements\<close>

type_synonym 'a seed_query = "seed_tables \<Rightarrow> (exn + 'a) \<times> seed_tables"

text \<open>A result that needs no statement, and loops.\<close>

definition lift_result :: "exn + 'a \<Rightarrow> 'a seed_query" where
  "lift_result r db = (r, db)"

fun for_each :: "('x \<Rightarrow> unit seed_query) \<Rightarrow> 'x list \<Rightarrow> unit seed_query" where
  "for_each f [] = lift_result ok"
| "for_each f (x # xs) = andthen (f x) (\<lambda>_. for_each f xs)"

fun collect :: "('x \<Rightarrow> 'y seed_query) \<Rightarrow> 'x list \<Rightarrow> 'y list seed_query" where
  "collect f [] = lift_result (Inr [])"
| "collect f (x # xs) = andthen (f x) (\<lambda>y. andthen (collect f xs) (\<lambda>ys. lift_result (Inr (y # ys))))"

text \<open>A lookup in a dictionary.\<close>

definition dict_get :: "(string \<times> 'v) list \<Rightarrow> string \<Rightarrow> exn + 'v" where
  "dict_get d k = (case map_of d k of None \<Rightarrow> Inl (KeyError k) | Some v \<Rightarrow> Inr v)"

text \<open>\<open>fetchone()[0]\<close>\<close>

definition first_column :: "'a option \<Rightarrow> exn + 'a" where
  "first_column row = (case row of None \<Rightarrow> Inl TypeError | Some x \<Rightarrow> Inr x)"

definition find_organization :: "string \<Rightarrow> string option seed_query" where
  "find_organization slug =
     execute (\<lambda>db. (Inr (map_option og_id (find (\<lambda>o'. og_slug o' = slug) (sd_organizations db))), db))"

definition insert_organization :: "string \<Rightarrow> string \<Rightarrow> string seed_query" where
  "insert_organization name slug = execute (\<lambda>db.
     if \<exists>o'\<in>set (sd_organizations db). og_slug o' = slug then (Inl (UniqueViolation ''organizations_slug_key''), db)
     else let i = fl_ids db (fl_next db)
          in (Inr i, db\<lparr>sd_organizations := sd_organizations db @ [\<lparr>og_id = i, og_name = name, og_slug = slug\<rparr>],
                        fl_next := Suc (fl_next db)\<rparr>))"

text \<open>A foreign key, a text the column casts to an identifier.\<close>

definition refers :: "string \<Rightarrow> string \<Rightarrow> (seed_tables \<Rightarrow> string list) \<Rightarrow> (string \<Rightarrow> 'a seed_query) \<Rightarrow> 'a seed_query" where
  "refers constraint i keys q =
     uuid_arg i (\<lambda>u db. if u \<in> set (keys db) then q u db else (Inl (ForeignKeyViolation constraint), db))"

definition insert_factory :: "string \<Rightarrow> string \<Rightarrow> string \<Rightarrow> string seed_query" where
  "insert_factory org_id name city =
     execute (refers ''factories_organization_id_fkey'' org_id (\<lambda>db. map og_id (sd_organizations db)) (\<lambda>org db.
       if \<exists>f\<in>set (fl_factories db). fy_organization_id f = org \<and> fy_name f = name
       then (Inl (UniqueViolation ''factories_organization_id_name_key''), db)
       else let i = fl_ids db (fl_next db)
            in (Inr i, db\<lparr>fl_factories := fl_factories db @
                 [\<lparr>fy_id = i, fy_organization_id = org, fy_name = name, fy_city = Some city, fy_country = ''DE''\<rparr>],
                 fl_next := Suc (fl_next db)\<rparr>)))"

definition insert_line :: "string \<Rightarrow> string \<Rightarrow> string seed_query" where
  "insert_line factory_id name =
     execute (refers ''production_lines_factory_id_fkey'' factory_id (\<lambda>db. map fy_id (fl_factories db)) (\<lambda>f db.
       if \<exists>l\<in>set (fl_lines db). ln_factory_id l = f \<and> ln_name l = name
       then (Inl (UniqueViolation ''production_lines_factory_id_name_key''), db)
       else let i = fl_ids db (fl_next db)
            in (Inr i, db\<lparr>fl_lines := fl_lines db @ [\<lparr>ln_id = i, ln_factory_id = f, ln_name = name\<rparr>], fl_next := Suc (fl_next db)\<rparr>)))"

text \<open>Without a status a machine is \<open>IDLE\<close>.\<close>

definition insert_machine :: "string \<Rightarrow> string \<Rightarrow> string \<Rightarrow> string \<Rightarrow> string seed_query" where
  "insert_machine line_id name machine_type status =
     execute (refers ''machines_production_line_id_fkey'' line_id (\<lambda>db. map ln_id (fl_lines db)) (\<lambda>l db.
       if \<exists>m\<in>set (fl_machines db). mc_production_line_id m = l \<and> mc_name m = name
       then (Inl (UniqueViolation ''machines_production_line_id_name_key''), db)
       else let i = fl_ids db (fl_next db)
            in (Inr i, db\<lparr>fl_machines := fl_machines db @
                 [\<lparr>mc_id = i, mc_production_line_id = l, mc_name = name, mc_machine_type = machine_type, mc_status = status\<rparr>],
                 fl_next := Suc (fl_next db)\<rparr>)))"

definition insert_seeded_device ::
  "string \<Rightarrow> string \<Rightarrow> string \<Rightarrow> string \<Rightarrow> string \<Rightarrow> datetime option \<Rightarrow> string seed_query" where
  "insert_seeded_device machine_id org_id serial status firmware activated_at =
     execute (refers ''devices_machine_id_fkey'' machine_id (\<lambda>db. map mc_id (fl_machines db)) (\<lambda>m.
       refers ''devices_organization_id_fkey'' org_id (\<lambda>db. map og_id (sd_organizations db)) (\<lambda>org db.
       if \<exists>d\<in>set (fl_devices db). dv_serial_number d = serial then (Inl (UniqueViolation ''devices_serial_number_key''), db)
       else let i = fl_ids db (fl_next db)
            in (Inr i, db\<lparr>fl_devices := fl_devices db @
                 [\<lparr>dv_id = i, dv_machine_id = m, dv_organization_id = org, dv_serial_number = serial, dv_status = status,
                   dv_firmware_version = Some firmware\<rparr>],
                 sd_activated := sd_activated db @ [(i, activated_at)], fl_next := Suc (fl_next db)\<rparr>))))"

definition insert_sensor :: "string \<Rightarrow> string \<Rightarrow> metric_spec \<Rightarrow> unit seed_query" where
  "insert_sensor device_id metric spec =
     execute (refers ''sensors_device_id_fkey'' device_id (\<lambda>db. map dv_id (fl_devices db)) (\<lambda>d db.
       if \<exists>s\<in>set (fl_sensors db). se_device_id s = d \<and> se_metric s = metric
       then (Inl (UniqueViolation ''sensors_device_id_metric_key''), db)
       else let i = fl_ids db (fl_next db)
            in (ok, db\<lparr>fl_sensors := fl_sensors db @
                 [\<lparr>se_id = i, se_device_id = d, se_metric = metric, se_unit = ms_unit spec, se_min = Some (ms_min_value spec),
                   se_max = Some (ms_max_value spec)\<rparr>], fl_next := Suc (fl_next db)\<rparr>)))"

section \<open>The fleet\<close>

text \<open>What is drawn for the machine of a city, line and number.\<close>

record machine_draws =
  dr_machine_roll :: nat
  dr_device_roll :: nat
  dr_secret :: "nat list"
  dr_now :: int

type_synonym seed_draws = "string \<Rightarrow> int \<Rightarrow> int \<Rightarrow> machine_draws"

definition machine_weights :: "(string \<times> nat) list" where
  "machine_weights = [(''RUNNING'', 70), (''IDLE'', 15), (''MAINTENANCE'', 8), (''FAULT'', 5), (''STOPPED'', 2)]"

definition device_weights :: "(string \<times> nat) list" where
  "device_weights = [(''ACTIVE'', 85), (''OFFLINE'', 8), (''MAINTENANCE'', 5), (''PROVISIONED'', 2)]"

definition activation :: "string \<Rightarrow> int \<Rightarrow> int \<Rightarrow> exn + datetime option" where
  "activation device_status now machine_idx =
     (if device_status \<in> set [''ACTIVE'', ''OFFLINE'', ''MAINTENANCE'']
      then map_sum id Some (dt_sub (Aware now) (machine_idx * 3600 * 1000000)) else Inr None)"

definition seed_sensor :: "string \<Rightarrow> string \<Rightarrow> unit seed_query" where
  "seed_sensor device_id metric = andthen (lift_result (dict_get METRIC_SPECS metric)) (insert_sensor device_id metric)"

definition seed_machine :: "bcrypt_library \<Rightarrow> seed_draws \<Rightarrow> string \<Rightarrow> string \<Rightarrow> int \<Rightarrow> string \<Rightarrow> string \<Rightarrow> int \<Rightarrow> unit seed_query" where
  "seed_machine bc rolls org_id city line_idx line_name line_id machine_idx =
     (let profile = MACHINE_PROFILES ! nat ((machine_idx - 1) mod int (length MACHINE_PROFILES));
          machine_name = city @ ''-'' @ line_name @ ''-M'' @ pad_zeros 3 (str_int machine_idx);
          drawn = rolls city line_idx machine_idx;
          machine_status = random_status machine_weights (dr_machine_roll drawn);
          serial = ''SN-'' @ city @ ''-'' @ mp_machine_type profile @ ''-'' @ pad_zeros 2 (str_int line_idx) @ ''-'' @
            pad_zeros 3 (str_int machine_idx);
          device_status = random_status device_weights (dr_device_roll drawn)
      in andthen (insert_machine line_id machine_name (mp_machine_type profile) machine_status) (\<lambda>machine_id.
         andthen (lift_result (activation device_status (dr_now drawn) machine_idx)) (\<lambda>activated_at.
         andthen (insert_seeded_device machine_id org_id serial device_status ''fw-1.4.2'' activated_at) (\<lambda>device_id.
         andthen (lift_result (hash_password bc (dr_secret drawn))) (\<lambda>credential_hash.
         andthen (insert_credential device_id credential_hash) (\<lambda>_.
         for_each (seed_sensor device_id) (mp_metrics profile)))))))"

definition seed_line :: "bcrypt_library \<Rightarrow> seed_draws \<Rightarrow> int \<Rightarrow> string \<Rightarrow> string \<Rightarrow> string \<Rightarrow> int \<Rightarrow> unit seed_query" where
  "seed_line bc rolls machines_per_line org_id city factory_id line_idx =
     (let line_name = ''Line '' @ pad_zeros 2 (str_int line_idx)
      in andthen (insert_line factory_id line_name) (\<lambda>line_id.
         for_each (seed_machine bc rolls org_id city line_idx line_name line_id) [1..machines_per_line]))"

definition seed_factory :: "bcrypt_library \<Rightarrow> seed_draws \<Rightarrow> int \<Rightarrow> int \<Rightarrow> string \<Rightarrow> string \<times> string \<Rightarrow> unit seed_query" where
  "seed_factory bc rolls lines_per_factory machines_per_line org_id place =
     (case place of (factory_name, city) \<Rightarrow>
        andthen (insert_factory org_id factory_name city) (\<lambda>factory_id.
          for_each (seed_line bc rolls machines_per_line org_id city factory_id) [1..lines_per_factory]))"

definition seed_factory_hierarchy :: "bcrypt_library \<Rightarrow> seed_draws \<Rightarrow> string \<Rightarrow> int \<Rightarrow> int \<Rightarrow> string seed_query" where
  "seed_factory_hierarchy bc rolls org_slug lines_per_factory machines_per_line =
     transaction (andthen (insert_organization ''Musterfabrik GmbH'' org_slug) (\<lambda>org_id.
       andthen (for_each (seed_factory bc rolls lines_per_factory machines_per_line org_id) GERMAN_FACTORIES) (\<lambda>_.
         lift_result (Inr org_id))))"

section \<open>Alert rules\<close>

definition rule_of_org :: "string \<Rightarrow> rule_row \<Rightarrow> bool" where
  "rule_of_org org r \<longleftrightarrow> rl_organization_id (rr_rule r) = org"

definition count_rules :: "string \<Rightarrow> nat seed_query" where
  "count_rules org_id = execute (uuid_arg org_id (\<lambda>org db. (Inr (length (filter (rule_of_org org) (sd_rules db))), db)))"

definition seeded_rule :: "string \<Rightarrow> string \<Rightarrow> alert_rule_seed \<Rightarrow> rule_row" where
  "seeded_rule i org r =
     \<lparr>rr_rule = \<lparr>rl_id = i, rl_organization_id = org, rl_name = as_name r, rl_metric = as_metric r, rl_condition = as_condition r,
        rl_threshold_value = as_threshold_value r, rl_threshold_min = None, rl_threshold_max = None, rl_severity = as_severity r,
        rl_cooldown_seconds = as_cooldown_secs r, rl_window_seconds = as_window_secs r, rl_machine_id = None,
        rl_device_id = None, rl_sensor_id = None\<rparr>,
      rr_is_active = True\<rparr>"

definition insert_rule :: "string \<Rightarrow> alert_rule_seed \<Rightarrow> unit seed_query" where
  "insert_rule org_id r =
     execute (refers ''alert_rules_organization_id_fkey'' org_id (\<lambda>db. map og_id (sd_organizations db)) (\<lambda>org db.
       (ok, db\<lparr>sd_rules := sd_rules db @ [seeded_rule (fl_ids db (fl_next db)) org r], fl_next := Suc (fl_next db)\<rparr>)))"

definition seed_alert_rules_if_missing :: "string \<Rightarrow> unit seed_query" where
  "seed_alert_rules_if_missing org_id =
     andthen (count_rules org_id) (\<lambda>existing.
       if 0 < existing then lift_result ok else for_each (insert_rule org_id) rule_seeds)"

section \<open>Roles and permissions\<close>

definition count_roles :: "nat seed_query" where
  "count_roles = execute (\<lambda>db. (Inr (length (sd_roles db)), db))"

definition insert_role :: "string \<Rightarrow> string seed_query" where
  "insert_role role = execute (\<lambda>db.
     if \<exists>r\<in>set (sd_roles db). ro_name r = role then (Inl (UniqueViolation ''roles_name_key''), db)
     else let i = fl_ids db (fl_next db)
          in (Inr i, db\<lparr>sd_roles := sd_roles db @ [\<lparr>ro_id = i, ro_name = role, ro_description = ''Seeded role: '' @ role\<rparr>],
                        fl_next := Suc (fl_next db)\<rparr>))"

definition insert_permission :: "string \<times> string \<Rightarrow> string seed_query" where
  "insert_permission p = execute (\<lambda>db.
     if \<exists>r\<in>set (sd_permissions db). pm_code r = fst p then (Inl (UniqueViolation ''permissions_code_key''), db)
     else let i = fl_ids db (fl_next db)
          in (Inr i, db\<lparr>sd_permissions := sd_permissions db @ [\<lparr>pm_id = i, pm_code = fst p, pm_description = snd p\<rparr>],
                        fl_next := Suc (fl_next db)\<rparr>))"

definition insert_role_permission :: "string \<Rightarrow> string \<Rightarrow> unit seed_query" where
  "insert_role_permission role_id permission_id =
     execute (refers ''role_permissions_role_id_fkey'' role_id (\<lambda>db. map ro_id (sd_roles db)) (\<lambda>r.
       refers ''role_permissions_permission_id_fkey'' permission_id (\<lambda>db. map pm_id (sd_permissions db)) (\<lambda>p db.
       if (r, p) \<in> set (sd_role_permissions db) then (Inl (UniqueViolation ''role_permissions_pkey''), db)
       else (ok, db\<lparr>sd_role_permissions := sd_role_permissions db @ [(r, p)]\<rparr>))))"

definition link_permission :: "(string \<times> string) list \<Rightarrow> (string \<times> string) list \<Rightarrow> string \<Rightarrow> string \<Rightarrow> unit seed_query" where
  "link_permission role_ids perm_ids role perm =
     andthen (lift_result (dict_get role_ids role)) (\<lambda>r.
     andthen (lift_result (dict_get perm_ids perm)) (\<lambda>p. insert_role_permission r p))"

definition seed_rbac_if_missing :: "unit seed_query" where
  "seed_rbac_if_missing =
     andthen count_roles (\<lambda>existing.
       if 0 < existing then lift_result ok
       else andthen (collect insert_role ALL_ROLES) (\<lambda>rs.
            andthen (collect insert_permission PERMISSION_DESCRIPTIONS) (\<lambda>ps.
            for_each (\<lambda>(role, perms). for_each (link_permission (zip ALL_ROLES rs) (zip (map fst PERMISSION_DESCRIPTIONS) ps) role) perms)
              ROLE_PERMISSIONS)))"

section \<open>Users\<close>

text \<open>\<open>lower\<close> and \<open>title\<close> on the ASCII names of the roles.\<close>

definition upper_letters :: string where
  "upper_letters = ''ABCDEFGHIJKLMNOPQRSTUVWXYZ''"

definition lower_letters :: string where
  "lower_letters = ''abcdefghijklmnopqrstuvwxyz''"

definition lower_char :: "char \<Rightarrow> char" where
  "lower_char c = (case map_of (zip upper_letters lower_letters) c of None \<Rightarrow> c | Some d \<Rightarrow> d)"

definition upper_char :: "char \<Rightarrow> char" where
  "upper_char c = (case map_of (zip lower_letters upper_letters) c of None \<Rightarrow> c | Some d \<Rightarrow> d)"

definition is_letter :: "char \<Rightarrow> bool" where
  "is_letter c \<longleftrightarrow> c \<in> set upper_letters \<or> c \<in> set lower_letters"

fun title_case :: "bool \<Rightarrow> string \<Rightarrow> string" where
  "title_case after_letter [] = []"
| "title_case after_letter (c # cs) = (if after_letter then lower_char c else upper_char c) # title_case (is_letter c) cs"

definition user_of_org :: "string \<Rightarrow> seeded_user \<Rightarrow> bool" where
  "user_of_org org u \<longleftrightarrow> us_organization_id u = org"

definition count_users :: "string \<Rightarrow> nat seed_query" where
  "count_users org_id = execute (uuid_arg org_id (\<lambda>org db. (Inr (length (filter (user_of_org org) (sd_users db))), db)))"

definition insert_user :: "string \<Rightarrow> string \<Rightarrow> string \<Rightarrow> string \<Rightarrow> string seed_query" where
  "insert_user org_id email password_hash full_name =
     execute (refers ''users_organization_id_fkey'' org_id (\<lambda>db. map og_id (sd_organizations db)) (\<lambda>org db.
       if \<exists>u\<in>set (sd_users db). us_email u = email then (Inl (UniqueViolation ''users_email_key''), db)
       else let i = fl_ids db (fl_next db)
            in (Inr i, db\<lparr>sd_users := sd_users db @
                 [\<lparr>us_id = i, us_organization_id = org, us_email = email, us_password_hash = password_hash, us_is_active = True,
                   us_full_name = full_name\<rparr>], fl_next := Suc (fl_next db)\<rparr>)))"

definition find_role :: "string \<Rightarrow> string option seed_query" where
  "find_role role = execute (\<lambda>db. (Inr (map_option ro_id (find (\<lambda>r. ro_name r = role) (sd_roles db))), db))"

definition insert_user_role :: "string \<Rightarrow> string \<Rightarrow> unit seed_query" where
  "insert_user_role user_id role_id =
     execute (refers ''user_roles_user_id_fkey'' user_id (\<lambda>db. map us_id (sd_users db)) (\<lambda>u.
       refers ''user_roles_role_id_fkey'' role_id (\<lambda>db. map ro_id (sd_roles db)) (\<lambda>r db.
       if (u, r) \<in> set (sd_user_roles db) then (Inl (UniqueViolation ''user_roles_user_id_role_id_key''), db)
       else (ok, db\<lparr>sd_user_roles := sd_user_roles db @ [(u, r)], fl_next := Suc (fl_next db)\<rparr>))))"

text \<open>A user and the link to the role of the given name.\<close>

definition seed_user :: "string \<Rightarrow> string \<Rightarrow> string \<Rightarrow> string \<Rightarrow> string \<Rightarrow> unit seed_query" where
  "seed_user org_id email password_hash full_name role =
     andthen (insert_user org_id email password_hash full_name) (\<lambda>user_id.
     andthen (find_role role) (\<lambda>row.
     andthen (lift_result (first_column row)) (\<lambda>role_id. insert_user_role user_id role_id)))"

definition demo_email :: "string \<Rightarrow> string" where
  "demo_email role = map lower_char role @ ''@musterfabrik-gmbh.de''"

definition demo_full_name :: "string \<Rightarrow> string" where
  "demo_full_name role = ''Demo '' @ title_case False (map (\<lambda>c. if c = CHR ''_'' then CHR '' '' else c) role)"

definition seed_users_if_missing :: "bcrypt_library \<Rightarrow> (nat \<Rightarrow> bool) \<Rightarrow> (nat \<Rightarrow> bool) \<Rightarrow> string \<Rightarrow> unit seed_query" where
  "seed_users_if_missing bc is_alpha is_dig org_id =
     andthen (count_users org_id) (\<lambda>existing.
       if 0 < existing then lift_result ok
       else andthen (lift_result (validate_password_strength is_alpha is_dig DEMO_PASSWORD)) (\<lambda>_.
            andthen (lift_result (hash_password bc DEMO_PASSWORD)) (\<lambda>password_hash.
            for_each (\<lambda>role. seed_user org_id (demo_email role) password_hash (demo_full_name role) role) ALL_ROLES)))"

section \<open>The second organization\<close>

definition seed_second_organization_if_missing :: "bcrypt_library \<Rightarrow> unit seed_query" where
  "seed_second_organization_if_missing bc =
     andthen (find_organization ''zweite-firma-gmbh'') (\<lambda>row.
       if row \<noteq> None then lift_result ok
       else andthen (insert_organization ''Zweite Firma GmbH'' ''zweite-firma-gmbh'') (\<lambda>org_id.
            andthen (insert_factory org_id ''Stuttgart Plant'' ''Stuttgart'') (\<lambda>factory_id.
            andthen (insert_line factory_id ''Line 01'') (\<lambda>line_id.
            andthen (insert_machine line_id ''Stuttgart-Line01-M001'' ''CNC_MILLING_MACHINE'' ''IDLE'') (\<lambda>_.
            andthen (lift_result (hash_password bc DEMO_PASSWORD)) (\<lambda>password_hash.
            seed_user org_id ''admin@zweite-firma-gmbh.de'' password_hash ''Demo Admin'' ''ADMIN''))))))"

section \<open>The script\<close>

definition seed_supporting_data :: "bcrypt_library \<Rightarrow> (nat \<Rightarrow> bool) \<Rightarrow> (nat \<Rightarrow> bool) \<Rightarrow> string \<Rightarrow> unit seed_query" where
  "seed_supporting_data bc is_alpha is_dig org_id =
     andthen (seed_alert_rules_if_missing org_id) (\<lambda>_.
     andthen seed_rbac_if_missing (\<lambda>_.
     andthen (seed_users_if_missing bc is_alpha is_dig org_id) (\<lambda>_.
     seed_second_organization_if_missing bc)))"

definition ORG_SLUG :: string where
  "ORG_SLUG = ''musterfabrik-gmbh''"

definition select_one :: "unit seed_query" where
  "select_one = execute (\<lambda>db. (ok, db))"

definition seed_main :: "environ \<Rightarrow> bcrypt_library \<Rightarrow> (nat \<Rightarrow> bool) \<Rightarrow> (nat \<Rightarrow> bool) \<Rightarrow> seed_draws \<Rightarrow> unit seed_query" where
  "seed_main env bc is_alpha is_dig rolls =
     (let lines_per_factory = env_int env ''SEED_LINES_PER_FACTORY'' 5; machines_per_line = env_int env ''SEED_MACHINES_PER_LINE'' 10
      in andthen select_one (\<lambda>_.
         andthen (find_organization ORG_SLUG) (\<lambda>row.
         case row of
           Some org_id \<Rightarrow> seed_supporting_data bc is_alpha is_dig org_id
         | None \<Rightarrow>
             andthen (seed_factory_hierarchy bc rolls ORG_SLUG lines_per_factory machines_per_line) (\<lambda>org_id.
               seed_supporting_data bc is_alpha is_dig org_id))))"

section \<open>What every operation keeps\<close>

text \<open>
  Identifiers keep their reading, organizations are only added at the end, no rule, role or user goes away, and a sensor
  that is added can be simulated, in whatever way a statement or a commit ends.
\<close>

definition simulatable :: "sensor_row \<Rightarrow> bool" where
  "simulatable s \<longleftrightarrow>
     se_metric s \<in> set VALID_METRICS \<and> se_unit s \<noteq> [] \<and>
     (case (se_min s, se_max s) of (Some lo, Some hi) \<Rightarrow> lo < hi | _ \<Rightarrow> False)"

definition grows :: "seed_tables \<Rightarrow> seed_tables \<Rightarrow> bool" where
  "grows db db' \<longleftrightarrow>
     fl_uuid db' = fl_uuid db \<and> fl_replies db' = fl_replies db \<and> fl_tick db \<le> fl_tick db' \<and>
     prefix (sd_organizations db) (sd_organizations db') \<and> set (sd_rules db) \<subseteq> set (sd_rules db') \<and>
     set (sd_roles db) \<subseteq> set (sd_roles db') \<and> set (sd_users db) \<subseteq> set (sd_users db') \<and>
     set (fl_sensors db') \<subseteq> set (fl_sensors db) \<union> Collect simulatable"

definition growing :: "'a seed_query \<Rightarrow> bool" where
  "growing q \<longleftrightarrow> (\<forall>db. grows db (snd (q db)))"

named_theorems growing_rules \<open>the operations that only add\<close>

lemma grows_refl [simp]: "grows db db"
  by (simp add: grows_def)

lemma grows_trans [trans]: "grows a b \<Longrightarrow> grows b c \<Longrightarrow> grows a c"
  unfolding grows_def by (auto intro: prefix_order.trans)

lemma growingD: "growing q \<Longrightarrow> q db = (r, db') \<Longrightarrow> grows db db'"
  unfolding growing_def by (metis snd_conv)

lemma growingI: "(\<And>db r db'. q db = (r, db') \<Longrightarrow> grows db db') \<Longrightarrow> growing q"
  unfolding growing_def by (metis prod.collapse)

lemma grows_tick: "fl_tick db \<le> t \<Longrightarrow> grows db (db\<lparr>fl_tick := t\<rparr>)" "fl_tick db \<le> t \<Longrightarrow> grows db (db\<lparr>fl_tick := t, fl_next := n\<rparr>)"
  by (simp_all add: grows_def)

lemma growing_lift [growing_rules]: "growing (lift_result r)"
  by (simp add: growing_def lift_result_def)

lemma growing_execute [growing_rules]: "growing q \<Longrightarrow> growing (execute q)"
proof (rule growingI)
  fix db r db'
  assume q: "growing q" and e: "execute q db = (r, db')"
  let ?db = "db\<lparr>fl_tick := Suc (fl_tick db)\<rparr>"
  have "grows db ?db"
    by (rule grows_tick) simp
  moreover have "grows ?db (snd (q ?db))"
    using q by (simp add: growing_def)
  moreover have "db' = ?db \<or> db' = snd (q ?db)"
    using e by (auto simp: execute_def Let_def split: prod.splits reply.splits if_splits)
  ultimately show "grows db db'"
    using grows_trans by blast
qed

lemma growing_andthen [growing_rules]: "growing q \<Longrightarrow> (\<And>x. growing (k x)) \<Longrightarrow> growing (andthen q k)"
  by (rule growingI) (auto simp: andthen_def split: prod.splits sum.splits dest: growingD intro: grows_trans)

lemma growing_transaction [growing_rules]:
  assumes "growing q"
  shows "growing (transaction q)"
proof (rule growingI)
  fix db r db'
  assume t: "transaction q db = (r, db')"
  obtain x db1 where q: "q db = (x, db1)" by fastforce
  then have g: "grows db db1"
    using assms by (rule growingD [rotated])
  have undone: "grows db (roll_back db d)" if "fl_tick db \<le> fl_tick d" for d
    using that by (simp add: roll_back_def grows_tick)
  have "grows db (db1\<lparr>fl_tick := Suc (fl_tick db1)\<rparr>)"
    using g by (rule grows_trans) (simp add: grows_tick)
  then show "grows db db'"
    using t g undone [of db1] undone [of "db1\<lparr>fl_tick := Suc (fl_tick db1)\<rparr>"]
    by (auto simp: transaction_def q Let_def grows_def split: sum.splits reply.splits if_splits)
qed

lemma growing_uuid [growing_rules]: "(\<And>u. growing (q u)) \<Longrightarrow> growing (uuid_arg s q)"
  by (auto simp: growing_def uuid_arg_def split: option.split)

lemma growing_refers [growing_rules]: "(\<And>u. growing (q u)) \<Longrightarrow> growing (refers c i keys q)"
  by (auto simp: growing_def refers_def uuid_arg_def split: option.split)

lemma growing_for_each [growing_rules]: "(\<And>x. growing (f x)) \<Longrightarrow> growing (for_each f xs)"
  by (induction xs) (simp_all add: growing_rules)

lemma growing_collect [growing_rules]: "(\<And>x. growing (f x)) \<Longrightarrow> growing (collect f xs)"
  by (induction xs) (simp_all add: growing_rules)

lemma growing_inserts [growing_rules]:
  "growing (find_organization slug)" "growing (insert_organization name slug)" "growing (insert_factory o' name city)"
  "growing (insert_line f name)" "growing (insert_machine l name t st)" "growing (insert_seeded_device m o' n st fw act)"
  "growing (insert_credential d h)"
  unfolding find_organization_def insert_organization_def insert_factory_def insert_line_def insert_machine_def
    insert_seeded_device_def insert_credential_def
  by (intro growing_rules; auto simp: growing_def grows_def Let_def)+

lemma growing_inserts' [growing_rules]:
  "growing (count_rules o')" "growing (insert_rule o' r)" "growing count_roles" "growing (insert_role role)"
  "growing (insert_permission p)" "growing (insert_role_permission a b)" "growing (count_users o')"
  "growing (insert_user o' email h name)" "growing (find_role role)" "growing (insert_user_role a b)" "growing select_one"
  unfolding count_rules_def insert_rule_def count_roles_def insert_role_def insert_permission_def insert_role_permission_def
    count_users_def insert_user_def find_role_def insert_user_role_def select_one_def
  by (intro growing_rules; auto simp: growing_def grows_def Let_def)+

lemma growing_pair [growing_rules]: "(\<And>a b. growing (q a b)) \<Longrightarrow> growing (case p of (a, b) \<Rightarrow> q a b)"
  by (cases p) simp

lemma growing_if [growing_rules]: "growing p \<Longrightarrow> growing q \<Longrightarrow> growing (if b then p else q)"
  by simp

lemma growing_option [growing_rules]: "growing p \<Longrightarrow> (\<And>x. growing (q x)) \<Longrightarrow> growing (case r of None \<Rightarrow> p | Some x \<Rightarrow> q x)"
  by (cases r) simp_all

lemma specs_simulatable:
  "map_of METRIC_SPECS metric = Some spec \<Longrightarrow>
   metric \<in> set VALID_METRICS \<and> ms_unit spec \<noteq> [] \<and> ms_min_value spec < ms_max_value spec"
  by (drule map_of_SomeD) (auto simp: METRIC_SPECS_def VALID_METRICS_def)

lemma growing_sensor [growing_rules]: "growing (seed_sensor d metric)"
proof (cases "map_of METRIC_SPECS metric")
  case None
  then show ?thesis
    by (simp add: seed_sensor_def growing_def andthen_def lift_result_def dict_get_def)
next
  case (Some spec)
  have "growing (insert_sensor d metric spec)"
    unfolding insert_sensor_def using specs_simulatable [OF Some]
    by (intro growing_rules) (auto simp: growing_def grows_def Let_def simulatable_def)
  then show ?thesis
    using Some by (simp add: seed_sensor_def growing_def andthen_def lift_result_def dict_get_def)
qed

lemma growing_machine [growing_rules]: "growing (seed_machine bc rolls o' city i name l j)"
  unfolding seed_machine_def Let_def by (intro growing_rules)

lemma growing_line [growing_rules]: "growing (seed_line bc rolls k o' city f i)"
  unfolding seed_line_def Let_def by (intro growing_rules)

lemma growing_factory [growing_rules]: "growing (seed_factory bc rolls n k o' place)"
  unfolding seed_factory_def by (intro growing_rules)

lemma growing_hierarchy [growing_rules]: "growing (seed_factory_hierarchy bc rolls slug n k)"
  unfolding seed_factory_hierarchy_def by (intro growing_rules)

lemma growing_user [growing_rules]: "growing (seed_user o' email h name role)"
  unfolding seed_user_def by (intro growing_rules)

lemma growing_steps [growing_rules]:
  "growing (seed_alert_rules_if_missing o')" "growing seed_rbac_if_missing" "growing (seed_users_if_missing bc al dg o')"
  "growing (seed_second_organization_if_missing bc)"
  unfolding seed_alert_rules_if_missing_def seed_rbac_if_missing_def seed_users_if_missing_def link_permission_def
    seed_second_organization_if_missing_def
  by (intro growing_rules)+

lemma growing_support [growing_rules]: "growing (seed_supporting_data bc al dg o')"
  unfolding seed_supporting_data_def by (intro growing_rules)

section \<open>What a finished step leaves behind\<close>

lemma andthen_okE:
  assumes "andthen q k db = (Inr y, db')"
  obtains x db1 where "q db = (Inr x, db1)" "k x db1 = (Inr y, db')"
  using assms by (auto simp: andthen_def split: prod.splits sum.splits)

lemma andthen_ok_grows:
  assumes "andthen q k db = (Inr y, db')" and "\<And>x. growing (k x)"
  obtains x db1 where "q db = (Inr x, db1)" "grows db1 db'"
  using assms(1) growingD [OF assms(2)] by (auto elim: andthen_okE)

lemma execute_ok: "execute q db = (Inr x, db') \<Longrightarrow> q (db\<lparr>fl_tick := Suc (fl_tick db)\<rparr>) = (Inr x, db')"
  by (auto simp: execute_def Let_def split: prod.splits reply.splits if_splits)

lemma lift_ok: "lift_result r db = (Inr x, db') \<longleftrightarrow> r = Inr x \<and> db' = db"
  by (auto simp: lift_result_def)

lemma uuid_arg_ok: "uuid_arg s q db = (Inr x, db') \<longleftrightarrow> (\<exists>u. fl_uuid db s = Some u \<and> q u db = (Inr x, db'))"
  by (auto simp: uuid_arg_def split: option.split)

lemma refers_ok: "refers c i keys q db = (Inr x, db') \<longleftrightarrow> (\<exists>u. fl_uuid db i = Some u \<and> u \<in> set (keys db) \<and> q u db = (Inr x, db'))"
  by (auto simp: refers_def uuid_arg_ok)

lemmas ok_simps = lift_ok uuid_arg_ok refers_ok

definition has_rule :: "string \<Rightarrow> seed_tables \<Rightarrow> bool" where
  "has_rule org db \<longleftrightarrow> (\<exists>r\<in>set (sd_rules db). rule_of_org org r)"

definition has_user :: "string \<Rightarrow> seed_tables \<Rightarrow> bool" where
  "has_user org db \<longleftrightarrow> (\<exists>u\<in>set (sd_users db). user_of_org org u)"

definition known :: "string \<Rightarrow> string option \<Rightarrow> seed_tables \<Rightarrow> bool" where
  "known slug i db \<longleftrightarrow> map_option og_id (find (\<lambda>o'. og_slug o' = slug) (sd_organizations db)) = i"

lemma find_prefix: "find P xs = Some x \<Longrightarrow> find P (xs @ ys) = Some x"
  by (induction xs) (auto split: if_splits)

lemma grows_keeps:
  assumes "grows db db'"
  shows "fl_uuid db' = fl_uuid db" "has_rule org db \<Longrightarrow> has_rule org db'" "has_user org db \<Longrightarrow> has_user org db'"
    "sd_roles db \<noteq> [] \<Longrightarrow> sd_roles db' \<noteq> []" "known slug (Some i) db \<Longrightarrow> known slug (Some i) db'"
  using assms unfolding grows_def has_rule_def has_user_def known_def
  by (auto simp: prefix_def find_prefix)

lemma rules_step_done:
  assumes "seed_alert_rules_if_missing org_id db = (ok, db')"
  shows "\<exists>u. fl_uuid db org_id = Some u \<and> has_rule u db'"
proof -
  obtain n db1 where c: "count_rules org_id db = (Inr n, db1)"
    and k: "(if 0 < n then lift_result ok else for_each (insert_rule org_id) rule_seeds) db1 = (ok, db')"
    using assms unfolding seed_alert_rules_if_missing_def by (elim andthen_okE)
  obtain u where u: "fl_uuid db org_id = Some u" "n = length (filter (rule_of_org u) (sd_rules db))"
      "db1 = db\<lparr>fl_tick := Suc (fl_tick db)\<rparr>"
    using execute_ok [OF c [unfolded count_rules_def]] by (auto simp: uuid_arg_ok)
  show ?thesis
  proof (cases "0 < n")
    case True
    then have "has_rule u db1"
      using u(2,3) by (auto simp: has_rule_def filter_empty_conv)
    then show ?thesis
      using True k u(1) by (simp add: lift_ok)
  next
    case False
    obtain r rs where rs: "rule_seeds = r # rs"
      by (simp add: rule_seeds_def)
    have "andthen (insert_rule org_id r) (\<lambda>_. for_each (insert_rule org_id) rs) db1 = (ok, db')"
      using False k unfolding rs by simp
    then obtain x db2 where i: "insert_rule org_id r db1 = (Inr x, db2)" and rest: "grows db2 db'"
      by (rule andthen_ok_grows) (intro growing_rules)
    have "has_rule u db2"
      using execute_ok [OF i [unfolded insert_rule_def]] u(1,3) by (auto simp: refers_ok has_rule_def rule_of_org_def seeded_rule_def)
    then show ?thesis
      using u(1) rest grows_keeps(2) by blast
  qed
qed

lemma roles_step_done:
  assumes "seed_rbac_if_missing db = (ok, db')"
  shows "sd_roles db' \<noteq> []"
proof -
  let ?insert = "andthen (collect insert_role ALL_ROLES) (\<lambda>rs.
    andthen (collect insert_permission PERMISSION_DESCRIPTIONS) (\<lambda>ps.
    for_each (\<lambda>(role, perms). for_each (link_permission (zip ALL_ROLES rs) (zip (map fst PERMISSION_DESCRIPTIONS) ps) role) perms)
      ROLE_PERMISSIONS))"
  obtain n db1 where c: "count_roles db = (Inr n, db1)" and k: "(if 0 < n then lift_result ok else ?insert) db1 = (ok, db')"
    using assms unfolding seed_rbac_if_missing_def by (elim andthen_okE)
  have n: "n = length (sd_roles db1)"
    using execute_ok [OF c [unfolded count_roles_def]] by auto
  show ?thesis
  proof (cases "0 < n")
    case True
    then show ?thesis
      using n k by (auto simp: lift_ok)
  next
    case False
    obtain r rs where rs: "ALL_ROLES = r # rs"
      by (simp add: ALL_ROLES_def)
    obtain ids db2 where ids: "collect insert_role ALL_ROLES db1 = (Inr ids, db2)" and g2: "grows db2 db'"
    proof (rule andthen_ok_grows)
      show "?insert db1 = (ok, db')"
        using False k by simp
    qed (unfold link_permission_def, intro growing_rules)
    have "andthen (insert_role r) (\<lambda>y. andthen (collect insert_role rs) (\<lambda>ys. lift_result (Inr (y # ys)))) db1 = (Inr ids, db2)"
      using ids unfolding rs by simp
    then obtain i db3 where i: "insert_role r db1 = (Inr i, db3)" and g3: "grows db3 db2"
      by (rule andthen_ok_grows) (intro growing_rules)
    have "sd_roles db3 \<noteq> []"
      using execute_ok [OF i [unfolded insert_role_def]] by (auto simp: Let_def split: if_splits)
    then show ?thesis
      using grows_keeps(4) [OF grows_trans [OF g3 g2]] by blast
  qed
qed

lemma users_step_done:
  assumes "seed_users_if_missing bc al dg org_id db = (ok, db')" and "fl_uuid db org_id = Some u"
  shows "has_user u db'"
proof -
  let ?each = "\<lambda>h. for_each (\<lambda>role. seed_user org_id (demo_email role) h (demo_full_name role) role) ALL_ROLES"
  obtain n db1 where c: "count_users org_id db = (Inr n, db1)"
    and k: "(if 0 < n then lift_result ok
       else andthen (lift_result (validate_password_strength al dg DEMO_PASSWORD)) (\<lambda>_.
            andthen (lift_result (hash_password bc DEMO_PASSWORD)) ?each)) db1 = (ok, db')"
    using assms(1) unfolding seed_users_if_missing_def by (elim andthen_okE)
  have n: "n = length (filter (user_of_org u) (sd_users db1))" and u: "fl_uuid db1 org_id = Some u"
    using execute_ok [OF c [unfolded count_users_def]] assms(2) by (auto simp: uuid_arg_ok)
  show ?thesis
  proof (cases "0 < n")
    case True
    then have "has_user u db1"
      using n by (auto simp: has_user_def filter_empty_conv)
    then show ?thesis
      using True k by (simp add: lift_ok)
  next
    case False
    obtain r rs where rs: "ALL_ROLES = r # rs"
      by (simp add: ALL_ROLES_def)
    obtain h where h: "?each h db1 = (ok, db')"
      using False k by (auto simp: lift_ok elim!: andthen_okE)
    have "andthen (seed_user org_id (demo_email r) h (demo_full_name r) r)
        (\<lambda>_. for_each (\<lambda>role. seed_user org_id (demo_email role) h (demo_full_name role) role) rs) db1 = (ok, db')"
      using h unfolding rs by simp
    then obtain x db2 where i: "seed_user org_id (demo_email r) h (demo_full_name r) r db1 = (Inr x, db2)" and g2: "grows db2 db'"
      by (rule andthen_ok_grows) (intro growing_rules)
    from i obtain i db3 where ins: "insert_user org_id (demo_email r) h (demo_full_name r) db1 = (Inr i, db3)" and g3: "grows db3 db2"
      unfolding seed_user_def by (rule andthen_ok_grows) (intro growing_rules)
    have "has_user u db3"
      using execute_ok [OF ins [unfolded insert_user_def]] u by (auto simp: refers_ok Let_def has_user_def user_of_org_def split: if_splits)
    then show ?thesis
      using grows_keeps(3) [OF grows_trans [OF g3 g2]] by blast
  qed
qed

lemma find_organization_ok:
  "find_organization slug db = (Inr r, db') \<Longrightarrow> known slug r db \<and> known slug r db' \<and> fl_uuid db' = fl_uuid db"
  by (auto simp: find_organization_def known_def dest!: execute_ok)

lemma find_snoc: "find P xs = None \<Longrightarrow> P x \<Longrightarrow> find P (xs @ [x]) = Some x"
  by (induction xs) (auto split: if_splits)

lemma insert_organization_ok:
  assumes "insert_organization name slug db = (Inr i, db')"
  shows "known slug (Some i) db'"
proof -
  have "find (\<lambda>o'. og_slug o' = slug) (sd_organizations db) = None"
    using execute_ok [OF assms [unfolded insert_organization_def]] by (auto simp: find_None_iff split: if_splits)
  then show ?thesis
    using execute_ok [OF assms [unfolded insert_organization_def]]
    by (auto simp: known_def Let_def find_snoc split: if_splits)
qed

lemma second_step_done:
  assumes "seed_second_organization_if_missing bc db = (ok, db')"
  shows "\<exists>i. known ''zweite-firma-gmbh'' (Some i) db'"
proof -
  obtain row db1 where f: "find_organization ''zweite-firma-gmbh'' db = (Inr row, db1)"
    and k: "(if row \<noteq> None then lift_result ok
       else andthen (insert_organization ''Zweite Firma GmbH'' ''zweite-firma-gmbh'') (\<lambda>org_id.
            andthen (insert_factory org_id ''Stuttgart Plant'' ''Stuttgart'') (\<lambda>factory_id.
            andthen (insert_line factory_id ''Line 01'') (\<lambda>line_id.
            andthen (insert_machine line_id ''Stuttgart-Line01-M001'' ''CNC_MILLING_MACHINE'' ''IDLE'') (\<lambda>_.
            andthen (lift_result (hash_password bc DEMO_PASSWORD)) (\<lambda>password_hash.
            seed_user org_id ''admin@zweite-firma-gmbh.de'' password_hash ''Demo Admin'' ''ADMIN'')))))) db1 = (ok, db')"
    using assms unfolding seed_second_organization_if_missing_def by (elim andthen_okE)
  show ?thesis
  proof (cases row)
    case (Some i)
    then show ?thesis
      using k find_organization_ok [OF f] by (auto simp: lift_ok)
  next
    case None
    then have "andthen (insert_organization ''Zweite Firma GmbH'' ''zweite-firma-gmbh'') (\<lambda>org_id.
            andthen (insert_factory org_id ''Stuttgart Plant'' ''Stuttgart'') (\<lambda>factory_id.
            andthen (insert_line factory_id ''Line 01'') (\<lambda>line_id.
            andthen (insert_machine line_id ''Stuttgart-Line01-M001'' ''CNC_MILLING_MACHINE'' ''IDLE'') (\<lambda>_.
            andthen (lift_result (hash_password bc DEMO_PASSWORD)) (\<lambda>password_hash.
            seed_user org_id ''admin@zweite-firma-gmbh.de'' password_hash ''Demo Admin'' ''ADMIN''))))) db1 = (ok, db')"
      using k by simp
    then obtain i db2 where ins: "insert_organization ''Zweite Firma GmbH'' ''zweite-firma-gmbh'' db1 = (Inr i, db2)"
      and rest: "grows db2 db'"
      by (rule andthen_ok_grows) (intro growing_rules)
    show ?thesis
      using insert_organization_ok [OF ins] grows_keeps(5) [OF rest] by blast
  qed
qed

lemma hierarchy_done:
  assumes "seed_factory_hierarchy bc rolls slug n k db = (Inr i, db')"
  shows "known slug (Some i) db'"
proof -
  let ?body = "andthen (insert_organization ''Musterfabrik GmbH'' slug) (\<lambda>org_id.
    andthen (for_each (seed_factory bc rolls n k org_id) GERMAN_FACTORIES) (\<lambda>_. lift_result (Inr org_id)))"
  obtain db1 where b: "?body db = (Inr i, db1)" and db': "db' = db1\<lparr>fl_tick := Suc (fl_tick db1)\<rparr>"
    using assms by (auto simp: seed_factory_hierarchy_def transaction_def Let_def split: prod.splits sum.splits reply.splits)
  obtain org d where ins: "insert_organization ''Musterfabrik GmbH'' slug db = (Inr org, d)"
    and rest: "andthen (for_each (seed_factory bc rolls n k org) GERMAN_FACTORIES) (\<lambda>_. lift_result (Inr org)) d = (Inr i, db1)"
    using b by (rule andthen_okE)
  have org: "org = i"
    using rest by (auto simp: lift_ok elim!: andthen_okE)
  have "growing (andthen (for_each (seed_factory bc rolls n k org) GERMAN_FACTORIES) (\<lambda>_. lift_result (Inr org)))"
    by (intro growing_rules)
  then have "grows d db1"
    using rest by (rule growingD)
  then have "known slug (Some i) db1"
    using insert_organization_ok [OF ins] grows_keeps(5) org by blast
  then show ?thesis
    by (simp add: db' known_def)
qed

definition seeded :: "string \<Rightarrow> string \<Rightarrow> seed_tables \<Rightarrow> bool" where
  "seeded org_id u db \<longleftrightarrow>
     known ORG_SLUG (Some org_id) db \<and> fl_uuid db org_id = Some u \<and> has_rule u db \<and> sd_roles db \<noteq> [] \<and> has_user u db \<and>
     (\<exists>i. known ''zweite-firma-gmbh'' (Some i) db)"

lemma support_done:
  assumes "seed_supporting_data bc al dg org_id db = (ok, db')" and "known ORG_SLUG (Some org_id) db"
  shows "\<exists>u. seeded org_id u db'"
proof -
  from assms(1) obtain x1 d1 where 1: "seed_alert_rules_if_missing org_id db = (Inr x1, d1)"
    and r1: "andthen seed_rbac_if_missing (\<lambda>_. andthen (seed_users_if_missing bc al dg org_id) (\<lambda>_. seed_second_organization_if_missing bc)) d1 = (ok, db')"
    unfolding seed_supporting_data_def by (rule andthen_okE)
  from r1 obtain x2 d2 where 2: "seed_rbac_if_missing d1 = (Inr x2, d2)"
    and r2: "andthen (seed_users_if_missing bc al dg org_id) (\<lambda>_. seed_second_organization_if_missing bc) d2 = (ok, db')"
    by (rule andthen_okE)
  from r2 obtain x3 d3 where 3: "seed_users_if_missing bc al dg org_id d2 = (Inr x3, d3)" and 4: "seed_second_organization_if_missing bc d3 = (ok, db')"
    by (rule andthen_okE)
  have g: "grows db d1" "grows d1 d2" "grows d2 d3" "grows d3 db'"
    using growingD [OF growing_steps(1) 1] growingD [OF growing_steps(2) 2] growingD [OF growing_steps(3) 3]
      growingD [OF growing_steps(4) 4] by simp_all
  obtain u where u: "fl_uuid db org_id = Some u" "has_rule u d1"
    using rules_step_done [of org_id db d1] 1 by auto
  have g2: "grows d2 db'"
    using g(3,4) by (rule grows_trans)
  have g1: "grows d1 db'"
    using g(2) g2 by (rule grows_trans)
  have g0: "grows db db'"
    using g(1) g1 by (rule grows_trans)
  have "has_user u d3"
    using users_step_done [of bc al dg org_id d2 d3 u] 3 u(1) g(1,2) by (auto simp: grows_keeps(1))
  moreover have "sd_roles d2 \<noteq> []"
    using roles_step_done [of d1 d2] 2 by auto
  ultimately have "has_user u db'" "sd_roles db' \<noteq> []"
    using grows_keeps(3) [OF g(4)] grows_keeps(4) [OF g2] by blast+
  moreover have "has_rule u db'" "known ORG_SLUG (Some org_id) db'" "fl_uuid db' org_id = Some u"
    using grows_keeps(2) [OF g1 u(2)] grows_keeps(5) [OF g0 assms(2)] grows_keeps(1) [OF g0] u(1) by simp_all
  ultimately show ?thesis
    using second_step_done [OF 4] unfolding seeded_def by blast
qed

lemma main_done:
  assumes "seed_main env bc al dg rolls db = (ok, db')"
  shows "\<exists>org_id u. seeded org_id u db'"
proof -
  obtain x d where rest: "andthen (find_organization ORG_SLUG) (\<lambda>row.
      case row of
        Some org_id \<Rightarrow> seed_supporting_data bc al dg org_id
      | None \<Rightarrow> andthen (seed_factory_hierarchy bc rolls ORG_SLUG (env_int env ''SEED_LINES_PER_FACTORY'' 5)
            (env_int env ''SEED_MACHINES_PER_LINE'' 10)) (\<lambda>org_id. seed_supporting_data bc al dg org_id)) d = (ok, db')"
    using assms unfolding seed_main_def Let_def by (rule andthen_okE)
  then obtain row d1 where f: "find_organization ORG_SLUG d = (Inr row, d1)"
    and k: "(case row of
        Some org_id \<Rightarrow> seed_supporting_data bc al dg org_id
      | None \<Rightarrow> andthen (seed_factory_hierarchy bc rolls ORG_SLUG (env_int env ''SEED_LINES_PER_FACTORY'' 5)
            (env_int env ''SEED_MACHINES_PER_LINE'' 10)) (\<lambda>org_id. seed_supporting_data bc al dg org_id)) d1 = (ok, db')"
    by (rule andthen_okE)
  show ?thesis
  proof (cases row)
    case (Some org_id)
    then show ?thesis
      using k find_organization_ok [OF f] support_done [of bc al dg org_id d1 db'] by auto
  next
    case None
    then obtain org_id d2 where h: "seed_factory_hierarchy bc rolls ORG_SLUG (env_int env ''SEED_LINES_PER_FACTORY'' 5)
            (env_int env ''SEED_MACHINES_PER_LINE'' 10) d1 = (Inr org_id, d2)" and sup: "seed_supporting_data bc al dg org_id d2 = (ok, db')"
      using k by (auto elim: andthen_okE)
    show ?thesis
      using support_done [OF sup hierarchy_done [OF h]] by blast
  qed
qed

section \<open>Running it again\<close>

lemma execute_answers: "fl_replies db (fl_tick db) = Reply_ok \<Longrightarrow> execute q db = q (db\<lparr>fl_tick := Suc (fl_tick db)\<rparr>)"
  by (simp add: execute_def Let_def split: prod.split)

text \<open>On seeded tables every step asks one question and is done.\<close>

lemma steps_again:
  assumes "fl_replies db (fl_tick db) = Reply_ok"
  shows "select_one db = (ok, db\<lparr>fl_tick := Suc (fl_tick db)\<rparr>)"
    and "known slug i db \<Longrightarrow> find_organization slug db = (Inr i, db\<lparr>fl_tick := Suc (fl_tick db)\<rparr>)"
    and "fl_uuid db org_id = Some u \<Longrightarrow> has_rule u db \<Longrightarrow> seed_alert_rules_if_missing org_id db = (ok, db\<lparr>fl_tick := Suc (fl_tick db)\<rparr>)"
    and "sd_roles db \<noteq> [] \<Longrightarrow> seed_rbac_if_missing db = (ok, db\<lparr>fl_tick := Suc (fl_tick db)\<rparr>)"
    and "fl_uuid db org_id = Some u \<Longrightarrow> has_user u db \<Longrightarrow> seed_users_if_missing bc al dg org_id db = (ok, db\<lparr>fl_tick := Suc (fl_tick db)\<rparr>)"
    and "known ''zweite-firma-gmbh'' (Some j) db \<Longrightarrow> seed_second_organization_if_missing bc db = (ok, db\<lparr>fl_tick := Suc (fl_tick db)\<rparr>)"
proof -
  show "select_one db = (ok, db\<lparr>fl_tick := Suc (fl_tick db)\<rparr>)"
    using assms by (simp add: select_one_def execute_answers)
  show f: "known slug i db \<Longrightarrow> find_organization slug db = (Inr i, db\<lparr>fl_tick := Suc (fl_tick db)\<rparr>)" for slug i
    using assms by (simp add: find_organization_def execute_answers known_def)
  show "fl_uuid db org_id = Some u \<Longrightarrow> has_rule u db \<Longrightarrow> seed_alert_rules_if_missing org_id db = (ok, db\<lparr>fl_tick := Suc (fl_tick db)\<rparr>)"
    using assms by (auto simp: seed_alert_rules_if_missing_def andthen_def count_rules_def execute_answers uuid_arg_def lift_result_def
        has_rule_def filter_empty_conv)
  show "sd_roles db \<noteq> [] \<Longrightarrow> seed_rbac_if_missing db = (ok, db\<lparr>fl_tick := Suc (fl_tick db)\<rparr>)"
    using assms by (simp add: seed_rbac_if_missing_def andthen_def count_roles_def execute_answers lift_result_def)
  show "fl_uuid db org_id = Some u \<Longrightarrow> has_user u db \<Longrightarrow> seed_users_if_missing bc al dg org_id db = (ok, db\<lparr>fl_tick := Suc (fl_tick db)\<rparr>)"
    using assms by (auto simp: seed_users_if_missing_def andthen_def count_users_def execute_answers uuid_arg_def lift_result_def
        has_user_def filter_empty_conv)
  show "known ''zweite-firma-gmbh'' (Some j) db \<Longrightarrow> seed_second_organization_if_missing bc db = (ok, db\<lparr>fl_tick := Suc (fl_tick db)\<rparr>)"
    using f by (simp add: seed_second_organization_if_missing_def andthen_def lift_result_def)
qed

lemma seeded_tick [simp]: "seeded org_id u (db\<lparr>fl_tick := t\<rparr>) = seeded org_id u db"
  by (simp add: seeded_def known_def has_rule_def has_user_def)

lemma seeded_again:
  assumes "seeded org_id u db" and "\<And>n. fl_tick db \<le> n \<Longrightarrow> fl_replies db n = Reply_ok"
  shows "seed_main env bc al dg rolls db = (ok, db\<lparr>fl_tick := fl_tick db + 6\<rparr>)"
proof -
  have again: "fl_replies (db\<lparr>fl_tick := t\<rparr>) (fl_tick (db\<lparr>fl_tick := t\<rparr>)) = Reply_ok" "seeded org_id u (db\<lparr>fl_tick := t\<rparr>)" if "fl_tick db \<le> t" for t
    using assms that by simp_all
  obtain j where d: "known ORG_SLUG (Some org_id) (db\<lparr>fl_tick := t\<rparr>)" "fl_uuid (db\<lparr>fl_tick := t\<rparr>) org_id = Some u" "has_rule u (db\<lparr>fl_tick := t\<rparr>)"
    "sd_roles (db\<lparr>fl_tick := t\<rparr>) \<noteq> []" "has_user u (db\<lparr>fl_tick := t\<rparr>)" "known ''zweite-firma-gmbh'' (Some j) (db\<lparr>fl_tick := t\<rparr>)" for t
    using assms(1) by (auto simp: seeded_def known_def has_rule_def has_user_def)
  let ?t = "fl_tick db" and ?at = "\<lambda>t. db\<lparr>fl_tick := t\<rparr>"
  have s: "select_one db = (ok, ?at (Suc ?t))" "find_organization ORG_SLUG (?at (Suc ?t)) = (Inr (Some org_id), ?at (Suc (Suc ?t)))"
    "seed_alert_rules_if_missing org_id (?at (Suc (Suc ?t))) = (ok, ?at (Suc (Suc (Suc ?t))))"
    "seed_rbac_if_missing (?at (Suc (Suc (Suc ?t)))) = (ok, ?at (Suc (Suc (Suc (Suc ?t)))))"
    "seed_users_if_missing bc al dg org_id (?at (Suc (Suc (Suc (Suc ?t))))) = (ok, ?at (Suc (Suc (Suc (Suc (Suc ?t))))))"
    "seed_second_organization_if_missing bc (?at (Suc (Suc (Suc (Suc (Suc ?t)))))) = (ok, ?at (Suc (Suc (Suc (Suc (Suc (Suc ?t)))))))"
    using steps_again(1) [of db] assms(2) [of ?t] steps_again(2) [OF again(1) d(1), of "Suc ?t"] steps_again(3) [OF again(1) d(2,3), of "Suc (Suc ?t)"]
      steps_again(4) [OF again(1) d(4), of "Suc (Suc (Suc ?t))"] steps_again(5) [OF again(1) d(2,5), of "Suc (Suc (Suc (Suc ?t)))" bc al dg]
      steps_again(6) [OF again(1) d(6), of "Suc (Suc (Suc (Suc (Suc ?t))))" bc]
    by simp_all
  show ?thesis
    by (simp add: seed_main_def Let_def andthen_def s seed_supporting_data_def eval_nat_numeral)
qed

text \<open>
  C40. Seeding is idempotent: after a run that ended without an exception, on whatever database and however many earlier runs had
  failed, any later run whose statements work asks six questions, with whatever environment and random choices, and leaves
  every table as it is.
\<close>
theorem seed_twice_is_once:
  assumes "seed_main env bc al dg rolls db = (ok, db')" and "\<And>n. fl_tick db' \<le> n \<Longrightarrow> fl_replies db' n = Reply_ok"
  shows "seed_main env' bc' al' dg' rolls' db' = (ok, db'\<lparr>fl_tick := fl_tick db' + 6\<rparr>)"
proof -
  obtain org_id u where "seeded org_id u db'"
    using main_done [OF assms(1)] by blast
  then show ?thesis
    using assms(2) by (rule seeded_again)
qed

section \<open>The fleet can be simulated\<close>

lemma growing_main: "growing (seed_main env bc al dg rolls)"
  unfolding seed_main_def Let_def by (intro growing_rules)

lemma joined_entry: "e \<in> set (joined_sensors db) \<Longrightarrow> \<exists>s\<in>set (fl_sensors db). \<exists>d m l f. e = joined_row s d m l f"
  unfolding joined_sensors_def by clarsimp blast

lemma simulatable_entry:
  "simulatable s \<Longrightarrow> sc_metric (joined_row s d m l f) \<in> set VALID_METRICS \<and> sc_unit (joined_row s d m l f) \<noteq> [] \<and>
     sc_min_value (joined_row s d m l f) < sc_max_value (joined_row s d m l f)"
  by (auto simp: simulatable_def joined_row_def split: option.splits)

text \<open>
  Every sensor a run adds, to its end or not, has a metric ingestion knows, a unit and a range that is not empty, and so has
  every entry of the simulator's catalogue.
\<close>

theorem seeded_fleet_is_simulatable:
  assumes "seed_main env bc al dg rolls db = (r, db')" and "list_all simulatable (fl_sensors db)"
  shows "list_all (\<lambda>e. sc_metric e \<in> set VALID_METRICS \<and> sc_unit e \<noteq> [] \<and> sc_min_value e < sc_max_value e)
    (load_sensor_catalog order limit (fleet.truncate db'))"
proof -
  have "set (fl_sensors db') \<subseteq> Collect simulatable"
    using growingD [OF growing_main assms(1)] assms(2) by (auto simp: grows_def list_all_iff)
  then have "sc_metric e \<in> set VALID_METRICS \<and> sc_unit e \<noteq> [] \<and> sc_min_value e < sc_max_value e"
    if "e \<in> set (joined_sensors (fleet.truncate db'))" for e
    using joined_entry [OF that] simulatable_entry by (auto simp: fleet.defs)
  then show ?thesis
    by (auto simp: list_all_iff load_sensor_catalog_def dest: in_set_takeD)
qed

section \<open>An interrupted step\<close>

text \<open>
  The steps after the fleet run statement by statement, and each looks only whether its first table has rows. When the
  second insertion of a rule fails, the first rule stays; every later run finds it and leaves the other four out for ever,
  the one that machine shutdowns need among them.
\<close>

theorem interrupted_rules_stay_partial:
  assumes "fl_uuid db org_id = Some u" and "u \<in> og_id ` set (sd_organizations db)" and "\<not> has_rule u db"
    and "fl_replies db (fl_tick db) = Reply_ok" and "fl_replies db (Suc (fl_tick db)) = Reply_ok"
    and "fl_replies db (Suc (Suc (fl_tick db))) = Reply_raises e False"
    and "\<And>n. Suc (Suc (fl_tick db)) < n \<Longrightarrow> fl_replies db n = Reply_ok"
  shows "\<exists>db1. seed_alert_rules_if_missing org_id db = (Inl e, db1) \<and> length (filter (rule_of_org u) (sd_rules db1)) = 1 \<and>
    seed_alert_rules_if_missing org_id db1 = (ok, db1\<lparr>fl_tick := Suc (fl_tick db1)\<rparr>)"
proof -
  obtain r1 r2 rs where seeds: "rule_seeds = r1 # r2 # rs"
    by (simp add: rule_seeds_def)
  let ?db1 = "db\<lparr>fl_tick := Suc (fl_tick db)\<rparr>"
  have none: "filter (rule_of_org u) (sd_rules db) = []"
    using assms(3) by (simp add: has_rule_def filter_empty_conv)
  then have "count_rules org_id db = (Inr 0, ?db1)"
    using assms(1,4) by (simp add: count_rules_def execute_answers uuid_arg_def)
  moreover define row where "row = seeded_rule (fl_ids db (fl_next db)) u r1"
  have row: "rule_of_org u row"
    "insert_rule org_id r1 ?db1 =
       (ok, db\<lparr>fl_tick := Suc (Suc (fl_tick db)), sd_rules := sd_rules db @ [row], fl_next := Suc (fl_next db)\<rparr>)"
    using assms(1,2,5) by (simp_all add: insert_rule_def execute_answers refers_def uuid_arg_def rule_of_org_def row_def seeded_rule_def)
  let ?db2 = "db\<lparr>fl_tick := Suc (Suc (fl_tick db)), sd_rules := sd_rules db @ [row], fl_next := Suc (fl_next db)\<rparr>"
  let ?db3 = "?db2\<lparr>fl_tick := Suc (Suc (Suc (fl_tick db)))\<rparr>"
  have "insert_rule org_id r2 ?db2 = (Inl e, ?db3)"
    using assms(1,2,6) by (simp add: insert_rule_def execute_def refers_def uuid_arg_def Let_def)
  ultimately have run: "seed_alert_rules_if_missing org_id db = (Inl e, ?db3)"
    using row(2) by (simp add: seed_alert_rules_if_missing_def andthen_def seeds)
  have "has_rule u ?db3"
    using row(1) by (simp add: has_rule_def)
  then have "seed_alert_rules_if_missing org_id ?db3 = (ok, ?db3\<lparr>fl_tick := Suc (fl_tick ?db3)\<rparr>)"
    using assms(1,7) by (intro steps_again(3)) simp_all
  moreover have "length (filter (rule_of_org u) (sd_rules ?db3)) = 1"
    using none row(1) by simp
  ultimately show ?thesis
    using run by blast
qed

section \<open>A concrete run\<close>

text \<open>An empty database, seeded without production lines.\<close>

definition demo_empty_tables :: "(nat \<Rightarrow> reply) \<Rightarrow> seed_tables" where
  "demo_empty_tables replies =
     \<lparr>fl_factories = [], fl_lines = [], fl_machines = [], fl_devices = [], fl_sensors = [], fl_credentials = [], fl_ids = str_nat,
      fl_next = 0, fl_uuid = Some, fl_rank = (\<lambda>_. 0), fl_replies = replies, fl_tick = 0, sd_organizations = [],
      sd_activated = [], sd_rules = [], sd_roles = [], sd_permissions = [], sd_role_permissions = [], sd_users = [],
      sd_user_roles = []\<rparr>"

definition demo_bcrypt :: bcrypt_library where
  "demo_bcrypt = \<lparr>bc_hash = (\<lambda>b. Inr ''hash''), bc_check = (\<lambda>b h. Inr True)\<rparr>"

definition demo_rolls :: seed_draws where
  "demo_rolls = (\<lambda>_ _ _. \<lparr>dr_machine_roll = 0, dr_device_roll = 0, dr_secret = [], dr_now = 0\<rparr>)"

lemma andthen_lift: "andthen (lift_result (Inr x)) k = k x"
  by (rule ext) (simp add: andthen_def lift_result_def)

lemma demo_password:
  "hash_password demo_bcrypt DEMO_PASSWORD = Inr ''hash''" "validate_password_strength ascii_alpha ascii_digit DEMO_PASSWORD = ok"
  by (simp_all add: hash_password_def DEMO_PASSWORD_def check_password_length_def encode_utf8_def surrogate_def MAX_PASSWORD_BYTES_def
      demo_bcrypt_def validate_password_strength_def ascii_alpha_def ascii_digit_def)

lemma demo_users_step:
  "seed_users_if_missing demo_bcrypt ascii_alpha ascii_digit org_id =
     andthen (count_users org_id) (\<lambda>existing.
       if 0 < existing then lift_result ok
       else for_each (\<lambda>role. seed_user org_id (demo_email role) ''hash'' (demo_full_name role) role) ALL_ROLES)"
  by (simp add: seed_users_if_missing_def demo_password andthen_lift cong: if_cong)

lemma demo_second_step:
  "seed_second_organization_if_missing demo_bcrypt =
     andthen (find_organization ''zweite-firma-gmbh'') (\<lambda>row.
       if row \<noteq> None then lift_result ok
       else andthen (insert_organization ''Zweite Firma GmbH'' ''zweite-firma-gmbh'') (\<lambda>org_id.
            andthen (insert_factory org_id ''Stuttgart Plant'' ''Stuttgart'') (\<lambda>factory_id.
            andthen (insert_line factory_id ''Line 01'') (\<lambda>line_id.
            andthen (insert_machine line_id ''Stuttgart-Line01-M001'' ''CNC_MILLING_MACHINE'' ''IDLE'') (\<lambda>_.
            seed_user org_id ''admin@zweite-firma-gmbh.de'' ''hash'' ''Demo Admin'' ''ADMIN'')))))"
  by (simp add: seed_second_organization_if_missing_def demo_password andthen_lift cong: if_cong)

definition demo_supporting_data :: "string \<Rightarrow> unit seed_query" where
  "demo_supporting_data org_id =
     andthen (seed_alert_rules_if_missing org_id) (\<lambda>_.
     andthen seed_rbac_if_missing (\<lambda>_.
     andthen (andthen (count_users org_id) (\<lambda>existing.
       if 0 < existing then lift_result ok
       else for_each (\<lambda>role. seed_user org_id (demo_email role) ''hash'' (demo_full_name role) role) ALL_ROLES)) (\<lambda>_.
     andthen (find_organization ''zweite-firma-gmbh'') (\<lambda>row.
       if row \<noteq> None then lift_result ok
       else andthen (insert_organization ''Zweite Firma GmbH'' ''zweite-firma-gmbh'') (\<lambda>org_id.
            andthen (insert_factory org_id ''Stuttgart Plant'' ''Stuttgart'') (\<lambda>factory_id.
            andthen (insert_line factory_id ''Line 01'') (\<lambda>line_id.
            andthen (insert_machine line_id ''Stuttgart-Line01-M001'' ''CNC_MILLING_MACHINE'' ''IDLE'') (\<lambda>_.
            seed_user org_id ''admin@zweite-firma-gmbh.de'' ''hash'' ''Demo Admin'' ''ADMIN''))))))))"

lemma demo_supporting: "seed_supporting_data demo_bcrypt ascii_alpha ascii_digit org_id = demo_supporting_data org_id"
  by (simp add: seed_supporting_data_def demo_supporting_data_def demo_users_step demo_second_step)

definition demo_run :: "unit seed_query" where
  "demo_run =
     andthen select_one (\<lambda>_.
     andthen (find_organization ORG_SLUG) (\<lambda>row.
     case row of
       Some org_id \<Rightarrow> demo_supporting_data org_id
     | None \<Rightarrow> andthen (seed_factory_hierarchy demo_bcrypt demo_rolls ORG_SLUG 0 0) demo_supporting_data))"

definition demo_environment :: environ where
  "demo_environment = (\<lambda>_. Some ''0'')"

lemma demo_main: "seed_main demo_environment demo_bcrypt ascii_alpha ascii_digit demo_rolls = demo_run"
proof -
  have "env_int demo_environment k d = 0" for k d
    by (simp add: env_int_def demo_environment_def; code_simp)
  then show ?thesis
    by (simp add: seed_main_def demo_run_def demo_supporting Let_def cong: option.case_cong)
qed

lemma demo_run_ends: "fst (demo_run (demo_empty_tables (\<lambda>_. Reply_ok))) = ok"
  by code_simp

theorem seed_twice_is_once_witness:
  "\<exists>db'. seed_main demo_environment demo_bcrypt ascii_alpha ascii_digit demo_rolls (demo_empty_tables (\<lambda>_. Reply_ok)) = (ok, db') \<and>
     seed_main Map.empty demo_bcrypt ascii_alpha ascii_digit demo_rolls db' = (ok, db'\<lparr>fl_tick := fl_tick db' + 6\<rparr>)"
proof -
  obtain db' where run: "seed_main demo_environment demo_bcrypt ascii_alpha ascii_digit demo_rolls (demo_empty_tables (\<lambda>_. Reply_ok)) = (ok, db')"
    using demo_run_ends unfolding demo_main by (metis prod.collapse)
  have "grows (demo_empty_tables (\<lambda>_. Reply_ok)) db'"
    using growing_main run by (rule growingD)
  then have "fl_replies db' n = Reply_ok" for n
    by (simp add: grows_def demo_empty_tables_def)
  then show ?thesis
    using run seed_twice_is_once [OF run] by blast
qed

end
